(* ===== verification/Prelude.thy ===== *)
theory Prelude
  imports Main "HOL-Library.Word"
begin

text \<open>
  Shared vocabulary of the development.  A JavaScript string is a list of UTF-16 code units
  (\<open>16 word\<close>), so that \<open>length\<close>, slices and comparisons count what the language counts; \<open>js\<close>
  turns a literal into such a string.  The string methods the program calls (\<open>slice\<close>, \<open>trim\<close>,
  \<open>includes\<close>, \<open>startsWith\<close>, \<open>join\<close>, \<open>padStart\<close>, decimal and base-16 printing) are defined here
  once, with the laws the components use.  The last part holds the reachability relation of a
  machine with outputs and the two interfaces that several components share: a machine with an
  invariant (\<open>invariant_system\<close>) and an encoder with its decoder (\<open>codec\<close>).
\<close>

named_theorems js_string "laws of the JavaScript string methods"

subsection \<open>Strings of code units\<close>

type_synonym code_unit = "16 word"
type_synonym jsstr = "code_unit list"
type_synonym byte = "8 word"

definition js :: "string \<Rightarrow> jsstr" where
  "js s = map of_char s"

lemma of_char_unit_inj: "(of_char c :: code_unit) = of_char d \<longleftrightarrow> c = d"
proof
  assume "(of_char c :: code_unit) = of_char d"
  then have "(of_nat (of_char c) :: code_unit) = of_nat (of_char d)"
    by (simp add: of_nat_of_char)
  then have "(of_char c :: nat) mod 65536 = of_char d mod 65536"
    by (simp add: word_of_nat_eq_iff take_bit_eq_mod)
  moreover have "(of_char c :: nat) < 256" and "(of_char d :: nat) < 256"
    using of_char_mod_256 [where 'a = nat, of c] of_char_mod_256 [where 'a = nat, of d]
    by (metis mod_less_divisor zero_less_numeral)+
  ultimately show "c = d" by simp
qed simp

lemma js_eq_iff [simp]: "js s = js t \<longleftrightarrow> s = t"
proof -
  have "inj (of_char :: char \<Rightarrow> code_unit)"
    by (rule injI) (simp add: of_char_unit_inj)
  then show ?thesis by (simp add: js_def inj_map_eq_map)
qed

lemma unat_unit_of_nat [simp]: "n < 65536 \<Longrightarrow> unat (of_nat n :: code_unit) = n"
  by (simp add: unat_of_nat)

lemma unat_byte_of_nat [simp]: "n < 256 \<Longrightarrow> unat (of_nat n :: byte) = n"
  by (simp add: unat_of_nat)

lemma unat_unit_less: "unat (c :: code_unit) < 65536"
  using unsigned_less [of c, where 'a = nat] by simp

lemma unat_byte_less: "unat (b :: byte) < 256"
  using unsigned_less [of b, where 'a = nat] by simp

lemma length_js [simp]: "length (js s) = length s"
  by (simp add: js_def)

lemma js_append [simp]: "js (s @ t) = js s @ js t"
  by (simp add: js_def)

lemma js_Nil [simp]: "js [] = []"
  by (simp add: js_def)

lemma js_empty_iff [simp]: "js s = [] \<longleftrightarrow> s = []" and js_empty_iff' [simp]: "[] = js s \<longleftrightarrow> s = []"
  by (auto simp: js_def)

lemma set_js: "set (js s) = of_char ` set s"
  by (simp add: js_def)

subsection \<open>Slices\<close>

text \<open>\<open>xs.slice(0, k)\<close> and \<open>xs.slice(-k)\<close>; the latter is the whole of \<open>xs\<close> for \<open>k = 0\<close>, since
  \<open>-0\<close> counts from the start.\<close>

definition slice_to :: "nat \<Rightarrow> 'a list \<Rightarrow> 'a list" where
  "slice_to k xs = take k xs"

definition slice_neg :: "nat \<Rightarrow> 'a list \<Rightarrow> 'a list" where
  "slice_neg k xs = (if k = 0 then xs else drop (length xs - k) xs)"

text \<open>\<open>xs.slice(a, b)\<close> with \<open>0 \<le> a \<le> b\<close>.\<close>

definition slice_range :: "nat \<Rightarrow> nat \<Rightarrow> 'a list \<Rightarrow> 'a list" where
  "slice_range a b xs = take (b - a) (drop a xs)"

text \<open>The last \<open>k\<close> elements, the specification of a bounded history.\<close>

definition last_n :: "nat \<Rightarrow> 'a list \<Rightarrow> 'a list" where
  "last_n k xs = drop (length xs - k) xs"

lemma slice_neg_last_n: "0 < k \<Longrightarrow> slice_neg k xs = last_n k xs"
  by (simp add: slice_neg_def last_n_def)

lemma length_last_n [simp]: "length (last_n k xs) = min k (length xs)"
  by (simp add: last_n_def min_def)

lemma last_n_Nil [simp]: "last_n k [] = []"
  by (simp add: last_n_def)

lemma last_n_short: "length xs \<le> k \<Longrightarrow> last_n k xs = xs"
  by (simp add: last_n_def)

lemma last_n_snoc: "last_n k (last_n k xs @ [x]) = last_n k (xs @ [x])"
proof (cases "length xs \<le> k")
  case True
  then show ?thesis by (simp add: last_n_short)
next
  case False
  then have "length xs - (length xs - k) = k" by simp
  moreover have "drop (Suc (length xs - k)) xs = drop (Suc (length xs) - k) xs"
    using False by (simp add: Suc_diff_le)
  ultimately show ?thesis using False
    by (cases "k = 0") (simp_all add: last_n_def Suc_diff_le)
qed

lemma set_last_n: "set (last_n k xs) \<subseteq> set xs"
  by (simp add: last_n_def set_drop_subset)

subsection \<open>Searching and trimming\<close>

fun starts_with :: "'a list \<Rightarrow> 'a list \<Rightarrow> bool" where
  "starts_with s [] = True"
| "starts_with [] (p # ps) = False"
| "starts_with (c # s) (p # ps) = (c = p \<and> starts_with s ps)"

fun str_includes :: "'a list \<Rightarrow> 'a list \<Rightarrow> bool" where
  "str_includes [] q = (q = [])"
| "str_includes (c # s) q = (starts_with (c # s) q \<or> str_includes s q)"

lemma starts_with_iff [js_string]: "starts_with s p \<longleftrightarrow> (\<exists>t. s = p @ t)"
  by (induction s p rule: starts_with.induct) auto

lemma includes_iff [js_string]: "str_includes s q \<longleftrightarrow> (\<exists>a b. s = a @ q @ b)"
proof (induction s)
  case Nil
  show ?case by auto
next
  case (Cons c s)
  show ?case
  proof
    assume "str_includes (c # s) q"
    then consider "starts_with (c # s) q" | "str_includes s q" by auto
    then show "\<exists>a b. c # s = a @ q @ b"
    proof cases
      case 1
      then show ?thesis by (auto simp: starts_with_iff intro: exI [of _ "[]"])
    next
      case 2
      with Cons.IH obtain a b where "s = a @ q @ b" by blast
      then have "c # s = (c # a) @ q @ b" by simp
      then show ?thesis by blast
    qed
  next
    assume "\<exists>a b. c # s = a @ q @ b"
    then obtain a b where eq: "c # s = a @ q @ b" by blast
    show "str_includes (c # s) q"
    proof (cases a)
      case Nil
      with eq have "starts_with (c # s) q" by (simp add: starts_with_iff)
      then show ?thesis by simp
    next
      case (Cons d a')
      with eq have "s = a' @ q @ b" by simp
      with Cons.IH show ?thesis by auto
    qed
  qed
qed

text \<open>The code units that \<open>String.prototype.trim\<close> removes: the white space and line terminators
  of the language.\<close>

definition js_space :: "code_unit \<Rightarrow> bool" where
  "js_space c \<longleftrightarrow>
     c \<in> {0x09, 0x0A, 0x0B, 0x0C, 0x0D, 0x20, 0xA0, 0x1680, 0x2028, 0x2029, 0x202F, 0x205F, 0x3000, 0xFEFF}
     \<or> (0x2000 \<le> c \<and> c \<le> 0x200A)"

definition trim :: "jsstr \<Rightarrow> jsstr" where
  "trim s = rev (dropWhile js_space (rev (dropWhile js_space s)))"

lemma dropWhile_id: "xs = [] \<or> \<not> P (hd xs) \<Longrightarrow> dropWhile P xs = xs"
  by (cases xs) auto

lemma trim_hd_last:
  assumes "trim s \<noteq> []"
  shows "\<not> js_space (hd (trim s))" and "\<not> js_space (last (trim s))"
proof -
  define d where "d = dropWhile js_space s"
  define e where "e = dropWhile js_space (rev d)"
  have trim: "trim s = rev e" by (simp add: trim_def d_def e_def)
  with assms have ne: "e \<noteq> []" by simp
  then have "\<not> js_space (hd e)" unfolding e_def by (rule hd_dropWhile)
  then show "\<not> js_space (last (trim s))" by (simp add: trim last_rev)
  have "rev d = takeWhile js_space (rev d) @ e" by (simp add: e_def)
  then have "d = rev e @ rev (takeWhile js_space (rev d))"
    by (metis rev_append rev_rev_ident)
  with ne have "d \<noteq> []" and "hd d = hd (rev e)"
    by (metis Nil_is_append_conv rev_is_Nil_conv, metis hd_append2 rev_is_Nil_conv)
  then show "\<not> js_space (hd (trim s))"
    unfolding trim by (metis d_def hd_dropWhile)
qed

lemma trim_trim [js_string]: "trim (trim s) = trim s"
proof (cases "trim s = []")
  case True
  show ?thesis unfolding True by (simp add: trim_def)
next
  case False
  then have "dropWhile js_space (trim s) = trim s" and "dropWhile js_space (rev (trim s)) = rev (trim s)"
    using trim_hd_last [OF False] by (auto intro!: dropWhile_id simp: hd_rev)
  then show ?thesis by (simp add: trim_def [of "trim s"])
qed

text \<open>\<open>xs.join(sep)\<close>.\<close>

fun join :: "'a list \<Rightarrow> 'a list list \<Rightarrow> 'a list" where
  "join sep [] = []"
| "join sep [s] = s"
| "join sep (s # t # ts) = s @ sep @ join sep (t # ts)"

lemma join_Cons: "ts \<noteq> [] \<Longrightarrow> join sep (s # ts) = s @ sep @ join sep ts"
  by (cases ts) auto

subsection \<open>Printing numbers\<close>

text \<open>A digit of base 10 or 16 and the digits of a natural number, most significant first
  (\<open>String(n)\<close>, \<open>n.toString(16)\<close>).\<close>

definition digit_unit :: "nat \<Rightarrow> code_unit" where
  "digit_unit d = of_nat (if d < 10 then 48 + d else 87 + d)"

fun to_base :: "nat \<Rightarrow> nat \<Rightarrow> jsstr" where
  "to_base b n = (if b \<le> 1 \<or> n < b then [digit_unit n] else to_base b (n div b) @ [digit_unit (n mod b)])"

declare to_base.simps [simp del]

definition dec :: "nat \<Rightarrow> jsstr" where
  "dec n = to_base 10 n"

definition pad_start :: "nat \<Rightarrow> 'a \<Rightarrow> 'a list \<Rightarrow> 'a list" where
  "pad_start n c s = replicate (n - length s) c @ s"

lemma length_pad_start: "length (pad_start n c s) = max n (length s)"
  by (simp add: pad_start_def)

lemma to_base_ne [simp]: "to_base b n \<noteq> []"
  by (simp add: to_base.simps [of b n])

subsection \<open>Machines and their reachable states\<close>

text \<open>A component is a set of initial states and a step relation \<open>step s out s'\<close>, where \<open>out\<close>
  lists what the step hands to its surroundings, in order.  \<open>reach\<close> collects the outputs of the
  run that led to a state.\<close>

inductive reach :: "('s \<Rightarrow> bool) \<Rightarrow> ('s \<Rightarrow> 'o list \<Rightarrow> 's \<Rightarrow> bool) \<Rightarrow> 'o list \<Rightarrow> 's \<Rightarrow> bool"
  for init :: "'s \<Rightarrow> bool" and step :: "'s \<Rightarrow> 'o list \<Rightarrow> 's \<Rightarrow> bool" where
  reach_init: "init s \<Longrightarrow> reach init step [] s"
| reach_step: "reach init step os s \<Longrightarrow> step s out s' \<Longrightarrow> reach init step (os @ out) s'"

text \<open>An output of a run was made by one of its steps, after the outputs before it.\<close>

lemma reach_emitted:
  assumes "reach init step os s" and "os = ps @ x # qs"
  shows "\<exists>os1 s1 new1 new2 s2. reach init step os1 s1 \<and> step s1 (new1 @ x # new2) s2 \<and> ps = os1 @ new1"
  using assms
proof (induction arbitrary: qs rule: reach.induct)
  case (reach_step os s out s')
  from reach_step.prems consider us where "os = ps @ x # us" "us @ out = qs"
    | us where "ps = os @ us" "out = us @ x # qs"
    by (auto simp: append_eq_append_conv2 append_eq_Cons_conv)
  then show ?case
  proof cases
    case 1
    with reach_step.IH show ?thesis by blast
  next
    case 2
    with reach_step.hyps show ?thesis by blast
  qed
qed simp

locale invariant_system =
  fixes init :: "'s \<Rightarrow> bool"
    and step :: "'s \<Rightarrow> 'o list \<Rightarrow> 's \<Rightarrow> bool"
    and inv :: "'o list \<Rightarrow> 's \<Rightarrow> bool"
  assumes inv_init: "init s \<Longrightarrow> inv [] s"
    and inv_step: "inv os s \<Longrightarrow> step s out s' \<Longrightarrow> inv (os @ out) s'"
begin

lemma reach_inv: "reach init step os s \<Longrightarrow> inv os s"
  by (induction rule: reach.induct) (auto intro: inv_init inv_step)

end

text \<open>A machine that implements another: \<open>abs\<close> takes each step, in the states its invariant allows, to a
  step of the abstract machine with the same outputs, or to none if it has no outputs.\<close>

locale refinement = invariant_system init step inv
  for init :: "'s \<Rightarrow> bool" and step :: "'s \<Rightarrow> 'o list \<Rightarrow> 's \<Rightarrow> bool" and inv :: "'o list \<Rightarrow> 's \<Rightarrow> bool" +
  fixes abs_init :: "'a \<Rightarrow> bool"
    and abs_step :: "'a \<Rightarrow> 'o list \<Rightarrow> 'a \<Rightarrow> bool"
    and abs :: "'s \<Rightarrow> 'a"
  assumes init_abs: "init s \<Longrightarrow> abs_init (abs s)"
    and step_abs: "inv os s \<Longrightarrow> step s out s' \<Longrightarrow>
      abs_step (abs s) out (abs s') \<or> out = [] \<and> abs s' = abs s"
begin

lemma reach_abs: "reach init step os s \<Longrightarrow> reach abs_init abs_step os (abs s)"
proof (induction rule: reach.induct)
  case (reach_init s)
  then show ?case by (intro reach.reach_init init_abs)
next
  case (reach_step os s out s')
  from step_abs [OF reach_inv [OF reach_step.hyps(1)] reach_step.hyps(2)] reach_step.IH show ?case
    by (auto intro: reach.reach_step)
qed

end

text \<open>Promises that settle: \<open>weight\<close> bounds how many settlements a state can still see, those of the
  requests that the settlements themselves send included; \<open>ok\<close> is what the bound needs to hold.\<close>

locale settling_under =
  fixes ok :: "'s \<Rightarrow> bool"
    and settle :: "'s \<Rightarrow> 'o list \<Rightarrow> 's \<Rightarrow> bool"
    and weight :: "'s \<Rightarrow> nat"
  assumes settle_ok: "ok s \<Longrightarrow> settle s out s' \<Longrightarrow> ok s'"
    and settle_lower: "ok s \<Longrightarrow> settle s out s' \<Longrightarrow> weight s' < weight s"
    and settle_goes: "ok s \<Longrightarrow> 0 < weight s \<Longrightarrow> \<exists>out s'. settle s out s'"
begin

lemma settle_wf: "wfp (\<lambda>s' s. ok s \<and> (\<exists>out. settle s out s'))"
  by (rule wfp_if_convertible_to_nat [of _ weight]) (auto dest: settle_lower)

text \<open>No more settlements than the weight.\<close>

lemma settle_steps:
  "((\<lambda>s s'. \<exists>out. settle s out s') ^^ n) s s' \<Longrightarrow> ok s \<Longrightarrow> ok s' \<and> n + weight s' \<le> weight s"
proof (induction n arbitrary: s')
  case (Suc n)
  from Suc.prems(1) obtain t out where t: "((\<lambda>s s'. \<exists>out. settle s out s') ^^ n) s t" "settle t out s'"
    by (auto elim: relpowp_Suc_E)
  from Suc.IH [OF t(1) Suc.prems(2)] settle_ok [OF _ t(2)] settle_lower [OF _ t(2)] show ?case by fastforce
qed simp

lemma at_rest_iff: "ok s \<Longrightarrow> (\<nexists>out s'. settle s out s') \<longleftrightarrow> weight s = 0"
  using settle_lower settle_goes by fastforce

lemma comes_to_rest:
  assumes "ok s"
  shows "\<exists>os s'. reach (\<lambda>t. t = s) settle os s' \<and> ok s' \<and> weight s' = 0"
proof -
  have "\<exists>os' t. reach (\<lambda>t. t = s) settle os' t \<and> ok t \<and> weight t = 0"
    if "reach (\<lambda>t. t = s) settle os s1" and "ok s1" for os s1
    using that
  proof (induction "weight s1" arbitrary: os s1 rule: less_induct)
    case less
    show ?case
    proof (cases "weight s1 = 0")
      case False
      then obtain out s2 where st: "settle s1 out s2" using settle_goes less.prems(2) by blast
      note ok = settle_ok [OF less.prems(2) st] and low = settle_lower [OF less.prems(2) st]
      from less.hyps [OF low reach_step [OF less.prems(1), OF st] ok] show ?thesis .
    qed (use less.prems in blast)
  qed
  from this [OF reach_init, of s] assms show ?thesis by simp
qed

end

text \<open>Where the weight falls in every state.\<close>

locale settling =
  fixes settle :: "'s \<Rightarrow> 'o list \<Rightarrow> 's \<Rightarrow> bool"
    and weight :: "'s \<Rightarrow> nat"
  assumes settle_less: "settle s out s' \<Longrightarrow> weight s' < weight s"
    and settle_enabled: "0 < weight s \<Longrightarrow> \<exists>out s'. settle s out s'"

sublocale settling \<subseteq> settling_under "\<lambda>_. True" settle weight
  by unfold_locales (simp_all add: settle_less settle_enabled)

subsection \<open>Encoders with a decoder\<close>

locale codec =
  fixes enc :: "'a \<Rightarrow> 'b option"
    and decode :: "'b \<Rightarrow> 'a option"
  assumes decode_enc: "enc x = Some y \<Longrightarrow> decode y = Some x"
begin

lemma enc_inj: "enc x = Some y \<Longrightarrow> enc x' = Some y \<Longrightarrow> x = x'"
  by (metis decode_enc option.inject)

end

end
