(* ===== verification/Encoding.thy ===== *)
theory Encoding
  imports Prelude
begin

text \<open>
  The encoders of the language and of the platform that \<open>api.ts\<close> applies to what it sends: two
  hexadecimal digits per byte, \<open>btoa\<close> (base 64) and \<open>encodeURIComponent\<close> (percent-encoded UTF-8).
  Each has a decoder written from the format alone, and the pair is an instance of \<open>codec\<close>.
\<close>

subsection \<open>Hexadecimal\<close>

definition hex_byte :: "byte \<Rightarrow> jsstr" where
  "hex_byte b = pad_start 2 48 (to_base 16 (unat b))"

definition hex_val :: "code_unit \<Rightarrow> nat option" where
  "hex_val c = (let n = unat c in
     if 48 \<le> n \<and> n < 58 then Some (n - 48)
     else if 97 \<le> n \<and> n < 103 then Some (n - 87) else None)"

fun unhex :: "jsstr \<Rightarrow> byte list option" where
  "unhex [] = Some []"
| "unhex [c] = None"
| "unhex (c # d # s) = (case (hex_val c, hex_val d, unhex s) of
     (Some h, Some l, Some bs) \<Rightarrow> Some (of_nat (16 * h + l) # bs)
   | _ \<Rightarrow> None)"

lemma unat_digit_unit: "d < 16 \<Longrightarrow> unat (digit_unit d) = (if d < 10 then 48 + d else 87 + d)"
  by (simp add: digit_unit_def)

lemma hex_val_digit [simp]: "d < 16 \<Longrightarrow> hex_val (digit_unit d) = Some d"
  by (auto simp: hex_val_def unat_digit_unit Let_def)

lemma hex_byte_digits: "hex_byte b = [digit_unit (unat b div 16), digit_unit (unat b mod 16)]"
proof -
  have b: "unat b < 256" by (rule unat_byte_less)
  then have q: "unat b div 16 < 16" by auto
  show ?thesis
  proof (cases "unat b < 16")
    case True
    then have "unat b div 16 = 0" and "unat b mod 16 = unat b" by auto
    with True show ?thesis
      by (simp add: hex_byte_def pad_start_def to_base.simps [of 16 "unat b"] digit_unit_def)
  next
    case False
    with q show ?thesis
      by (simp add: hex_byte_def pad_start_def to_base.simps [of 16 "unat b"]
          to_base.simps [of 16 "unat b div 16"])
  qed
qed

lemma length_hex_byte [simp]: "length (hex_byte b) = 2"
  by (simp add: hex_byte_digits)

lemma unat_byte_div: "unat (b :: byte) div 16 < 16"
  using unat_byte_less [of b] by auto

lemma unhex_hex: "unhex (concat (map hex_byte bs)) = Some bs"
proof (induction bs)
  case Nil
  show ?case by simp
next
  case (Cons b bs)
  have "16 * (unat b div 16) + unat b mod 16 = unat b" by simp
  then have "(of_nat (16 * (unat b div 16) + unat b mod 16) :: byte) = b"
    by (simp only: of_nat_unat ucast_id)
  with Cons.IH show ?case
    by (simp add: hex_byte_digits unat_byte_div del: of_nat_add of_nat_mult)
qed

interpretation hex: codec "\<lambda>bs. Some (concat (map hex_byte bs))" unhex
  by unfold_locales (use unhex_hex in auto)

subsection \<open>Base 64\<close>

definition b64_unit :: "nat \<Rightarrow> code_unit" where
  "b64_unit i = of_nat
     (if i < 26 then 65 + i else if i < 52 then 71 + i else if i < 62 then i - 4
      else if i = 62 then 43 else 47)"

fun b64_encode :: "nat list \<Rightarrow> jsstr" where
  "b64_encode [] = []"
| "b64_encode [a] = [b64_unit (a div 4), b64_unit (a mod 4 * 16), 61, 61]"
| "b64_encode [a, b] =
     [b64_unit (a div 4), b64_unit (a mod 4 * 16 + b div 16), b64_unit (b mod 16 * 4), 61]"
| "b64_encode (a # b # c # s) =
     [b64_unit (a div 4), b64_unit (a mod 4 * 16 + b div 16), b64_unit (b mod 16 * 4 + c div 64),
      b64_unit (c mod 64)] @ b64_encode s"

text \<open>\<open>btoa\<close> reads each code unit as an octet and throws \<open>InvalidCharacterError\<close> above 255.\<close>

definition btoa :: "jsstr \<Rightarrow> jsstr option" where
  "btoa s = (if list_all (\<lambda>c. unat c < 256) s then Some (b64_encode (map unat s)) else None)"

definition b64_val :: "code_unit \<Rightarrow> nat option" where
  "b64_val c = (let n = unat c in
     if 65 \<le> n \<and> n < 91 then Some (n - 65) else if 97 \<le> n \<and> n < 123 then Some (n - 71)
     else if 48 \<le> n \<and> n < 58 then Some (n + 4) else if n = 43 then Some 62
     else if n = 47 then Some 63 else None)"

fun b64_decode :: "jsstr \<Rightarrow> nat list option" where
  "b64_decode [] = Some []"
| "b64_decode (w # x # y # z # s) = (case (b64_val w, b64_val x) of
     (Some p, Some q) \<Rightarrow>
       (case b64_val y of
          None \<Rightarrow> if y = 61 \<and> z = 61 \<and> s = [] then Some [4 * p + q div 16] else None
        | Some r \<Rightarrow>
            (case b64_val z of
               None \<Rightarrow> if z = 61 \<and> s = [] then Some [4 * p + q div 16, q mod 16 * 16 + r div 4] else None
             | Some t \<Rightarrow> map_option
                 (\<lambda>bs. [4 * p + q div 16, q mod 16 * 16 + r div 4, r mod 4 * 64 + t] @ bs)
                 (b64_decode s)))
   | _ \<Rightarrow> None)"
| "b64_decode _ = None"

lemma unat_b64_unit:
  "i < 64 \<Longrightarrow> unat (b64_unit i) =
     (if i < 26 then 65 + i else if i < 52 then 71 + i else if i < 62 then i - 4
      else if i = 62 then 43 else 47)"
  unfolding b64_unit_def by (rule unat_unit_of_nat) auto

lemma b64_val_unit [simp]: "i < 64 \<Longrightarrow> b64_val (b64_unit i) = Some i"
  unfolding b64_val_def Let_def by (simp add: unat_b64_unit) arith

lemma b64_val_pad [simp]: "b64_val 61 = None"
  by (simp add: b64_val_def)

lemma octet_first: "(b :: nat) < 256 \<Longrightarrow> 4 * (a div 4) + (a mod 4 * 16 + b div 16) div 16 = a"
  by auto

lemma octet_second:
  assumes "b < 256" and "c < (256 :: nat)"
  shows "(a mod 4 * 16 + b div 16) mod 16 * 16 + (b mod 16 * 4 + c div 64) div 4 = b"
proof -
  from assms have "b div 16 < 16" and "c div 64 < 4" by auto
  then have "(a mod 4 * 16 + b div 16) mod 16 = b div 16"
    and "(b mod 16 * 4 + c div 64) div 4 = b mod 16"
    by auto
  then show ?thesis by simp
qed

lemma octet_third: "(c :: nat) < 256 \<Longrightarrow> (b mod 16 * 4 + c div 64) mod 4 * 64 + c mod 64 = c"
proof -
  assume "c < 256"
  then have "c div 64 < 4" by auto
  then have "(b mod 16 * 4 + c div 64) mod 4 = c div 64"
    by (simp only: mod_mult_self3 mod_less)
  then show ?thesis by simp
qed

lemma b64_decode_encode: "\<forall>n \<in> set ns. n < 256 \<Longrightarrow> b64_decode (b64_encode ns) = Some ns"
proof (induction ns rule: b64_encode.induct)
  case 1
  show ?case by simp
next
  case (2 a)
  then have "a div 4 < 64" and "a mod 4 * 16 < 64" by auto
  then show ?case by simp
next
  case (3 a b)
  then have "a div 4 < 64" and "a mod 4 * 16 + b div 16 < 64" and "b mod 16 * 4 < 64"
    and "4 * (a div 4) + (a mod 4 * 16 + b div 16) div 16 = a"
    and "(a mod 4 * 16 + b div 16) mod 16 * 16 + b mod 16 * 4 div 4 = b"
    by auto
  then show ?case by simp
next
  case (4 a b c s)
  then have a: "a div 4 < 64" and ab: "a mod 4 * 16 + b div 16 < 64"
    and bc: "b mod 16 * 4 + c div 64 < 64" and c: "c mod 64 < 64"
    and IH: "b64_decode (b64_encode s) = Some s"
    by auto
  from "4.prems" have small: "b < 256" "c < 256" by simp_all
  note octets = octet_first [OF small(1), of a] octet_second [OF small, of a]
    octet_third [OF small(2), of b]
  show ?case
    by (simp only: b64_encode.simps append.simps b64_decode.simps b64_val_unit a ab bc c IH
        option.case prod.case option.map octets)
qed

definition atob :: "jsstr \<Rightarrow> jsstr option" where
  "atob s = map_option (map of_nat) (b64_decode s)"

lemma atob_btoa: "btoa s = Some t \<Longrightarrow> atob t = Some s"
proof -
  assume "btoa s = Some t"
  then have small: "\<forall>n \<in> set (map unat s). n < 256" and t: "t = b64_encode (map unat s)"
    by (auto simp: btoa_def list_all_iff split: if_splits)
  have "map (of_nat :: nat \<Rightarrow> code_unit) (map unat s) = s" by (simp add: comp_def)
  with b64_decode_encode [OF small] show "atob t = Some s" by (simp add: atob_def t)
qed

interpretation b64: codec btoa atob
  by unfold_locales (rule atob_btoa)

subsection \<open>Percent encoding\<close>

text \<open>Surrogate code units and the code points of a string; a lone surrogate is the \<open>URIError\<close>
  of \<open>encodeURIComponent\<close>, here \<open>None\<close>.\<close>

definition high_surrogate :: "code_unit \<Rightarrow> bool" where
  "high_surrogate c \<longleftrightarrow> 55296 \<le> unat c \<and> unat c < 56320"

definition low_surrogate :: "code_unit \<Rightarrow> bool" where
  "low_surrogate c \<longleftrightarrow> 56320 \<le> unat c \<and> unat c < 57344"

fun code_points :: "jsstr \<Rightarrow> nat list option" where
  "code_points [] = Some []"
| "code_points [c] = (if high_surrogate c \<or> low_surrogate c then None else Some [unat c])"
| "code_points (c # d # s) =
     (if high_surrogate c then
        (if low_surrogate d
         then map_option ((#) (65536 + (unat c - 55296) * 1024 + (unat d - 56320))) (code_points s)
         else None)
      else if low_surrogate c then None
      else map_option ((#) (unat c)) (code_points (d # s)))"

definition utf16 :: "nat \<Rightarrow> jsstr" where
  "utf16 p = (if p < 65536 then [of_nat p]
     else [of_nat (55296 + (p - 65536) div 1024), of_nat (56320 + (p - 65536) mod 1024)])"

definition utf8 :: "nat \<Rightarrow> nat list" where
  "utf8 p =
     (if p < 128 then [p]
      else if p < 2048 then [192 + p div 64, 128 + p mod 64]
      else if p < 65536 then [224 + p div 4096, 128 + p div 64 mod 64, 128 + p mod 64]
      else [240 + p div 262144, 128 + p div 4096 mod 64, 128 + p div 64 mod 64, 128 + p mod 64])"

text \<open>The characters that are left alone: letters, digits and \<open>- _ . ! ~ * ' ( )\<close>.\<close>

definition uri_unreserved :: "nat \<Rightarrow> bool" where
  "uri_unreserved n \<longleftrightarrow> 48 \<le> n \<and> n < 58 \<or> 65 \<le> n \<and> n < 91 \<or> 97 \<le> n \<and> n < 123
     \<or> n \<in> {45, 95, 46, 33, 126, 42, 39, 40, 41}"

definition upper_digit :: "nat \<Rightarrow> code_unit" where
  "upper_digit d = of_nat (if d < 10 then 48 + d else 55 + d)"

definition percent :: "nat \<Rightarrow> jsstr" where
  "percent b = [37, upper_digit (b div 16), upper_digit (b mod 16)]"

definition uri_point :: "nat \<Rightarrow> jsstr" where
  "uri_point p = (if uri_unreserved p then [of_nat p] else concat (map percent (utf8 p)))"

definition encodeURIComponent :: "jsstr \<Rightarrow> jsstr option" where
  "encodeURIComponent s = map_option (\<lambda>ps. concat (map uri_point ps)) (code_points s)"

text \<open>The decoder: percent escapes to octets, octets to code points, code points to UTF-16.\<close>

definition upper_val :: "code_unit \<Rightarrow> nat option" where
  "upper_val c = (let n = unat c in
     if 48 \<le> n \<and> n < 58 then Some (n - 48)
     else if 65 \<le> n \<and> n < 71 then Some (n - 55) else None)"

fun unpercent :: "jsstr \<Rightarrow> nat list option" where
  "unpercent [] = Some []"
| "unpercent (c # s) =
     (if c = 37 then
        (case s of
           h # l # t \<Rightarrow>
             (case (upper_val h, upper_val l) of
                (Some x, Some y) \<Rightarrow> map_option ((#) (16 * x + y)) (unpercent t)
              | _ \<Rightarrow> None)
         | _ \<Rightarrow> None)
      else if unat c < 128 then map_option ((#) (unat c)) (unpercent s)
      else None)"

fun utf8_decode :: "nat list \<Rightarrow> nat list option" where
  "utf8_decode [] = Some []"
| "utf8_decode (a # s) =
     (if a < 128 then map_option ((#) a) (utf8_decode s)
      else if a < 224 then
        (case s of b # t \<Rightarrow> map_option ((#) ((a - 192) * 64 + (b - 128))) (utf8_decode t)
         | _ \<Rightarrow> None)
      else if a < 240 then
        (case s of b # c # t \<Rightarrow>
            map_option ((#) ((a - 224) * 4096 + (b - 128) * 64 + (c - 128))) (utf8_decode t)
         | _ \<Rightarrow> None)
      else
        (case s of b # c # d # t \<Rightarrow>
            map_option ((#) ((a - 240) * 262144 + (b - 128) * 4096 + (c - 128) * 64 + (d - 128)))
              (utf8_decode t)
         | _ \<Rightarrow> None))"

definition decodeURIComponent :: "jsstr \<Rightarrow> jsstr option" where
  "decodeURIComponent s =
     (case unpercent s of None \<Rightarrow> None
      | Some bs \<Rightarrow> map_option (\<lambda>ps. concat (map utf16 ps)) (utf8_decode bs))"

lemma upper_val_digit [simp]: "d < 16 \<Longrightarrow> upper_val (upper_digit d) = Some d"
  by (auto simp: upper_val_def upper_digit_def Let_def)

lemma uri_unreserved_ascii: "uri_unreserved p \<Longrightarrow> p < 128 \<and> p \<noteq> 37"
  by (auto simp: uri_unreserved_def)

lemma utf8_bytes: "p < 1114112 \<Longrightarrow> b \<in> set (utf8 p) \<Longrightarrow> b < 256"
  by (auto simp: utf8_def div_less_iff_less_mult split: if_splits)

lemma append_single [simp]: "(@) [x] = (#) x"
  by (rule ext) simp

lemma unpercent_percents:
  "\<forall>b \<in> set bs. b < 256 \<Longrightarrow>
   unpercent (concat (map percent bs) @ s) = map_option ((@) bs) (unpercent s)"
proof (induction bs)
  case Nil
  show ?case by (cases "unpercent s") simp_all
next
  case (Cons b bs)
  then have "b div 16 < 16" and "b mod 16 < 16" by auto
  then have "upper_val (upper_digit (b div 16)) = Some (b div 16)"
    and "upper_val (upper_digit (b mod 16)) = Some (b mod 16)"
    by (simp_all only: upper_val_digit)
  with Cons show ?case
    by (simp add: percent_def option.map_comp comp_def)
qed

lemma unpercent_point:
  assumes "p < 1114112"
  shows "unpercent (uri_point p @ s) = map_option ((@) (utf8 p)) (unpercent s)"
proof (cases "uri_unreserved p")
  case True
  then have "p < 128" and "p \<noteq> 37" by (auto dest: uri_unreserved_ascii)
  moreover have "(of_nat p :: code_unit) \<noteq> 37"
  proof
    assume "(of_nat p :: code_unit) = 37"
    then have "unat (of_nat p :: code_unit) = 37" by simp
    with \<open>p < 128\<close> \<open>p \<noteq> 37\<close> show False by simp
  qed
  ultimately show ?thesis using True by (simp add: uri_point_def utf8_def)
next
  case False
  have "\<forall>b \<in> set (utf8 p). b < 256" using utf8_bytes [OF assms] by blast
  with False show ?thesis by (simp add: uri_point_def unpercent_percents)
qed

lemma unpercent_points:
  "\<forall>p \<in> set ps. p < 1114112 \<Longrightarrow> unpercent (concat (map uri_point ps)) = Some (concat (map utf8 ps))"
  by (induction ps) (simp_all add: unpercent_point)

lemma base64_digits:
  fixes p :: nat
  shows "p div 64 * 64 + p mod 64 = p"
    and "p div 4096 * 4096 + p div 64 mod 64 * 64 + p mod 64 = p"
    and "p div 262144 * 262144 + p div 4096 mod 64 * 4096 + p div 64 mod 64 * 64 + p mod 64 = p"
proof -
  have q: "p div 64 div 64 = p div 4096" "p div 4096 div 64 = p div 262144"
    by (simp_all add: div_mult2_eq [symmetric])
  have 1: "p div 64 * 64 + p mod 64 = p"
    and 2: "p div 4096 * 64 + p div 64 mod 64 = p div 64"
    and 3: "p div 262144 * 64 + p div 4096 mod 64 = p div 4096"
    by (simp, metis q(1) div_mult_mod_eq, metis q(2) div_mult_mod_eq)
  show "p div 64 * 64 + p mod 64 = p" by (rule 1)
  show 4: "p div 4096 * 4096 + p div 64 mod 64 * 64 + p mod 64 = p"
    using 1 2 by linarith
  show "p div 262144 * 262144 + p div 4096 mod 64 * 4096 + p div 64 mod 64 * 64 + p mod 64 = p"
    using 3 4 by linarith
qed

lemma utf8_decode_point:
  assumes "p < 1114112"
  shows "utf8_decode (utf8 p @ s) = map_option ((#) p) (utf8_decode s)"
proof -
  consider "p < 128" | "128 \<le> p" "p < 2048" | "2048 \<le> p" "p < 65536" | "65536 \<le> p" by linarith
  then show ?thesis
  proof cases
    case 1
    then show ?thesis by (simp add: utf8_def)
  next
    case 2
    then have "p div 64 < 32" by auto
    with 2 show ?thesis by (simp add: utf8_def)
  next
    case 3
    then have "p div 4096 < 16" by auto
    with 3 show ?thesis by (simp add: utf8_def base64_digits(2))
  next
    case 4
    then show ?thesis by (simp add: utf8_def base64_digits(3))
  qed
qed

lemma utf8_decode_points:
  "\<forall>p \<in> set ps. p < 1114112 \<Longrightarrow> utf8_decode (concat (map utf8 ps)) = Some ps"
  by (induction ps) (simp_all add: utf8_decode_point)

lemma surrogate_pair:
  assumes "high_surrogate c" and "low_surrogate d"
  defines "p \<equiv> 65536 + (unat c - 55296) * 1024 + (unat d - 56320)"
  shows "p < 1114112" and "utf16 p = [c, d]"
proof -
  from assms have c: "unat c - 55296 < 1024" "55296 + (unat c - 55296) = unat c"
    and d: "unat d - 56320 < 1024" "56320 + (unat d - 56320) = unat d"
    by (auto simp: high_surrogate_def low_surrogate_def)
  then show "p < 1114112" unfolding p_def by linarith
  have "(p - 65536) div 1024 = unat c - 55296" and "(p - 65536) mod 1024 = unat d - 56320"
    using d(1) by (simp_all add: p_def)
  then show "utf16 p = [c, d]"
    using c d by (simp add: utf16_def p_def del: of_nat_add)
qed

lemma code_points_utf16:
  "code_points s = Some ps \<Longrightarrow> (\<forall>p \<in> set ps. p < 1114112) \<and> concat (map utf16 ps) = s"
proof (induction s arbitrary: ps rule: code_points.induct)
  case 1
  then show ?case by simp
next
  case (2 c)
  then show ?case using unat_unit_less [of c] by (auto simp: utf16_def split: if_splits)
next
  case (3 c d s)
  consider "high_surrogate c" "low_surrogate d" | "\<not> high_surrogate c" "\<not> low_surrogate c"
    using "3.prems" by (auto split: if_splits)
  then show ?case
  proof cases
    case 1
    then show ?thesis using 3 surrogate_pair [OF 1] by auto
  next
    case 2
    then show ?thesis using 3 unat_unit_less [of c] by (auto simp: utf16_def)
  qed
qed

lemma decodeURIComponent_encode: "encodeURIComponent s = Some t \<Longrightarrow> decodeURIComponent t = Some s"
  using code_points_utf16 [of s]
  by (auto simp: encodeURIComponent_def decodeURIComponent_def unpercent_points utf8_decode_points)

interpretation uri: codec encodeURIComponent decodeURIComponent
  by unfold_locales (rule decodeURIComponent_encode)

text \<open>The output holds nothing but unreserved characters, \<open>%\<close> and upper-case hexadecimal digits,
  so it never contains a character that separates the parts of a URL.\<close>

definition uri_safe_unit :: "code_unit \<Rightarrow> bool" where
  "uri_safe_unit c \<longleftrightarrow> uri_unreserved (unat c) \<or> c = 37"

lemma upper_digit_safe: "d < 16 \<Longrightarrow> uri_safe_unit (upper_digit d)"
  by (auto simp: uri_safe_unit_def upper_digit_def uri_unreserved_def)

lemma uri_point_safe: "p < 1114112 \<Longrightarrow> c \<in> set (uri_point p) \<Longrightarrow> uri_safe_unit c"
proof -
  assume p: "p < 1114112" and c: "c \<in> set (uri_point p)"
  show "uri_safe_unit c"
  proof (cases "uri_unreserved p")
    case True
    then have "p < 128" by (auto dest: uri_unreserved_ascii)
    with True c show ?thesis by (simp add: uri_point_def uri_safe_unit_def)
  next
    case False
    with c obtain b where "b \<in> set (utf8 p)" and cb: "c \<in> set (percent b)"
      by (auto simp: uri_point_def)
    then have "b < 256" using utf8_bytes [OF p] by blast
    then have "b div 16 < 16" and "b mod 16 < 16" by auto
    then have "uri_safe_unit (upper_digit (b div 16))" and "uri_safe_unit (upper_digit (b mod 16))"
      by (simp_all only: upper_digit_safe)
    moreover have "uri_safe_unit 37" by (simp add: uri_safe_unit_def)
    ultimately show ?thesis using cb by (auto simp: percent_def)
  qed
qed

lemma encodeURIComponent_safe:
  "encodeURIComponent s = Some t \<Longrightarrow> c \<in> set t \<Longrightarrow> uri_safe_unit c"
proof -
  assume enc: "encodeURIComponent s = Some t" and c: "c \<in> set t"
  from enc obtain ps where ps: "code_points s = Some ps" "t = concat (map uri_point ps)"
    by (auto simp: encodeURIComponent_def)
  with c obtain p where "p \<in> set ps" "c \<in> set (uri_point p)" by auto
  with code_points_utf16 [OF ps(1)] show ?thesis by (blast intro: uri_point_safe)
qed

lemma uri_safe_not_slash: "uri_safe_unit c \<Longrightarrow> c \<noteq> 47 \<and> c \<noteq> 63 \<and> c \<noteq> 35"
  by (auto simp: uri_safe_unit_def uri_unreserved_def)

end
