(* ===== verification/Json.thy ===== *)
theory Json
  imports Encoding
begin

text \<open>
  \<open>JSON.stringify\<close> on the objects the dashboard sends, whose properties are all strings, and a
  reader for the texts it produces, written from the JSON grammar.  The reader recovers every
  string exactly, lone surrogates included, so nothing a user types into a form is lost or can
  change the structure of the body.
\<close>

subsection \<open>Writing\<close>

definition json_u :: "code_unit \<Rightarrow> jsstr" where
  "json_u c = (let n = unat c in
     [92, 117, digit_unit (n div 4096), digit_unit (n div 256 mod 16), digit_unit (n div 16 mod 16),
      digit_unit (n mod 16)])"

definition json_short :: "(code_unit \<times> code_unit) list" where
  "json_short = [(8, 98), (9, 116), (10, 110), (12, 102), (13, 114), (34, 34), (92, 92)]"

definition json_unit :: "code_unit \<Rightarrow> jsstr" where
  "json_unit c = (case map_of json_short c of
     Some e \<Rightarrow> [92, e]
   | None \<Rightarrow> if unat c < 32 then json_u c else [c])"

text \<open>A surrogate pair is copied, a lone surrogate is escaped.\<close>

fun json_chars :: "jsstr \<Rightarrow> jsstr" where
  "json_chars [] = []"
| "json_chars [c] = (if high_surrogate c \<or> low_surrogate c then json_u c else json_unit c)"
| "json_chars (c # d # s) =
     (if high_surrogate c \<and> low_surrogate d then c # d # json_chars s
      else (if high_surrogate c \<or> low_surrogate c then json_u c else json_unit c) @ json_chars (d # s))"

definition json_string :: "jsstr \<Rightarrow> jsstr" where
  "json_string s = [34] @ json_chars s @ [34]"

definition json_member :: "jsstr \<times> jsstr \<Rightarrow> jsstr" where
  "json_member kv = json_string (fst kv) @ [58] @ json_string (snd kv)"

definition json_object :: "(jsstr \<times> jsstr) list \<Rightarrow> jsstr" where
  "json_object kvs = [123] @ join [44] (map json_member kvs) @ [125]"

subsection \<open>Reading\<close>

definition json_unshort :: "(code_unit \<times> code_unit) list" where
  "json_unshort = map (\<lambda>(a, b). (b, a)) json_short @ [(47, 47)]"

text \<open>The characters of a string after its opening quote, and what follows the closing one.\<close>

fun read_chars :: "jsstr \<Rightarrow> (jsstr \<times> jsstr) option" where
  "read_chars [] = None"
| "read_chars (c # s) =
     (if c = 34 then Some ([], s)
      else if c = 92 then
        (case s of
           [] \<Rightarrow> None
         | e # t \<Rightarrow>
             if e = 117 then
               (case t of
                  h1 # h2 # h3 # h4 # u \<Rightarrow>
                    (case (hex_val h1, hex_val h2, hex_val h3, hex_val h4) of
                       (Some a, Some b, Some c, Some d) \<Rightarrow>
                         map_option (apfst ((#) (of_nat (((a * 16 + b) * 16 + c) * 16 + d)))) (read_chars u)
                     | _ \<Rightarrow> None)
                | _ \<Rightarrow> None)
             else
               (case map_of json_unshort e of
                  None \<Rightarrow> None
                | Some x \<Rightarrow> map_option (apfst ((#) x)) (read_chars t)))
      else map_option (apfst ((#) c)) (read_chars s))"

declare read_chars.simps(2) [simp del]

lemma read_chars_close [simp]: "read_chars (34 # s) = Some ([], s)"
  by (simp add: read_chars.simps)

lemma read_chars_u: "read_chars (json_u c @ s) = map_option (apfst ((#) c)) (read_chars s)"
proof -
  let ?n = "unat c"
  have n: "?n < 65536" by (rule unat_unit_less)
  then have "?n div 4096 < 16" by auto
  moreover have "?n div 4096 * 16 + ?n div 256 mod 16 = ?n div 256"
    using div_mult_mod_eq [of "?n div 256" 16] by (simp add: div_mult2_eq [symmetric])
  moreover have "?n div 256 * 16 + ?n div 16 mod 16 = ?n div 16"
    using div_mult_mod_eq [of "?n div 16" 16] by (simp add: div_mult2_eq [symmetric])
  moreover have "?n div 16 * 16 + ?n mod 16 = ?n" by simp
  ultimately show ?thesis
    by (simp add: json_u_def Let_def read_chars.simps(2) del: of_nat_add of_nat_mult)
qed

lemma read_chars_unit:
  "read_chars (json_unit c @ s) = map_option (apfst ((#) c)) (read_chars s)"
proof (cases "map_of json_short c")
  case None
  then have "c \<noteq> 34" and "c \<noteq> 92" by (auto simp: json_short_def)
  with None show ?thesis
    by (simp add: json_unit_def read_chars_u) (simp add: read_chars.simps(2))
next
  case (Some e)
  then have "c \<in> {8, 9, 10, 12, 13, 34, 92}" by (auto simp: json_short_def split: if_splits)
  then show ?thesis
    by (elim insertE emptyE)
       (simp_all add: json_unit_def json_short_def json_unshort_def read_chars.simps(2))
qed

lemma read_chars_plain:
  "c \<noteq> 34 \<Longrightarrow> c \<noteq> 92 \<Longrightarrow> read_chars (c # s) = map_option (apfst ((#) c)) (read_chars s)"
  by (simp add: read_chars.simps(2))

lemma surrogate_plain: "high_surrogate c \<or> low_surrogate c \<Longrightarrow> c \<noteq> 34 \<and> c \<noteq> 92"
  by (auto simp: high_surrogate_def low_surrogate_def)

lemma read_json_chars: "read_chars (json_chars s @ 34 # t) = Some (s, t)"
proof (induction s rule: json_chars.induct)
  case 1
  show ?case by simp
next
  case (2 c)
  then show ?case by (simp add: read_chars_u read_chars_unit)
next
  case (3 c d s)
  show ?case
  proof (cases "high_surrogate c \<and> low_surrogate d")
    case True
    with 3 surrogate_plain show ?thesis by (simp add: read_chars_plain)
  next
    case False
    with 3 show ?thesis by (auto simp: read_chars_u read_chars_unit)
  qed
qed

lemma read_chars_shorter: "read_chars s = Some (x, t) \<Longrightarrow> length t < length s"
proof (induction s arbitrary: x t rule: length_induct)
  case (1 s)
  show ?case
  proof (cases s)
    case Nil
    with 1 show ?thesis by simp
  next
    case (Cons c s')
    have IH: "length t < length u" if "read_chars u = Some (y, t)" "length u < length s" for u y
      using "1.IH" that by blast
    have "(\<exists>u y. read_chars u = Some (y, t) \<and> length u < length s) \<or> t = s'"
      using "1.prems"
      by (auto simp: Cons read_chars.simps(2) split: if_splits list.splits option.splits)
    then show ?thesis using Cons by (auto dest: IH)
  qed
qed

text \<open>A quoted string, a member and the members of an object up to the closing brace.\<close>

definition read_string :: "jsstr \<Rightarrow> (jsstr \<times> jsstr) option" where
  "read_string s = (case s of c # t \<Rightarrow> if c = 34 then read_chars t else None | [] \<Rightarrow> None)"

definition read_member :: "jsstr \<Rightarrow> ((jsstr \<times> jsstr) \<times> jsstr) option" where
  "read_member s = (case read_string s of
     Some (k, c # t) \<Rightarrow>
       if c = 58 then map_option (\<lambda>(v, u). ((k, v), u)) (read_string t) else None
   | _ \<Rightarrow> None)"

lemma read_json_string: "read_string (json_string s @ t) = Some (s, t)"
  by (simp add: read_string_def json_string_def read_json_chars)

lemma read_json_member: "read_member (json_member kv @ t) = Some (kv, t)"
  by (cases kv) (simp add: read_member_def json_member_def read_json_string)

lemma read_string_shorter: "read_string s = Some (x, t) \<Longrightarrow> length t < length s"
  by (auto simp: read_string_def split: list.splits if_splits dest: read_chars_shorter)

lemma read_member_shorter: "read_member s = Some (kv, t) \<Longrightarrow> length t < length s"
  by (fastforce simp: read_member_def split: option.splits list.splits if_splits
      dest: read_string_shorter)

function read_members :: "jsstr \<Rightarrow> (jsstr \<times> jsstr) list option" where
  "read_members s = (case read_member s of
     Some (kv, c # t) \<Rightarrow>
       if c = 125 \<and> t = [] then Some [kv]
       else if c = 44 then map_option ((#) kv) (read_members t)
       else None
   | _ \<Rightarrow> None)"
  by pat_completeness auto
termination
  by (relation "measure length") (auto dest: read_member_shorter)

declare read_members.simps [simp del]

definition read_object :: "jsstr \<Rightarrow> (jsstr \<times> jsstr) list option" where
  "read_object s = (case s of
     c # t \<Rightarrow> if c = 123 then (if t = [125] then Some [] else read_members t) else None
   | [] \<Rightarrow> None)"

lemma read_json_members:
  "kvs \<noteq> [] \<Longrightarrow> read_members (join [44] (map json_member kvs) @ [125]) = Some kvs"
proof (induction kvs rule: induct_list012)
  case 1
  then show ?case by simp
next
  case (2 kv)
  show ?case by (simp add: read_members.simps read_json_member)
next
  case (3 kv kv' kvs)
  then show ?case
    by (simp add: read_members.simps [of "json_member kv @ _"] read_json_member)
qed

theorem read_json_object: "read_object (json_object kvs) = Some kvs"
proof (cases kvs)
  case Nil
  then show ?thesis by (simp add: json_object_def read_object_def)
next
  case (Cons kv kvs')
  then obtain t where "join [44] (map json_member kvs) = 34 # t"
    by (cases kvs') (auto simp: json_member_def json_string_def)
  with Cons read_json_members [of kvs] show ?thesis
    by (auto simp: json_object_def read_object_def)
qed

interpretation json: codec "\<lambda>kvs. Some (json_object kvs)" read_object
  by unfold_locales (use read_json_object in auto)

end
