(* ===== verification/JsNum.thy ===== *)
theory JsNum
  imports Encoding Complex_Main "HOL-Library.Log_Nat"
begin

text \<open>
  The number formatting the dashboard uses.  Numbers are exact rationals, the values of finite
  doubles: \<open>toFixed\<close> is specified by the language on the exact value (the nearest decimal, the larger
  one of two), for values below \<open>10^21\<close>, so no rounding is lost in the model.  \<open>digits_value\<close> reads a
  decimal numeral back.  Where the exact result of an operation need not be a double, \<open>to_double\<close> rounds
  it as the hardware does.
\<close>

subsection \<open>Reading decimal numerals\<close>

definition digit_val :: "code_unit \<Rightarrow> nat" where
  "digit_val c = unat c - 48"

definition digits_value :: "jsstr \<Rightarrow> nat" where
  "digits_value s = foldl (\<lambda>acc c. acc * 10 + digit_val c) 0 s"

definition is_digit :: "code_unit \<Rightarrow> bool" where
  "is_digit c \<longleftrightarrow> 48 \<le> unat c \<and> unat c < 58"

lemma digit_val_unit [simp]: "d < 10 \<Longrightarrow> digit_val (digit_unit d) = d"
  and is_digit_unit [simp]: "d < 10 \<Longrightarrow> is_digit (digit_unit d)"
  by (simp_all add: digit_val_def is_digit_def unat_digit_unit)

lemma digits_value_snoc: "digits_value (s @ [c]) = digits_value s * 10 + digit_val c"
  by (simp add: digits_value_def)

lemma digits_value_dec [simp]: "digits_value (dec n) = n"
proof (induction n rule: less_induct)
  case (less n)
  show ?case
  proof (cases "n < 10")
    case True
    then show ?thesis by (simp add: dec_def to_base.simps [of 10 n] digits_value_def)
  next
    case False
    then have "digits_value (to_base 10 (n div 10)) = n div 10"
      using less.IH [of "n div 10"] by (simp add: dec_def)
    with False show ?thesis
      by (simp add: dec_def to_base.simps [of 10 n] digits_value_snoc)
  qed
qed

lemma dec_inj [simp]: "dec m = dec n \<longleftrightarrow> m = n"
  by (metis digits_value_dec)

lemma dec_digits: "c \<in> set (dec n) \<Longrightarrow> is_digit c"
proof (induction n rule: less_induct)
  case (less n)
  show ?case
  proof (cases "n < 10")
    case True
    with less.prems show ?thesis by (simp add: dec_def to_base.simps [of 10 n])
  next
    case False
    with less.prems have "c \<in> set (dec (n div 10)) \<or> c = digit_unit (n mod 10)"
      by (auto simp: dec_def to_base.simps [of 10 n])
    with False less.IH [of "n div 10"] show ?thesis by auto
  qed
qed

lemma foldl_zeros: "foldl (\<lambda>acc c. acc * 10 + digit_val c) 0 (replicate k 48 @ s) = digits_value s"
  by (induction k) (simp_all add: digits_value_def digit_val_def)

lemma digits_value_pad [simp]: "digits_value (pad_start k 48 s) = digits_value s"
  using foldl_zeros [of "k - length s" s] by (simp add: pad_start_def digits_value_def)

lemma pad_digits: "c \<in> set (pad_start k 48 (dec n)) \<Longrightarrow> is_digit c"
  by (auto simp: pad_start_def is_digit_def dest: dec_digits [unfolded is_digit_def])

subsection \<open>toFixed\<close>

definition fixed_units :: "nat \<Rightarrow> rat \<Rightarrow> nat" where
  "fixed_units d x = nat \<lfloor>x * 10 ^ d + 1 / 2\<rfloor>"

definition toFixed :: "nat \<Rightarrow> rat \<Rightarrow> jsstr" where
  "toFixed d x =
     (let m = pad_start (d + 1) 48 (dec (fixed_units d \<bar>x\<bar>))
      in (if x < 0 then [45] else []) @
         (if d = 0 then m else take (length m - d) m @ [46] @ drop (length m - d) m))"

text \<open>The value of a text without sign: the digits around the point, scaled.\<close>

definition fixed_value :: "nat \<Rightarrow> jsstr \<Rightarrow> rat" where
  "fixed_value d s = of_nat (digits_value (filter (\<lambda>c. c \<noteq> 46) s)) / 10 ^ d"

lemma filter_digits: "(\<And>c. c \<in> set s \<Longrightarrow> is_digit c) \<Longrightarrow> filter (\<lambda>c. c \<noteq> 46) s = s"
  by (rule filter_True) (fastforce simp: is_digit_def)

lemma toFixed_value: "0 \<le> x \<Longrightarrow> fixed_value d (toFixed d x) = of_nat (fixed_units d x) / 10 ^ d"
proof -
  assume x: "0 \<le> x"
  define m where "m = pad_start (d + 1) 48 (dec (fixed_units d x))"
  define k where "k = length m - d"
  have dig: "is_digit c" if "c \<in> set m" for c using that unfolding m_def by (rule pad_digits)
  have m: "filter (\<lambda>c. c \<noteq> 46) m = m" by (rule filter_digits) (rule dig)
  have "filter (\<lambda>c. c \<noteq> 46) (take k m @ [46] @ drop k m) =
      filter (\<lambda>c. c \<noteq> 46) (take k m) @ filter (\<lambda>c. c \<noteq> 46) (drop k m)"
    by simp
  then have split: "filter (\<lambda>c. c \<noteq> 46) (take k m @ [46] @ drop k m) = m"
    by (simp only: filter_append [symmetric] append_take_drop_id m)
  from x have "toFixed d x = (if d = 0 then m else take k m @ [46] @ drop k m)"
    by (simp add: toFixed_def Let_def m_def k_def)
  with m split have "filter (\<lambda>c. c \<noteq> 46) (toFixed d x) = m" by simp
  then show ?thesis by (simp add: fixed_value_def m_def)
qed

lemma fixed_units_bound:
  assumes "0 \<le> x"
  shows "\<bar>of_nat (fixed_units d x) / 10 ^ d - x\<bar> \<le> 1 / (2 * 10 ^ d)"
proof -
  let ?y = "x * 10 ^ d"
  have "0 \<le> ?y + 1 / 2" using assms by simp
  then have n: "(of_nat (fixed_units d x) :: rat) = of_int \<lfloor>?y + 1 / 2\<rfloor>"
    by (simp add: fixed_units_def)
  have "\<bar>of_int \<lfloor>?y + 1 / 2\<rfloor> - ?y\<bar> \<le> 1 / 2"
    using floor_correct [of "?y + 1 / 2"] by linarith
  then have "\<bar>of_nat (fixed_units d x) - ?y\<bar> / 10 ^ d \<le> (1 / 2) / 10 ^ d"
    unfolding n by (rule divide_right_mono) simp
  moreover have "of_nat (fixed_units d x) / 10 ^ d - x = (of_nat (fixed_units d x) - ?y) / 10 ^ d"
    by (simp add: diff_divide_distrib)
  then have "\<bar>of_nat (fixed_units d x) / 10 ^ d - x\<bar> = \<bar>of_nat (fixed_units d x) - ?y\<bar> / 10 ^ d"
    by (simp only: abs_divide) simp
  ultimately show ?thesis by simp
qed

lemma toFixed_close: "0 \<le> x \<Longrightarrow> \<bar>fixed_value d (toFixed d x) - x\<bar> \<le> 1 / (2 * 10 ^ d)"
  by (simp add: toFixed_value fixed_units_bound)

text \<open>An error on a quotient, scaled back.\<close>

lemma scale_error:
  fixes u v x e :: rat
  assumes "0 < u" and "\<bar>v - x / u\<bar> \<le> e"
  shows "\<bar>v * u - x\<bar> \<le> e * u"
proof -
  have "\<bar>v - x / u\<bar> * u \<le> e * u" using assms by (intro mult_right_mono) simp_all
  moreover have "\<bar>v - x / u\<bar> * u = \<bar>(v - x / u) * u\<bar>" using assms(1) by (simp add: abs_mult)
  moreover have "(v - x / u) * u = v * u - x" using assms(1) by (simp add: left_diff_distrib)
  ultimately show ?thesis by simp
qed

subsection \<open>Rounding to a double\<close>

text \<open>The nearest integer, the even one of two.\<close>

definition round_even :: "rat \<Rightarrow> int" where
  "round_even y = (let f = \<lfloor>y\<rfloor>; r = y - of_int f
     in if r < 1 / 2 then f else if 1 / 2 < r then f + 1 else if even f then f else f + 1)"

text \<open>The exponent of the last of the 53 significant bits of a positive number.\<close>

definition binade :: "rat \<Rightarrow> int" where
  "binade x = (let (n, d) = quotient_of x; k = bitlen n - bitlen d
     in if of_int d * 2 powi k \<le> (of_int n :: rat) then k else k - 1)"

text \<open>The result of an operation whose exact result is \<open>x\<close>, for magnitudes in the normal range.\<close>

definition to_double :: "rat \<Rightarrow> rat" where
  "to_double x = (let u = 2 powi (binade \<bar>x\<bar> - 52)
     in if x = 0 then 0 else of_int (round_even (x / u)) * u)"

lemma round_even_close: "\<bar>of_int (round_even y) - y\<bar> \<le> 1 / 2"
proof -
  define f where "f = \<lfloor>y\<rfloor>"
  have f: "of_int f \<le> y" "y < of_int f + 1" using floor_correct [of y] by (simp_all add: f_def)
  have "round_even y = (if y - of_int f < 1 / 2 then f else if 1 / 2 < y - of_int f then f + 1
      else if even f then f else f + 1)"
    by (simp only: round_even_def Let_def f_def)
  with f show ?thesis by (cases "y - of_int f < 1 / 2"; cases "1 / 2 < y - of_int f"; simp)
qed

lemma powi_nat_diff: "2 powi (int a - int b) = (2 ^ a / 2 ^ b :: rat)"
  by (simp add: power_int_diff)

lemma binade_le:
  assumes "0 < x"
  shows "2 powi (binade x) \<le> x"
proof -
  obtain n d where q: "quotient_of x = (n, d)" by fastforce
  then have d: "0 < d" and x: "x = of_int n / of_int d"
    using quotient_of_denom_pos quotient_of_div by blast+
  with assms have n: "0 < n" by (simp add: zero_less_divide_iff)
  let ?k = "bitlen n - bitlen d"
  show ?thesis
  proof (cases "of_int d * 2 powi ?k \<le> (of_int n :: rat)")
    case True
    then have "binade x = ?k" by (simp add: binade_def q)
    with True d show ?thesis by (simp add: x pos_le_divide_eq mult.commute)
  next
    case False
    then have k: "binade x = ?k - 1" by (simp add: binade_def q)
    have bn: "2 ^ nat (bitlen n - 1) \<le> n" and bd: "d < 2 ^ nat (bitlen d)"
      using bitlen_bounds [OF n] bitlen_bounds [OF d] by auto
    have "0 < bitlen m" if "0 < m" for m
      using bitlen_bounds [OF that] that by (cases "bitlen m \<le> 0") auto
    with n d have pos: "0 < bitlen n" "0 < bitlen d" by blast+
    have "?k - 1 = int (nat (bitlen n - 1)) - int (nat (bitlen d))" using pos by simp
    then have "2 powi (?k - 1) = (2 ^ nat (bitlen n - 1) / 2 ^ nat (bitlen d) :: rat)"
      by (simp only: powi_nat_diff)
    also have "\<dots> \<le> of_int n / of_int d"
    proof (rule frac_le)
      show "(2 :: rat) ^ nat (bitlen n - 1) \<le> of_int n"
        using bn by (metis of_int_le_iff of_int_numeral of_int_power)
      show "of_int d \<le> (2 :: rat) ^ nat (bitlen d)"
        using bd by (metis less_imp_le of_int_le_iff of_int_numeral of_int_power)
    qed (use n d in simp_all)
    finally show ?thesis unfolding k using x by simp
  qed
qed

lemma to_double_close:
  assumes "0 \<le> x"
  shows "\<bar>to_double x - x\<bar> \<le> x / 2 ^ 53"
proof (cases "x = 0")
  case False
  with assms have x: "0 < x" by simp
  define u :: rat where "u = 2 powi (binade x - 52)"
  have u: "0 < u" by (simp add: u_def)
  have "2 powi (binade x - 52) = 2 powi (binade x) / (2 :: rat) ^ 52"
    by (simp add: power_int_diff)
  with binade_le [OF x] have "u \<le> x / 2 ^ 52" by (simp add: u_def divide_right_mono)
  moreover have "to_double x = of_int (round_even (x / u)) * u"
    using x by (simp add: to_double_def u_def Let_def)
  moreover have "\<bar>of_int (round_even (x / u)) * u - x\<bar> \<le> 1 / 2 * u"
    by (rule scale_error [OF u round_even_close])
  ultimately show ?thesis by simp
qed (simp add: to_double_def)

end
