(* ===== verification/JsonText.thy ===== *)
theory JsonText
  imports Json JsNum
begin

text \<open>
  JSON values and the text \<open>JSON.stringify(value, null, 2)\<close> writes for them, which the audit log
  offers as a download.  An object is the list of its own properties in the order of the engine; a
  number is its value, and \<open>num\<close>, the numeral the engine prints for it, is a parameter.  The reader
  is written from the JSON grammar: it skips white space and takes the numeral of a number as far as
  its characters go; \<open>rd\<close>, the number a numeral denotes to the engine, is a parameter too.
\<close>

datatype json_value =
    J_null
  | J_bool bool
  | J_num rat
  | J_str jsstr
  | J_arr "json_value list"
  | J_obj "(jsstr \<times> json_value) list"

text \<open>The own property \<open>k\<close> of an object.\<close>

definition json_field :: "jsstr \<Rightarrow> json_value \<Rightarrow> json_value option" where
  "json_field k j = (case j of J_obj kvs \<Rightarrow> map_of kvs k | _ \<Rightarrow> None)"

subsection \<open>Writing\<close>

definition spaces :: "nat \<Rightarrow> jsstr" where
  "spaces n = replicate n 32"

text \<open>The items between a pair of brackets, and the white space after the opening bracket, after each
  comma and before the closing bracket.\<close>

definition json_block :: "jsstr \<times> jsstr \<times> jsstr \<Rightarrow> code_unit \<Rightarrow> jsstr list \<Rightarrow> code_unit \<Rightarrow> jsstr" where
  "json_block ws a items b =
     (if items = [] then [a, b]
      else a # fst ws @ join (44 # fst (snd ws)) items @ snd (snd ws) @ [b])"

text \<open>A writer with its way to write strings and its layout of a block that is indented by \<open>n\<close>.\<close>

fun json_print :: "(jsstr \<Rightarrow> jsstr) \<Rightarrow> (nat \<Rightarrow> jsstr \<times> jsstr \<times> jsstr) \<Rightarrow> (rat \<Rightarrow> jsstr) \<Rightarrow> nat \<Rightarrow> json_value \<Rightarrow> jsstr" where
  "json_print str lay num n J_null = js ''null''"
| "json_print str lay num n (J_bool b) = (if b then js ''true'' else js ''false'')"
| "json_print str lay num n (J_num q) = num q"
| "json_print str lay num n (J_str s) = str s"
| "json_print str lay num n (J_arr vs) = json_block (lay n) 91 (map (json_print str lay num (n + 2)) vs) 93"
| "json_print str lay num n (J_obj kvs) =
     json_block (lay n) 123 (map (\<lambda>(k, v). str k @ [58, 32] @ json_print str lay num (n + 2) v) kvs) 125"

text \<open>The layout of \<open>JSON.stringify(v, null, 2)\<close>: a line for each item.\<close>

definition lines_layout :: "nat \<Rightarrow> jsstr \<times> jsstr \<times> jsstr" where
  "lines_layout n = (10 # spaces (n + 2), 10 # spaces (n + 2), 10 # spaces n)"

definition json_text :: "(rat \<Rightarrow> jsstr) \<Rightarrow> nat \<Rightarrow> json_value \<Rightarrow> jsstr" where
  "json_text = json_print json_string lines_layout"

subsection \<open>Reading\<close>

definition json_space :: "code_unit \<Rightarrow> bool" where
  "json_space c \<longleftrightarrow> c = 32 \<or> c = 9 \<or> c = 10 \<or> c = 13"

definition skip :: "jsstr \<Rightarrow> jsstr" where
  "skip s = dropWhile json_space s"

text \<open>The characters of a numeral: digits, signs, the point and the letter of the exponent.\<close>

definition num_unit :: "code_unit \<Rightarrow> bool" where
  "num_unit c \<longleftrightarrow> is_digit c \<or> c \<in> {43, 45, 46, 69, 101}"

definition read_scalar :: "(jsstr \<Rightarrow> rat option) \<Rightarrow> jsstr \<Rightarrow> (json_value \<times> jsstr) option" where
  "read_scalar rd s =
     (if starts_with s (js ''null'') then Some (J_null, drop 4 s)
      else if starts_with s (js ''true'') then Some (J_bool True, drop 4 s)
      else if starts_with s (js ''false'') then Some (J_bool False, drop 5 s)
      else map_option (\<lambda>q. (J_num q, dropWhile num_unit s)) (rd (takeWhile num_unit s)))"

text \<open>A value, the elements of an array up to its closing bracket, the members of an object up to its
  closing brace; the first argument bounds the depth of the calls.\<close>

fun read_value :: "nat \<Rightarrow> (jsstr \<Rightarrow> rat option) \<Rightarrow> jsstr \<Rightarrow> (json_value \<times> jsstr) option"
and read_items :: "nat \<Rightarrow> (jsstr \<Rightarrow> rat option) \<Rightarrow> jsstr \<Rightarrow> (json_value list \<times> jsstr) option"
and read_props :: "nat \<Rightarrow> (jsstr \<Rightarrow> rat option) \<Rightarrow> jsstr \<Rightarrow> ((jsstr \<times> json_value) list \<times> jsstr) option"
where
  "read_value 0 rd s = None"
| "read_value (Suc m) rd s = (case skip s of
     [] \<Rightarrow> None
   | c # t \<Rightarrow>
       if c = 34 then map_option (apfst J_str) (read_chars t)
       else if c = 91 then
         (case skip t of
            [] \<Rightarrow> None
          | d # u \<Rightarrow> if d = 93 then Some (J_arr [], u) else map_option (apfst J_arr) (read_items m rd t))
       else if c = 123 then
         (case skip t of
            [] \<Rightarrow> None
          | d # u \<Rightarrow> if d = 125 then Some (J_obj [], u) else map_option (apfst J_obj) (read_props m rd t))
       else read_scalar rd (c # t))"
| "read_items 0 rd s = None"
| "read_items (Suc m) rd s = (case read_value m rd s of
     None \<Rightarrow> None
   | Some (v, t) \<Rightarrow> (case skip t of
       [] \<Rightarrow> None
     | c # u \<Rightarrow> if c = 44 then map_option (apfst ((#) v)) (read_items m rd u)
         else if c = 93 then Some ([v], u) else None))"
| "read_props 0 rd s = None"
| "read_props (Suc m) rd s = (case read_string (skip s) of
     None \<Rightarrow> None
   | Some (k, t) \<Rightarrow> (case skip t of
       [] \<Rightarrow> None
     | c # u \<Rightarrow> if c \<noteq> 58 then None else (case read_value m rd u of
         None \<Rightarrow> None
       | Some (v, w) \<Rightarrow> (case skip w of
           [] \<Rightarrow> None
         | d # x \<Rightarrow> if d = 44 then map_option (apfst ((#) (k, v))) (read_props m rd x)
             else if d = 125 then Some ([(k, v)], x) else None))))"

definition read_json :: "(jsstr \<Rightarrow> rat option) \<Rightarrow> jsstr \<Rightarrow> json_value option" where
  "read_json rd s = (case read_value (Suc (length s)) rd s of
     Some (v, t) \<Rightarrow> if skip t = [] then Some v else None
   | None \<Rightarrow> None)"


subsection \<open>Reading back what was written\<close>

text \<open>What is required of the numbers of a value, and the depth of calls a value needs.\<close>

definition num_ok :: "(rat \<Rightarrow> jsstr) \<Rightarrow> (jsstr \<Rightarrow> rat option) \<Rightarrow> rat \<Rightarrow> bool" where
  "num_ok num rd q \<longleftrightarrow> num q \<noteq> [] \<and> list_all num_unit (num q) \<and> rd (num q) = Some q"

fun json_numbers :: "json_value \<Rightarrow> rat list" where
  "json_numbers (J_num q) = [q]"
| "json_numbers (J_arr vs) = concat (map json_numbers vs)"
| "json_numbers (J_obj kvs) = concat (map (\<lambda>(k, v). json_numbers v) kvs)"
| "json_numbers _ = []"

fun json_need :: "json_value \<Rightarrow> nat" where
  "json_need (J_arr vs) = Suc (sum_list (map (\<lambda>v. Suc (json_need v)) vs))"
| "json_need (J_obj kvs) = Suc (sum_list (map (\<lambda>(k, v). Suc (json_need v)) kvs))"
| "json_need _ = 1"

abbreviation blank :: "jsstr \<Rightarrow> bool" where
  "blank \<equiv> list_all json_space"

text \<open>A text after which a numeral ends.\<close>

definition num_end :: "jsstr \<Rightarrow> bool" where
  "num_end t \<longleftrightarrow> t = [] \<or> \<not> num_unit (hd t)"

lemma space_no_numeral: "json_space c \<Longrightarrow> \<not> num_unit c"
  by (auto simp: json_space_def num_unit_def is_digit_def)

lemma num_end_simps [simp]: "num_end []" "num_end (44 # t)" "num_end (93 # t)" "num_end (125 # t)"
  by (simp_all add: num_end_def num_unit_def is_digit_def)

lemma num_end_blank: "blank w \<Longrightarrow> num_end t \<Longrightarrow> num_end (w @ t)"
  by (cases w) (auto simp: num_end_def space_no_numeral)

lemma skip_blank [simp]: "blank w \<Longrightarrow> skip (w @ s) = skip s"
  by (induction w) (simp_all add: skip_def)

lemma skip_space [simp]: "skip (32 # s) = skip s"
  by (simp add: skip_def json_space_def)

lemma skip_text [simp]: "\<not> json_space c \<Longrightarrow> skip (c # s) = c # s"
  by (simp add: skip_def)

lemma read_value_skip: "skip s = skip s' \<Longrightarrow> read_value m rd s = read_value m rd s'"
  by (cases m) simp_all

lemma read_items_skip: "skip s = skip s' \<Longrightarrow> read_items m rd s = read_items m rd s'"
  by (cases m) (simp_all add: read_value_skip [of s s'])

lemma read_props_skip: "skip s = skip s' \<Longrightarrow> read_props m rd s = read_props m rd s'"
  by (cases m) simp_all

lemma numeral_split:
  assumes "num_ok num rd q" and "num_end t"
  shows "takeWhile num_unit (num q @ t) = num q" and "dropWhile num_unit (num q @ t) = t"
  using assms by (cases t; simp add: num_ok_def num_end_def list_all_iff)+

lemma num_unit_chars: "num_unit c \<Longrightarrow> \<not> json_space c \<and> c \<notin> {34, 91, 93, 123, 125, 110, 116, 102}"
  by (auto simp: num_unit_def is_digit_def json_space_def)

lemma json_punctuation [simp]: "\<not> json_space 34" "\<not> json_space 44" "\<not> json_space 58" "\<not> json_space 91"
  "\<not> json_space 93" "\<not> json_space 123" "\<not> json_space 125" "\<not> json_space 110" "\<not> json_space 116"
  "\<not> json_space 102"
  by (simp_all add: json_space_def)

lemma json_literals: "js ''null'' = [110, 117, 108, 108]" "js ''true'' = [116, 114, 117, 101]"
  "js ''false'' = [102, 97, 108, 115, 101]"
  by (simp_all add: js_def)

lemma read_number:
  assumes "num_ok num rd q" and "num_end t"
  shows "read_value (Suc m) rd (num q @ t) = Some (J_num q, t)"
proof -
  from assms(1) obtain c u where cu: "num q = c # u" and "num_unit c"
    by (cases "num q") (auto simp: num_ok_def)
  from this(2) have c: "\<not> json_space c" "c \<noteq> 34" "c \<noteq> 91" "c \<noteq> 123" "c \<noteq> 110" "c \<noteq> 116" "c \<noteq> 102"
    by (auto dest: num_unit_chars)
  note split = numeral_split [OF assms, unfolded cu append_Cons]
  have "read_scalar rd (c # u @ t) = Some (J_num q, t)"
    using assms(1) c by (simp add: read_scalar_def json_literals split num_ok_def cu del: takeWhile.simps dropWhile.simps)
  with c show ?thesis by (simp add: cu)
qed

lemma read_items_text:
  assumes "vs \<noteq> []" and "sum_list (map (\<lambda>v. Suc (json_need v)) vs) \<le> m" and "blank w" and "blank w'"
    and "\<And>v m t. v \<in> set vs \<Longrightarrow> json_need v \<le> m \<Longrightarrow> num_end t \<Longrightarrow>
      read_value m rd (f v @ t) = Some (v, t)"
  shows "read_items m rd (join (44 # w) (map f vs) @ w' @ 93 # t) = Some (vs, t)"
  using assms(1,2,5)
proof (induction vs arbitrary: m rule: induct_list012)
  case 1
  then show ?case by simp
next
  case (2 v)
  then obtain m' where m: "m = Suc m'" "json_need v \<le> m'" by (cases m) auto
  have "read_value m' rd (f v @ w' @ 93 # t) = Some (v, w' @ 93 # t)"
    by (rule "2.prems"(3)) (use m num_end_blank [OF assms(4)] in simp_all)
  then show ?case using assms(4) by (simp add: m(1))
next
  case (3 v u vs)
  then obtain m' where m: "m = Suc m'" "json_need v \<le> m'"
      "sum_list (map (\<lambda>v. Suc (json_need v)) (u # vs)) \<le> m'" by (cases m) auto
  let ?rest = "join (44 # w) (map f (u # vs)) @ w' @ 93 # t"
  have "read_value m' rd (f v @ 44 # w @ ?rest) = Some (v, 44 # w @ ?rest)"
    by (rule "3.prems"(3)) (use m in simp_all)
  moreover have "read_items m' rd (w @ ?rest) = Some (u # vs, t)"
    unfolding read_items_skip [OF skip_blank [OF assms(3)]] by (rule "3.IH"(2)) (use m(3) "3.prems"(3) in auto)
  ultimately show ?case by (simp add: m(1))
qed

text \<open>A writer of strings that the reader inverts.\<close>

definition str_reads :: "(jsstr \<Rightarrow> jsstr) \<Rightarrow> bool" where
  "str_reads str \<longleftrightarrow> (\<forall>s. \<exists>u. str s = 34 # u \<and> (\<forall>t. read_chars (u @ t) = Some (s, t)))"

lemma str_reads_string: "str_reads str \<Longrightarrow> read_string (str s @ t) = Some (s, t) \<and> skip (str s @ t) = str s @ t"
  unfolding str_reads_def by (erule allE [of _ s], elim exE conjE) (simp add: read_string_def)

lemma read_prop_text:
  assumes "str_reads str" and "\<And>t. num_end t \<Longrightarrow> read_value m rd (g v @ t) = Some (v, t)" and "num_end t"
  shows "read_props (Suc m) rd (str k @ 58 # 32 # g v @ t) = (case skip t of
      [] \<Rightarrow> None
    | d # x \<Rightarrow> if d = 44 then map_option (apfst ((#) (k, v))) (read_props m rd x)
        else if d = 125 then Some ([(k, v)], x) else None)"
proof -
  have "read_value m rd (32 # g v @ t) = Some (v, t)"
    using assms(2,3) by (simp add: read_value_skip [OF skip_space])
  with str_reads_string [OF assms(1), of k] show ?thesis by (simp del: read_value.simps cong: list.case_cong)
qed

lemma read_props_text:
  assumes "kvs \<noteq> []" and "sum_list (map (\<lambda>(k, v). Suc (json_need v)) kvs) \<le> m" and "blank w" and "blank w'"
    and "str_reads str"
    and "\<And>k v m t. (k, v) \<in> set kvs \<Longrightarrow> json_need v \<le> m \<Longrightarrow> num_end t \<Longrightarrow>
      read_value m rd (g v @ t) = Some (v, t)"
  shows "read_props m rd (join (44 # w) (map (\<lambda>(k, v). str k @ 58 # 32 # g v) kvs) @ w' @ 125 # t) = Some (kvs, t)"
  using assms(1,2,6)
proof (induction kvs arbitrary: m rule: induct_list012)
  case 1
  then show ?case by simp
next
  case (2 kv)
  obtain k v where kv: "kv = (k, v)" by fastforce
  with 2 obtain m' where m: "m = Suc m'" "json_need v \<le> m'" by (cases m) auto
  have "read_value m' rd (g v @ t') = Some (v, t')" if "num_end t'" for t' using "2.prems"(3) [of k v] that m kv by simp
  from read_prop_text [OF assms(5), where g = g and v = v and t = "w' @ 125 # t" and k = k, OF this] num_end_blank [OF assms(4)] assms(4) show ?case
    by (simp add: m kv)
next
  case (3 kv kw kvs)
  obtain k v where kv: "kv = (k, v)" by fastforce
  with 3 obtain m' where m: "m = Suc m'" "json_need v \<le> m'"
      "sum_list (map (\<lambda>(k, v). Suc (json_need v)) (kw # kvs)) \<le> m'" by (cases m) auto
  let ?rest = "join (44 # w) (map (\<lambda>(k, v). str k @ 58 # 32 # g v) (kw # kvs)) @ w' @ 125 # t"
  have "read_value m' rd (g v @ t') = Some (v, t')" if "num_end t'" for t' using "3.prems"(3) [of k v] that m kv by simp
  from read_prop_text [OF assms(5), where g = g and v = v and t = "44 # w @ ?rest" and k = k, OF this]
  have "read_props m rd (str k @ 58 # 32 # g v @ 44 # w @ ?rest) =
      map_option (apfst ((#) (k, v))) (read_props m' rd (w @ ?rest))" by (simp add: m)
  moreover have "read_props m' rd (w @ ?rest) = Some (kw # kvs, t)"
    unfolding read_props_skip [OF skip_blank [OF assms(3)]] by (rule "3.IH"(2)) (use m(3) "3.prems"(3) in auto)
  ultimately show ?case by (simp add: kv)
qed

lemma join_hd: "f x \<noteq> [] \<Longrightarrow> \<exists>u. join sep (map f (x # xs)) @ r = hd (f x) # u"
  by (cases "f x"; cases xs) auto

lemma join_length: "xs \<noteq> [] \<Longrightarrow> sum_list (map (\<lambda>x. Suc (length x)) xs) \<le> Suc (length (join (c # w) xs))"
  by (induction xs rule: induct_list012) simp_all

lemma json_block_length:
  assumes "\<And>x. x \<in> set xs \<Longrightarrow> w x \<le> length (f x)"
  shows "Suc (sum_list (map (\<lambda>x. Suc (w x)) xs)) \<le> length (json_block ws a (map f xs) b)"
proof (cases "xs = []")
  case True
  then show ?thesis by (simp add: json_block_def)
next
  case False
  have "sum_list (map (\<lambda>x. Suc (w x)) xs) \<le> sum_list (map (\<lambda>x. Suc (length (f x))) xs)"
    using assms by (intro sum_list_mono) simp
  with join_length [of "map f xs" 44 "fst (snd ws)"] False show ?thesis by (simp add: json_block_def comp_def)
qed

subsection \<open>The writers\<close>

text \<open>What a writer owes the reader: strings that read back, and nothing but white space in its layout.\<close>

locale json_writer =
  fixes str :: "jsstr \<Rightarrow> jsstr" and lay :: "nat \<Rightarrow> jsstr \<times> jsstr \<times> jsstr"
  assumes str_reads: "str_reads str"
    and lay_blank: "blank (fst (lay n))" "blank (fst (snd (lay n)))" "blank (snd (snd (lay n)))"
begin

lemma str_cons: "\<exists>u. str s = 34 # u \<and> (\<forall>t. read_chars (u @ t) = Some (s, t))"
  using str_reads by (simp add: str_reads_def)

lemma print_hd:
  assumes "\<forall>q \<in> set (json_numbers v). num_ok num rd q"
  shows "json_print str lay num n v \<noteq> [] \<and> \<not> json_space (hd (json_print str lay num n v)) \<and>
    hd (json_print str lay num n v) \<noteq> 93"
proof (cases v)
  case (J_num q)
  with assms show ?thesis by (cases "num q") (auto simp: num_ok_def dest: num_unit_chars)
next
  case (J_str s)
  with str_cons [of s] show ?thesis by auto
qed (simp_all add: json_literals json_block_def)

lemma read_print:
  assumes "\<forall>q \<in> set (json_numbers v). num_ok num rd q" and "json_need v \<le> m" and "num_end t"
  shows "read_value m rd (json_print str lay num n v @ t) = Some (v, t)"
  using assms
proof (induction v arbitrary: m n t)
  case (J_arr vs)
  then obtain m' where m: "m = Suc m'" by (cases m) auto
  show ?case
  proof (cases vs)
    case Nil
    then show ?thesis by (simp add: m json_block_def)
  next
    case (Cons v vs')
    let ?body = "join (44 # fst (snd (lay n))) (map (json_print str lay num (n + 2)) vs) @ snd (snd (lay n)) @ 93 # t"
    have ok: "\<forall>q \<in> set (json_numbers v). num_ok num rd q" if "v \<in> set vs" for v
      using J_arr.prems(1) that by auto
    have "read_items m' rd ?body = Some (vs, t)"
      by (rule read_items_text) (use Cons J_arr.prems(2) J_arr.IH ok lay_blank in \<open>auto simp: m\<close>)
    then have "read_items m' rd (fst (lay n) @ ?body) = Some (vs, t)"
      unfolding read_items_skip [OF skip_blank [OF lay_blank(1)]] .
    moreover have hd: "json_print str lay num (n + 2) v \<noteq> []" "\<not> json_space (hd (json_print str lay num (n + 2) v))"
      "hd (json_print str lay num (n + 2) v) \<noteq> 93" using print_hd [OF ok [of v]] Cons by simp_all
    from join_hd [of "json_print str lay num (n + 2)" v, OF hd(1)] obtain u where
      "?body = hd (json_print str lay num (n + 2) v) # u" unfolding Cons by blast
    with hd(2,3) have "skip ?body = hd (json_print str lay num (n + 2) v) # u" by simp
    moreover note hd(3)
    ultimately show ?thesis using Cons by (simp add: m json_block_def lay_blank)
  qed
next
  case (J_obj kvs)
  then obtain m' where m: "m = Suc m'" by (cases m) auto
  show ?case
  proof (cases kvs)
    case Nil
    then show ?thesis by (simp add: m json_block_def)
  next
    case (Cons kv kvs')
    let ?item = "\<lambda>(k, v). str k @ 58 # 32 # json_print str lay num (n + 2) v"
    let ?body = "join (44 # fst (snd (lay n))) (map ?item kvs) @ snd (snd (lay n)) @ 125 # t"
    have ok: "\<forall>q \<in> set (json_numbers v). num_ok num rd q" if "(k, v) \<in> set kvs" for k v
      using J_obj.prems(1) that by auto
    have "read_props m' rd ?body = Some (kvs, t)"
      by (rule read_props_text) (use Cons J_obj.prems(2) J_obj.IH ok lay_blank str_reads in \<open>auto simp: m\<close>)
    then have "read_props m' rd (fst (lay n) @ ?body) = Some (kvs, t)"
      unfolding read_props_skip [OF skip_blank [OF lay_blank(1)]] .
    moreover have hd: "?item kv \<noteq> []" "hd (?item kv) = 34" using str_cons [of "fst kv"] by (auto simp: case_prod_unfold)
    from join_hd [of ?item kv, OF hd(1)] obtain u where "?body = hd (?item kv) # u" unfolding Cons by blast
    then have "?body = 34 # u" unfolding hd(2) .
    then have "skip ?body = 34 # u" by (simp only: skip_text json_punctuation not_False_eq_True)
    ultimately show ?thesis using Cons by (simp add: m json_block_def lay_blank case_prod_unfold)
  qed
next
  case (J_num q)
  then show ?case using read_number [of num rd q t "m - 1"] by (cases m) auto
next
  case (J_str s)
  then show ?case using str_cons [of s] by (cases m) auto
qed (auto simp: json_literals read_scalar_def gr0_conv_Suc Suc_le_eq)

lemma need_length:
  "\<forall>q \<in> set (json_numbers v). num_ok num rd q \<Longrightarrow> json_need v \<le> length (json_print str lay num n v)"
proof (induction v arbitrary: n)
  case (J_arr vs)
  have "json_need v \<le> length (json_print str lay num (n + 2) v)" if "v \<in> set vs" for v
    using J_arr.IH [OF that] J_arr.prems that by auto
  then show ?case
    using json_block_length [of vs json_need "json_print str lay num (n + 2)" "lay n" 91 93] by simp
next
  case (J_obj kvs)
  have "json_need (snd kv) \<le> length (str (fst kv) @ [58, 32] @ json_print str lay num (n + 2) (snd kv))"
    if "kv \<in> set kvs" for kv
    using J_obj.IH [OF that, of "snd kv" "n + 2"] J_obj.prems that by (cases kv) fastforce
  then show ?case
    using json_block_length [of kvs "\<lambda>kv. json_need (snd kv)"
        "\<lambda>kv. str (fst kv) @ [58, 32] @ json_print str lay num (n + 2) (snd kv)" "lay n" 123 125]
    by (simp add: case_prod_unfold)
next
  case (J_str s)
  then show ?case using str_cons [of s] by auto
qed (auto simp: json_literals num_ok_def Suc_le_eq)

lemma read_json_print:
  assumes "\<forall>q \<in> set (json_numbers v). num_ok num rd q"
  shows "read_json rd (json_print str lay num n v) = Some v"
  using read_print [OF assms, of "Suc (length (json_print str lay num n v))" "[]" n]
    need_length [OF assms, of n] by (simp add: read_json_def skip_def)

end

lemma str_reads_json: "str_reads json_string"
  by (simp add: str_reads_def json_string_def read_json_chars)

lemma blank_spaces [simp]: "blank (spaces n)"
  by (simp add: spaces_def json_space_def list_all_length)

interpretation js_writer: json_writer json_string lines_layout
  by unfold_locales (simp_all add: str_reads_json lines_layout_def json_space_def)

theorem read_json_text:
  assumes "\<forall>q \<in> set (json_numbers v). num_ok num rd q"
  shows "read_json rd (json_text num n v) = Some v"
  unfolding json_text_def using assms by (rule js_writer.read_json_print)

text \<open>On the values whose numbers the engine reads back, the writer and the reader are a codec.\<close>

interpretation json_text: codec
  "\<lambda>v. if list_all (num_ok num rd) (json_numbers v) then Some (json_text num n v) else None"
  "read_json rd"
  by unfold_locales (auto simp: list_all_iff read_json_text split: if_splits)

end
