(* ===== verification/Types.thy ===== *)
theory Types
  imports JsonText Complex_Main
begin

text \<open>
  The data the dashboard exchanges with the backend: the interfaces of \<open>types.ts\<close> and the
  exported types of \<open>api.ts\<close>.  A finite JavaScript number is its mathematical value: \<open>int\<close> or \<open>nat\<close>
  for the integers (ids, ports, sizes, counts), \<open>rat\<close> where fractions occur.  An optional field,
  and a field that may be missing at run time, is an \<open>option\<close>; \<open>undefined\<close> and \<open>null\<close> are both \<open>None\<close>,
  since every use in the program (\<open>??\<close>, \<open>filter(Boolean)\<close>, truth tests) treats them alike.
\<close>

subsection \<open>types.ts\<close>

record process_ref =
  pr_pid :: int
  pr_name :: jsstr
  pr_parent_pid :: int

record network_ref =
  nr_dst_ip :: jsstr
  nr_dst_port :: int
  nr_protocol :: jsstr

record file_ref =
  fr_path :: jsstr
  fr_action :: jsstr

datatype event_type = Process_spawn | File_write | File_delete | Network_connect

record mirra_event =
  event_id :: jsstr
  device_id :: jsstr
  event_type :: event_type
  process_ref :: "process_ref option"
  network_ref :: "network_ref option"
  file_ref :: "file_ref option"
  event_timestamp :: jsstr
  baseline_deviation_score :: rat

datatype verdict_label = Normal | Suspicious | Compromised | Inconclusive

record verdict =
  verdict_id :: jsstr
  sample_hash :: jsstr
  sample_filename :: jsstr
  verdict_label :: verdict_label
  confidence :: rat
  causal_chain :: "jsstr list"
  verdict_timestamp :: jsstr
  prev_log_hash :: jsstr
  detection_method :: jsstr
  verdict_source :: jsstr

definition label_str :: "verdict_label \<Rightarrow> jsstr" where
  "label_str l = (case l of
     Normal \<Rightarrow> js ''Normal'' | Suspicious \<Rightarrow> js ''Suspicious''
   | Compromised \<Rightarrow> js ''Compromised'' | Inconclusive \<Rightarrow> js ''Inconclusive'')"

lemma label_str_inj [simp]: "label_str a = label_str b \<longleftrightarrow> a = b"
  by (cases a; cases b) (simp_all add: label_str_def)

definition event_type_str :: "event_type \<Rightarrow> jsstr" where
  "event_type_str t = (case t of
     Process_spawn \<Rightarrow> js ''process_spawn'' | File_write \<Rightarrow> js ''file_write''
   | File_delete \<Rightarrow> js ''file_delete'' | Network_connect \<Rightarrow> js ''network_connect'')"

lemma event_type_str_inj [simp]: "event_type_str a = event_type_str b \<longleftrightarrow> a = b"
  by (cases a; cases b) (simp_all add: event_type_str_def)

subsection \<open>The rows of the audit log\<close>

text \<open>
  \<open>GET /api/verdicts\<close> returns every entry of the log: verdicts, and the records of human actions,
  which carry \<open>record_id\<close>, \<open>action\<close> and \<open>actor\<close> but none of the fields of a verdict.  \<open>AuditLogTable\<close>
  types them as \<open>Verdict & {action?, device_id?, record_id?, hash?, actor?}\<close>; at run time each
  field may be missing.
\<close>

record audit_row =
  row_verdict_id :: "jsstr option"
  row_sample_hash :: "jsstr option"
  row_sample_filename :: "jsstr option"
  row_verdict :: "verdict_label option"
  row_confidence :: "rat option"
  row_timestamp :: "jsstr option"
  row_detection_method :: "jsstr option"
  row_source :: "jsstr option"
  row_action :: "jsstr option"
  row_device_id :: "jsstr option"
  row_record_id :: "jsstr option"
  row_hash :: "jsstr option"
  row_actor :: "jsstr option"
  row_raw :: json_value

text \<open>
  The row for an object of the response: what reading each property finds, a missing property, \<open>null\<close>
  and a value the interface does not provide for being \<open>None\<close>.  \<open>row_raw\<close> is the object itself, with
  whatever other properties the backend sent.
\<close>

definition str_prop :: "json_value \<Rightarrow> string \<Rightarrow> jsstr option" where
  "str_prop j k = (case json_field (js k) j of Some (J_str s) \<Rightarrow> Some s | _ \<Rightarrow> None)"

definition num_prop :: "json_value \<Rightarrow> string \<Rightarrow> rat option" where
  "num_prop j k = (case json_field (js k) j of Some (J_num q) \<Rightarrow> Some q | _ \<Rightarrow> None)"

definition label_of :: "jsstr \<Rightarrow> verdict_label option" where
  "label_of s = find (\<lambda>l. label_str l = s) [Normal, Suspicious, Compromised, Inconclusive]"

definition audit_row_of :: "json_value \<Rightarrow> audit_row" where
  "audit_row_of j = \<lparr>row_verdict_id = str_prop j ''verdict_id'', row_sample_hash = str_prop j ''sample_hash'',
     row_sample_filename = str_prop j ''sample_filename'',
     row_verdict = Option.bind (str_prop j ''verdict'') label_of, row_confidence = num_prop j ''confidence'',
     row_timestamp = str_prop j ''timestamp'', row_detection_method = str_prop j ''detection_method'',
     row_source = str_prop j ''source'', row_action = str_prop j ''action'',
     row_device_id = str_prop j ''device_id'', row_record_id = str_prop j ''record_id'',
     row_hash = str_prop j ''hash'', row_actor = str_prop j ''actor'', row_raw = j\<rparr>"

lemma label_of_str [simp]: "label_of (label_str l) = Some l"
  by (cases l) (simp_all add: label_of_def)

text \<open>A verdict as an object of the interface \<open>Verdict\<close>.\<close>

definition verdict_json :: "verdict \<Rightarrow> json_value" where
  "verdict_json v = J_obj [
     (js ''verdict_id'', J_str (verdict_id v)), (js ''sample_hash'', J_str (sample_hash v)),
     (js ''sample_filename'', J_str (sample_filename v)), (js ''verdict'', J_str (label_str (verdict_label v))),
     (js ''confidence'', J_num (confidence v)), (js ''causal_chain'', J_arr (map J_str (causal_chain v))),
     (js ''timestamp'', J_str (verdict_timestamp v)), (js ''prev_log_hash'', J_str (prev_log_hash v)),
     (js ''detection_method'', J_str (detection_method v)), (js ''source'', J_str (verdict_source v))]"

lemma audit_row_of_verdict: "audit_row_of (verdict_json v) =
    \<lparr>row_verdict_id = Some (verdict_id v), row_sample_hash = Some (sample_hash v),
     row_sample_filename = Some (sample_filename v), row_verdict = Some (verdict_label v),
     row_confidence = Some (confidence v), row_timestamp = Some (verdict_timestamp v),
     row_detection_method = Some (detection_method v), row_source = Some (verdict_source v),
     row_action = None, row_device_id = None, row_record_id = None, row_hash = None,
     row_actor = None, row_raw = verdict_json v\<rparr>"
  by (simp add: audit_row_of_def verdict_json_def str_prop_def num_prop_def json_field_def)

subsection \<open>The exported types of api.ts\<close>

datatype review_status = Pending | Approved | Rejected
datatype proposal_source = Auto | Manual
datatype role = Admin | Analyst

definition role_str :: "role \<Rightarrow> jsstr" where
  "role_str r = (case r of Admin \<Rightarrow> js ''admin'' | Analyst \<Rightarrow> js ''analyst'')"

definition source_str :: "proposal_source \<Rightarrow> jsstr" where
  "source_str s = (case s of Auto \<Rightarrow> js ''auto'' | Manual \<Rightarrow> js ''manual'')"

record hash_entry =
  he_hash :: jsstr
  he_label :: jsstr
  he_status :: review_status
  he_source :: proposal_source
  he_proposed_at :: jsstr
  he_reviewed_at :: "jsstr option"

record corpus_entry =
  ce_content_hash :: jsstr
  ce_label :: jsstr
  ce_status :: review_status
  ce_source :: proposal_source
  ce_proposed_at :: jsstr
  ce_reviewed_at :: "jsstr option"
  ce_size :: nat
  ce_preview :: jsstr

record quarantine_entry =
  qe_id :: int
  qe_sample_hash :: jsstr
  qe_filename :: jsstr
  qe_original_path :: jsstr
  qe_verdict_label :: jsstr
  qe_confidence :: rat
  qe_status :: review_status
  qe_created_at :: jsstr

record user_entry =
  ue_username :: jsstr
  ue_role :: role

record chain_status =
  intact :: bool
  chain_entries :: nat
  broken_at :: "nat option"

text \<open>The signed-in user as \<open>login\<close> and \<open>me\<close> report it: the role is any string.\<close>

record session_user =
  su_username :: jsstr
  su_role :: jsstr

text \<open>The source of a live message: \<open>LiveMessage\<close> provides for the first two, and the backend also sends
  \<open>interceptor\<close> for the downloads it holds.\<close>

datatype live_source = Sample | Monitor | Interceptor

datatype live_message =
    Live_event live_source mirra_event
  | Live_verdict live_source verdict
  | Live_isolated
  | Live_reconnected

end
