(* ===== verification/Api.thy ===== *)
theory Api
  imports Types Json
begin

text \<open>
  \<open>api.ts\<close> without the socket: what each client function sends (\<open>send_of\<close>, one equation per
  function), how \<open>request\<close> turns an HTTP outcome into a value or an exception, the SHA-256 helpers,
  and the pure functions that fold live messages into the two event feeds.  A promise that rejects
  is \<open>Inl\<close> of an exception; the platform (\<open>fetch\<close>, \<open>crypto.subtle\<close>, \<open>File\<close>) supplies outcomes.
\<close>

subsection \<open>Exceptions, files and HTTP\<close>

text \<open>What a promise can reject with, as far as the handlers look: an \<open>ApiError\<close> with its status, any
  other \<open>Error\<close>, or a value that is no \<open>Error\<close> at all.\<close>

datatype js_exn = Api_error jsstr nat | Js_error jsstr | Not_an_error

definition exn_message :: "js_exn \<Rightarrow> jsstr \<Rightarrow> jsstr" where
  "exn_message e fallback =
     (case e of Api_error m _ \<Rightarrow> m | Js_error m \<Rightarrow> m | Not_an_error \<Rightarrow> fallback)"

definition is_status :: "nat \<Rightarrow> js_exn \<Rightarrow> bool" where
  "is_status n e = (case e of Api_error _ s \<Rightarrow> s = n | _ \<Rightarrow> False)"

lemma is_status_simps [simp]:
  "is_status n (Api_error m s) = (s = n)" "\<not> is_status n (Js_error m)" "\<not> is_status n Not_an_error"
  by (simp_all add: is_status_def)

lemma is_status_unique: "is_status n e \<Longrightarrow> is_status m e \<Longrightarrow> n = m"
  by (cases e) auto

text \<open>A \<open>File\<close>: its name, its size, and what reading it as an \<open>ArrayBuffer\<close> gives.\<close>

record js_file =
  file_name :: jsstr
  file_size :: nat
  file_bytes :: "js_exn + byte list"

datatype http_method = GET | POST | PATCH | DELETE

datatype body = Text_body jsstr | Form_body "(jsstr \<times> js_file) list"

record request_init =
  ri_method :: "http_method option"
  ri_headers :: "(jsstr \<times> jsstr) list"
  ri_body :: "body option"

record http_request =
  rq_path :: jsstr
  rq_method :: http_method
  rq_headers :: "(jsstr \<times> jsstr) list"
  rq_body :: "body option"
  rq_same_origin :: bool

text \<open>The outcome of \<open>fetch\<close>: rejected, or a response with its status and what \<open>text()\<close> and
  \<open>json()\<close> resolve to.\<close>

datatype 'a fetch_outcome =
    Fetch_rejects js_exn
  | Fetch_response nat "js_exn + jsstr" "js_exn + 'a"

definition no_init :: request_init where
  "no_init = \<lparr>ri_method = None, ri_headers = [], ri_body = None\<rparr>"

definition bare :: "http_method \<Rightarrow> request_init" where
  "bare m = \<lparr>ri_method = Some m, ri_headers = [], ri_body = None\<rparr>"

definition json_init :: "http_method \<Rightarrow> (jsstr \<times> jsstr) list \<Rightarrow> request_init" where
  "json_init m kvs = \<lparr>ri_method = Some m,
     ri_headers = [(js ''Content-Type'', js ''application/json'')],
     ri_body = Some (Text_body (json_object kvs))\<rparr>"

text \<open>\<open>request\<close>: the call \<open>fetch(path, {...init, credentials: "same-origin"})\<close> and what is made of
  its outcome; \<open>None\<close> is the \<open>undefined\<close> of a 204.\<close>

definition request_send :: "jsstr \<Rightarrow> request_init \<Rightarrow> http_request" where
  "request_send p i = \<lparr>rq_path = p,
     rq_method = (case ri_method i of None \<Rightarrow> GET | Some m \<Rightarrow> m),
     rq_headers = ri_headers i, rq_body = ri_body i, rq_same_origin = True\<rparr>"

definition res_ok :: "nat \<Rightarrow> bool" where
  "res_ok status \<longleftrightarrow> 200 \<le> status \<and> status < 300"

definition request :: "'a fetch_outcome \<Rightarrow> js_exn + 'a option" where
  "request out = (case out of
     Fetch_rejects e \<Rightarrow> Inl e
   | Fetch_response status text json \<Rightarrow>
       if \<not> res_ok status
       then (case text of Inl e \<Rightarrow> Inl e | Inr t \<Rightarrow> Inl (Api_error t status))
       else if status = 204 then Inr None
       else (case json of Inl e \<Rightarrow> Inl e | Inr v \<Rightarrow> Inr (Some v)))"

lemma request_ok_iff:
  "request out = Inr r \<longleftrightarrow>
     (\<exists>status text json. out = Fetch_response status text json \<and> res_ok status \<and>
        (if status = 204 then r = None else \<exists>v. json = Inr v \<and> r = Some v))"
  by (cases out) (auto simp: request_def split: sum.splits)

subsection \<open>The client functions\<close>

datatype api_call =
    Login jsstr jsstr
  | Logout
  | Me
  | Upload_sample js_file
  | Fetch_verdicts
  | Fetch_monitor_status
  | Fetch_chain_status
  | Reconnect_monitor
  | Fetch_hashes
  | Submit_hash jsstr jsstr
  | Approve_hash jsstr
  | Reject_hash jsstr
  | Fetch_corpus_pending
  | Submit_corpus_sample js_file jsstr
  | Approve_corpus_entry jsstr
  | Reject_corpus_entry jsstr
  | Fetch_users
  | Create_user jsstr jsstr role
  | Delete_user jsstr
  | Update_user_role jsstr role
  | Fetch_quarantine_pending
  | Approve_quarantine int
  | Reject_quarantine int

definition dec_int :: "int \<Rightarrow> jsstr" where
  "dec_int i = (if i < 0 then [45] @ dec (nat (- i)) else dec (nat i))"

text \<open>\<open>for (const b of bytes) binary += String.fromCharCode(b)\<close>.\<close>

definition binary_string :: "byte list \<Rightarrow> jsstr" where
  "binary_string bs = foldl (\<lambda>acc b. acc @ [of_nat (unat b)]) [] bs"

definition uri_error :: js_exn where
  "uri_error = Js_error (js ''URI malformed'')"

definition invalid_character :: js_exn where
  "invalid_character = Js_error (js ''InvalidCharacterError'')"

definition submitCorpusSample :: "js_file \<Rightarrow> jsstr \<Rightarrow> js_exn + request_init" where
  "submitCorpusSample f label = (case file_bytes f of
     Inl e \<Rightarrow> Inl e
   | Inr bytes \<Rightarrow>
       (case btoa (binary_string bytes) of
          None \<Rightarrow> Inl invalid_character
        | Some b64 \<Rightarrow> Inr (json_init POST [(js ''content_b64'', b64), (js ''label'', label)])))"

definition user_path :: "jsstr \<Rightarrow> jsstr option" where
  "user_path u = map_option (\<lambda>e. js ''/api/users/'' @ e) (encodeURIComponent u)"

text \<open>What each function hands to \<open>request\<close>, or the exception it throws before that.\<close>

fun send_of :: "api_call \<Rightarrow> js_exn + http_request" where
  "send_of (Login u p) = Inr (request_send (js ''/api/login'')
     (json_init POST [(js ''username'', u), (js ''password'', p)]))"
| "send_of Logout = Inr (request_send (js ''/api/logout'') (bare POST))"
| "send_of Me = Inr (request_send (js ''/api/me'') no_init)"
| "send_of (Upload_sample f) = Inr (request_send (js ''/api/samples'')
     \<lparr>ri_method = Some POST, ri_headers = [], ri_body = Some (Form_body [(js ''sample'', f)])\<rparr>)"
| "send_of Fetch_verdicts = Inr (request_send (js ''/api/verdicts'') no_init)"
| "send_of Fetch_monitor_status = Inr (request_send (js ''/api/monitor/status'') no_init)"
| "send_of Fetch_chain_status = Inr (request_send (js ''/api/audit/verify'') no_init)"
| "send_of Reconnect_monitor = Inr (request_send (js ''/api/monitor/reconnect'') (bare POST))"
| "send_of Fetch_hashes = Inr (request_send (js ''/api/hashes'') no_init)"
| "send_of (Submit_hash h l) = Inr (request_send (js ''/api/hashes'')
     (json_init POST [(js ''hash'', h), (js ''label'', l)]))"
| "send_of (Approve_hash h) =
     Inr (request_send (js ''/api/hashes/'' @ h @ js ''/approve'') (bare POST))"
| "send_of (Reject_hash h) =
     Inr (request_send (js ''/api/hashes/'' @ h @ js ''/reject'') (bare POST))"
| "send_of Fetch_corpus_pending = Inr (request_send (js ''/api/corpus'') no_init)"
| "send_of (Submit_corpus_sample f l) = (case submitCorpusSample f l of
     Inl e \<Rightarrow> Inl e | Inr i \<Rightarrow> Inr (request_send (js ''/api/corpus'') i))"
| "send_of (Approve_corpus_entry h) =
     Inr (request_send (js ''/api/corpus/'' @ h @ js ''/approve'') (bare POST))"
| "send_of (Reject_corpus_entry h) =
     Inr (request_send (js ''/api/corpus/'' @ h @ js ''/reject'') (bare POST))"
| "send_of Fetch_users = Inr (request_send (js ''/api/users'') no_init)"
| "send_of (Create_user u p r) = Inr (request_send (js ''/api/users'')
     (json_init POST [(js ''username'', u), (js ''password'', p), (js ''role'', role_str r)]))"
| "send_of (Delete_user u) = (case user_path u of
     None \<Rightarrow> Inl uri_error | Some p \<Rightarrow> Inr (request_send p (bare DELETE)))"
| "send_of (Update_user_role u r) = (case user_path u of
     None \<Rightarrow> Inl uri_error
   | Some p \<Rightarrow> Inr (request_send (p @ js ''/role'') (json_init PATCH [(js ''role'', role_str r)])))"
| "send_of Fetch_quarantine_pending = Inr (request_send (js ''/api/intercept/pending'') no_init)"
| "send_of (Approve_quarantine i) =
     Inr (request_send (js ''/api/intercept/'' @ dec_int i @ js ''/approve'') (bare POST))"
| "send_of (Reject_quarantine i) =
     Inr (request_send (js ''/api/intercept/'' @ dec_int i @ js ''/reject'') (bare POST))"

text \<open>\<open>fetchCorpusPending\<close> keeps the pending entries of the answer.\<close>

definition corpus_pending :: "corpus_entry list \<Rightarrow> corpus_entry list" where
  "corpus_pending entries = filter (\<lambda>e. ce_status e = Pending) entries"

subsection \<open>SHA-256 helpers\<close>

definition sha256Hex :: "(byte list \<Rightarrow> js_exn + byte list) \<Rightarrow> js_file \<Rightarrow> js_exn + jsstr" where
  "sha256Hex digest f = (case file_bytes f of
     Inl e \<Rightarrow> Inl e
   | Inr buf \<Rightarrow> (case digest buf of Inl e \<Rightarrow> Inl e | Inr d \<Rightarrow> Inr (concat (map hex_byte d))))"

text \<open>\<open>/^[a-f0-9]{64}$/\<close>, without the multi-line flag.\<close>

definition sha_char :: "code_unit \<Rightarrow> bool" where
  "sha_char c \<longleftrightarrow> 97 \<le> c \<and> c \<le> 102 \<or> 48 \<le> c \<and> c \<le> 57"

definition isValidSha256 :: "jsstr \<Rightarrow> bool" where
  "isValidSha256 s \<longleftrightarrow> length s = 64 \<and> list_all sha_char s"

lemma sha_char_hex_val: "sha_char c \<longleftrightarrow> hex_val c \<noteq> None"
  by (auto simp: sha_char_def hex_val_def Let_def word_le_nat_alt)

subsection \<open>The live feeds\<close>

definition MAX_EVENTS :: nat where
  "MAX_EVENTS = 500"

definition applyLiveEvent :: "mirra_event list \<Rightarrow> live_message \<Rightarrow> mirra_event list" where
  "applyLiveEvent events msg = (case msg of
     Live_event Sample e \<Rightarrow> slice_neg MAX_EVENTS (events @ [e])
   | _ \<Rightarrow> events)"

definition applyMonitorEvent :: "mirra_event list \<Rightarrow> live_message \<Rightarrow> mirra_event list" where
  "applyMonitorEvent events msg = (case msg of
     Live_event Monitor e \<Rightarrow> slice_neg MAX_EVENTS (events @ [e])
   | _ \<Rightarrow> events)"

definition shouldUpdateSampleVerdict :: "live_message \<Rightarrow> bool" where
  "shouldUpdateSampleVerdict msg = (case msg of Live_verdict Sample _ \<Rightarrow> True | _ \<Rightarrow> False)"

text \<open>What a feed promises: it holds the latest events of one source, at most \<open>MAX_EVENTS\<close> of
  them, in order of arrival.\<close>

fun events_from :: "live_source \<Rightarrow> live_message list \<Rightarrow> mirra_event list" where
  "events_from src [] = []"
| "events_from src (Live_event s e # ms) = (if s = src then e # events_from src ms else events_from src ms)"
| "events_from src (_ # ms) = events_from src ms"

lemma events_from_append: "events_from src (ms @ ns) = events_from src ms @ events_from src ns"
  by (induction src ms rule: events_from.induct) auto

locale live_feed =
  fixes src :: live_source
    and feed :: "mirra_event list \<Rightarrow> live_message \<Rightarrow> mirra_event list"
  assumes feed_own: "feed es (Live_event src e) = last_n MAX_EVENTS (es @ [e])"
    and feed_other: "\<not> (\<exists>e. msg = Live_event src e) \<Longrightarrow> feed es msg = es"
begin

lemma feed_one: "feed (last_n MAX_EVENTS es) m = last_n MAX_EVENTS (es @ events_from src [m])"
proof (cases "\<exists>e. m = Live_event src e")
  case True
  then show ?thesis by (auto simp: feed_own last_n_snoc)
next
  case False
  then have "events_from src [m] = []" by (cases m) auto
  with False show ?thesis by (simp add: feed_other)
qed

lemma feed_run: "foldl feed (last_n MAX_EVENTS es) ms = last_n MAX_EVENTS (es @ events_from src ms)"
proof (induction ms arbitrary: es)
  case Nil
  show ?case by simp
next
  case (Cons m ms)
  have "events_from src (m # ms) = events_from src [m] @ events_from src ms"
    using events_from_append [of src "[m]" ms] by simp
  then show ?case by (simp add: feed_one Cons.IH)
qed

end

interpretation sample_feed: live_feed Sample applyLiveEvent
proof unfold_locales
  show "applyLiveEvent es (Live_event Sample e) = last_n MAX_EVENTS (es @ [e])" for es e
    by (simp add: applyLiveEvent_def slice_neg_last_n MAX_EVENTS_def)
  show "applyLiveEvent es msg = es" if "\<not> (\<exists>e. msg = Live_event Sample e)" for es msg
    using that by (auto simp: applyLiveEvent_def split: live_message.splits live_source.splits)
qed

interpretation monitor_feed: live_feed Monitor applyMonitorEvent
proof unfold_locales
  show "applyMonitorEvent es (Live_event Monitor e) = last_n MAX_EVENTS (es @ [e])" for es e
    by (simp add: applyMonitorEvent_def slice_neg_last_n MAX_EVENTS_def)
  show "applyMonitorEvent es msg = es" if "\<not> (\<exists>e. msg = Live_event Monitor e)" for es msg
    using that by (auto simp: applyMonitorEvent_def split: live_message.splits live_source.splits)
qed

subsection \<open>Paths\<close>

text \<open>The segments of a path, as the server's router sees them.\<close>

fun segments :: "jsstr \<Rightarrow> jsstr list" where
  "segments [] = [[]]"
| "segments (c # s) = (if c = 47 then [] # segments s
     else (case segments s of [] \<Rightarrow> [[c]] | t # ts \<Rightarrow> (c # t) # ts))"

lemma segments_ne [simp]: "segments s \<noteq> []"
  by (cases s) (auto split: list.splits)

lemma segments_plain: "\<forall>c \<in> set s. c \<noteq> 47 \<Longrightarrow> segments s = [s]"
  by (induction s) auto

lemma segments_slash: "\<forall>c \<in> set s. c \<noteq> 47 \<Longrightarrow> segments (s @ 47 # t) = s # segments t"
  by (induction s) auto

lemma segments_users: "segments (js ''/api/users/'' @ s) = [[], js ''api'', js ''users''] @ segments s"
  by (simp add: js_def)

lemma sha_not_slash: "isValidSha256 h \<Longrightarrow> c \<in> set h \<Longrightarrow> c \<noteq> 47"
  by (auto simp: isValidSha256_def list_all_iff sha_char_hex_val hex_val_def)

lemma segments_api:
  "\<forall>c \<in> set a. c \<noteq> 47 \<Longrightarrow> \<forall>c \<in> set b. c \<noteq> 47 \<Longrightarrow>
   segments (js ''/api/hashes/'' @ a @ 47 # b) = [[], js ''api'', js ''hashes'', a, b] \<and>
   segments (js ''/api/corpus/'' @ a @ 47 # b) = [[], js ''api'', js ''corpus'', a, b]"
  by (simp add: js_def segments_slash segments_plain)

lemma encoded_not_slash: "encodeURIComponent u = Some e \<Longrightarrow> \<forall>c \<in> set e. c \<noteq> 47"
  using encodeURIComponent_safe uri_safe_not_slash by blast

lemma binary_string_map: "binary_string bs = map (\<lambda>b. of_nat (unat b)) bs"
proof -
  have "foldl (\<lambda>acc b. acc @ [of_nat (unat b)]) acc bs = acc @ map (\<lambda>b. of_nat (unat (b :: byte))) bs"
    for acc :: jsstr
    by (induction bs arbitrary: acc) simp_all
  then show ?thesis by (simp add: binary_string_def)
qed

lemma unat_binary_unit [simp]: "unat (ucast (b :: byte) :: code_unit) = unat b"
  using unat_byte_less [of b] by (simp add: unsigned_ucast_eq take_bit_nat_eq_self)

lemma binary_unit_byte [simp]: "(ucast (ucast (b :: byte) :: code_unit) :: byte) = b"
  by (simp add: word_unat_eq_iff unsigned_ucast_eq take_bit_word_eq_self)

lemma btoa_binary: "\<exists>t. btoa (binary_string bs) = Some t"
  using unat_byte_less by (simp add: btoa_def binary_string_map list_all_iff)

lemma hex_byte_sha: "c \<in> set (hex_byte b) \<Longrightarrow> sha_char c"
  using unat_byte_div [of b] by (auto simp: hex_byte_digits sha_char_hex_val)

lemma hex_bytes_sha: "length d = 32 \<Longrightarrow> isValidSha256 (concat (map hex_byte d))"
proof -
  have "length (concat (map hex_byte d)) = 2 * length d" by (induction d) simp_all
  then show "length d = 32 \<Longrightarrow> isValidSha256 (concat (map hex_byte d))"
    by (auto simp: isValidSha256_def list_all_iff intro: hex_byte_sha)
qed

subsection \<open>Properties\<close>

text \<open>Whatever messages arrive and in whatever order, the shadow-run feed holds exactly the last
  500 events of source "sample" and the monitoring feed the last 500 of source "monitor", each in
  order of arrival; verdicts and device messages leave both alone.\<close>

theorem live_feeds_latest:
  "foldl applyLiveEvent [] ms = last_n 500 (events_from Sample ms) \<and>
   foldl applyMonitorEvent [] ms = last_n 500 (events_from Monitor ms)"
  using sample_feed.feed_run [of "[]" ms] monitor_feed.feed_run [of "[]" ms]
  by (simp add: MAX_EVENTS_def)

text \<open>For every user name that can be sent at all, removing the user and changing the role
  address a path in which the name is one segment, whatever characters it holds, and that segment
  decodes to the name; a name with a lone surrogate is refused before anything is sent.\<close>

theorem user_requests_address_user:
  "(\<forall>e. encodeURIComponent u = Some e \<longrightarrow>
      (\<exists>rq. send_of (Delete_user u) = Inr rq \<and> rq_method rq = DELETE \<and>
         segments (rq_path rq) = [[], js ''api'', js ''users'', e]) \<and>
      (\<exists>rq. send_of (Update_user_role u r) = Inr rq \<and> rq_method rq = PATCH \<and>
         segments (rq_path rq) = [[], js ''api'', js ''users'', e, js ''role'']) \<and>
      decodeURIComponent e = Some u) \<and>
   (encodeURIComponent u = None \<longrightarrow>
      send_of (Delete_user u) = Inl uri_error \<and> send_of (Update_user_role u r) = Inl uri_error)"
proof -
  have role: "js ''/role'' = 47 # js ''role''" by (simp add: js_def)
  have "segments (js ''/api/users/'' @ e) = [[], js ''api'', js ''users'', e] \<and>
      segments (js ''/api/users/'' @ e @ js ''/role'') = [[], js ''api'', js ''users'', e, js ''role'']"
    if "encodeURIComponent u = Some e" for e
    using encoded_not_slash [OF that]
    by (simp only: segments_users role) (simp add: segments_plain segments_slash, simp add: js_def)
  then show ?thesis
    by (auto simp: user_path_def request_send_def bare_def json_init_def uri.decode_enc)
qed

theorem user_requests_address_user_witness:
  "\<exists>rq. send_of (Delete_user (js ''a/b'')) = Inr rq \<and>
     segments (rq_path rq) = [[], js ''api'', js ''users'', js ''a%2Fb'']"
proof -
  have "encodeURIComponent (js ''a/b'') = Some (js ''a%2Fb'')"
    by (simp add: encodeURIComponent_def js_def high_surrogate_def low_surrogate_def uri_point_def
        uri_unreserved_def percent_def utf8_def upper_digit_def)
  from conjunct1 [OF user_requests_address_user, rule_format, OF this, THEN conjunct1]
  show ?thesis by (elim exE conjE) (rule exI, rule conjI)
qed

text \<open>A decision on a hash or a corpus sample whose identifier is a SHA-256 hash posts to a path
  in which the whole hash is one segment, between the collection and the verb.\<close>

theorem hash_requests_address_hash:
  assumes "isValidSha256 h"
  shows "\<exists>a b c d. send_of (Approve_hash h) = Inr a \<and> send_of (Reject_hash h) = Inr b \<and>
    send_of (Approve_corpus_entry h) = Inr c \<and> send_of (Reject_corpus_entry h) = Inr d \<and>
    segments (rq_path a) = [[], js ''api'', js ''hashes'', h, js ''approve''] \<and>
    segments (rq_path b) = [[], js ''api'', js ''hashes'', h, js ''reject''] \<and>
    segments (rq_path c) = [[], js ''api'', js ''corpus'', h, js ''approve''] \<and>
    segments (rq_path d) = [[], js ''api'', js ''corpus'', h, js ''reject''] \<and>
    (\<forall>rq \<in> {a, b, c, d}. rq_method rq = POST \<and> rq_body rq = None)"
proof -
  have verbs: "js ''/approve'' = 47 # js ''approve''" "js ''/reject'' = 47 # js ''reject''"
    by (simp_all add: js_def)
  have ns: "\<forall>c \<in> set (js ''approve''). c \<noteq> 47" "\<forall>c \<in> set (js ''reject''). c \<noteq> 47"
    by (simp_all add: js_def)
  have h: "\<forall>c \<in> set h. c \<noteq> 47" using sha_not_slash [OF assms] by blast
  show ?thesis using segments_api [OF h ns(1)] segments_api [OF h ns(2)]
    by (simp add: verbs request_send_def bare_def)
qed

theorem hash_requests_address_hash_witness:
  "\<exists>a. send_of (Approve_hash (replicate 64 97)) = Inr a \<and>
     segments (rq_path a) = [[], js ''api'', js ''hashes'', replicate 64 97, js ''approve'']"
proof -
  have "isValidSha256 (replicate 64 97)" by (simp add: isValidSha256_def list_all_iff sha_char_def)
  from hash_requests_address_hash [OF this] show ?thesis by blast
qed

text \<open>The JSON bodies carry the user's input unchanged: reading the body of a sign-in, a new
  user, a role change or a proposed hash as JSON gives exactly the strings that went in, whatever
  quotes, control characters or surrogates they hold.\<close>

theorem json_bodies_read_back:
  "\<exists>a b c. send_of (Login u p) = Inr a \<and> send_of (Create_user u p r) = Inr b \<and>
     send_of (Submit_hash h l) = Inr c \<and>
     (\<exists>t. rq_body a = Some (Text_body t) \<and>
        read_object t = Some [(js ''username'', u), (js ''password'', p)]) \<and>
     (\<exists>t. rq_body b = Some (Text_body t) \<and>
        read_object t = Some [(js ''username'', u), (js ''password'', p), (js ''role'', role_str r)]) \<and>
     (\<exists>t. rq_body c = Some (Text_body t) \<and>
        read_object t = Some [(js ''hash'', h), (js ''label'', l)])"
  by (simp add: request_send_def json_init_def read_json_object)

text \<open>A corpus sample reaches the server byte for byte: whenever the file can be read, the
  request is sent, its body is JSON with the label as typed, and decoding the base-64 member gives
  the bytes of the file.\<close>

theorem corpus_sample_roundtrip:
  assumes "file_bytes f = Inr bs"
  shows "\<exists>rq t c. send_of (Submit_corpus_sample f l) = Inr rq \<and> rq_body rq = Some (Text_body t) \<and>
    read_object t = Some [(js ''content_b64'', c), (js ''label'', l)] \<and>
    map_option (map (\<lambda>u. of_nat (unat u))) (atob c) = Some bs"
proof -
  obtain c where c: "btoa (binary_string bs) = Some c" using btoa_binary by blast
  have "map (\<lambda>u. of_nat (unat u)) (binary_string bs) = bs"
    by (induction bs) (simp_all add: binary_string_map comp_def)
  with b64.decode_enc [OF c] have "map_option (map (\<lambda>u. of_nat (unat u))) (atob c) = Some bs" by simp
  then show ?thesis
    by (simp add: submitCorpusSample_def assms c request_send_def json_init_def read_json_object)
qed

theorem corpus_sample_roundtrip_witness:
  "\<exists>rq t c. send_of (Submit_corpus_sample \<lparr>file_name = js ''x'', file_size = 3, file_bytes = Inr [0, 255, 10]\<rparr>
       (js ''k'')) = Inr rq \<and> rq_body rq = Some (Text_body t) \<and>
     read_object t = Some [(js ''content_b64'', c), (js ''label'', js ''k'')] \<and>
     map_option (map (\<lambda>u. of_nat (unat u))) (atob c) = Some [0, 255, 10 :: byte]"
  by (rule corpus_sample_roundtrip) simp

text \<open>The hash shown for a file is a hash: for a digest function that returns 32 bytes, as
  SHA-256 does, the text is 64 lower-case hexadecimal characters, which the submission form accepts,
  and it determines the digest.\<close>

theorem sha256Hex_valid:
  assumes "file_bytes f = Inr bs" and "digest bs = Inr d" and "length d = 32"
  shows "\<exists>h. sha256Hex digest f = Inr h \<and> isValidSha256 h \<and> unhex h = Some d"
  using assms by (simp add: sha256Hex_def hex_bytes_sha hex.decode_enc)

theorem sha256Hex_valid_witness:
  "\<exists>h. sha256Hex (\<lambda>bs. Inr (replicate 32 0xE3)) \<lparr>file_name = [], file_size = 0, file_bytes = Inr []\<rparr> = Inr h \<and>
     isValidSha256 h \<and> unhex h = Some (replicate 32 0xE3)"
  by (rule sha256Hex_valid [of _ "[]"]) simp_all

text \<open>Every request goes to a path under /api/ with same-origin credentials, so the session cookie
  is never sent elsewhere, and exactly the eight fetching functions use GET: nothing that changes
  the server's state can be triggered by a GET.\<close>

theorem requests_same_origin_api:
  assumes "send_of c = Inr rq"
  shows "rq_same_origin rq \<and> starts_with (rq_path rq) (js ''/api/'') \<and>
    (rq_method rq = GET \<longleftrightarrow> c \<in> {Me, Fetch_verdicts, Fetch_monitor_status, Fetch_chain_status,
       Fetch_hashes, Fetch_corpus_pending, Fetch_users, Fetch_quarantine_pending})"
proof (cases c)
  case (Submit_corpus_sample f l)
  with assms show ?thesis
    by (auto simp: submitCorpusSample_def request_send_def json_init_def js_def
        split: sum.splits option.splits)
qed (use assms in \<open>auto simp: user_path_def request_send_def json_init_def bare_def no_init_def js_def
    split: option.splits\<close>)

theorem requests_same_origin_api_witness:
  "starts_with (js ''/api/intercept/7/approve'') (js ''/api/'')"
proof -
  have "send_of (Approve_quarantine 7) =
      Inr (request_send (js ''/api/intercept/'' @ dec_int 7 @ js ''/approve'') (bare POST))" by simp
  moreover have "js ''/api/intercept/'' @ dec_int 7 @ js ''/approve'' = js ''/api/intercept/7/approve''"
    by code_simp
  ultimately show ?thesis using requests_same_origin_api by (fastforce simp: request_send_def)
qed

end
