(* ===== verification/Toasts.thy ===== *)
theory Toasts
  imports Prelude
begin

text \<open>
  \<open>Toast.tsx\<close>: the module-level queue of notifications and its event bus.  The state holds the
  module variables \<open>toasts\<close>, \<open>nextId\<close> and \<open>listeners\<close>, the \<open>items\<close> state of every mounted
  \<open>ToastHost\<close>, and the identifiers whose \<open>setTimeout\<close> has not fired yet.
\<close>

datatype toast_tone = Tone_info | Tone_success | Tone_error

record toast_item =
  ti_id :: nat
  ti_message :: jsstr
  ti_tone :: toast_tone

record toast_bus =
  toasts :: "toast_item list"
  nextId :: nat
  listeners :: "nat list"
  host_items :: "nat \<Rightarrow> toast_item list option"
  toast_timers :: "nat list"

definition DISMISS_AFTER_MS :: nat where "DISMISS_AFTER_MS = 4000"

text \<open>Every subscribed host receives the current queue.\<close>

definition emit :: "toast_bus \<Rightarrow> toast_bus" where
  "emit b = b\<lparr>host_items := (\<lambda>h. if h \<in> set (listeners b) then Some (toasts b) else host_items b h)\<rparr>"

definition dismiss :: "nat \<Rightarrow> toast_bus \<Rightarrow> toast_bus" where
  "dismiss i b = emit (b\<lparr>toasts := filter (\<lambda>t. ti_id t \<noteq> i) (toasts b)\<rparr>)"

definition push :: "jsstr \<Rightarrow> toast_tone \<Rightarrow> toast_bus \<Rightarrow> toast_bus" where
  "push message tone b =
     (let i = nextId b;
          b1 = b\<lparr>nextId := Suc i,
                 toasts := toasts b @ [\<lparr>ti_id = i, ti_message = message, ti_tone = tone\<rparr>]\<rparr>;
          b2 = emit b1
      in b2\<lparr>toast_timers := toast_timers b2 @ [i]\<rparr>)"

text \<open>A host: \<open>useState(toasts)\<close> when it first renders, the subscription in its effect, and the
  removal when it unmounts.\<close>

definition host_render :: "nat \<Rightarrow> toast_bus \<Rightarrow> toast_bus" where
  "host_render h b = b\<lparr>host_items := (host_items b)(h \<mapsto> toasts b)\<rparr>"

definition host_subscribe :: "nat \<Rightarrow> toast_bus \<Rightarrow> toast_bus" where
  "host_subscribe h b = b\<lparr>listeners := (if h \<in> set (listeners b) then listeners b else listeners b @ [h])\<rparr>"

definition host_unmount :: "nat \<Rightarrow> toast_bus \<Rightarrow> toast_bus" where
  "host_unmount h b = b\<lparr>listeners := filter (\<lambda>l. l \<noteq> h) (listeners b), host_items := (host_items b)(h := None)\<rparr>"

definition toast_init :: "toast_bus \<Rightarrow> bool" where
  "toast_init b \<longleftrightarrow> b = \<lparr>toasts = [], nextId = 0, listeners = [], host_items = (\<lambda>_. None), toast_timers = []\<rparr>"

text \<open>The outputs of a step are the toasts it puts on some screen for the first time.\<close>

datatype toast_out = Shown toast_item

definition newly_shown :: "toast_bus \<Rightarrow> toast_bus \<Rightarrow> toast_item list" where
  "newly_shown b b' = filter (\<lambda>t. \<exists>h \<in> set (listeners b'). \<exists>ts. host_items b' h = Some ts \<and> t \<in> set ts)
     (filter (\<lambda>t. t \<notin> set (toasts b)) (toasts b'))"

inductive toast_step :: "toast_bus \<Rightarrow> toast_out list \<Rightarrow> toast_bus \<Rightarrow> bool" where
  pushed: "b' = push message tone b \<Longrightarrow> toast_step b (map Shown (newly_shown b b')) b'"
| expired: "toast_timers b = xs @ i # ys \<Longrightarrow>
     toast_step b [] (dismiss i (b\<lparr>toast_timers := xs @ ys\<rparr>))"
| clicked: "host_items b h = Some ts \<Longrightarrow> t \<in> set ts \<Longrightarrow> toast_step b [] (dismiss (ti_id t) b)"
| rendered: "host_items b h = None \<Longrightarrow> toast_step b [] (host_render h b)"
| subscribed: "host_items b h = Some ts \<Longrightarrow> toast_step b [] (host_subscribe h b)"
| unmounted: "host_items b h = Some ts \<Longrightarrow> toast_step b [] (host_unmount h b)"

subsection \<open>The invariant of the queue\<close>

text \<open>Identifiers are handed out in increasing order, so the queue is ordered by age and free of
  duplicates, and every queued toast still has its timer: it will go away by itself.\<close>

definition toast_inv :: "toast_bus \<Rightarrow> bool" where
  "toast_inv b \<longleftrightarrow> sorted_wrt (<) (map ti_id (toasts b)) \<and>
     (\<forall>t \<in> set (toasts b). ti_id t < nextId b \<and> ti_id t \<in> set (toast_timers b)) \<and>
     set (listeners b) \<subseteq> dom (host_items b)"

lemma emit_simps [simp]:
  "toasts (emit b) = toasts b" "nextId (emit b) = nextId b" "listeners (emit b) = listeners b"
  "toast_timers (emit b) = toast_timers b"
  by (simp_all add: emit_def)

lemma emit_shows: "h \<in> set (listeners b) \<Longrightarrow> host_items (emit b) h = Some (toasts b)"
  by (simp add: emit_def)

lemma dom_emit: "dom (host_items (emit b)) = dom (host_items b) \<union> set (listeners b)"
  by (auto simp: emit_def)

lemma sorted_wrt_filter_map: "sorted_wrt (<) (map f xs) \<Longrightarrow> sorted_wrt (<) (map f (filter P xs))"
  by (simp add: sorted_wrt_map sorted_wrt_filter)

lemma push_inv: "toast_inv b \<Longrightarrow> toast_inv (push m t b)"
  by (auto simp: toast_inv_def push_def Let_def sorted_wrt_append dom_emit less_SucI)

lemma dismiss_inv:
  assumes "toast_inv b" and "set (toast_timers b) \<subseteq> insert i (set ts)"
  shows "toast_inv (dismiss i (b\<lparr>toast_timers := ts\<rparr>))"
  using assms by (auto simp: toast_inv_def dismiss_def dom_emit intro: sorted_wrt_filter_map)

lemma dismiss_inv': "toast_inv b \<Longrightarrow> toast_inv (dismiss i b)"
  using dismiss_inv [of b i "toast_timers b"] by auto

lemma host_inv:
  "toast_inv b \<Longrightarrow> toast_inv (host_render h b)"
  "toast_inv b \<Longrightarrow> host_items b h = Some ts \<Longrightarrow> toast_inv (host_subscribe h b)"
  "toast_inv b \<Longrightarrow> toast_inv (host_unmount h b)"
  by (auto simp: toast_inv_def host_render_def host_subscribe_def host_unmount_def)

interpretation toast: invariant_system toast_init toast_step "\<lambda>_. toast_inv"
proof unfold_locales
  show "toast_inv b" if "toast_init b" for b
    using that by (simp add: toast_init_def toast_inv_def)
  show "toast_inv b'" if "toast_inv b" and "toast_step b out b'" for b out b'
    using that(2,1)
    by cases (auto intro: push_inv dismiss_inv dismiss_inv' host_inv)
qed

subsection \<open>A run of the component\<close>

definition demo_bus :: toast_bus where
  "demo_bus = \<lparr>toasts = [], nextId = 0, listeners = [], host_items = (\<lambda>_. None), toast_timers = []\<rparr>"

definition demo_hosted :: toast_bus where
  "demo_hosted = host_subscribe 0 (host_render 0 demo_bus)"

lemma demo_run_hosted: "reach toast_init toast_step [] demo_hosted"
proof -
  have "reach toast_init toast_step [] demo_bus"
    by (rule reach_init) (simp add: toast_init_def demo_bus_def)
  from reach_step [OF this rendered, of 0]
  have "reach toast_init toast_step [] (host_render 0 demo_bus)" by (simp add: demo_bus_def)
  from reach_step [OF this subscribed, of 0 "[]"] show ?thesis
    by (simp add: demo_hosted_def host_render_def demo_bus_def)
qed

subsection \<open>Properties\<close>

text \<open>In every reachable state the queue of notifications is ordered by age, its identifiers are
  distinct and below the next one to hand out, every queued notification still has the timer that
  will dismiss it, and only mounted hosts are subscribed.\<close>

theorem toast_queue_ordered:
  assumes "reach toast_init toast_step os b"
  shows "sorted_wrt (<) (map ti_id (toasts b)) \<and> distinct (map ti_id (toasts b)) \<and>
    (\<forall>t \<in> set (toasts b). ti_id t < nextId b \<and> ti_id t \<in> set (toast_timers b)) \<and>
    set (listeners b) \<subseteq> dom (host_items b)"
  using toast.reach_inv [OF assms] strict_sorted_iff by (auto simp: toast_inv_def)

theorem toast_queue_ordered_witness:
  "\<exists>b. reach toast_init toast_step [Shown \<lparr>ti_id = 0, ti_message = js ''Copied'', ti_tone = Tone_success\<rparr>] b \<and>
     distinct (map ti_id (toasts b)) \<and> length (toasts b) = 1"
proof -
  let ?b = "push (js ''Copied'') Tone_success demo_hosted"
  have "map Shown (newly_shown demo_hosted ?b) =
      [Shown \<lparr>ti_id = 0, ti_message = js ''Copied'', ti_tone = Tone_success\<rparr>]"
    by (simp add: newly_shown_def push_def Let_def emit_def demo_hosted_def host_subscribe_def
        host_render_def demo_bus_def)
  then have "toast_step demo_hosted
      [Shown \<lparr>ti_id = 0, ti_message = js ''Copied'', ti_tone = Tone_success\<rparr>] ?b"
    by (metis pushed)
  from reach_step [OF demo_run_hosted, OF this]
  have r: "reach toast_init toast_step
      [Shown \<lparr>ti_id = 0, ti_message = js ''Copied'', ti_tone = Tone_success\<rparr>] ?b"
    by (simp only: append_Nil)
  moreover have "length (toasts ?b) = 1"
    by (simp add: push_def Let_def demo_hosted_def host_subscribe_def host_render_def demo_bus_def)
  ultimately show ?thesis using toast_queue_ordered [OF r] by blast
qed

text \<open>A notification is shown on the subscribed hosts and on no other: pushing one appends it to
  the list of every subscribed host at once, and while no host is subscribed no screen changes.\<close>

theorem toast_push_shows:
  "(\<forall>h \<in> set (listeners b). host_items (push m t b) h =
      Some (toasts b @ [\<lparr>ti_id = nextId b, ti_message = m, ti_tone = t\<rparr>])) \<and>
   (\<forall>h. h \<notin> set (listeners b) \<longrightarrow> host_items (push m t b) h = host_items b h)"
  by (simp add: push_def Let_def emit_def)

theorem toast_push_shows_witness:
  "host_items (push (js ''Copied'') Tone_success demo_hosted) 0 =
     Some [\<lparr>ti_id = 0, ti_message = js ''Copied'', ti_tone = Tone_success\<rparr>]"
proof -
  have "0 \<in> set (listeners demo_hosted)" and "toasts demo_hosted = []" and "nextId demo_hosted = 0"
    by (simp_all add: demo_hosted_def host_subscribe_def host_render_def demo_bus_def)
  with toast_push_shows [of demo_hosted "js ''Copied''" Tone_success] show ?thesis by simp
qed

end
