(* ===== verification/Vdom.thy ===== *)
theory Vdom
  imports Api Toasts
begin

text \<open>
  The result of rendering, and what a user can do with it.  A \<open>node\<close> is a React element: a tag, its
  properties and its children.  Event properties carry the component's own action, so the actions
  a user can trigger in a state are read off the rendered tree: \<open>handlers\<close> collects the event
  properties of the elements that react to input (not those of a disabled control, nor of a closed
  dialog), and while a modal dialog is open only that dialog reacts (\<open>live_handlers\<close>), as
  \<open>showModal()\<close> makes the rest of the page inert.  \<open>fires\<close> relates a handler to the actions it can
  produce.  The small stateless components (\<open>Card\<close>, \<open>Badge\<close>, \<open>Skeleton\<close>, \<open>ConfirmDialog\<close>, \<open>Tabs\<close>) are
  functions to nodes.
\<close>

datatype nav_key = Arrow_left | Arrow_right | Other_key

datatype 'a attr =
    Attr string string
  | Val string jsstr
  | Flag string bool
  | On_click 'a
  | On_submit 'a
  | On_cancel 'a
  | On_change "jsstr \<Rightarrow> 'a"
  | On_file "js_file option \<Rightarrow> 'a"
  | On_drop "js_file option \<Rightarrow> 'a"
  | On_key "nav_key \<Rightarrow> 'a option"
  | On_event string 'a
  | On_flag string "bool \<Rightarrow> 'a"

datatype 'a node = Text jsstr | El string "'a attr list" "'a node list"

abbreviation Lit :: "string \<Rightarrow> 'a node" where
  "Lit s \<equiv> Text (js s)"

text \<open>\<open>cond && <x/>\<close> and \<open>cond ? <x/> : <y/>\<close> in a list of children.\<close>

definition show_if :: "bool \<Rightarrow> 'a node list \<Rightarrow> 'a node list" where
  "show_if b ns = (if b then ns else [])"

lemma show_if_simps [simp]: "show_if True ns = ns" "show_if False ns = []"
  by (simp_all add: show_if_def)

fun is_event :: "'a attr \<Rightarrow> bool" where
  "is_event (Attr _ _) = False"
| "is_event (Val _ _) = False"
| "is_event (Flag _ _) = False"
| "is_event _ = True"

text \<open>A form is submitted through its button: a disabled submit button, or an empty required
  field, keeps \<open>onSubmit\<close> from running.\<close>

fun blocks_submit :: "'a node \<Rightarrow> bool" where
  "blocks_submit (Text _) = False"
| "blocks_submit (El t as cs) =
     ((Attr ''type'' ''submit'' \<in> set as \<and> Flag ''disabled'' True \<in> set as)
      \<or> (Flag ''required'' True \<in> set as \<and> Val ''value'' [] \<in> set as)
      \<or> (\<exists>b \<in> set (map blocks_submit cs). b))"

fun handlers :: "'a node \<Rightarrow> 'a attr list" where
  "handlers (Text _) = []"
| "handlers (El t as cs) =
     (if Flag ''disabled'' True \<in> set as \<or> (t = ''dialog'' \<and> Flag ''open'' True \<notin> set as) then []
      else filter (\<lambda>a. is_event a \<and> \<not> (t = ''form'' \<and> (\<exists>c \<in> set cs. blocks_submit c))) as
        @ concat (map handlers cs))"

fun open_dialogs :: "'a node \<Rightarrow> 'a node list" where
  "open_dialogs (Text _) = []"
| "open_dialogs (El t as cs) =
     (if t = ''dialog'' then (if Flag ''open'' True \<in> set as then [El t as cs] else [])
      else concat (map open_dialogs cs))"

definition live_handlers :: "'a node \<Rightarrow> 'a attr list" where
  "live_handlers n = (case open_dialogs n of [] \<Rightarrow> handlers n | ds \<Rightarrow> concat (map handlers ds))"

inductive fires :: "'a attr \<Rightarrow> 'a \<Rightarrow> bool" where
  "fires (On_click a) a"
| "fires (On_submit a) a"
| "fires (On_cancel a) a"
| "fires (On_change f) (f s)"
| "fires (On_file g) (g file)"
| "fires (On_drop g) (g file)"
| "k key = Some a \<Longrightarrow> fires (On_key k) a"
| "fires (On_event e a) a"
| "fires (On_flag e g) (g b)"

inductive_simps fires_simps [simp]:
  "fires (On_click a) x" "fires (On_submit a) x" "fires (On_cancel a) x" "fires (On_change f) x"
  "fires (On_file g) x" "fires (On_drop g) x" "fires (On_key k) x"
  "fires (On_event e a) x" "fires (On_flag e f) x"
  "fires (Attr p v) x" "fires (Val p w) x" "fires (Flag p b) x"

definition offers :: "'a node \<Rightarrow> 'a \<Rightarrow> bool" where
  "offers n a \<longleftrightarrow> (\<exists>h \<in> set (live_handlers n). fires h a)"

text \<open>The texts a tree shows, in order.\<close>

fun texts :: "'a node \<Rightarrow> jsstr list" where
  "texts (Text s) = [s]"
| "texts (El t as cs) = concat (map texts cs)"

text \<open>The elements with a given tag.\<close>

fun elements :: "string \<Rightarrow> 'a node \<Rightarrow> 'a node list" where
  "elements u (Text _) = []"
| "elements u (El t as cs) = (if t = u then [El t as cs] else []) @ concat (map (elements u) cs)"

lemma concat_map_show_if [simp]: "concat (map f (show_if b ns)) = (if b then concat (map f ns) else [])"
  by (simp add: show_if_def)

lemma set_show_if [simp]: "x \<in> set (show_if b ns) \<longleftrightarrow> b \<and> x \<in> set ns"
  by (simp add: show_if_def)

lemma offers_without_dialog: "open_dialogs n = [] \<Longrightarrow> offers n a \<longleftrightarrow> (\<exists>h \<in> set (handlers n). fires h a)"
  by (simp add: offers_def live_handlers_def)

lemma offers_in_dialog:
  "open_dialogs n = [d] \<Longrightarrow> offers n a \<longleftrightarrow> (\<exists>h \<in> set (handlers d). fires h a)"
  by (simp add: offers_def live_handlers_def)

subsection \<open>Card, Badge and Skeleton\<close>

definition card :: "string \<Rightarrow> 'a node list \<Rightarrow> 'a node list \<Rightarrow> 'a node" where
  "card title act children = El ''div'' [Attr ''className'' ''card'']
     [El ''div'' [Attr ''className'' ''card__header'']
        (El ''h2'' [Attr ''className'' ''card__title''] [Lit title]
         # show_if (act \<noteq> []) [El ''div'' [Attr ''className'' ''card__action''] act]),
      El ''div'' [Attr ''className'' ''card__body''] children]"

datatype badge_tone = Tone_normal | Tone_suspicious | Tone_compromised | Tone_inconclusive | Tone_neutral

definition tone_name :: "badge_tone \<Rightarrow> string" where
  "tone_name t = (case t of Tone_normal \<Rightarrow> ''normal'' | Tone_suspicious \<Rightarrow> ''suspicious''
     | Tone_compromised \<Rightarrow> ''compromised'' | Tone_inconclusive \<Rightarrow> ''inconclusive''
     | Tone_neutral \<Rightarrow> ''neutral'')"

definition badge :: "badge_tone \<Rightarrow> 'a node \<Rightarrow> 'a node list \<Rightarrow> 'a node" where
  "badge tone icon children = El ''span'' [Attr ''className'' ''badge'', Attr ''data-tone'' (tone_name tone)]
     [El ''span'' [Attr ''className'' ''badge__icon'', Attr ''aria-hidden'' ''true''] [icon],
      El ''span'' [Attr ''className'' ''badge__text''] children]"

definition skeleton :: "nat \<Rightarrow> 'a node" where
  "skeleton rows = El ''div'' [Attr ''className'' ''skeleton'', Flag ''aria-hidden'' True]
     (map (\<lambda>i. El ''div'' [Attr ''className'' ''skeleton__row'', Val ''key'' (dec i)] []) [0..<rows])"

lemma card_events [simp]:
  "handlers (card t act cs) = concat (map handlers act) @ concat (map handlers cs)"
  "open_dialogs (card t act cs) = concat (map open_dialogs act) @ concat (map open_dialogs cs)"
  "texts (card t act cs) = js t # concat (map texts act) @ concat (map texts cs)"
  by (auto simp: card_def)

lemma badge_events [simp]:
  "handlers (badge tone icon cs) = handlers icon @ concat (map handlers cs)"
  "open_dialogs (badge tone icon cs) = open_dialogs icon @ concat (map open_dialogs cs)"
  "texts (badge tone icon cs) = texts icon @ concat (map texts cs)"
  by (auto simp: badge_def)

lemma skeleton_events [simp]:
  "handlers (skeleton n) = []" "open_dialogs (skeleton n) = []" "texts (skeleton n) = []"
  by (auto simp: skeleton_def)

subsection \<open>ConfirmDialog\<close>

text \<open>The dialog element is open exactly when the \<open>open\<close> property is set: the effect of
  \<open>ConfirmDialog\<close> calls \<open>showModal()\<close> or \<open>close()\<close> whenever the two differ.\<close>

definition dialog_effect :: "bool \<Rightarrow> bool \<Rightarrow> bool" where
  "dialog_effect open_prop dialog_open =
     (if open_prop \<and> \<not> dialog_open then True
      else if \<not> open_prop \<and> dialog_open then False else dialog_open)"

lemma dialog_effect_syncs: "dialog_effect p d = p"
  by (auto simp: dialog_effect_def)

definition confirm_dialog ::
  "bool \<Rightarrow> jsstr \<Rightarrow> 'a node list \<Rightarrow> jsstr \<Rightarrow> 'a \<Rightarrow> 'a \<Rightarrow> 'a node" where
  "confirm_dialog opened title description confirmLabel onConfirm onCancel =
     El ''dialog''
       [Flag ''open'' opened, Attr ''className'' ''confirm-dialog'', On_cancel onCancel, On_click onCancel]
       [El ''h2'' [Attr ''className'' ''confirm-dialog__title''] [Text title],
        El ''div'' [Attr ''className'' ''confirm-dialog__description''] description,
        El ''div'' [Attr ''className'' ''confirm-dialog__actions'']
          [El ''button'' [Attr ''type'' ''button'', Attr ''className'' ''confirm-dialog__cancel'', On_click onCancel]
             [Lit ''Cancel''],
           El ''button'' [Attr ''type'' ''button'', Attr ''className'' ''confirm-dialog__confirm'', On_click onConfirm]
             [Text confirmLabel]]]"

lemma confirm_dialog_closed [simp]:
  "handlers (confirm_dialog False t d l ok cancel) = []"
  "open_dialogs (confirm_dialog False t d l ok cancel) = []"
  by (simp_all add: confirm_dialog_def)

lemma confirm_dialog_open [simp]:
  "open_dialogs (confirm_dialog True t d l ok cancel) = [confirm_dialog True t d l ok cancel]"
  by (simp add: confirm_dialog_def)

lemma confirm_dialog_handlers:
  "concat (map handlers d) = [] \<Longrightarrow>
   set (handlers (confirm_dialog True t d l ok cancel)) = {On_cancel cancel, On_click cancel, On_click ok}"
  by (auto simp: confirm_dialog_def)

subsection \<open>Tabs\<close>

record 'a tab_item =
  tab_id :: string
  tab_label :: string
  tab_badge :: "'a node list"

text \<open>The arrow keys move to the neighbouring tab, around the ends; every other key is ignored.\<close>

definition tab_neighbour :: "nat \<Rightarrow> nav_key \<Rightarrow> nat \<Rightarrow> nat option" where
  "tab_neighbour n key index = (case key of
     Arrow_right \<Rightarrow> Some (nat ((int index + 1 + int n) mod int n))
   | Arrow_left \<Rightarrow> Some (nat ((int index - 1 + int n) mod int n))
   | Other_key \<Rightarrow> None)"

definition tab_key :: "'a tab_item list \<Rightarrow> nat \<Rightarrow> nav_key \<Rightarrow> string option" where
  "tab_key tabs index key =
     map_option (\<lambda>j. tab_id (tabs ! j)) (tab_neighbour (length tabs) key index)"

definition tab_button ::
  "'a tab_item list \<Rightarrow> string \<Rightarrow> (string \<Rightarrow> 'a) \<Rightarrow> nat \<Rightarrow> 'a tab_item \<Rightarrow> 'a node" where
  "tab_button tabs active onChange i tab = El ''button''
     [Attr ''key'' (tab_id tab), Attr ''role'' ''tab'', Attr ''type'' ''button'',
      Attr ''id'' (''tab-'' @ tab_id tab), Flag ''aria-selected'' (active = tab_id tab),
      Attr ''aria-controls'' (''tabpanel-'' @ tab_id tab),
      Attr ''tabIndex'' (if active = tab_id tab then ''0'' else ''-1''),
      Attr ''className'' ''tabs__tab'', Flag ''data-active'' (active = tab_id tab),
      On_click (onChange (tab_id tab)),
      On_key (\<lambda>key. map_option onChange (tab_key tabs i key))]
     (Lit (tab_label tab) # tab_badge tab)"

definition tabs_view :: "'a tab_item list \<Rightarrow> string \<Rightarrow> (string \<Rightarrow> 'a) \<Rightarrow> 'a node" where
  "tabs_view tabs active onChange = El ''div'' [Attr ''className'' ''tabs'', Attr ''role'' ''tablist'']
     (map (\<lambda>(i, tab). tab_button tabs active onChange i tab) (zip [0..<length tabs] tabs))"

lemma tab_button_events:
  "concat (map handlers (tab_badge t)) = [] \<Longrightarrow> handlers (tab_button tabs active f i t) =
     [On_click (f (tab_id t)), On_key (\<lambda>key. map_option f (tab_key tabs i key))]"
  "open_dialogs (tab_button tabs active f i t) = concat (map open_dialogs (tab_badge t))"
  by (simp_all add: tab_button_def del: concat_eq_Nil_conv)

lemma tab_key_member: "tabs \<noteq> [] \<Longrightarrow> tab_key tabs i k = Some x \<Longrightarrow> \<exists>t \<in> set tabs. x = tab_id t"
proof -
  assume ne: "tabs \<noteq> []" and "tab_key tabs i k = Some x"
  then obtain j where j: "tab_neighbour (length tabs) k i = Some j" and x: "x = tab_id (tabs ! j)"
    by (auto simp: tab_key_def)
  from ne have "0 < int (length tabs)" by simp
  with j have "j < length tabs"
    by (auto simp: tab_neighbour_def nat_less_iff split: nav_key.splits)
  with x show ?thesis by auto
qed

text \<open>Clicks and arrow keys select exactly the tabs of the list.\<close>

lemma tabs_view_offers:
  assumes "tabs \<noteq> []"
    and "\<And>t. t \<in> set tabs \<Longrightarrow> concat (map handlers (tab_badge t)) = [] \<and> concat (map open_dialogs (tab_badge t)) = []"
  shows "offers (tabs_view tabs active f) x \<longleftrightarrow> (\<exists>t \<in> set tabs. x = f (tab_id t))"
proof -
  let ?z = "zip [0..<length tabs] tabs"
  have b: "handlers (tab_button tabs active f i t) =
        [On_click (f (tab_id t)), On_key (\<lambda>key. map_option f (tab_key tabs i key))]"
      "open_dialogs (tab_button tabs active f i t) = []"
    if "(i, t) \<in> set ?z" for i t
    using assms(2) [of t] set_zip_rightD [OF that] by (simp_all add: tab_button_events)
  have d: "open_dialogs (tabs_view tabs active f) = []"
    using b(2) by (auto simp: tabs_view_def)
  have "(\<exists>h \<in> set (handlers (tabs_view tabs active f)). fires h x) \<longleftrightarrow>
      (\<exists>z \<in> set ?z. \<exists>h \<in> set (handlers (tab_button tabs active f (fst z) (snd z))). fires h x)"
    by (simp add: tabs_view_def split_beta)
  also have "\<dots> \<longleftrightarrow> (\<exists>z \<in> set ?z.
      x = f (tab_id (snd z)) \<or> (\<exists>k. map_option f (tab_key tabs (fst z) k) = Some x))"
    using b(1) by (intro bex_cong) (simp_all del: map_option_eq_Some)
  also have "\<dots> \<longleftrightarrow> (\<exists>t \<in> set tabs. x = f (tab_id t))"
  proof
    assume "\<exists>z \<in> set ?z. x = f (tab_id (snd z)) \<or> (\<exists>k. map_option f (tab_key tabs (fst z) k) = Some x)"
    then obtain z where z: "z \<in> set ?z"
      and x: "x = f (tab_id (snd z)) \<or> (\<exists>k. map_option f (tab_key tabs (fst z) k) = Some x)" by blast
    have "snd z \<in> set tabs" using z set_zip_rightD [of "fst z" "snd z"] by simp
    with x show "\<exists>t \<in> set tabs. x = f (tab_id t)"
      using tab_key_member [OF assms(1)] by (fastforce simp: map_option_eq_Some)
  next
    assume "\<exists>t \<in> set tabs. x = f (tab_id t)"
    then obtain i where "i < length tabs" "x = f (tab_id (tabs ! i))" by (auto simp: in_set_conv_nth)
    then show "\<exists>z \<in> set ?z. x = f (tab_id (snd z)) \<or> (\<exists>k. map_option f (tab_key tabs (fst z) k) = Some x)"
      by (intro bexI [of _ "(i, tabs ! i)"]) (auto simp: in_set_zip intro!: exI [of _ i])
  qed
  finally show ?thesis by (simp add: offers_without_dialog d)
qed

definition tab_panel :: "string \<Rightarrow> string \<Rightarrow> 'a node list \<Rightarrow> 'a node list" where
  "tab_panel ident active children = (if ident \<noteq> active then []
     else [El ''div'' [Attr ''role'' ''tabpanel'', Attr ''id'' (''tabpanel-'' @ ident),
            Attr ''aria-labelledby'' (''tab-'' @ ident)] children])"

subsection \<open>CopyHash\<close>

text \<open>The ellipsis is U+2026.  \<open>s.slice(-0)\<close> is all of \<open>s\<close>.\<close>

definition truncateMiddle :: "jsstr \<Rightarrow> nat \<Rightarrow> jsstr" where
  "truncateMiddle s keep =
     (if length s \<le> keep * 2 then s else slice_to keep s @ [0x2026] @ slice_neg keep s)"

lemma truncateMiddle_long:
  "0 < keep \<Longrightarrow> keep * 2 < length s \<Longrightarrow>
   truncateMiddle s keep = take keep s @ [0x2026] @ last_n keep s \<and>
   length (truncateMiddle s keep) = keep * 2 + 1"
  by (simp add: truncateMiddle_def slice_to_def slice_neg_last_n)

text \<open>A \<open>CopyHash\<close> inside another component: its own click only writes the clipboard.\<close>

definition copy_hash_ref :: "jsstr \<Rightarrow> string \<Rightarrow> 'a node" where
  "copy_hash_ref hash label = El ''CopyHash'' [Val ''hash'' hash, Attr ''label'' label] []"

lemma copy_hash_ref_events [simp]:
  "handlers (copy_hash_ref h l) = []" "open_dialogs (copy_hash_ref h l) = []"
  "texts (copy_hash_ref h l) = []"
  by (simp_all add: copy_hash_ref_def)

end
