(* ===== verification/Platform.thy ===== *)
theory Platform
  imports Vdom JsNum
begin

text \<open>
  What the components ask of the JavaScript engine beyond strings and lists: dates, the locale's
  relative times, Unicode lower-casing and the shortest numeral of a double, whose tables are those
  of the engine (fields of \<open>platform\<close>, arguments of the functions that use them); rounding; and
  property lookup on object literals, which also finds what every object inherits from
  \<open>Object.prototype\<close>.
\<close>

record local_time =
  lt_hours :: nat
  lt_minutes :: nat
  lt_seconds :: nat
  lt_millis :: nat

text \<open>\<open>pf_parse_date\<close> is \<open>new Date(s).getTime()\<close> (\<open>None\<close> for NaN), \<open>pf_local\<close> the local-time fields of a
  date, \<open>pf_iso\<close> is \<open>toISOString\<close>, \<open>pf_rtf\<close> is \<open>new Intl.RelativeTimeFormat("en", {numeric: "auto"}).format\<close>,
  \<open>pf_lower\<close> is \<open>toLowerCase\<close>, \<open>pf_num\<close> is \<open>String(n)\<close> for a number that need not be an integer, and
  \<open>pf_native\<close> is \<open>String(Object.prototype[k])\<close>.\<close>

record platform =
  pf_parse_date :: "jsstr \<Rightarrow> rat option"
  pf_local :: "rat \<Rightarrow> local_time"
  pf_iso :: "rat \<Rightarrow> jsstr"
  pf_rtf :: "int \<Rightarrow> jsstr \<Rightarrow> jsstr"
  pf_lower :: "jsstr \<Rightarrow> jsstr"
  pf_num :: "rat \<Rightarrow> jsstr"
  pf_native :: "jsstr \<Rightarrow> jsstr"

text \<open>A concrete platform, for evaluating the model: dates are decimal numerals of milliseconds.\<close>

definition ascii_lower :: "jsstr \<Rightarrow> jsstr" where
  "ascii_lower s = map (\<lambda>c. if 65 \<le> unat c \<and> unat c < 91 then c + 32 else c) s"

definition demo_platform :: platform where
  "demo_platform = \<lparr>
     pf_parse_date = (\<lambda>s. if s \<noteq> [] \<and> list_all is_digit s then Some (of_nat (digits_value s)) else None),
     pf_local = (\<lambda>t. let n = nat \<lfloor>t\<rfloor> in \<lparr>lt_hours = n div 3600000 mod 24, lt_minutes = n div 60000 mod 60,
        lt_seconds = n div 1000 mod 60, lt_millis = n mod 1000\<rparr>),
     pf_iso = (\<lambda>t. dec (nat \<lfloor>t\<rfloor>)),
     pf_rtf = (\<lambda>n u. dec_int n @ [32] @ u),
     pf_lower = ascii_lower,
     pf_num = toFixed 2,
     pf_native = (\<lambda>k. js ''function '' @ k)\<rparr>"

text \<open>\<open>Math.round\<close>: the nearest integer, the larger one of two.\<close>

definition math_round :: "rat \<Rightarrow> int" where
  "math_round x = \<lfloor>x + 1 / 2\<rfloor>"

lemma math_round_close: "\<bar>of_int (math_round x) - x\<bar> \<le> 1 / 2"
  unfolding math_round_def using of_int_floor_le [of "x + 1 / 2"] floor_correct [of "x + 1 / 2"] by linarith

lemma math_round_scaled: "0 < n \<Longrightarrow> \<bar>of_int (math_round (x / n)) * n - x\<bar> \<le> n / 2"
  using scale_error [OF _ math_round_close, of n x] by simp

subsection \<open>Property lookup\<close>

definition proto_methods :: "jsstr list" where
  "proto_methods = map js
     [''constructor'', ''hasOwnProperty'', ''isPrototypeOf'', ''propertyIsEnumerable'',
      ''toLocaleString'', ''toString'', ''valueOf'', ''__defineGetter__'', ''__defineSetter__'',
      ''__lookupGetter__'', ''__lookupSetter__'']"

definition proto_key :: jsstr where
  "proto_key = js ''__proto__''"

definition inherited_key :: "jsstr \<Rightarrow> bool" where
  "inherited_key k \<longleftrightarrow> k \<in> set proto_methods \<or> k = proto_key"

datatype 'a looked_up = Own 'a | Inherited_function | Inherited_object | Absent

definition obj_get :: "(jsstr \<times> 'a) list \<Rightarrow> jsstr \<Rightarrow> 'a looked_up" where
  "obj_get table k = (case map_of table k of
     Some v \<Rightarrow> Own v
   | None \<Rightarrow> if k \<in> set proto_methods then Inherited_function
             else if k = proto_key then Inherited_object else Absent)"

lemma obj_get_plain: "\<not> inherited_key k \<Longrightarrow>
    obj_get table k = (case map_of table k of Some v \<Rightarrow> Own v | None \<Rightarrow> Absent)"
  by (auto simp: obj_get_def inherited_key_def split: option.splits)

text \<open>\<open>{TABLE[k] ?? k}\<close> as a child: an inherited function renders as nothing, the prototype object
  makes React throw (\<open>None\<close>).\<close>

definition label_or_key :: "(jsstr \<times> jsstr) list \<Rightarrow> jsstr \<Rightarrow> 'a node list option" where
  "label_or_key table k = (case obj_get table k of
     Own v \<Rightarrow> Some [Text v]
   | Inherited_function \<Rightarrow> Some []
   | Inherited_object \<Rightarrow> None
   | Absent \<Rightarrow> Some [Text k])"

lemma label_or_key_events:
  "label_or_key table k = Some ns \<Longrightarrow> concat (map handlers ns) = [] \<and> concat (map open_dialogs ns) = []"
  by (auto simp: label_or_key_def split: looked_up.splits)

text \<open>The children of a list whose elements may throw: \<open>those\<close> of the library.\<close>

lemma those_eq_Some: "those xs = Some ys \<longleftrightarrow> xs = map Some ys"
  by (induction xs arbitrary: ys) (auto split: option.splits)

lemma those_map_set: "those (map f xs) = Some ys \<Longrightarrow> y \<in> set ys \<longleftrightarrow> (\<exists>x \<in> set xs. f x = Some y)"
  by (induction xs arbitrary: ys) (auto split: option.splits)

lemma those_map_Some [simp]: "those (map (\<lambda>x. Some (f x)) xs) = Some (map f xs)"
  by (induction xs) simp_all

subsection \<open>Small elements\<close>

definition icon :: "string \<Rightarrow> nat \<Rightarrow> 'a node" where
  "icon t n = El t [Val ''size'' (dec n), Attr ''aria-hidden'' ''true''] []"

abbreviation (input) Dash :: "'a node" where
  "Dash \<equiv> Text [0x2014]"

lemma icon_texts [simp]: "texts (icon t n) = []"
  by (simp add: icon_def)

lemma icon_events [simp]:
  "t \<noteq> ''dialog'' \<Longrightarrow> handlers (icon t n) = []" "t \<noteq> ''dialog'' \<Longrightarrow> open_dialogs (icon t n) = []"
  by (simp_all add: icon_def)

end
