(* ===== verification/Dashboard.thy ===== *)
theory Dashboard
  imports Platform "HOL-Library.Multiset"
begin

text \<open>
  The components that only render what they are given: \<open>VerdictPanel.tsx\<close>, \<open>StatStrip.tsx\<close>,
  \<open>DetectionsOverview.tsx\<close>, \<open>Wordmark.tsx\<close>; and \<open>CopyHash.tsx\<close>, which keeps a mark for the last copy.
  \<open>countBy\<close> counts in an object literal: its keys are listed integer-like ones first, and a key that
  every object inherits finds the inherited value instead of a missing one.
\<close>

subsection \<open>VerdictPanel\<close>

definition TONE :: "verdict_label \<Rightarrow> badge_tone" where
  "TONE v = (case v of Normal \<Rightarrow> Tone_normal | Suspicious \<Rightarrow> Tone_suspicious
     | Compromised \<Rightarrow> Tone_compromised | Inconclusive \<Rightarrow> Tone_inconclusive)"

definition ICON :: "verdict_label \<Rightarrow> string" where
  "ICON v = (case v of Normal \<Rightarrow> ''CheckCircle2'' | Suspicious \<Rightarrow> ''AlertTriangle''
     | Compromised \<Rightarrow> ''ShieldAlert'' | Inconclusive \<Rightarrow> ''HelpCircle'')"

definition METHOD :: "(jsstr \<times> (string \<times> string)) list" where
  "METHOD = [(js ''known_bad_hash'', (''known-bad match'', ''Fingerprint'')),
     (js ''static_triage'', (''instant static match (not detonated)'', ''Zap'')),
     (js ''dynamic'', (''detonated & scored'', ''FlaskConical''))]"

definition confidencePct :: "verdict \<Rightarrow> int" where
  "confidencePct v = math_round (to_double (confidence v * 100))"

text \<open>\<open>{method && <span>...<method.icon/>...</span>}\<close>: an inherited value has no \<open>icon\<close>, and rendering
  an element without a type throws.\<close>

definition method_nodes :: "verdict \<Rightarrow> 'a node list option" where
  "method_nodes v = (case obj_get METHOD (detection_method v) of
     Own (label, ic) \<Rightarrow> Some [El ''span''
       [Attr ''className'' ''verdict-method'', Val ''data-method'' (detection_method v)]
       [icon ic 12, Lit label]]
   | Absent \<Rightarrow> Some []
   | Inherited_function \<Rightarrow> None
   | Inherited_object \<Rightarrow> None)"

definition verdict_body :: "verdict \<Rightarrow> 'a node list \<Rightarrow> 'a node" where
  "verdict_body v method = El ''div''
     [Val ''key'' (verdict_id v), Attr ''className'' ''verdict-result'', Attr ''data-tone'' (tone_name (TONE (verdict_label v)))]
     [El ''div'' [Attr ''className'' ''verdict-headline'']
        (badge (TONE (verdict_label v)) (icon (ICON (verdict_label v)) 16) [Text (label_str (verdict_label v))]
         # method),
      El ''div'' [Attr ''className'' ''verdict-confidence'']
        [El ''div'' [Attr ''className'' ''verdict-confidence__bar'']
           [El ''div'' [Attr ''className'' ''verdict-confidence__fill'',
              Val ''width'' (dec_int (confidencePct v) @ [37])] []],
         El ''span'' [Attr ''className'' ''mono''] [Text (dec_int (confidencePct v) @ js ''% confidence'')]],
      El ''dl'' [Attr ''className'' ''verdict-meta'']
        [El ''dt'' [] [Lit ''File''],
         El ''dd'' [Attr ''className'' ''mono'']
           [if sample_filename v = [] then Dash else Text (sample_filename v)],
         El ''dt'' [] [Lit ''SHA-256''],
         El ''dd'' [] [copy_hash_ref (sample_hash v) ''Sample hash''],
         El ''dt'' [] [Lit ''Detonated''],
         El ''dd'' [Attr ''className'' ''mono''] [Text (verdict_timestamp v)]],
      El ''h3'' [] [Lit ''Causal chain''],
      if causal_chain v = []
      then El ''p'' [Attr ''className'' ''empty-copy''] [Lit ''No suspicious behavior observed.'']
      else El ''ol'' [Attr ''className'' ''causal-timeline'']
        (map (\<lambda>(i, reason). El ''li'' [Val ''key'' (dec i)]
           [El ''span'' [Attr ''className'' ''causal-timeline__dot''] [], El ''span'' [] [Text reason]])
         (zip [0..<length (causal_chain v)] (causal_chain v)))]"

definition verdict_panel :: "verdict option \<Rightarrow> 'a node option" where
  "verdict_panel v = (case v of
     None \<Rightarrow> Some (card ''Verdict'' []
       [El ''p'' [Attr ''className'' ''empty-copy'']
         [Lit ''Nothing detonated yet. Upload a sample and its verdict will appear here.'']])
   | Some w \<Rightarrow> map_option (\<lambda>m. card ''Verdict'' [] [verdict_body w m]) (method_nodes w))"

subsection \<open>StatStrip\<close>

definition stat_item :: "string \<Rightarrow> 'a node list \<Rightarrow> 'a node" where
  "stat_item label v = El ''div'' [Attr ''className'' ''stat-strip__item'']
     (El ''span'' [Attr ''className'' ''stat-strip__label''] [Lit label] # v)"

definition stat_value :: "string \<Rightarrow> nat \<Rightarrow> 'a node" where
  "stat_value tone n = El ''span''
     (Attr ''className'' ''stat-strip__value'' # (if 0 < n then [Attr ''data-tone'' tone] else []))
     [Text (dec n)]"

definition samples_analyzed :: "audit_row list \<Rightarrow> nat" where
  "samples_analyzed rows = length (filter (\<lambda>r. row_sample_hash r \<noteq> None \<and> row_sample_hash r \<noteq> Some []) rows)"

definition compromised_count :: "audit_row list \<Rightarrow> nat" where
  "compromised_count rows = length (filter (\<lambda>r. row_verdict r = Some Compromised) rows)"

definition pending_count :: "hash_entry list \<Rightarrow> nat" where
  "pending_count hashes = length (filter (\<lambda>h. he_status h = Pending) hashes)"

definition stat_strip :: "audit_row list \<Rightarrow> hash_entry list \<Rightarrow> bool option \<Rightarrow> 'a node" where
  "stat_strip verdicts hashes chainIntact = El ''div'' [Attr ''className'' ''stat-strip'']
     [stat_item ''Samples analyzed''
        [El ''span'' [Attr ''className'' ''stat-strip__value''] [Text (dec (samples_analyzed verdicts))]],
      stat_item ''Compromised'' [stat_value ''compromised'' (compromised_count verdicts)],
      stat_item ''Pending approvals'' [stat_value ''suspicious'' (pending_count hashes)],
      stat_item ''Chain status''
        [case chainIntact of
           None \<Rightarrow> badge Tone_inconclusive (icon ''HelpCircle'' 12) [Text (js ''Checking'' @ [0x2026])]
         | Some True \<Rightarrow> badge Tone_normal (icon ''CheckCircle2'' 12) [Lit ''Intact'']
         | Some False \<Rightarrow> badge Tone_compromised (icon ''ShieldAlert'' 12) [Lit ''Broken'']]]"

subsection \<open>DetectionsOverview\<close>

text \<open>A value of the counting object: a number, or the text that adding 1 to an inherited value
  gives.\<close>

datatype count_val = Count nat | Garbled jsstr

type_synonym counts = "(jsstr \<times> count_val) list"

definition plus_one :: "count_val \<Rightarrow> count_val" where
  "plus_one c = (case c of Count n \<Rightarrow> Count (Suc n) | Garbled s \<Rightarrow> Garbled (s @ [49]))"

fun set_entry :: "jsstr \<Rightarrow> count_val \<Rightarrow> counts \<Rightarrow> counts" where
  "set_entry k v [] = [(k, v)]"
| "set_entry k v ((l, w) # cs) = (if k = l then (l, v) # cs else (l, w) # set_entry k v cs)"

text \<open>\<open>counts[k] = (counts[k] ?? 0) + 1\<close>; assigning text to \<open>__proto__\<close> has no effect.\<close>

definition count_key :: "platform \<Rightarrow> counts \<Rightarrow> jsstr \<Rightarrow> counts" where
  "count_key pf counts k = (case obj_get counts k of
     Own c \<Rightarrow> set_entry k (plus_one c) counts
   | Absent \<Rightarrow> set_entry k (Count 1) counts
   | Inherited_function \<Rightarrow> set_entry k (Garbled (pf_native pf k @ [49])) counts
   | Inherited_object \<Rightarrow> counts)"

text \<open>A missing field is the key \<open>undefined\<close>.\<close>

definition key_of :: "jsstr option \<Rightarrow> jsstr" where
  "key_of x = (case x of None \<Rightarrow> js ''undefined'' | Some s \<Rightarrow> s)"

definition countBy :: "platform \<Rightarrow> audit_row list \<Rightarrow> (audit_row \<Rightarrow> jsstr option) \<Rightarrow> counts" where
  "countBy pf verdicts key = foldl (\<lambda>counts v. count_key pf counts (key_of (key v))) [] verdicts"

text \<open>\<open>Object.entries\<close>: keys that are array indices come first, in ascending order.\<close>

definition index_key :: "jsstr \<Rightarrow> bool" where
  "index_key k \<longleftrightarrow> k = dec (digits_value k) \<and> digits_value k < 4294967295"

definition object_entries :: "counts \<Rightarrow> counts" where
  "object_entries cs = sort_key (\<lambda>kv. digits_value (fst kv)) (filter (\<lambda>kv. index_key (fst kv)) cs)
     @ filter (\<lambda>kv. \<not> index_key (fst kv)) cs"

definition OVERVIEW_SOURCE_LABEL :: "(jsstr \<times> jsstr) list" where
  "OVERVIEW_SOURCE_LABEL = [(js ''sample'', js ''Manual upload''),
     (js ''interceptor'', js ''Auto-intercepted download''), (js ''monitor'', js ''Continuous monitoring'')]"

definition METHOD_LABEL :: "(jsstr \<times> jsstr) list" where
  "METHOD_LABEL = [(js ''known_bad_hash'', js ''Known-bad hash''),
     (js ''static_triage'', js ''Static triage''), (js ''dynamic'', js ''Detonated & scored'')]"

definition count_text :: "count_val \<Rightarrow> jsstr" where
  "count_text c = (case c of Count n \<Rightarrow> dec n | Garbled s \<Rightarrow> s)"

definition overview_item :: "string \<Rightarrow> (jsstr \<times> jsstr) list \<Rightarrow> jsstr \<times> count_val \<Rightarrow> 'a node option" where
  "overview_item prefix table kc = map_option (\<lambda>label. El ''div''
       [Attr ''className'' ''stat-strip__item'', Val ''key'' (js prefix @ fst kc)]
       [El ''span'' [Attr ''className'' ''stat-strip__label''] label,
        El ''span'' [Attr ''className'' ''stat-strip__value''] [Text (count_text (snd kc))]])
     (label_or_key table (fst kc))"

definition detections_overview :: "platform \<Rightarrow> audit_row list \<Rightarrow> 'a node option" where
  "detections_overview pf verdicts = map_option (El ''div'' [Attr ''className'' ''stat-strip''])
     (those (map (overview_item ''source-'' OVERVIEW_SOURCE_LABEL) (object_entries (countBy pf verdicts row_source))
       @ map (overview_item ''method-'' METHOD_LABEL) (object_entries (countBy pf verdicts row_detection_method))))"

subsection \<open>CopyHash\<close>

record copy_state =
  cs_copied :: bool
  cs_timers :: nat
  cs_inflight :: nat

datatype copy_effect = Write_clipboard jsstr | Copy_push jsstr toast_tone

definition copy_start :: copy_state where
  "copy_start = \<lparr>cs_copied = False, cs_timers = 0, cs_inflight = 0\<rparr>"

definition handleCopy :: "jsstr \<Rightarrow> copy_state \<Rightarrow> copy_state \<times> copy_effect list" where
  "handleCopy hash s = (s\<lparr>cs_inflight := Suc (cs_inflight s)\<rparr>, [Write_clipboard hash])"

text \<open>\<open>ok\<close>: \<open>writeText\<close> resolved; the mark is lifted by a timer of 1500 ms.\<close>

definition copy_settled :: "bool \<Rightarrow> copy_state \<Rightarrow> copy_state \<times> copy_effect list" where
  "copy_settled ok s =
     (let s1 = s\<lparr>cs_inflight := cs_inflight s - 1\<rparr>
      in if ok then (s1\<lparr>cs_copied := True, cs_timers := Suc (cs_timers s)\<rparr>,
                     [Copy_push (js ''Copied to clipboard'') Tone_success])
         else (s1, [Copy_push (js ''Copy failed'') Tone_error]))"

definition copy_timer :: "copy_state \<Rightarrow> copy_state" where
  "copy_timer s = s\<lparr>cs_copied := False, cs_timers := cs_timers s - 1\<rparr>"

definition copy_hash :: "jsstr \<Rightarrow> jsstr option \<Rightarrow> copy_state \<Rightarrow> unit node" where
  "copy_hash hash label s = El ''button''
     [Attr ''type'' ''button'', Attr ''className'' ''copy-hash mono'', On_click (), Val ''title'' hash]
     [El ''span'' [Attr ''aria-hidden'' ''true''] [Text (truncateMiddle hash 6)],
      El ''span'' [Attr ''className'' ''copy-hash__sr-only'']
        [Text ((case label of None \<Rightarrow> [] | Some l \<Rightarrow> if l = [] then [] else l @ js '': '')
           @ hash @ [32, 0x2014] @ js '' click to copy'')],
      if cs_copied s then icon ''Check'' 12 else icon ''Copy'' 12]"

inductive copy_step :: "jsstr \<Rightarrow> copy_state \<Rightarrow> copy_effect list \<Rightarrow> copy_state \<Rightarrow> bool" for hash :: jsstr where
  clicked: "handleCopy hash s = (s', out) \<Longrightarrow> copy_step hash s out s'"
| copied: "0 < cs_inflight s \<Longrightarrow> copy_settled ok s = (s', out) \<Longrightarrow> copy_step hash s out s'"
| timed: "0 < cs_timers s \<Longrightarrow> copy_step hash s [] (copy_timer s)"

definition copy_init :: "copy_state \<Rightarrow> bool" where
  "copy_init s \<longleftrightarrow> s = copy_start"

text \<open>The mark shows only while a timer that will lift it is pending, and only the hash itself is
  ever written.\<close>

definition copy_inv :: "jsstr \<Rightarrow> copy_effect list \<Rightarrow> copy_state \<Rightarrow> bool" where
  "copy_inv hash os s \<longleftrightarrow> (cs_copied s \<longrightarrow> 0 < cs_timers s) \<and>
     (\<forall>t. Write_clipboard t \<in> set os \<longrightarrow> t = hash) \<and>
     (cs_copied s \<longrightarrow> Write_clipboard hash \<in> set os) \<and> (0 < cs_inflight s \<longrightarrow> Write_clipboard hash \<in> set os)"

lemma copy_inv_step:
  assumes "copy_inv hash os s" and "copy_step hash s out s'"
  shows "copy_inv hash (os @ out) s'"
  using assms(2)
proof cases
  case clicked
  then have "s' = s\<lparr>cs_inflight := Suc (cs_inflight s)\<rparr>" "out = [Write_clipboard hash]"
    by (simp_all add: handleCopy_def)
  with assms(1) show ?thesis by (auto simp: copy_inv_def)
next
  case (copied ok)
  show ?thesis
  proof (cases ok)
    case True
    with copied(2) have "cs_copied s'" "0 < cs_timers s'" "cs_inflight s' \<le> cs_inflight s"
      "out = [Copy_push (js ''Copied to clipboard'') Tone_success]"
      by (auto simp: copy_settled_def Let_def)
    with assms(1) copied(1) show ?thesis by (simp add: copy_inv_def)
  next
    case False
    with copied(2) have "cs_copied s' = cs_copied s" "cs_timers s' = cs_timers s"
      "cs_inflight s' \<le> cs_inflight s" "out = [Copy_push (js ''Copy failed'') Tone_error]"
      by (auto simp: copy_settled_def Let_def)
    with assms(1) copied(1) show ?thesis by (simp add: copy_inv_def)
  qed
next
  case timed
  with assms(1) show ?thesis by (simp add: copy_inv_def copy_timer_def)
qed

interpretation copy: invariant_system copy_init "copy_step hash" "copy_inv hash"
proof unfold_locales
  show "copy_inv hash [] s" if "copy_init s" for s
    using that by (simp add: copy_init_def copy_inv_def copy_start_def)
qed (rule copy_inv_step)

subsection \<open>ToastHost\<close>

definition TONE_ICON :: "toast_tone \<Rightarrow> string" where
  "TONE_ICON t = (case t of Tone_info \<Rightarrow> ''Info'' | Tone_success \<Rightarrow> ''CheckCircle2'' | Tone_error \<Rightarrow> ''XCircle'')"

definition toast_tone_str :: "toast_tone \<Rightarrow> string" where
  "toast_tone_str t = (case t of Tone_info \<Rightarrow> ''info'' | Tone_success \<Rightarrow> ''success'' | Tone_error \<Rightarrow> ''error'')"

text \<open>The actions are the identifiers to dismiss.\<close>

definition toast_host :: "toast_item list \<Rightarrow> nat node" where
  "toast_host items = El ''div'' [Attr ''className'' ''toast-host'', Attr ''aria-live'' ''polite'']
     (map (\<lambda>item. El ''div''
        [Val ''key'' (dec (ti_id item)), Attr ''className'' ''toast'',
         Attr ''data-tone'' (toast_tone_str (ti_tone item)), Attr ''role'' ''status'']
        [icon (TONE_ICON (ti_tone item)) 16,
         El ''span'' [Attr ''className'' ''toast__message''] [Text (ti_message item)],
         El ''button'' [Attr ''type'' ''button'', Attr ''className'' ''toast__close'',
           Attr ''aria-label'' ''Dismiss notification'', On_click (ti_id item)] [El ''X'' [] []]])
      items)"

lemma toast_host_offers: "offers (toast_host items) i \<longleftrightarrow> i \<in> ti_id ` set items"
proof -
  have ic: "handlers (icon (TONE_ICON t) 16) = []" "open_dialogs (icon (TONE_ICON t) 16) = []" for t
    by (cases t; simp add: TONE_ICON_def)+
  have "open_dialogs (toast_host items) = []" by (simp add: toast_host_def ic)
  then show ?thesis by (auto simp: offers_without_dialog toast_host_def ic)
qed

subsection \<open>Wordmark\<close>

definition wordmark :: "nat \<Rightarrow> bool \<Rightarrow> string \<Rightarrow> 'a node" where
  "wordmark n withText className = El ''span''
     [Attr ''className'' (if className = [] then ''wordmark'' else ''wordmark '' @ className)]
     (El ''svg'' [Attr ''className'' ''wordmark__mark'', Val ''width'' (dec n), Val ''height'' (dec n),
        Attr ''viewBox'' ''0 0 32 32'', Attr ''aria-hidden'' ''true'']
        [El ''rect'' [Attr ''x'' ''11'', Attr ''y'' ''11'', Attr ''width'' ''17'', Attr ''height'' ''17'',
           Attr ''rx'' ''6'', Attr ''fill'' ''var(--accent)'', Attr ''opacity'' ''0.45''] [],
         El ''rect'' [Attr ''x'' ''4'', Attr ''y'' ''4'', Attr ''width'' ''17'', Attr ''height'' ''17'',
           Attr ''rx'' ''6'', Attr ''fill'' ''var(--text)''] []]
      # show_if withText [El ''span'' [Attr ''className'' ''wordmark__text''] [Lit ''Mirraura'']])"

lemma wordmark_events [simp]:
  "handlers (wordmark n b c) = []" "open_dialogs (wordmark n b c) = []"
  by (simp_all add: wordmark_def)

subsection \<open>Counting\<close>

lemma map_of_set_entry: "map_of (set_entry k v cs) = (map_of cs)(k \<mapsto> v)"
  by (induction k v cs rule: set_entry.induct) (auto simp: fun_eq_iff)

lemma keys_set_entry:
  "map fst (set_entry k v cs) = (if k \<in> fst ` set cs then map fst cs else map fst cs @ [k])"
  by (induction k v cs rule: set_entry.induct) auto

definition row_keys :: "(audit_row \<Rightarrow> jsstr option) \<Rightarrow> audit_row list \<Rightarrow> jsstr list" where
  "row_keys key rows = map (\<lambda>v. key_of (key v)) rows"

lemma countBy_snoc: "countBy pf (rows @ [v]) key = count_key pf (countBy pf rows key) (key_of (key v))"
  by (simp add: countBy_def)

lemma countBy_inv:
  assumes "\<forall>k \<in> set (row_keys key rows). \<not> inherited_key k"
  shows "distinct (map fst (countBy pf rows key)) \<and>
    (\<forall>k. map_of (countBy pf rows key) k = (let n = count_list (row_keys key rows) k
       in if n = 0 then None else Some (Count n)))"
  using assms
proof (induction rows rule: rev_induct)
  case Nil
  show ?case by (simp add: countBy_def row_keys_def)
next
  case (snoc v rows)
  let ?k = "key_of (key v)" and ?c = "countBy pf rows key"
  have IH: "distinct (map fst ?c)"
    "\<And>k. map_of ?c k = (let n = count_list (row_keys key rows) k in if n = 0 then None else Some (Count n))"
    using snoc by (auto simp: row_keys_def)
  have "\<not> inherited_key ?k" using snoc.prems by (simp add: row_keys_def)
  then have step: "countBy pf (rows @ [v]) key = set_entry ?k (Count (Suc (count_list (row_keys key rows) ?k))) ?c"
    using IH(2) [of ?k] by (simp add: countBy_snoc count_key_def obj_get_plain plus_one_def Let_def)
  show ?case unfolding step using IH
    by (auto simp: map_of_set_entry keys_set_entry row_keys_def Let_def)
qed

lemma set_object_entries [simp]: "set (object_entries cs) = set cs"
  by (auto simp: object_entries_def)

lemma distinct_object_entries: "distinct (map fst cs) \<Longrightarrow> distinct (map fst (object_entries cs))"
proof -
  assume d: "distinct (map fst cs)"
  let ?A = "filter (\<lambda>kv. index_key (fst kv)) cs" and ?B = "filter (\<lambda>kv. \<not> index_key (fst kv)) cs"
  have A: "distinct (map fst ?A)" and B: "distinct (map fst ?B)"
    using d by (simp_all add: distinct_map_filter)
  have "mset (map fst (sort_key (\<lambda>kv. digits_value (fst kv)) ?A)) = mset (map fst ?A)" by simp
  then have "distinct (map fst (sort_key (\<lambda>kv. digits_value (fst kv)) ?A))"
    using A mset_eq_imp_distinct_iff by blast
  with B show ?thesis by (auto simp: object_entries_def)
qed

lemma countBy_entries:
  assumes "\<forall>k \<in> set (row_keys key rows). \<not> inherited_key k"
  shows "(k, c) \<in> set (object_entries (countBy pf rows key)) \<longleftrightarrow>
    k \<in> set (row_keys key rows) \<and> c = Count (count_list (row_keys key rows) k)"
proof -
  note inv = countBy_inv [OF assms]
  have "(k, c) \<in> set (countBy pf rows key) \<longleftrightarrow> map_of (countBy pf rows key) k = Some c"
    using inv by (metis map_of_is_SomeI map_of_SomeD)
  also have "\<dots> \<longleftrightarrow> k \<in> set (row_keys key rows) \<and> c = Count (count_list (row_keys key rows) k)"
    using inv by (auto simp: Let_def count_list_0_iff split: if_splits)
  finally show ?thesis by simp
qed

definition count_value :: "count_val \<Rightarrow> nat" where
  "count_value c = (case c of Count n \<Rightarrow> n | Garbled s \<Rightarrow> 0)"

lemma countBy_total:
  assumes "\<forall>k \<in> set (row_keys key rows). \<not> inherited_key k"
  shows "sum_list (map (\<lambda>kc. count_value (snd kc)) (object_entries (countBy pf rows key))) = length rows"
proof -
  let ?es = "object_entries (countBy pf rows key)" and ?ks = "row_keys key rows"
  have d: "distinct (map fst ?es)" using countBy_inv [OF assms] by (intro distinct_object_entries) blast
  have "map (\<lambda>kc. count_value (snd kc)) ?es = map (count_list ?ks) (map fst ?es)"
    using countBy_entries [OF assms] by (auto simp: count_value_def)
  then have "sum_list (map (\<lambda>kc. count_value (snd kc)) ?es) = sum (count_list ?ks) (set (map fst ?es))"
    using d by (simp only: sum_list_distinct_conv_sum_set)
  also have "set (map fst ?es) = set ?ks"
    using countBy_entries [OF assms] by (force simp: image_iff)
  also have "sum (count_list ?ks) (set ?ks) = length ?ks" by (rule sum_count_set) simp_all
  finally show ?thesis by (simp add: row_keys_def)
qed

subsection \<open>Properties\<close>

text \<open>The overview counts exactly: as long as no row's source is the name of a property that every
  object inherits, each source is listed once, with the number of rows that have it, and the numbers
  add up to the number of rows; rows without a source, such as the records of human actions, appear
  under the key "undefined".\<close>

theorem overview_counts_sources:
  assumes "\<forall>k \<in> set (row_keys row_source rows). \<not> inherited_key k"
  shows "let es = object_entries (countBy pf rows row_source) in distinct (map fst es) \<and>
    (\<forall>k c. (k, c) \<in> set es \<longleftrightarrow> k \<in> set (row_keys row_source rows) \<and>
       c = Count (length (filter (\<lambda>r. key_of (row_source r) = k) rows))) \<and>
    sum_list (map (\<lambda>kc. count_value (snd kc)) es) = length rows"
proof -
  have "count_list (row_keys row_source rows) k = length (filter (\<lambda>r. key_of (row_source r) = k) rows)" for k
    by (induction rows) (simp_all add: row_keys_def)
  then show ?thesis
    using countBy_inv [OF assms, of pf] countBy_entries [OF assms, of _ _ pf] countBy_total [OF assms, of pf]
    by (simp add: Let_def distinct_object_entries)
qed

definition action_row :: audit_row where
  "action_row = \<lparr>row_verdict_id = None, row_sample_hash = None, row_sample_filename = None,
     row_verdict = None, row_confidence = None, row_timestamp = Some (js ''0''),
     row_detection_method = None, row_source = None, row_action = Some (js ''hash_approved''),
     row_device_id = None, row_record_id = Some (js ''r1''), row_hash = None, row_actor = Some (js ''ann''),
     row_raw = J_obj []\<rparr>"

theorem overview_counts_sources_witness:
  "(js ''undefined'', Count 1) \<in> set (object_entries (countBy demo_platform [action_row] row_source))"
proof -
  have "\<forall>k \<in> set (row_keys row_source [action_row]). \<not> inherited_key k"
    by (simp add: row_keys_def action_row_def key_of_def inherited_key_def proto_methods_def proto_key_def)
  from overview_counts_sources [OF this, of demo_platform] show ?thesis
    by (simp add: Let_def row_keys_def action_row_def key_of_def)
qed

text \<open>The confidence bar stays within its frame: for a confidence between 0 and 1 the percentage,
  computed in double precision and rounded, is between 0 and 100, and it differs from the exact
  percentage by no more than half a point and the rounding error of one multiplication.\<close>

theorem confidencePct_bounds:
  assumes "0 \<le> confidence v" and "confidence v \<le> 1"
  shows "0 \<le> confidencePct v \<and> confidencePct v \<le> 100 \<and>
    \<bar>of_int (confidencePct v) - confidence v * 100\<bar> \<le> 1 / 2 + 100 / 2 ^ 53"
proof -
  let ?x = "confidence v * 100" and ?y = "to_double (confidence v * 100)"
  have x: "0 \<le> ?x" "?x \<le> 100" using assms by simp_all
  have err: "\<bar>?y - ?x\<bar> \<le> ?x / 2 ^ 53" using to_double_close [OF x(1)] .
  also have "\<dots> \<le> 100 / 2 ^ 53" using x(2) by (intro divide_right_mono) simp_all
  finally have near: "\<bar>?y - ?x\<bar> \<le> 100 / 2 ^ 53" .
  have "\<bar>?y - ?x\<bar> < 1 / 2" by (rule le_less_trans [OF near]) simp
  then have "?y - ?x < 1 / 2 \<and> - (?y - ?x) < 1 / 2" by (simp only: abs_less_iff)
  with x have y: "- 1 / 2 < ?y" "?y < 100 + 1 / 2" by linarith+
  have "0 \<le> confidencePct v" using y(1) by (simp add: confidencePct_def math_round_def)
  moreover have "?y + 1 / 2 < 101" using y(2) by simp
  then have "confidencePct v \<le> 100" unfolding confidencePct_def math_round_def
    by (simp add: floor_le_iff)
  moreover have "\<bar>of_int (confidencePct v) - ?y\<bar> \<le> 1 / 2"
    unfolding confidencePct_def by (rule math_round_close)
  with near have "\<bar>of_int (confidencePct v) - ?x\<bar> \<le> 1 / 2 + 100 / 2 ^ 53" by linarith
  ultimately show ?thesis by blast
qed

definition demo_verdict :: verdict where
  "demo_verdict = \<lparr>verdict_id = js ''v'', sample_hash = js ''h'', sample_filename = js ''f'',
     verdict_label = Suspicious, confidence = 1 / 2, causal_chain = [], verdict_timestamp = js ''0'',
     prev_log_hash = js ''p'', detection_method = js ''dynamic'', verdict_source = js ''sample''\<rparr>"

theorem confidencePct_bounds_witness:
  "confidencePct demo_verdict \<le> 100 \<and> \<bar>of_int (confidencePct demo_verdict) - 50\<bar> \<le> 1 / 2 + 100 / (2 :: rat) ^ 53"
  using confidencePct_bounds [of demo_verdict] by (simp add: demo_verdict_def)

text \<open>A copied hash is the whole hash: in every run of the button the only text ever written to the
  clipboard is the hash itself, not the shortened form on screen, and the mark "copied" is shown
  only after a write and only while the timer that removes it is pending.\<close>

theorem copy_writes_hash:
  assumes "reach copy_init (copy_step hash) os s"
  shows "(\<forall>t. Write_clipboard t \<in> set os \<longrightarrow> t = hash) \<and>
    (cs_copied s \<longrightarrow> 0 < cs_timers s \<and> Write_clipboard hash \<in> set os)"
  using copy.reach_inv [OF assms] by (simp add: copy_inv_def)

theorem copy_writes_hash_witness:
  "\<exists>s. reach copy_init (copy_step (js ''abc'')) [Write_clipboard (js ''abc'')] s \<and>
     (\<forall>t. Write_clipboard t \<in> set [Write_clipboard (js ''abc'')] \<longrightarrow> t = js ''abc'')"
proof -
  have "reach copy_init (copy_step (js ''abc'')) [] copy_start"
    by (rule reach_init) (simp add: copy_init_def)
  moreover have "copy_step (js ''abc'') copy_start [Write_clipboard (js ''abc'')]
      (copy_start\<lparr>cs_inflight := 1\<rparr>)"
    by (rule clicked) (simp add: handleCopy_def copy_start_def)
  ultimately have r: "reach copy_init (copy_step (js ''abc'')) ([] @ [Write_clipboard (js ''abc'')])
      (copy_start\<lparr>cs_inflight := 1\<rparr>)" by (rule reach_step)
  from copy_writes_hash [OF r] r show ?thesis by auto
qed

end
