(* ===== verification/Panels.thy ===== *)
theory Panels
  imports Vdom
begin

text \<open>
  What the three review panels (hash approvals, corpus, quarantine) share.  \<open>panel_effect\<close> lists what
  a panel hands to its surroundings: requests, toasts, and the callbacks it got from \<open>App\<close>.  The
  locale \<open>review_panel\<close> states the contract of a panel: the decision that its open dialog stands for
  (\<open>armed\<close>) comes from an entry it shows, and only an armed decision is sent; \<open>analyst_panel\<close>
  extends it for a panel rendered for an analyst.  Each panel's own theory proves the laws for its
  model.
\<close>

datatype 'e panel_effect =
    Call api_call
  | Push jsstr toast_tone
  | Session_expired
  | Decision_made
  | Entries_change "'e list"

datatype decision = Approve | Reject

definition verb_str :: "decision \<Rightarrow> jsstr" where
  "verb_str d = (case d of Approve \<Rightarrow> js ''Approve'' | Reject \<Rightarrow> js ''Reject'')"

lemma verb_str_inj [simp]: "verb_str a = verb_str b \<longleftrightarrow> a = b"
  by (cases a; cases b) (simp_all add: verb_str_def)

fun is_decision :: "api_call \<Rightarrow> bool" where
  "is_decision (Approve_hash _) = True"
| "is_decision (Reject_hash _) = True"
| "is_decision (Approve_corpus_entry _) = True"
| "is_decision (Reject_corpus_entry _) = True"
| "is_decision (Approve_quarantine _) = True"
| "is_decision (Reject_quarantine _) = True"
| "is_decision _ = False"

definition decisions :: "'e panel_effect list \<Rightarrow> api_call list" where
  "decisions os = concat (map (\<lambda>x. case x of Call c \<Rightarrow> if is_decision c then [c] else [] | _ \<Rightarrow> []) os)"

lemma decisions_simps [simp]:
  "decisions [] = []"
  "decisions (Call c # os) = (if is_decision c then c # decisions os else decisions os)"
  "decisions (Push m t # os) = decisions os"
  "decisions (Session_expired # os) = decisions os"
  "decisions (Decision_made # os) = decisions os"
  "decisions (Entries_change es # os) = decisions os"
  "decisions (os @ ps) = decisions os @ decisions ps"
  by (auto simp: decisions_def)

definition listed :: "'e panel_effect list \<Rightarrow> 'e set" where
  "listed os = {e. \<exists>es. Entries_change es \<in> set os \<and> e \<in> set es}"

lemma listed_simps [simp]:
  "listed [] = {}"
  "listed (Call c # os) = listed os"
  "listed (Push m t # os) = listed os"
  "listed (Session_expired # os) = listed os"
  "listed (Decision_made # os) = listed os"
  "listed (Entries_change es # os) = set es \<union> listed os"
  "listed (os @ ps) = listed os \<union> listed ps"
  by (auto simp: listed_def)

text \<open>The error line every component shows: \<open>{error && <p className="error-text">{error}</p>}\<close>.\<close>

definition error_text :: "jsstr option \<Rightarrow> 'a node list" where
  "error_text e = (case e of None \<Rightarrow> []
     | Some m \<Rightarrow> show_if (m \<noteq> []) [El ''p'' [Attr ''className'' ''error-text''] [Text m]])"

lemma error_text_events [simp]:
  "concat (map handlers (error_text e)) = []" "concat (map open_dialogs (error_text e)) = []"
  by (auto simp: error_text_def split: option.splits)

lemma concat_map_Nil [simp]: "(\<And>x. x \<in> set xs \<Longrightarrow> f x = []) \<Longrightarrow> concat (map f xs) = []"
  by auto

locale review_panel =
  fixes init :: "'s \<Rightarrow> bool"
    and step :: "'s \<Rightarrow> 'e panel_effect list \<Rightarrow> 's \<Rightarrow> bool"
    and entries :: "'s \<Rightarrow> 'e list"
    and armed :: "'s \<Rightarrow> api_call option"
    and eligible :: "'e \<Rightarrow> api_call \<Rightarrow> bool"
  assumes starts_empty: "init s \<Longrightarrow> entries s = [] \<and> armed s = None"
    and entries_listed: "step s out s' \<Longrightarrow> set (entries s') \<subseteq> set (entries s) \<union> listed out"
    and armed_from: "step s out s' \<Longrightarrow> armed s' = Some c \<Longrightarrow>
      armed s = Some c \<or> (\<exists>e \<in> set (entries s). eligible e c)"
    and decides_armed: "step s out s' \<Longrightarrow> c \<in> set (decisions out) \<Longrightarrow> armed s = Some c"
begin

lemma provenance:
  "reach init step os s \<Longrightarrow>
     set (entries s) \<subseteq> listed os \<and>
     (\<forall>c. armed s = Some c \<longrightarrow> (\<exists>e \<in> listed os. eligible e c)) \<and>
     (\<forall>c \<in> set (decisions os). \<exists>e \<in> listed os. eligible e c)"
proof (induction rule: reach.induct)
  case (reach_init s)
  then show ?case using starts_empty by auto
next
  case (reach_step os s out s')
  note st = reach_step.hyps(2) and IH = reach_step.IH
  have "set (entries s') \<subseteq> listed (os @ out)"
    using entries_listed [OF st] IH by auto
  moreover have "\<exists>e \<in> listed (os @ out). eligible e c" if "armed s' = Some c" for c
    using armed_from [OF st that] IH by (metis UnI1 listed_simps(7) subsetD)
  moreover have "\<exists>e \<in> listed (os @ out). eligible e c" if "c \<in> set (decisions (os @ out))" for c
    using that decides_armed [OF st] IH by auto
  ultimately show ?case by blast
qed

lemma decision_listed:
  "reach init step os s \<Longrightarrow> step s out s' \<Longrightarrow> c \<in> set (decisions out) \<Longrightarrow> \<exists>e \<in> listed os. eligible e c"
  using provenance decides_armed by blast

end

text \<open>A panel rendered for an analyst, in addition, never arms a decision.\<close>

locale analyst_panel = review_panel +
  assumes stays_unarmed: "step s out s' \<Longrightarrow> armed s = None \<Longrightarrow> armed s' = None"
begin

lemma no_decision: "reach init step os s \<Longrightarrow> armed s = None \<and> decisions os = []"
proof (induction rule: reach.induct)
  case (reach_init s)
  then show ?case by (simp add: starts_empty)
next
  case (reach_step os s out s')
  then have "c \<notin> set (decisions out)" for c using decides_armed by fastforce
  then have "decisions out = []" by (metis list.set_intros(1) neq_Nil_conv)
  with reach_step show ?case by (auto dest: stays_unarmed)
qed

end

end
