(* ===== verification/LiveSocket.thy ===== *)
theory LiveSocket
  imports Api
begin

text \<open>
  \<open>connectLive\<close> of \<open>api.ts\<close>: the socket with its reconnect loop.  The state holds the three
  variables of the closure (\<open>ws\<close>, \<open>closed\<close>, \<open>backoff\<close>), every socket created so far with its
  \<open>readyState\<close>, and the pending timers.  The browser moves the sockets and fires the timers (rules of
  \<open>socket_step\<close>); each event runs the handler of the source.  The outputs of a step are the
  callbacks it makes and the delays it schedules.
\<close>

datatype conn_state = Conn_connecting | Conn_live | Conn_offline

datatype ready_state = Connecting | Open | Closing | Closed

datatype live_out = Status conn_state | Message live_message | Schedule nat

record live_conn =
  socks :: "ready_state list"
  ws :: "nat option"
  conn_closed :: bool
  backoff :: nat
  timers :: "nat list"

definition INITIAL_BACKOFF_MS :: nat where "INITIAL_BACKOFF_MS = 1000"

definition MAX_BACKOFF_MS :: nat where "MAX_BACKOFF_MS = 30000"

definition nextBackoffMs :: "nat \<Rightarrow> nat" where
  "nextBackoffMs current = min (current * 2) MAX_BACKOFF_MS"

text \<open>The address: \<open>location.protocol\<close> and \<open>location.host\<close> belong to the page.\<close>

definition ws_url :: "jsstr \<Rightarrow> jsstr \<Rightarrow> jsstr" where
  "ws_url protocol host =
     (if protocol = js ''https:'' then js ''wss://'' else js ''ws://'') @ host @ js ''/api/live''"

subsection \<open>The functions and handlers of the closure\<close>

definition connect :: "live_conn \<Rightarrow> live_conn \<times> live_out list" where
  "connect s = (if conn_closed s then (s, [])
     else (s\<lparr>socks := socks s @ [Connecting], ws := Some (length (socks s))\<rparr>,
           [Status Conn_connecting]))"

text \<open>\<open>ws?.close()\<close>: a socket that is not closed yet is now closing.\<close>

definition ws_close :: "live_conn \<Rightarrow> live_conn" where
  "ws_close s = (case ws s of
     None \<Rightarrow> s
   | Some i \<Rightarrow> if socks s ! i = Closed then s else s\<lparr>socks := (socks s)[i := Closing]\<rparr>)"

definition onopen :: "live_conn \<Rightarrow> live_conn \<times> live_out list" where
  "onopen s = (s\<lparr>backoff := INITIAL_BACKOFF_MS\<rparr>, [Status Conn_live])"

text \<open>A frame is \<open>None\<close> when \<open>JSON.parse\<close> throws on it.\<close>

definition onmessage :: "live_message option \<Rightarrow> live_conn \<Rightarrow> live_conn \<times> live_out list" where
  "onmessage frame s = (case frame of None \<Rightarrow> (s, []) | Some m \<Rightarrow> (s, [Message m]))"

definition onclose :: "live_conn \<Rightarrow> live_conn \<times> live_out list" where
  "onclose s = (if conn_closed s then (s, [])
     else (s\<lparr>timers := timers s @ [backoff s], backoff := nextBackoffMs (backoff s)\<rparr>,
           [Status Conn_offline, Schedule (backoff s)]))"

definition onerror :: "live_conn \<Rightarrow> live_conn \<times> live_out list" where
  "onerror s = (ws_close s, [])"

definition close_conn :: "live_conn \<Rightarrow> live_conn \<times> live_out list" where
  "close_conn s = (ws_close (s\<lparr>conn_closed := True\<rparr>), [])"

definition connectLive :: "live_conn \<times> live_out list" where
  "connectLive = connect
     \<lparr>socks = [], ws = None, conn_closed = False, backoff = INITIAL_BACKOFF_MS, timers = []\<rparr>"

subsection \<open>The browser's events\<close>

definition set_sock :: "nat \<Rightarrow> ready_state \<Rightarrow> live_conn \<Rightarrow> live_conn" where
  "set_sock i r s = s\<lparr>socks := (socks s)[i := r]\<rparr>"

inductive socket_step :: "live_conn \<Rightarrow> live_out list \<Rightarrow> live_conn \<Rightarrow> bool" where
  opened: "i < length (socks s) \<Longrightarrow> socks s ! i = Connecting \<Longrightarrow>
     onopen (set_sock i Open s) = (s', out) \<Longrightarrow> socket_step s out s'"
| received: "i < length (socks s) \<Longrightarrow> socks s ! i = Open \<Longrightarrow>
     onmessage frame s = (s', out) \<Longrightarrow> socket_step s out s'"
| errored: "i < length (socks s) \<Longrightarrow> socks s ! i \<noteq> Closed \<Longrightarrow>
     onerror s = (s', out) \<Longrightarrow> socket_step s out s'"
| lost: "i < length (socks s) \<Longrightarrow> socks s ! i \<noteq> Closed \<Longrightarrow>
     onclose (set_sock i Closed s) = (s', out) \<Longrightarrow> socket_step s out s'"
| timer: "timers s = ds @ d # ds' \<Longrightarrow>
     connect (s\<lparr>timers := ds @ ds'\<rparr>) = (s', out) \<Longrightarrow> socket_step s out s'"
| cleanup: "close_conn s = (s', out) \<Longrightarrow> socket_step s out s'"

definition socket_init :: "live_conn \<Rightarrow> bool" where
  "socket_init s \<longleftrightarrow> s = fst connectLive"

text \<open>The callbacks of a run start with those of the first \<open>connect()\<close>.\<close>

definition socket_run :: "live_out list \<Rightarrow> live_conn \<Rightarrow> bool" where
  "socket_run os s \<longleftrightarrow> (\<exists>os'. reach socket_init socket_step os' s \<and> os = snd connectLive @ os')"

subsection \<open>What a run has shown\<close>

text \<open>The status shown last, and the delays scheduled since the connection was last live.\<close>

fun last_status :: "live_out list \<Rightarrow> conn_state option" where
  "last_status [] = None"
| "last_status (o1 # os) = (case last_status os of
     Some c \<Rightarrow> Some c
   | None \<Rightarrow> (case o1 of Status c \<Rightarrow> Some c | _ \<Rightarrow> None))"

definition delay_step :: "nat list \<Rightarrow> live_out \<Rightarrow> nat list" where
  "delay_step ds o1 = (case o1 of Status Conn_live \<Rightarrow> [] | Schedule d \<Rightarrow> ds @ [d] | _ \<Rightarrow> ds)"

definition delays_since_live :: "live_out list \<Rightarrow> nat list" where
  "delays_since_live os = foldl delay_step [] os"

definition nth_delay :: "nat \<Rightarrow> nat" where
  "nth_delay k = min (INITIAL_BACKOFF_MS * 2 ^ k) MAX_BACKOFF_MS"

lemma last_status_append:
  "last_status (os @ out) = (case last_status out of Some c \<Rightarrow> Some c | None \<Rightarrow> last_status os)"
  by (induction os) (auto split: option.splits)

lemma delays_append: "delays_since_live (os @ out) = foldl delay_step (delays_since_live os) out"
  by (simp add: delays_since_live_def)

lemma nth_delay_Suc: "nextBackoffMs (nth_delay k) = nth_delay (Suc k)"
  by (auto simp: nextBackoffMs_def nth_delay_def min_def)

lemma nth_delay_0: "nth_delay 0 = INITIAL_BACKOFF_MS"
  by (simp add: nth_delay_def INITIAL_BACKOFF_MS_def MAX_BACKOFF_MS_def)

subsection \<open>The invariant\<close>

text \<open>All sockets but the newest are closed.  While the connection is wanted, either the newest
  socket is not closed and no timer is pending, or it is closed and exactly one timer is.\<close>

definition socket_shape :: "live_conn \<Rightarrow> bool" where
  "socket_shape s \<longleftrightarrow> socks s \<noteq> [] \<and> ws s = Some (length (socks s) - 1) \<and>
     set (butlast (socks s)) \<subseteq> {Closed}"

definition socket_phase :: "live_out list \<Rightarrow> live_conn \<Rightarrow> bool" where
  "socket_phase os s \<longleftrightarrow> (case last (socks s) of
     Connecting \<Rightarrow> \<not> conn_closed s \<and> timers s = [] \<and> last_status os = Some Conn_connecting
   | Open \<Rightarrow> \<not> conn_closed s \<and> timers s = [] \<and> last_status os = Some Conn_live
   | Closing \<Rightarrow> \<not> conn_closed s \<longrightarrow>
       timers s = [] \<and> last_status os \<in> {Some Conn_connecting, Some Conn_live}
   | Closed \<Rightarrow> \<not> conn_closed s \<longrightarrow>
       length (timers s) = 1 \<and> last_status os = Some Conn_offline)"

definition socket_pace :: "live_out list \<Rightarrow> live_conn \<Rightarrow> bool" where
  "socket_pace os s \<longleftrightarrow>
     delays_since_live os = map nth_delay [0..<length (delays_since_live os)] \<and>
     backoff s = nth_delay (length (delays_since_live os))"

definition socket_inv :: "live_out list \<Rightarrow> live_conn \<Rightarrow> bool" where
  "socket_inv os s \<longleftrightarrow> socket_shape s \<and> socket_phase os s \<and> socket_pace os s"

lemmas handler_defs = connect_def ws_close_def onopen_def onmessage_def onclose_def onerror_def
  close_conn_def set_sock_def

lemmas trace_defs = last_status_append delays_append delay_step_def

lemma socket_inv_init: "socket_init s \<Longrightarrow> socket_inv (snd connectLive) s"
  by (simp add: socket_init_def socket_inv_def socket_shape_def socket_phase_def socket_pace_def
      connectLive_def connect_def nth_delay_0 delays_since_live_def delay_step_def)

lemma newest_only:
  assumes "socket_shape s" and "i < length (socks s)" and "socks s ! i \<noteq> Closed"
  shows "i = length (socks s) - 1" and "socks s ! i = last (socks s)"
proof -
  have "\<not> i < length (butlast (socks s))"
    using assms(1,3) nth_mem [of i "butlast (socks s)"] by (auto simp: socket_shape_def nth_butlast)
  with assms(2) show "i = length (socks s) - 1" by simp
  then show "socks s ! i = last (socks s)" using assms(1) by (simp add: socket_shape_def last_conv_nth)
qed

lemma shape_set_sock: "socket_shape s \<Longrightarrow> i = length (socks s) - 1 \<Longrightarrow>
    socket_shape (set_sock i r s) \<and> last (socks (set_sock i r s)) = r"
  by (auto simp: socket_shape_def set_sock_def butlast_list_update last_list_update)

lemma ws_close_newest: "socket_shape s \<Longrightarrow> ws_close s =
    (if last (socks s) = Closed then s else set_sock (length (socks s) - 1) Closing s)"
  by (simp add: socket_shape_def ws_close_def set_sock_def last_conv_nth)

lemma set_sock_frame [simp]:
  "conn_closed (set_sock i r s) = conn_closed s" "timers (set_sock i r s) = timers s"
  "backoff (set_sock i r s) = backoff s" "ws (set_sock i r s) = ws s"
  by (simp_all add: set_sock_def)

lemma shape_cong: "socks s' = socks s \<Longrightarrow> ws s' = ws s \<Longrightarrow> socket_shape s' = socket_shape s"
  by (simp add: socket_shape_def)

lemma inv_opened:
  assumes "socket_inv os s" and "i < length (socks s)" and "socks s ! i = Connecting"
    and "onopen (set_sock i Open s) = (s', out)"
  shows "socket_inv (os @ out) s'"
proof -
  have sh: "socket_shape s" using assms(1) by (simp add: socket_inv_def)
  with assms(2,3) have new: "i = length (socks s) - 1" "last (socks s) = Connecting"
    using newest_only [OF sh assms(2)] by auto
  from shape_set_sock [OF sh new(1), of Open] assms(1,4) new show ?thesis
    by (auto simp: socket_inv_def socket_phase_def socket_pace_def onopen_def trace_defs
        nth_delay_0 cong: shape_cong)
qed

lemma inv_lost:
  assumes "socket_inv os s" and "i < length (socks s)" and "socks s ! i \<noteq> Closed"
    and "onclose (set_sock i Closed s) = (s', out)"
  shows "socket_inv (os @ out) s'"
proof -
  have sh: "socket_shape s" using assms(1) by (simp add: socket_inv_def)
  have new: "i = length (socks s) - 1" "last (socks s) \<noteq> Closed"
    using newest_only [OF sh assms(2,3)] assms(3) by auto
  from assms(1) new(2) have t: "\<not> conn_closed s \<Longrightarrow> timers s = []"
    by (auto simp: socket_inv_def socket_phase_def split: ready_state.splits)
  from shape_set_sock [OF sh new(1), of Closed] assms(1,4) t show ?thesis
    by (auto simp: socket_inv_def socket_phase_def socket_pace_def onclose_def trace_defs
        nth_delay_Suc split: if_splits cong: shape_cong)
qed

lemma inv_ws_close:
  assumes "socket_inv os s" and "c = conn_closed s \<or> c"
  shows "socket_inv os (ws_close (s\<lparr>conn_closed := c\<rparr>))"
proof -
  let ?s = "s\<lparr>conn_closed := c\<rparr>"
  have sh: "socket_shape ?s" using assms(1) by (simp add: socket_inv_def socket_shape_def)
  show ?thesis
  proof (cases "last (socks s) = Closed")
    case True
    with assms sh show ?thesis
      by (auto simp: ws_close_newest [OF sh] socket_inv_def socket_phase_def socket_pace_def)
  next
    case False
    with assms sh shape_set_sock [OF sh refl, of Closing] show ?thesis
      by (auto simp: ws_close_newest [OF sh] socket_inv_def socket_phase_def socket_pace_def
          split: ready_state.splits)
  qed
qed

lemma inv_timer:
  assumes "socket_inv os s" and "timers s = ds @ d # ds'"
    and "connect (s\<lparr>timers := ds @ ds'\<rparr>) = (s', out)"
  shows "socket_inv (os @ out) s'"
proof (cases "conn_closed s")
  case True
  with assms show ?thesis
    by (auto simp: connect_def socket_inv_def socket_shape_def socket_phase_def socket_pace_def
        split: ready_state.splits)
next
  case False
  with assms(1,2) have "last (socks s) = Closed" and none: "ds @ ds' = []"
    by (auto simp: socket_inv_def socket_phase_def split: ready_state.splits)
  moreover have "socks s \<noteq> []" and "set (butlast (socks s)) \<subseteq> {Closed}"
    using assms(1) by (auto simp: socket_inv_def socket_shape_def)
  moreover have "set (socks s) = set (butlast (socks s) @ [last (socks s)])"
    using \<open>socks s \<noteq> []\<close> by simp
  ultimately have "set (socks s) \<subseteq> {Closed}" by (metis Un_least list.set(1,2) set_append subset_refl)
  with False none assms show ?thesis
    by (auto simp: connect_def socket_inv_def socket_shape_def socket_phase_def socket_pace_def
        trace_defs)
qed

lemma socket_inv_step:
  assumes "socket_inv os s" and "socket_step s out s'"
  shows "socket_inv (os @ out) s'"
  using assms(2)
proof cases
  case (opened i)
  with assms(1) show ?thesis by (rule inv_opened)
next
  case (received i frame)
  have sh: "socket_shape s" using assms(1) by (simp add: socket_inv_def)
  have "last (socks s) = Open" using newest_only [OF sh received(1)] received(2) by auto
  with received(3) assms(1) show ?thesis
    by (auto simp: onmessage_def socket_inv_def socket_phase_def socket_pace_def trace_defs
        split: option.splits)
next
  case (errored i)
  with inv_ws_close [OF assms(1), of "conn_closed s"] show ?thesis by (simp add: onerror_def)
next
  case (lost i)
  with assms(1) show ?thesis by (rule inv_lost)
next
  case (timer ds d ds')
  with assms(1) show ?thesis by (rule inv_timer)
next
  case cleanup
  with inv_ws_close [OF assms(1), of True] show ?thesis by (simp add: close_conn_def)
qed

interpretation socket: invariant_system socket_init socket_step "\<lambda>os. socket_inv (snd connectLive @ os)"
  by unfold_locales (use socket_inv_init socket_inv_step in \<open>auto simp flip: append_assoc\<close>)

lemma socket_run_inv: "socket_run os s \<Longrightarrow> socket_inv os s"
  by (auto simp: socket_run_def dest: socket.reach_inv)

lemma closed_step:
  assumes "socket_inv os s" and "conn_closed s" and "socket_step s out s'"
  shows "out = [] \<and> conn_closed s' \<and> length (socks s') = length (socks s)"
proof -
  have sh: "socket_shape s" and dead: "last (socks s) \<in> {Closing, Closed}"
    using assms(1,2) by (auto simp: socket_inv_def socket_phase_def split: ready_state.splits)
  have quiet: "socks s ! i \<in> {Closing, Closed}" if "i < length (socks s)" for i
    using newest_only(2) [OF sh that] dead by auto
  show ?thesis using assms(3)
  proof cases
    case (opened i)
    then show ?thesis using quiet [of i] by simp
  next
    case (received i frame)
    then show ?thesis using quiet [of i] by simp
  qed (use assms(2) in \<open>auto simp: handler_defs split: option.splits if_splits\<close>)
qed

subsection \<open>What the connection promises\<close>

text \<open>
  The contract behind the sockets and timers: a link that is being tried, up, failing (told to close
  after an error), waiting for its next attempt or stopped for good.  The number counts the losses since
  it was last up, as far as they lengthen the delay: from the fifth on it is the longest.
\<close>

datatype link = Trying nat | Online | Failing nat | Waiting nat | Stopped

definition next_level :: "nat \<Rightarrow> nat" where
  "next_level n = min (Suc n) 5"

definition lost_out :: "nat \<Rightarrow> live_out list" where
  "lost_out n = [Status Conn_offline, Schedule (nth_delay n)]"

inductive link_step :: "link \<Rightarrow> live_out list \<Rightarrow> link \<Rightarrow> bool" where
  up: "link_step (Trying n) [Status Conn_live] Online"
| heard: "link_step Online [Message m] Online"
| fails: "link_step (Trying n) [] (Failing n)"
| breaks: "link_step Online [] (Failing 0)"
| refused: "link_step (Trying n) (lost_out n) (Waiting (next_level n))"
| dropped: "link_step Online (lost_out 0) (Waiting (next_level 0))"
| closed: "link_step (Failing n) (lost_out n) (Waiting (next_level n))"
| again: "link_step (Waiting n) [Status Conn_connecting] (Trying n)"
| stops: "link_step l [] Stopped"

definition link_init :: "link \<Rightarrow> bool" where
  "link_init l \<longleftrightarrow> l = Trying 0"

text \<open>The link a state of the closure stands for; the level is read off the variable \<open>backoff\<close>.\<close>

definition level :: "nat \<Rightarrow> nat" where
  "level b = length (filter (\<lambda>d. d < b) [1000, 2000, 4000, 8000, 16000])"

definition link_of :: "live_conn \<Rightarrow> link" where
  "link_of s = (if conn_closed s then Stopped else case last (socks s) of
     Connecting \<Rightarrow> Trying (level (backoff s))
   | Open \<Rightarrow> Online
   | Closing \<Rightarrow> Failing (level (backoff s))
   | Closed \<Rightarrow> Waiting (level (backoff s)))"

lemma nth_delay_max: "5 \<le> k \<Longrightarrow> nth_delay k = 30000"
proof -
  assume "5 \<le> k"
  then have "(2 :: nat) ^ 5 \<le> 2 ^ k" by (intro power_increasing) simp_all
  then show "nth_delay k = 30000" by (simp add: nth_delay_def INITIAL_BACKOFF_MS_def MAX_BACKOFF_MS_def)
qed

lemma level_nth: "level (nth_delay k) = min k 5"
proof (cases "5 \<le> k")
  case True
  then show ?thesis by (simp add: level_def nth_delay_max)
next
  case False
  then have "k \<in> {0, 1, 2, 3, 4}" by auto
  then show ?thesis
    by (elim insertE emptyE) (simp_all add: level_def nth_delay_def INITIAL_BACKOFF_MS_def MAX_BACKOFF_MS_def)
qed

lemma nth_level: "nth_delay (min k 5) = nth_delay k"
  by (cases "5 \<le> k") (simp_all add: min_def nth_delay_max)

text \<open>In a reachable state \<open>backoff\<close> is the delay of its level, the shortest while the socket is open.\<close>

definition fresh_open :: "live_conn \<Rightarrow> bool" where
  "fresh_open s \<longleftrightarrow> (last (socks s) = Open \<longrightarrow> backoff s = INITIAL_BACKOFF_MS)"

lemma level_pace:
  assumes "socket_inv os s"
  shows "backoff s = nth_delay (level (backoff s))" and "level (nextBackoffMs (backoff s)) = next_level (level (backoff s))"
proof -
  from assms obtain k where k: "backoff s = nth_delay k" by (auto simp: socket_inv_def socket_pace_def)
  then show "backoff s = nth_delay (level (backoff s))" by (simp add: level_nth nth_level)
  from k show "level (nextBackoffMs (backoff s)) = next_level (level (backoff s))"
    by (simp add: nth_delay_Suc level_nth next_level_def)
qed

lemma level_initial: "level INITIAL_BACKOFF_MS = 0"
  using level_nth [of 0] by (simp add: nth_delay_0)

lemma fresh_open_step:
  assumes "socket_inv os s" and "fresh_open s" and "socket_step s out s'"
  shows "fresh_open s'"
proof -
  have sh: "socket_shape s" using assms(1) by (simp add: socket_inv_def)
  show ?thesis using assms(3)
  proof cases
    case (opened i)
    then show ?thesis by (auto simp: fresh_open_def onopen_def)
  next
    case (lost i)
    from newest_only(1) [OF sh lost(1,2)] shape_set_sock [OF sh, of i Closed] lost(3) show ?thesis
      by (auto simp: fresh_open_def onclose_def split: if_splits)
  next
    case errored
    with assms(2) shape_set_sock [OF sh refl, of Closing] show ?thesis
      by (auto simp: fresh_open_def onerror_def ws_close_newest [OF sh] split: if_splits)
  next
    case cleanup
    have "socket_shape (s\<lparr>conn_closed := True\<rparr>)" using sh by (simp add: socket_shape_def)
    from cleanup assms(2) shape_set_sock [OF this refl, of Closing] show ?thesis
      by (auto simp: fresh_open_def close_conn_def ws_close_newest [OF \<open>socket_shape (s\<lparr>conn_closed := True\<rparr>)\<close>]
          split: if_splits)
  qed (use assms(2) in \<open>auto simp: fresh_open_def onmessage_def connect_def split: option.splits if_splits\<close>)
qed

lemma link_step_of:
  assumes "socket_inv os s" and "fresh_open s" and "socket_step s out s'"
  shows "link_step (link_of s) out (link_of s') \<or> out = [] \<and> link_of s' = link_of s"
proof (cases "conn_closed s")
  case True
  from closed_step [OF assms(1) this assms(3)] True show ?thesis by (simp add: link_of_def)
next
  case False
  have sh: "socket_shape s" using assms(1) by (simp add: socket_inv_def)
  note newest = newest_only [OF sh] and upd = shape_set_sock [OF sh] and pace = level_pace [OF assms(1)]
  show ?thesis using assms(3)
  proof cases
    case (opened i)
    with newest(2) [of i] newest(1) [of i] upd [of i Open] False show ?thesis
      by (auto simp: link_of_def onopen_def intro: up)
  next
    case (received i frame)
    with newest(2) [of i] False show ?thesis
      by (auto simp: link_of_def onmessage_def intro: heard split: option.splits)
  next
    case (errored i)
    with newest(1) [of i] newest(2) [of i] upd [of i Closing] False assms(2) show ?thesis
      by (cases "last (socks s)") (auto simp: link_of_def onerror_def ws_close_newest [OF sh] fresh_open_def
          level_initial intro: fails breaks)
  next
    case (lost i)
    have out: "lost_out (level (backoff s)) = [Status Conn_offline, Schedule (backoff s)]"
      by (simp add: lost_out_def pace(1) [symmetric])
    note sends = refused [of "level (backoff s)"] dropped closed [of "level (backoff s)"]
    from lost newest(1) [of i] newest(2) [of i] upd [of i Closed] False assms(2) pace(2) out sends show ?thesis
      by (cases "last (socks s)") (auto simp: link_of_def onclose_def fresh_open_def level_initial)
  next
    case (timer ds d ds')
    with False assms(1) have "last (socks s) = Closed"
      by (auto simp: socket_inv_def socket_phase_def split: ready_state.splits)
    with timer False show ?thesis by (auto simp: link_of_def connect_def intro: again)
  next
    case cleanup
    then show ?thesis by (auto simp: link_of_def close_conn_def ws_close_def intro: stops split: option.splits)
  qed
qed

interpretation link: refinement socket_init socket_step
    "\<lambda>os s. socket_inv (snd connectLive @ os) s \<and> fresh_open s" link_init link_step link_of
proof unfold_locales
  show "socket_inv (snd connectLive @ []) s \<and> fresh_open s" if "socket_init s" for s
    using that socket_inv_init [OF that] by (simp add: socket_init_def fresh_open_def connectLive_def connect_def)
  show "link_init (link_of s)" if "socket_init s" for s
    using that by (simp add: socket_init_def link_init_def link_of_def connectLive_def connect_def level_initial)
next
  fix os s out s'
  assume inv: "socket_inv (snd connectLive @ os) s \<and> fresh_open s" and st: "socket_step s out s'"
  from inv st socket_inv_step [of "snd connectLive @ os" s out s'] fresh_open_step
  show "socket_inv (snd connectLive @ os @ out) s' \<and> fresh_open s'" by auto
  from inv st link_step_of show "link_step (link_of s) out (link_of s') \<or> out = [] \<and> link_of s' = link_of s"
    by blast
qed

subsection \<open>Runs\<close>

lemma socket_run_start: "socket_run (snd connectLive) (fst connectLive)"
  by (auto simp: socket_run_def socket_init_def intro: reach_init)

lemma socket_run_step: "socket_run os s \<Longrightarrow> socket_step s out s' \<Longrightarrow> socket_run (os @ out) s'"
  by (auto simp: socket_run_def intro: reach_step)

definition demo_lost :: live_conn where
  "demo_lost = fst (onclose (set_sock 0 Closed (fst connectLive)))"

lemmas demo_lost_defs = demo_lost_def connectLive_def handler_defs INITIAL_BACKOFF_MS_def

lemma demo_run_lost:
  "socket_run (snd connectLive @ [Status Conn_offline, Schedule 1000]) demo_lost"
  by (rule socket_run_step [OF socket_run_start], rule lost [of 0]) (simp_all add: demo_lost_defs)

definition demo_closed :: live_conn where
  "demo_closed = fst (close_conn demo_lost)"

lemma demo_run_closed:
  "socket_run (snd connectLive @ [Status Conn_offline, Schedule 1000]) demo_closed"
  using socket_run_step [OF demo_run_lost cleanup, of demo_closed "[]"]
  by (simp add: demo_closed_def close_conn_def)

lemma alive_newest:
  assumes "socket_shape s"
  shows "filter (\<lambda>r. r \<noteq> Closed) (socks s) = (if last (socks s) = Closed then [] else [last (socks s)])"
proof -
  have "filter (\<lambda>r. r \<noteq> Closed) (butlast (socks s)) = []"
    using assms by (auto simp: socket_shape_def filter_empty_conv)
  moreover have "filter (\<lambda>r. r \<noteq> Closed) (socks s) =
      filter (\<lambda>r. r \<noteq> Closed) (butlast (socks s) @ [last (socks s)])"
    using assms by (simp add: socket_shape_def)
  ultimately show ?thesis by simp
qed

subsection \<open>Properties\<close>

text \<open>C17: The connection implements its contract: the callbacks and delays of every run are those of a run
  of the link automaton, in which a link that is tried comes up or is lost, one that is up delivers its
  messages until it is lost, one that is lost waits out a delay of 1, 2, 4, 8, 16 or 30 seconds, the
  next longer one after each loss, before it is tried again, and one that is stopped stays silent;
  and the state of the closure always stands for the state of the automaton.\<close>

theorem socket_refines_link:
  assumes "socket_run os s"
  shows "\<exists>os'. os = Status Conn_connecting # os' \<and> reach link_init link_step os' (link_of s)"
proof -
  from assms obtain os' where "reach socket_init socket_step os' s" "os = snd connectLive @ os'"
    by (auto simp: socket_run_def)
  with link.reach_abs show ?thesis by (auto simp: connectLive_def connect_def)
qed

theorem socket_refines_link_witness:
  "reach link_init link_step [Status Conn_offline, Schedule 1000] (Waiting 1)"
proof -
  have "link_of demo_lost = Waiting 1"
    by (simp add: link_of_def demo_lost_defs nextBackoffMs_def MAX_BACKOFF_MS_def level_def)
  with socket_refines_link [OF demo_run_lost] show ?thesis by (simp add: connectLive_def connect_def)
qed

text \<open>C16: The live connection never doubles and never dies: in every reachable state at most one of
  the sockets it created is not closed, and as long as \<open>close()\<close> has not been called there is either
  exactly one such socket and no pending reconnect, or none and exactly one pending reconnect.\<close>

theorem socket_one_or_retrying:
  assumes "socket_run os s"
  shows "length (filter (\<lambda>r. r \<noteq> Closed) (socks s)) \<le> 1 \<and>
    (\<not> conn_closed s \<longrightarrow> length (filter (\<lambda>r. r \<noteq> Closed) (socks s)) + length (timers s) = 1)"
  using socket_run_inv [OF assms] alive_newest [of s]
  by (auto simp: socket_inv_def socket_phase_def split: ready_state.splits)

theorem socket_one_or_retrying_witness:
  "length (filter (\<lambda>r. r \<noteq> Closed) (socks demo_lost)) + length (timers demo_lost) = 1"
  using socket_one_or_retrying [OF demo_run_lost] by (simp add: demo_lost_defs)

text \<open>The status the indicator was told last is the truth: while the connection is wanted,
  "live" is shown when the newest socket is open, "connecting" while it is connecting, and "offline"
  from its loss until the next attempt.\<close>

theorem socket_status_faithful:
  assumes "socket_run os s" and "\<not> conn_closed s"
  shows "(last (socks s) = Open \<longrightarrow> last_status os = Some Conn_live) \<and>
    (last (socks s) = Connecting \<longrightarrow> last_status os = Some Conn_connecting) \<and>
    (last (socks s) = Closed \<longleftrightarrow> last_status os = Some Conn_offline)"
  using socket_run_inv [OF assms(1)] assms(2)
  by (auto simp: socket_inv_def socket_phase_def split: ready_state.splits)

theorem socket_status_faithful_witness:
  "last (socks demo_lost) = Closed \<longleftrightarrow>
     last_status (snd connectLive @ [Status Conn_offline, Schedule 1000]) = Some Conn_offline"
proof -
  have "\<not> conn_closed demo_lost" by (simp add: demo_lost_defs)
  from socket_status_faithful [OF demo_run_lost this] show ?thesis by blast
qed

text \<open>Reconnecting backs off exponentially: in every run the delays scheduled since the connection
  was last live are 1 s, 2 s, 4 s and so on, doubling up to 30 s and staying there; opening the
  connection starts the sequence afresh.\<close>

theorem socket_backoff_sequence:
  assumes "socket_run os s"
  shows "\<exists>n. delays_since_live os = map (\<lambda>k. min (1000 * 2 ^ k) 30000) [0..<n]"
proof -
  have "nth_delay = (\<lambda>k. min (1000 * 2 ^ k) 30000)"
    by (simp add: fun_eq_iff nth_delay_def INITIAL_BACKOFF_MS_def MAX_BACKOFF_MS_def)
  then show ?thesis
    using socket_run_inv [OF assms] by (auto simp: socket_inv_def socket_pace_def)
qed

theorem socket_backoff_sequence_witness:
  "\<exists>n. delays_since_live (snd connectLive @ [Status Conn_offline, Schedule 1000]) =
     map (\<lambda>k. min (1000 * 2 ^ k) 30000) [0..<n]"
  by (rule socket_backoff_sequence [OF demo_run_lost])

text \<open>\<open>close()\<close> is final: from any reachable state in which it has been called, whatever the
  sockets and timers still do, no callback runs, no reconnect is scheduled and no socket is created.\<close>

theorem socket_close_final:
  assumes "socket_run os s" and "conn_closed s" and "reach (\<lambda>t. t = s) socket_step os' s'"
  shows "os' = [] \<and> conn_closed s' \<and> length (socks s') = length (socks s)"
proof -
  have "socket_run os s' \<and> os' = [] \<and> conn_closed s' \<and> length (socks s') = length (socks s)"
    using assms(3)
  proof (induction rule: reach.induct)
    case (reach_init t)
    with assms(1,2) show ?case by simp
  next
    case (reach_step os' t out t')
    then have "socket_inv os t" and "conn_closed t" by (auto dest: socket_run_inv)
    from closed_step [OF this reach_step.hyps(2)] reach_step.IH
      socket_run_step [of os t out t'] reach_step.hyps(2) show ?case by auto
  qed
  then show ?thesis by blast
qed

theorem socket_close_final_witness:
  "\<exists>s'. reach (\<lambda>t. t = demo_closed) socket_step [] s' \<and> timers s' = [] \<and> timers demo_closed = [1000] \<and>
     length (socks s') = length (socks demo_closed)"
proof -
  let ?s' = "demo_closed\<lparr>timers := []\<rparr>"
  have c: "conn_closed demo_closed" by (simp add: demo_closed_def demo_lost_defs)
  have t: "timers demo_closed = [] @ 1000 # []" by (simp add: demo_closed_def demo_lost_defs)
  have "reach (\<lambda>t. t = demo_closed) socket_step [] demo_closed" by (rule reach_init) simp
  moreover have "socket_step demo_closed [] ?s'"
    by (rule timer [OF t]) (simp add: connect_def c)
  ultimately have "reach (\<lambda>t. t = demo_closed) socket_step ([] @ []) ?s'" by (rule reach_step)
  then have r: "reach (\<lambda>t. t = demo_closed) socket_step [] ?s'" by simp
  from socket_close_final [OF demo_run_closed c r] r t show ?thesis by auto
qed

end
