(* ===== verification/Shell.thy ===== *)
theory Shell
  imports Dashboard Panels LiveSocket
begin

text \<open>
  The frame around the panels: \<open>theme.ts\<close> and \<open>Header.tsx\<close> with the theme kept in the browser's
  storage, and \<open>MonitorBanner.tsx\<close>, which an admin uses to reconnect the isolated endpoint.
\<close>

subsection \<open>The stored theme\<close>

datatype theme = Theme_dark | Theme_light

definition theme_str :: "theme \<Rightarrow> jsstr" where
  "theme_str t = (case t of Theme_dark \<Rightarrow> js ''dark'' | Theme_light \<Rightarrow> js ''light'')"

definition STORAGE_KEY :: jsstr where "STORAGE_KEY = js ''mirraura-theme''"

text \<open>\<open>localStorage\<close>: \<open>None\<close> when every access throws.\<close>

type_synonym local_storage = "(jsstr \<rightharpoonup> jsstr) option"

definition getStoredTheme :: "local_storage \<Rightarrow> theme" where
  "getStoredTheme st = (case st of
     None \<Rightarrow> Theme_dark
   | Some m \<Rightarrow> if m STORAGE_KEY = Some (js ''light'') then Theme_light else Theme_dark)"

definition setStoredTheme :: "theme \<Rightarrow> local_storage \<Rightarrow> local_storage" where
  "setStoredTheme t st = (case st of None \<Rightarrow> None | Some m \<Rightarrow> Some (m(STORAGE_KEY \<mapsto> theme_str t)))"

subsection \<open>Header\<close>

text \<open>The state of the header, with the storage and the \<open>data-theme\<close> attribute of the document it
  writes to.\<close>

record header_state =
  hd_theme :: theme
  hd_storage :: local_storage
  hd_document :: "theme option"

definition header_mount :: "local_storage \<Rightarrow> header_state" where
  "header_mount st = \<lparr>hd_theme = getStoredTheme st, hd_storage = st, hd_document = Some (getStoredTheme st)\<rparr>"

definition toggleTheme :: "header_state \<Rightarrow> header_state" where
  "toggleTheme s =
     (let n = (if hd_theme s = Theme_dark then Theme_light else Theme_dark)
      in s\<lparr>hd_storage := setStoredTheme n (hd_storage s), hd_document := Some n, hd_theme := n\<rparr>)"

definition CONN_COPY :: "conn_state \<Rightarrow> jsstr \<times> badge_tone \<times> string" where
  "CONN_COPY c = (case c of
     Conn_connecting \<Rightarrow> (js ''Connecting'' @ [0x2026], Tone_neutral, ''Wifi'')
   | Conn_live \<Rightarrow> (js ''Live'', Tone_neutral, ''Wifi'')
   | Conn_offline \<Rightarrow> (js ''Offline '' @ [0x2014] @ js '' retrying'', Tone_neutral, ''WifiOff''))"

datatype header_act = HD_toggle | HD_logout

definition header_view :: "session_user \<Rightarrow> conn_state \<Rightarrow> bool \<Rightarrow> header_state \<Rightarrow> header_act node" where
  "header_view u c monitorIsolated s =
     (case CONN_COPY c of (label, tone, ic) \<Rightarrow> El ''header'' [Attr ''className'' ''header'']
       [El ''div'' [Attr ''className'' ''header__brand'']
          [wordmark 20 True [],
           El ''p'' [Attr ''className'' ''header__tagline'']
             [Text (js ''Shadow honeypot '' @ [0x2014] @ js '' live behavioral verdict engine'')]],
        El ''div'' [Attr ''className'' ''header__status'']
          [badge tone (icon ic 12) [Text label],
           badge (if monitorIsolated then Tone_compromised else Tone_normal)
             (icon (if monitorIsolated then ''ShieldAlert'' else ''ShieldCheck'') 12)
             [if monitorIsolated then Lit ''Isolated'' else Lit ''Monitor connected'']],
        El ''div'' [Attr ''className'' ''header__actions'']
          [El ''button'' [Attr ''type'' ''button'', Attr ''className'' ''header__theme-toggle'',
             Attr ''aria-label'' (if hd_theme s = Theme_dark then ''Switch to light theme'' else ''Switch to dark theme''),
             On_click HD_toggle]
             [if hd_theme s = Theme_dark then El ''Sun'' [] [] else El ''Moon'' [] []],
           El ''div'' [Attr ''className'' ''header__user'']
             [El ''span'' [Attr ''className'' ''header__user-info'']
                [Text (su_username u @ [32, 0xB7, 32] @ su_role u)],
              El ''button'' [Attr ''type'' ''button'', Attr ''className'' ''header__logout'', On_click HD_logout]
                [icon ''LogOut'' 12, Lit ''Sign out'']]]])"

lemma getStored_upd [simp]: "getStoredTheme (Some (m(STORAGE_KEY \<mapsto> theme_str t))) = t"
  by (cases t) (simp_all add: getStoredTheme_def theme_str_def)

lemma getStored_setStored: "st \<noteq> None \<Longrightarrow> getStoredTheme (setStoredTheme t st) = t"
  by (cases t) (auto simp: getStoredTheme_def setStoredTheme_def theme_str_def)

definition header_toggles :: "nat \<Rightarrow> header_state \<Rightarrow> header_state" where
  "header_toggles n s = (toggleTheme ^^ n) s"

lemma header_toggles_inv:
  "hd_document (header_toggles n (header_mount st)) = Some (hd_theme (header_toggles n (header_mount st))) \<and>
   (st \<noteq> None \<longrightarrow> hd_storage (header_toggles n (header_mount st)) \<noteq> None \<and>
      getStoredTheme (hd_storage (header_toggles n (header_mount st))) = hd_theme (header_toggles n (header_mount st))) \<and>
   (st = None \<longrightarrow> hd_storage (header_toggles n (header_mount st)) = None)"
proof (induction n)
  case 0
  show ?case by (simp add: header_toggles_def header_mount_def)
next
  case (Suc n)
  then show ?case
    by (cases st) (auto simp: header_toggles_def toggleTheme_def Let_def getStored_setStored setStoredTheme_def
        split: option.splits)
qed

subsection \<open>MonitorBanner\<close>

text \<open>The banner stays mounted while \<open>isolated\<close> is false, rendering nothing: its state survives.\<close>

record banner_state =
  mb_busy :: bool
  mb_error :: "jsstr option"
  mb_confirming :: bool
  mb_isolated :: bool
  mb_inflight :: nat

datatype banner_effect = Banner_call api_call | Reconnected

type_synonym banner_out = "banner_state \<times> banner_effect list"

definition handleReconnect :: "banner_state \<Rightarrow> banner_out" where
  "handleReconnect s =
     (s\<lparr>mb_confirming := False, mb_busy := True, mb_error := None, mb_inflight := Suc (mb_inflight s)\<rparr>,
      [Banner_call Reconnect_monitor])"

definition banner_settled :: "js_exn + unit \<Rightarrow> banner_state \<Rightarrow> banner_out" where
  "banner_settled r s =
     (let s1 = s\<lparr>mb_inflight := mb_inflight s - 1, mb_busy := False\<rparr>
      in case r of
           Inr _ \<Rightarrow> (s1, [Reconnected])
         | Inl e \<Rightarrow> (s1\<lparr>mb_error := Some (exn_message e (js ''reconnect failed''))\<rparr>, []))"

datatype banner_act = MB_ask | MB_confirm | MB_cancel

definition banner_handle :: "banner_act \<Rightarrow> banner_state \<Rightarrow> banner_out" where
  "banner_handle a s = (case a of
     MB_ask \<Rightarrow> (s\<lparr>mb_confirming := True\<rparr>, [])
   | MB_confirm \<Rightarrow> handleReconnect s
   | MB_cancel \<Rightarrow> (s\<lparr>mb_confirming := False\<rparr>, []))"

definition banner_dialog :: "banner_state \<Rightarrow> banner_act node" where
  "banner_dialog s = confirm_dialog (mb_confirming s) (js ''Reconnect the monitored endpoint?'')
     [Lit ''This restores network access for the isolated device. Only do this once the compromise has been investigated.'']
     (js ''Reconnect'') MB_confirm MB_cancel"

definition banner_view :: "role \<Rightarrow> banner_state \<Rightarrow> banner_act node list" where
  "banner_view r s = (if \<not> mb_isolated s then [] else
     [El ''div'' [Attr ''className'' ''monitor-banner'', Attr ''role'' ''alert'']
       ([El ''span'' [Attr ''className'' ''monitor-banner__dot''] [],
         icon ''ShieldAlert'' 18,
         El ''span'' [Attr ''className'' ''monitor-banner__text'']
           [Text (js ''Monitored endpoint isolated '' @ [0x2014] @
              js '' network disconnected after a Compromised verdict.'')]]
        @ show_if (r = Admin)
           [El ''button'' [Attr ''className'' ''monitor-banner__button'', On_click MB_ask, Flag ''disabled'' (mb_busy s)]
             [if mb_busy s then Text (js ''Reconnecting'' @ [0x2026]) else Lit ''Reconnect'']]
        @ (case mb_error s of None \<Rightarrow> [] | Some m \<Rightarrow> show_if (m \<noteq> [])
             [El ''span'' [Attr ''className'' ''monitor-banner__error''] [Text m]])
        @ [banner_dialog s])])"

definition banner_offers :: "role \<Rightarrow> banner_state \<Rightarrow> banner_act \<Rightarrow> bool" where
  "banner_offers r s a \<longleftrightarrow> (\<exists>n \<in> set (banner_view r s). offers n a)"

text \<open>\<open>props\<close>: the application changes \<open>isolated\<close>.\<close>

inductive banner_step :: "role \<Rightarrow> banner_state \<Rightarrow> banner_effect list \<Rightarrow> banner_state \<Rightarrow> bool" for r :: role where
  user: "banner_offers r s a \<Longrightarrow> banner_handle a s = (s', out) \<Longrightarrow> banner_step r s out s'"
| settled: "0 < mb_inflight s \<Longrightarrow> banner_settled ans s = (s', out) \<Longrightarrow> banner_step r s out s'"
| props: "banner_step r s [] (s\<lparr>mb_isolated := b\<rparr>)"

definition banner_init :: "banner_state \<Rightarrow> bool" where
  "banner_init s \<longleftrightarrow> (\<exists>b. s = \<lparr>mb_busy = False, mb_error = None, mb_confirming = False,
     mb_isolated = b, mb_inflight = 0\<rparr>)"

lemma banner_offers_iff: "banner_offers r s a \<longleftrightarrow> mb_isolated s \<and>
    (if mb_confirming s then a = MB_confirm \<or> a = MB_cancel
     else r = Admin \<and> \<not> mb_busy s \<and> a = MB_ask)"
proof (cases "mb_confirming s")
  case True
  let ?n = "hd (banner_view r s)"
  have "open_dialogs ?n = [banner_dialog s]" if "mb_isolated s"
    using that True by (auto simp: banner_view_def banner_dialog_def split: option.splits)
  then show ?thesis using True
    by (auto simp: banner_offers_def banner_view_def offers_in_dialog banner_dialog_def
        confirm_dialog_handlers)
next
  case False
  let ?n = "hd (banner_view r s)"
  have "open_dialogs ?n = []" if "mb_isolated s"
    using that False by (auto simp: banner_view_def banner_dialog_def split: option.splits)
  then show ?thesis using False
    by (auto simp: banner_offers_def banner_view_def offers_without_dialog banner_dialog_def
        split: option.splits)
qed

definition banner_inv :: "role \<Rightarrow> banner_effect list \<Rightarrow> banner_state \<Rightarrow> bool" where
  "banner_inv r os s \<longleftrightarrow> mb_inflight s = (if mb_busy s then 1 else 0) \<and>
     (mb_confirming s \<longrightarrow> r = Admin \<and> \<not> mb_busy s) \<and>
     (\<forall>c. Banner_call c \<in> set os \<longrightarrow> r = Admin \<and> c = Reconnect_monitor)"

lemma banner_inv_step:
  assumes "banner_inv r os s" and "banner_step r s out s'"
  shows "banner_inv r (os @ out) s'"
  using assms(2)
proof cases
  case (user a)
  with assms(1) show ?thesis
    by (cases a) (auto simp: banner_offers_iff banner_inv_def banner_handle_def handleReconnect_def split: if_splits)
next
  case (settled ans)
  with assms(1) show ?thesis
    by (auto simp: banner_inv_def banner_settled_def Let_def split: sum.splits if_splits)
next
  case (props b)
  with assms(1) show ?thesis by (simp add: banner_inv_def)
qed

interpretation banner: invariant_system banner_init "banner_step r" "banner_inv r"
proof unfold_locales
  show "banner_inv r [] s" if "banner_init s" for s
    using that by (auto simp: banner_init_def banner_inv_def)
qed (rule banner_inv_step)

subsection \<open>A run of the banner\<close>

definition demo_banner :: banner_state where
  "demo_banner = \<lparr>mb_busy = False, mb_error = None, mb_confirming = False, mb_isolated = True, mb_inflight = 0\<rparr>"

lemma demo_run_banner: "reach banner_init (banner_step Admin) [Banner_call Reconnect_monitor]
    (fst (handleReconnect (demo_banner\<lparr>mb_confirming := True\<rparr>)))"
proof -
  let ?s1 = "demo_banner\<lparr>mb_confirming := True\<rparr>"
  have "reach banner_init (banner_step Admin) [] demo_banner"
    by (rule reach_init) (auto simp: banner_init_def demo_banner_def)
  moreover have "banner_step Admin demo_banner [] ?s1"
    by (rule user [of _ _ MB_ask]) (simp_all add: banner_offers_iff banner_handle_def, simp_all add: demo_banner_def)
  ultimately have "reach banner_init (banner_step Admin) ([] @ []) ?s1" by (rule reach_step)
  moreover have "banner_step Admin ?s1 [Banner_call Reconnect_monitor] (fst (handleReconnect ?s1))"
    by (rule user [of _ _ MB_confirm]) (simp_all add: banner_offers_iff banner_handle_def handleReconnect_def,
      simp_all add: demo_banner_def)
  ultimately have "reach banner_init (banner_step Admin) (([] @ []) @ [Banner_call Reconnect_monitor])
      (fst (handleReconnect ?s1))" by (rule reach_step)
  then show ?thesis by simp
qed

subsection \<open>Properties\<close>

text \<open>The endpoint is reconnected only by an admin and one request at a time: in every run only a
  banner rendered for an admin sends the request, the dialog cannot be open while one is in flight,
  and the button is disabled exactly as long as one is.\<close>

theorem banner_admin_single_flight:
  assumes "reach banner_init (banner_step r) os s"
  shows "(\<forall>c. Banner_call c \<in> set os \<longrightarrow> r = Admin \<and> c = Reconnect_monitor) \<and>
    mb_inflight s = (if mb_busy s then 1 else 0) \<and> (mb_confirming s \<longrightarrow> r = Admin \<and> \<not> mb_busy s)"
  using banner.reach_inv [OF assms] by (simp add: banner_inv_def)

theorem banner_admin_single_flight_witness:
  "mb_inflight (fst (handleReconnect (demo_banner\<lparr>mb_confirming := True\<rparr>))) = 1"
  using banner_admin_single_flight [OF demo_run_banner] by (simp add: handleReconnect_def)

text \<open>The theme survives a reload: however often it is toggled, the document shows the theme of the
  state, and with working storage the next page load starts with it; without storage it starts
  dark.\<close>

theorem theme_survives_reload:
  "(let s = header_toggles n (header_mount st) in
      hd_document s = Some (hd_theme s) \<and>
      hd_theme (header_mount (hd_storage s)) = (if st = None then Theme_dark else hd_theme s))"
  using header_toggles_inv [of n st] by (auto simp: Let_def header_mount_def getStoredTheme_def)

end
