(* ===== verification/App.thy ===== *)
theory App
  imports Shell
begin

text \<open>
  \<open>App.tsx\<close>: the session, the live connection that follows it, the data lifted out of the panels, and
  the frame that mounts them.  \<open>app_state\<close> holds the component's \<open>useState\<close> variables, the number of
  the user effect whose connection is open, the promises in flight, and the bottom tabs whose panel
  has been mounted so far: their promises may call back at any later time.  The panels themselves
  are references in the rendered tree; what they do is in their own theories.
\<close>

datatype session = Unknown | Signed_out | Signed_in session_user

datatype bottom_tab = Tab_audit | Tab_hashes | Tab_corpus | Tab_quarantine | Tab_users

datatype app_cont = AP_me | AP_monitor | AP_logout

record app_state =
  ap_user :: session
  ap_sessionExpired :: bool
  ap_sampleEvents :: "mirra_event list"
  ap_monitorEvents :: "mirra_event list"
  ap_verdict :: "verdict option"
  ap_refreshKey :: nat
  ap_isolated :: bool
  ap_connState :: conn_state
  ap_monitorError :: "jsstr option"
  ap_bottomTab :: bottom_tab
  ap_liveAnnouncement :: jsstr
  ap_verdicts :: "audit_row list option"
  ap_hashes :: "hash_entry list option"
  ap_quarantine :: "quarantine_entry list option"
  ap_corpus :: "corpus_entry list option"
  ap_chainStatus :: "chain_status option"
  ap_conn :: "nat option"
  ap_nextConn :: nat
  ap_inflight :: "app_cont list"
  ap_seen :: "bottom_tab set"

datatype app_effect = App_call api_call | Connect_live nat | Close_live nat

type_synonym app_out = "app_state \<times> app_effect list"

definition app_start :: app_state where
  "app_start = \<lparr>ap_user = Unknown, ap_sessionExpired = False, ap_sampleEvents = [], ap_monitorEvents = [],
     ap_verdict = None, ap_refreshKey = 0, ap_isolated = False, ap_connState = Conn_connecting,
     ap_monitorError = None, ap_bottomTab = Tab_audit, ap_liveAnnouncement = [], ap_verdicts = None,
     ap_hashes = None, ap_quarantine = None, ap_corpus = None, ap_chainStatus = None, ap_conn = None,
     ap_nextConn = 0, ap_inflight = [], ap_seen = {}\<rparr>"

subsection \<open>The session\<close>

text \<open>The first effect asks who is signed in.\<close>

definition app_mount :: app_out where
  "app_mount = (app_start\<lparr>ap_inflight := [AP_me]\<rparr>, [App_call Me])"

definition close_live :: "app_state \<Rightarrow> app_effect list" where
  "close_live s = (case ap_conn s of None \<Rightarrow> [] | Some k \<Rightarrow> [Close_live k])"

text \<open>\<open>setUser\<close> and the effect on \<open>[user]\<close>: the clean-up closes the connection of the user before, the
  effect asks for the monitor's status and connects, and connecting reports its first status at once.
  Setting \<open>null\<close> again changes nothing.\<close>

definition set_user :: "session_user option \<Rightarrow> app_state \<Rightarrow> app_out" where
  "set_user u s = (case u of
     None \<Rightarrow> (s\<lparr>ap_user := Signed_out, ap_conn := None\<rparr>, close_live s)
   | Some v \<Rightarrow>
       (s\<lparr>ap_user := Signed_in v, ap_conn := Some (ap_nextConn s), ap_nextConn := Suc (ap_nextConn s),
          ap_connState := Conn_connecting, ap_inflight := ap_inflight s @ [AP_monitor], ap_seen := insert (ap_bottomTab s) (ap_seen s)\<rparr>,
        close_live s @ [App_call Fetch_monitor_status, Connect_live (ap_nextConn s)]))"

definition app_me_settled :: "js_exn + session_user \<Rightarrow> app_state \<Rightarrow> app_out" where
  "app_me_settled r s = (case r of Inr u \<Rightarrow> set_user (Some u) s | Inl e \<Rightarrow> set_user None s)"

definition app_monitor_settled :: "js_exn + bool \<Rightarrow> app_state \<Rightarrow> app_out" where
  "app_monitor_settled r s = (case r of
     Inr b \<Rightarrow> (s\<lparr>ap_isolated := b, ap_monitorError := None\<rparr>, [])
   | Inl e \<Rightarrow> (s\<lparr>ap_monitorError := Some (exn_message e (js ''failed to load monitor status''))\<rparr>, []))"

definition handleLogout :: "app_state \<Rightarrow> app_out" where
  "handleLogout s = (s\<lparr>ap_inflight := ap_inflight s @ [AP_logout]\<rparr>, [App_call Logout])"

text \<open>A failed logout request is ignored.\<close>

definition app_logout_settled :: "app_state \<Rightarrow> app_out" where
  "app_logout_settled s = set_user None s"

definition handleSessionExpired :: "app_state \<Rightarrow> app_out" where
  "handleSessionExpired s = set_user None (s\<lparr>ap_sessionExpired := True\<rparr>)"

definition app_onLogin :: "session_user \<Rightarrow> app_state \<Rightarrow> app_out" where
  "app_onLogin u s = set_user (Some u) (s\<lparr>ap_sessionExpired := False\<rparr>)"

subsection \<open>Live messages\<close>

definition app_message :: "live_message \<Rightarrow> app_state \<Rightarrow> app_state" where
  "app_message msg s0 =
     (let s1 = s0\<lparr>ap_sampleEvents := applyLiveEvent (ap_sampleEvents s0) msg,
                  ap_monitorEvents := applyMonitorEvent (ap_monitorEvents s0) msg\<rparr>;
          s2 = (if shouldUpdateSampleVerdict msg
                then (case msg of Live_verdict src v \<Rightarrow>
                        s1\<lparr>ap_verdict := Some v,
                           ap_liveAnnouncement := js ''New verdict: '' @ label_str (verdict_label v)
                             @ js '' for '' @ sample_filename v\<rparr>
                      | _ \<Rightarrow> s1) else s1);
          s3 = (case msg of Live_verdict src v \<Rightarrow> s2\<lparr>ap_refreshKey := Suc (ap_refreshKey s2)\<rparr> | _ \<Rightarrow> s2);
          s4 = (if msg = Live_isolated then s3\<lparr>ap_isolated := True,
                  ap_liveAnnouncement := js ''Monitored endpoint isolated after a compromised verdict.''\<rparr> else s3)
      in if msg = Live_reconnected then s4\<lparr>ap_isolated := False,
           ap_liveAnnouncement := js ''Monitored endpoint reconnected.''\<rparr> else s4)"

subsection \<open>Callbacks of the panels\<close>

datatype panel_call =
    On_verdict verdict
  | On_upload_start
  | On_session_expired
  | On_reconnected
  | On_verdicts_change "audit_row list"
  | On_chain_change "chain_status option"
  | On_decision
  | On_hashes_change "hash_entry list"
  | On_corpus_change "corpus_entry list"
  | On_quarantine_change "quarantine_entry list"

definition handleUpload :: "verdict \<Rightarrow> app_state \<Rightarrow> app_state" where
  "handleUpload v s = s\<lparr>ap_verdict := Some v, ap_refreshKey := Suc (ap_refreshKey s)\<rparr>"

definition app_callback :: "panel_call \<Rightarrow> app_state \<Rightarrow> app_out" where
  "app_callback c s = (case c of
     On_verdict v \<Rightarrow> (handleUpload v s, [])
   | On_upload_start \<Rightarrow> (s\<lparr>ap_sampleEvents := []\<rparr>, [])
   | On_session_expired \<Rightarrow> handleSessionExpired s
   | On_reconnected \<Rightarrow> (s\<lparr>ap_isolated := False\<rparr>, [])
   | On_verdicts_change rows \<Rightarrow> (s\<lparr>ap_verdicts := Some rows\<rparr>, [])
   | On_chain_change c \<Rightarrow> (s\<lparr>ap_chainStatus := c\<rparr>, [])
   | On_decision \<Rightarrow> (s\<lparr>ap_refreshKey := Suc (ap_refreshKey s)\<rparr>, [])
   | On_hashes_change hs \<Rightarrow> (s\<lparr>ap_hashes := Some hs\<rparr>, [])
   | On_corpus_change cs \<Rightarrow> (s\<lparr>ap_corpus := Some cs\<rparr>, [])
   | On_quarantine_change qs \<Rightarrow> (s\<lparr>ap_quarantine := Some qs\<rparr>, []))"

text \<open>The tab whose panel makes a callback; \<open>None\<close> for those of the upper half.\<close>

definition callback_tabs :: "panel_call \<Rightarrow> bottom_tab set option" where
  "callback_tabs c = (case c of
     On_verdicts_change _ \<Rightarrow> Some {Tab_audit}
   | On_chain_change _ \<Rightarrow> Some {Tab_audit}
   | On_decision \<Rightarrow> Some {Tab_hashes, Tab_corpus, Tab_quarantine}
   | On_hashes_change _ \<Rightarrow> Some {Tab_hashes}
   | On_corpus_change _ \<Rightarrow> Some {Tab_corpus}
   | On_quarantine_change _ \<Rightarrow> Some {Tab_quarantine}
   | _ \<Rightarrow> None)"

definition select_tab :: "bottom_tab \<Rightarrow> app_state \<Rightarrow> app_out" where
  "select_tab t s = (s\<lparr>ap_bottomTab := t, ap_seen := insert t (ap_seen s)\<rparr>, [])"

subsection \<open>The rendered tree\<close>

definition tab_name :: "bottom_tab \<Rightarrow> string" where
  "tab_name t = (case t of Tab_audit \<Rightarrow> ''audit'' | Tab_hashes \<Rightarrow> ''hashes'' | Tab_corpus \<Rightarrow> ''corpus''
     | Tab_quarantine \<Rightarrow> ''quarantine'' | Tab_users \<Rightarrow> ''users'')"

lemma tab_name_inj [simp]: "tab_name a = tab_name b \<longleftrightarrow> a = b"
  by (cases a; cases b) (simp_all add: tab_name_def)

definition role_of :: "session_user \<Rightarrow> role" where
  "role_of u = (if su_role u = js ''admin'' then Admin else Analyst)"

definition pendingCount :: "app_state \<Rightarrow> nat" where
  "pendingCount s = (case ap_hashes s of None \<Rightarrow> 0
     | Some hs \<Rightarrow> length (filter (\<lambda>h. he_status h = Pending) hs))"

definition quarantineCount :: "app_state \<Rightarrow> nat" where
  "quarantineCount s = (case ap_quarantine s of None \<Rightarrow> 0 | Some qs \<Rightarrow> length qs)"

definition corpusCount :: "app_state \<Rightarrow> nat" where
  "corpusCount s = (case ap_corpus s of None \<Rightarrow> 0 | Some cs \<Rightarrow> length cs)"

definition count_badge :: "nat \<Rightarrow> 'a node list" where
  "count_badge n = show_if (0 < n) [El ''span'' [Attr ''className'' ''tabs__badge''] [Text (dec n)]]"

definition bottom_tabs :: "role \<Rightarrow> app_state \<Rightarrow> string tab_item list" where
  "bottom_tabs r s =
     [\<lparr>tab_id = ''audit'', tab_label = ''Audit log'', tab_badge = []\<rparr>,
      \<lparr>tab_id = ''hashes'', tab_label = ''Hash approvals'', tab_badge = count_badge (pendingCount s)\<rparr>,
      \<lparr>tab_id = ''corpus'', tab_label = ''Corpus'', tab_badge = count_badge (corpusCount s)\<rparr>,
      \<lparr>tab_id = ''quarantine'', tab_label = ''Quarantine'', tab_badge = count_badge (quarantineCount s)\<rparr>]
     @ (if r = Admin then [\<lparr>tab_id = ''users'', tab_label = ''Users'', tab_badge = []\<rparr>] else [])"

text \<open>A component with state of its own, as a reference.\<close>

definition component :: "string \<Rightarrow> role \<Rightarrow> 'a node" where
  "component c r = El c [Val ''role'' (role_str r)] []"

definition stats_zone :: "platform \<Rightarrow> app_state \<Rightarrow> string node list option" where
  "stats_zone pf s = (case (ap_verdicts s, ap_hashes s) of
     (Some vs, Some hs) \<Rightarrow> map_option (\<lambda>overview.
         [El ''StatStrip'' [] [stat_strip vs hs (map_option intact (ap_chainStatus s))],
          El ''DetectionsOverview'' [] [overview]])
       (detections_overview pf vs)
   | _ \<Rightarrow> Some [skeleton 1])"

definition panel_name :: "bottom_tab \<Rightarrow> string" where
  "panel_name t = (case t of Tab_audit \<Rightarrow> ''AuditLogTable'' | Tab_hashes \<Rightarrow> ''PendingHashApprovals''
     | Tab_corpus \<Rightarrow> ''CorpusReview'' | Tab_quarantine \<Rightarrow> ''QuarantineReview'' | Tab_users \<Rightarrow> ''UserManagement'')"

definition log_zone :: "role \<Rightarrow> app_state \<Rightarrow> string node" where
  "log_zone r s = El ''section'' [Attr ''className'' ''log-zone'']
     (tabs_view (bottom_tabs r s) (tab_name (ap_bottomTab s)) id
      # concat (map (\<lambda>t. tab_panel (tab_name t) (tab_name (ap_bottomTab s)) [component (panel_name t) r])
          [Tab_audit, Tab_hashes, Tab_corpus, Tab_quarantine, Tab_users]))"

text \<open>Its actions are the identifiers of the bottom tabs; \<open>None\<close>: rendering threw.\<close>

definition app_view :: "platform \<Rightarrow> app_state \<Rightarrow> string node list option" where
  "app_view pf s = (case ap_user s of
     Unknown \<Rightarrow> Some []
   | Signed_out \<Rightarrow> Some (show_if (ap_sessionExpired s)
         [El ''p'' [Attr ''className'' ''error-text''] [Lit ''Your session expired. Please sign in again.'']]
       @ [El ''LoginPage'' [] []])
   | Signed_in u \<Rightarrow> (case (stats_zone pf s, verdict_panel (ap_verdict s)) of
        (Some stats, Some vp) \<Rightarrow> Some [El ''div'' [Attr ''className'' ''app'']
          ([El ''span'' [Attr ''className'' ''sr-only'', Attr ''aria-live'' ''polite''] [Text (ap_liveAnnouncement s)],
            component ''Header'' (role_of u)]
           @ error_text (ap_monitorError s)
           @ stats
           @ [component ''MonitorBanner'' (role_of u),
              El ''section'' [Attr ''className'' ''detonation-zone'']
                [El ''div'' [Attr ''className'' ''detonation-zone__left''] [component ''UploadPanel'' (role_of u), vp],
                 El ''div'' [Attr ''className'' ''detonation-zone__right''] [component ''EventFeed'' (role_of u)]],
              log_zone (role_of u) s])]
      | _ \<Rightarrow> None))"

definition app_shows :: "platform \<Rightarrow> string \<Rightarrow> app_state \<Rightarrow> bool" where
  "app_shows pf c s \<longleftrightarrow> (case app_view pf s of None \<Rightarrow> False
     | Some ns \<Rightarrow> concat (map (elements c) ns) \<noteq> [])"

subsection \<open>The steps of the component\<close>

inductive app_settle :: "app_state \<Rightarrow> app_effect list \<Rightarrow> app_state \<Rightarrow> bool" where
  me_settled: "ap_inflight s = xs @ AP_me # ys \<Longrightarrow>
     app_me_settled r (s\<lparr>ap_inflight := xs @ ys\<rparr>) = (s', out) \<Longrightarrow> app_settle s out s'"
| monitor_settled: "ap_inflight s = xs @ AP_monitor # ys \<Longrightarrow>
     app_monitor_settled b (s\<lparr>ap_inflight := xs @ ys\<rparr>) = (s', out) \<Longrightarrow> app_settle s out s'"
| logout_settled: "ap_inflight s = xs @ AP_logout # ys \<Longrightarrow>
     app_logout_settled (s\<lparr>ap_inflight := xs @ ys\<rparr>) = (s', out) \<Longrightarrow> app_settle s out s'"

text \<open>The bottom tabs a user can select are those the tab list of the role offers.\<close>

inductive app_own :: "app_state \<Rightarrow> app_effect list \<Rightarrow> app_state \<Rightarrow> bool" where
  settled: "app_settle s out s' \<Longrightarrow> app_own s out s'"
| log_out: "ap_user s = Signed_in u \<Longrightarrow> handleLogout s = (s', out) \<Longrightarrow> app_own s out s'"
| tab: "ap_user s = Signed_in u \<Longrightarrow>
     offers (tabs_view (bottom_tabs (role_of u) s) (tab_name (ap_bottomTab s)) id) (tab_name t) \<Longrightarrow>
     select_tab t s = (s', out) \<Longrightarrow> app_own s out s'"

text \<open>The rest comes from outside: from the live connection, the login page and the panels.\<close>

inductive app_step :: "platform \<Rightarrow> app_state \<Rightarrow> app_effect list \<Rightarrow> app_state \<Rightarrow> bool" for pf :: platform where
  own: "app_own s out s' \<Longrightarrow> app_step pf s out s'"
| message: "ap_conn s \<noteq> None \<Longrightarrow> app_step pf s [] (app_message m s)"
| status: "ap_conn s \<noteq> None \<Longrightarrow> app_step pf s [] (s\<lparr>ap_connState := c\<rparr>)"
| log_in: "ap_user s = Signed_out \<Longrightarrow> app_onLogin u s = (s', out) \<Longrightarrow> app_step pf s out s'"
| panel_callback: "ap_seen s \<noteq> {} \<Longrightarrow>
     (case callback_tabs c of None \<Rightarrow> True | Some ts \<Rightarrow> ts \<inter> ap_seen s \<noteq> {}) \<Longrightarrow>
     app_callback c s = (s', out) \<Longrightarrow> app_step pf s out s'"

definition app_init :: "app_state \<Rightarrow> bool" where
  "app_init s \<longleftrightarrow> s = fst app_mount"

lemma app_own_cases [consumes 1]:
  assumes "app_own s out s'"
  obtains
    (me_settled) xs ys r where "ap_inflight s = xs @ AP_me # ys"
      "app_me_settled r (s\<lparr>ap_inflight := xs @ ys\<rparr>) = (s', out)"
  | (monitor_settled) xs ys b where "ap_inflight s = xs @ AP_monitor # ys"
      "app_monitor_settled b (s\<lparr>ap_inflight := xs @ ys\<rparr>) = (s', out)"
  | (logout_settled) xs ys where "ap_inflight s = xs @ AP_logout # ys"
      "app_logout_settled (s\<lparr>ap_inflight := xs @ ys\<rparr>) = (s', out)"
  | (log_out) u where "ap_user s = Signed_in u" "handleLogout s = (s', out)"
  | (tab) u t where "ap_user s = Signed_in u"
      "offers (tabs_view (bottom_tabs (role_of u) s) (tab_name (ap_bottomTab s)) id) (tab_name t)"
      "select_tab t s = (s', out)"
  using assms by cases (auto elim!: app_settle.cases intro: that)

lemmas session_defs = set_user_def close_live_def app_me_settled_def app_logout_settled_def
  handleLogout_def handleSessionExpired_def app_onLogin_def

subsection \<open>What the tab list offers\<close>

lemma bottom_tabs_offers:
  "offers (tabs_view (bottom_tabs r s) active id) (tab_name t) \<longleftrightarrow> (t = Tab_users \<longrightarrow> r = Admin)"
proof -
  have "offers (tabs_view (bottom_tabs r s) active id) (tab_name t) \<longleftrightarrow>
      (\<exists>i \<in> set (bottom_tabs r s). tab_name t = tab_id i)"
    by (subst tabs_view_offers) (auto simp: bottom_tabs_def count_badge_def split: if_splits)
  also have "\<dots> \<longleftrightarrow> (t = Tab_users \<longrightarrow> r = Admin)"
    by (cases t; cases r) (simp_all add: bottom_tabs_def tab_name_def)
  finally show ?thesis .
qed

subsection \<open>The invariant\<close>

text \<open>The connections that have been opened and not closed.\<close>

definition conn_step :: "nat list \<Rightarrow> app_effect \<Rightarrow> nat list" where
  "conn_step ks x = (case x of Connect_live k \<Rightarrow> ks @ [k] | Close_live k \<Rightarrow> filter (\<lambda>j. j \<noteq> k) ks | _ \<Rightarrow> ks)"

definition open_conns :: "app_effect list \<Rightarrow> nat list" where
  "open_conns os = foldl conn_step [] os"

lemma open_conns_append: "open_conns (os @ out) = foldl conn_step (open_conns os) out"
  by (simp add: open_conns_def)

definition app_inv :: "app_effect list \<Rightarrow> app_state \<Rightarrow> bool" where
  "app_inv os s \<longleftrightarrow> open_conns os = (case ap_conn s of None \<Rightarrow> [] | Some k \<Rightarrow> [k]) \<and>
     (ap_conn s \<noteq> None \<longleftrightarrow> (\<exists>u. ap_user s = Signed_in u)) \<and>
     (Tab_hashes \<notin> ap_seen s \<longrightarrow> ap_hashes s = None) \<and>
     (ap_conn s \<noteq> None \<longrightarrow> ap_bottomTab s \<in> ap_seen s)"

lemma app_inv_cong:
  "app_inv os s \<Longrightarrow> ap_conn s' = ap_conn s \<Longrightarrow> ap_user s' = ap_user s \<Longrightarrow> ap_seen s \<subseteq> ap_seen s' \<Longrightarrow>
   ap_hashes s' = ap_hashes s \<Longrightarrow> ap_bottomTab s' = ap_bottomTab s \<or> ap_bottomTab s' \<in> ap_seen s' \<Longrightarrow>
   app_inv os s'"
  by (auto simp: app_inv_def)

lemma set_user_inv:
  assumes "app_inv os s" and "set_user u s = (s', out)"
  shows "app_inv (os @ out) s'"
  using assms by (cases u; cases "ap_conn s")
    (auto simp: app_inv_def set_user_def close_live_def open_conns_append conn_step_def)

lemma app_message_frame:
  "ap_conn (app_message m s) = ap_conn s \<and> ap_user (app_message m s) = ap_user s \<and>
   ap_seen (app_message m s) = ap_seen s \<and> ap_hashes (app_message m s) = ap_hashes s \<and>
   ap_bottomTab (app_message m s) = ap_bottomTab s"
  by (cases m) (auto simp: app_message_def shouldUpdateSampleVerdict_def Let_def split: live_source.splits)

lemma app_inv_callback:
  assumes "app_inv os s" and "case callback_tabs c of None \<Rightarrow> True | Some ts \<Rightarrow> ts \<inter> ap_seen s \<noteq> {}"
    and "app_callback c s = (s', out)"
  shows "app_inv (os @ out) s'"
proof (cases c)
  case On_session_expired
  have "app_inv os (s\<lparr>ap_sessionExpired := True\<rparr>)" by (rule app_inv_cong [OF assms(1)]) simp_all
  with On_session_expired assms(3) show ?thesis
    by (simp add: app_callback_def handleSessionExpired_def set_user_inv)
next
  case (On_hashes_change hs)
  with assms show ?thesis by (auto simp: app_callback_def callback_tabs_def app_inv_def)
qed (use assms(1,3) in \<open>auto simp: app_callback_def handleUpload_def intro: app_inv_cong\<close>)

lemma app_inv_own:
  assumes "app_inv os s" and "app_own s out s'"
  shows "app_inv (os @ out) s'"
  using assms(2)
proof (cases rule: app_own_cases)
  case (me_settled xs ys r)
  have "app_inv os (s\<lparr>ap_inflight := xs @ ys\<rparr>)" by (rule app_inv_cong [OF assms(1)]) simp_all
  with me_settled show ?thesis by (auto simp: app_me_settled_def set_user_inv split: sum.splits)
next
  case (monitor_settled xs ys b)
  with assms(1) show ?thesis
    by (auto simp: app_monitor_settled_def intro: app_inv_cong split: sum.splits)
next
  case (logout_settled xs ys)
  have "app_inv os (s\<lparr>ap_inflight := xs @ ys\<rparr>)" by (rule app_inv_cong [OF assms(1)]) simp_all
  with logout_settled show ?thesis by (auto simp: app_logout_settled_def set_user_inv)
next
  case (log_out u)
  with assms(1) show ?thesis
    by (auto simp: handleLogout_def app_inv_def open_conns_append conn_step_def)
next
  case (tab u t)
  with assms(1) show ?thesis by (auto simp: select_tab_def intro: app_inv_cong)
qed

lemma app_inv_step:
  assumes "app_inv os s" and "app_step pf s out s'"
  shows "app_inv (os @ out) s'"
  using assms(2)
proof cases
  case own
  with assms(1) show ?thesis by (rule app_inv_own)
next
  case (message m)
  with assms(1) app_message_frame [of m s] show ?thesis by (auto intro: app_inv_cong)
next
  case (status c)
  with assms(1) show ?thesis by (auto intro: app_inv_cong)
next
  case (log_in u)
  have "app_inv os (s\<lparr>ap_sessionExpired := False\<rparr>)" by (rule app_inv_cong [OF assms(1)]) simp_all
  with log_in show ?thesis by (auto simp: app_onLogin_def set_user_inv)
next
  case (panel_callback c)
  with assms(1) show ?thesis by (intro app_inv_callback)
qed

interpretation app: invariant_system app_init "app_step pf" app_inv
proof unfold_locales
  show "app_inv [] s" if "app_init s" for s
    using that by (simp add: app_init_def app_mount_def app_start_def app_inv_def open_conns_def)
qed (rule app_inv_step)

text \<open>Who is signed in is unknown exactly until the first question is answered; until then no panel has
  been mounted.\<close>

definition app_asking :: "app_state \<Rightarrow> bool" where
  "app_asking s \<longleftrightarrow> (if ap_user s = Unknown then ap_inflight s = [AP_me] \<and> ap_seen s = {}
     else AP_me \<notin> set (ap_inflight s))"

lemma set_user_asking:
  "set_user u s = (s', out) \<Longrightarrow> AP_me \<notin> set (ap_inflight s) \<Longrightarrow> app_asking s'"
  by (cases u) (auto simp: set_user_def app_asking_def)

lemma app_asking_cong:
  "app_asking s \<Longrightarrow> ap_user s' = ap_user s \<Longrightarrow> ap_inflight s' = ap_inflight s \<Longrightarrow>
   (ap_user s = Unknown \<Longrightarrow> ap_seen s' = ap_seen s) \<Longrightarrow> app_asking s'"
  by (simp add: app_asking_def split: if_splits)

lemma app_asking_own:
  assumes "app_asking s" and "app_own s out s'"
  shows "app_asking s'"
  using assms(2)
proof (cases rule: app_own_cases)
  case (me_settled xs ys r)
  with assms(1) have "xs = [] \<and> ys = []" by (auto simp: app_asking_def Cons_eq_append_conv split: if_splits)
  with me_settled show ?thesis
    by (auto simp: app_me_settled_def intro: set_user_asking split: sum.splits)
next
  case (logout_settled xs ys)
  with assms(1) have "AP_me \<notin> set (xs @ ys)"
    by (auto simp: app_asking_def Cons_eq_append_conv split: if_splits)
  with logout_settled(2) show ?thesis
    unfolding app_logout_settled_def by (auto elim: set_user_asking)
next
  case (monitor_settled xs ys b)
  with assms(1) show ?thesis
    by (auto simp: app_monitor_settled_def app_asking_def Cons_eq_append_conv split: sum.splits if_splits)
qed (use assms(1) in \<open>auto simp: app_asking_def handleLogout_def select_tab_def split: if_splits\<close>)

lemma app_callback_asking:
  "app_asking s \<Longrightarrow> ap_seen s \<noteq> {} \<Longrightarrow> app_callback c s = (s', out) \<Longrightarrow> app_asking s'"
  by (cases c) (auto simp: app_callback_def handleSessionExpired_def set_user_def handleUpload_def
      app_asking_def split: if_splits)

lemma app_message_inflight: "ap_inflight (app_message m s) = ap_inflight s"
  by (cases m) (auto simp: app_message_def shouldUpdateSampleVerdict_def Let_def split: live_source.splits)

interpretation app_ask: invariant_system app_init "app_step pf" "\<lambda>_. app_asking"
proof unfold_locales
  show "app_asking s" if "app_init s" for s
    using that by (simp add: app_init_def app_mount_def app_start_def app_asking_def)
next
  show "app_asking s'" if "app_asking s" and "app_step pf s out s'" for s out s'
    using that(2)
  proof cases
    case own
    with that(1) show ?thesis by (rule app_asking_own)
  next
    case (message m)
    with that(1) app_message_frame [of m s] app_message_inflight [of m s] show ?thesis
      by (auto intro: app_asking_cong)
  next
    case (log_in u)
    from log_in(2) show ?thesis unfolding app_onLogin_def
      by (rule set_user_asking) (use that(1) log_in(1) in \<open>simp add: app_asking_def\<close>)
  qed (use that(1) in \<open>auto intro: app_callback_asking app_asking_cong\<close>)
qed

subsection \<open>A change of users\<close>

definition relogin :: "session_user \<Rightarrow> app_state \<Rightarrow> app_state" where
  "relogin b s = fst (app_onLogin b (fst (app_logout_settled s)))"

lemma relogin_fields:
  "ap_user (relogin b s) = Signed_in b \<and> ap_bottomTab (relogin b s) = ap_bottomTab s \<and>
   ap_verdict (relogin b s) = ap_verdict s \<and> ap_sampleEvents (relogin b s) = ap_sampleEvents s \<and>
   ap_monitorEvents (relogin b s) = ap_monitorEvents s \<and> ap_verdicts (relogin b s) = ap_verdicts s \<and>
   ap_hashes (relogin b s) = ap_hashes s \<and> ap_quarantine (relogin b s) = ap_quarantine s \<and>
   ap_corpus (relogin b s) = ap_corpus s \<and> ap_chainStatus (relogin b s) = ap_chainStatus s"
  by (simp add: relogin_def session_defs)

lemma reach_relogin:
  assumes "reach app_init (app_step pf) os s" and "ap_user s = Signed_in a"
  shows "\<exists>os'. reach app_init (app_step pf) (os @ os') (relogin b s)"
proof -
  let ?s1 = "s\<lparr>ap_inflight := ap_inflight s @ [AP_logout]\<rparr>"
  have "app_step pf s [App_call Logout] ?s1"
    by (rule own, rule log_out [OF assms(2)]) (simp add: handleLogout_def)
  from reach_step [OF assms(1), OF this]
  have r1: "reach app_init (app_step pf) (os @ [App_call Logout]) ?s1" .
  have "app_step pf ?s1 (close_live s) (fst (app_logout_settled s))"
    by (rule own, rule settled, rule logout_settled [where xs = "ap_inflight s" and ys = "[]"])
       (simp_all add: app_logout_settled_def set_user_def close_live_def)
  from reach_step [OF r1, OF this]
  have r2: "reach app_init (app_step pf) ((os @ [App_call Logout]) @ close_live s) (fst (app_logout_settled s))" .
  have "app_step pf (fst (app_logout_settled s)) (snd (app_onLogin b (fst (app_logout_settled s)))) (relogin b s)"
    by (rule log_in [of _ b]) (simp_all add: app_logout_settled_def set_user_def relogin_def)
  from reach_step [OF r2, OF this] show ?thesis by (simp only: append_assoc) blast
qed

subsection \<open>A run of the component\<close>

definition demo_admin :: session_user where
  "demo_admin = \<lparr>su_username = js ''ann'', su_role = js ''admin''\<rparr>"

definition demo_analyst :: session_user where
  "demo_analyst = \<lparr>su_username = js ''bob'', su_role = js ''analyst''\<rparr>"

definition demo_app :: app_state where
  "demo_app = fst (app_me_settled (Inr demo_admin) (app_start\<lparr>ap_inflight := []\<rparr>))"

lemma demo_run_app:
  "reach app_init (app_step pf) [App_call Fetch_monitor_status, Connect_live 0] demo_app"
proof -
  have "reach app_init (app_step pf) [] (fst app_mount)" by (rule reach_init) (simp add: app_init_def)
  moreover have "app_step pf (fst app_mount) [App_call Fetch_monitor_status, Connect_live 0] demo_app"
    by (rule own, rule settled, rule me_settled [where xs = "[]" and ys = "[]" and r = "Inr demo_admin"])
       (simp_all add: app_mount_def app_me_settled_def set_user_def close_live_def app_start_def demo_app_def)
  ultimately have "reach app_init (app_step pf) ([] @ [App_call Fetch_monitor_status, Connect_live 0]) demo_app"
    by (rule reach_step)
  then show ?thesis by simp
qed

lemmas demo_app_defs = demo_app_def app_me_settled_def set_user_def close_live_def app_start_def

definition demo_app_users :: app_state where
  "demo_app_users = fst (select_tab Tab_users demo_app)"

lemma demo_run_users:
  "reach app_init (app_step pf) [App_call Fetch_monitor_status, Connect_live 0] demo_app_users"
proof -
  have u: "ap_user demo_app = Signed_in demo_admin" by (simp add: demo_app_defs)
  have "offers (tabs_view (bottom_tabs (role_of demo_admin) demo_app) (tab_name (ap_bottomTab demo_app)) id)
      (tab_name Tab_users)"
    unfolding bottom_tabs_offers by (simp add: role_of_def demo_admin_def)
  from own [OF tab [OF u this, of demo_app_users "[]"], of pf]
  have "app_step pf demo_app [] demo_app_users" by (simp add: demo_app_users_def select_tab_def)
  from reach_step [OF demo_run_app, OF this] show ?thesis by simp
qed

subsection \<open>A sequence of messages\<close>

text \<open>The sample verdicts among the messages, and the number of verdicts of any source.\<close>

definition sample_verdicts :: "live_message list \<Rightarrow> verdict list" where
  "sample_verdicts ms = concat (map (\<lambda>m. case m of Live_verdict Sample v \<Rightarrow> [v] | _ \<Rightarrow> []) ms)"

definition verdict_messages :: "live_message list \<Rightarrow> nat" where
  "verdict_messages ms = length (filter (\<lambda>m. case m of Live_verdict _ _ \<Rightarrow> True | _ \<Rightarrow> False) ms)"

lemma app_message_feeds:
  "ap_sampleEvents (app_message m s) = applyLiveEvent (ap_sampleEvents s) m"
  "ap_monitorEvents (app_message m s) = applyMonitorEvent (ap_monitorEvents s) m"
  by (cases m; auto simp: app_message_def shouldUpdateSampleVerdict_def Let_def split: live_source.splits)+

lemma app_message_verdict:
  "ap_verdict (app_message m s) = (case m of Live_verdict Sample v \<Rightarrow> Some v | _ \<Rightarrow> ap_verdict s)"
  "ap_refreshKey (app_message m s) = ap_refreshKey s + (case m of Live_verdict _ _ \<Rightarrow> 1 | _ \<Rightarrow> 0)"
  by (cases m; auto simp: app_message_def shouldUpdateSampleVerdict_def Let_def split: live_source.splits)+

lemma app_message_verdicts:
  "ap_verdict (foldl (\<lambda>t m. app_message m t) s ms) =
     (case sample_verdicts ms of [] \<Rightarrow> ap_verdict s | vs \<Rightarrow> Some (last vs)) \<and>
   ap_refreshKey (foldl (\<lambda>t m. app_message m t) s ms) = ap_refreshKey s + verdict_messages ms"
  by (induction ms arbitrary: s)
     (auto simp: app_message_verdict sample_verdicts_def verdict_messages_def
       split: list.splits live_message.splits live_source.splits)

subsection \<open>Properties\<close>

text \<open>The live connection follows the session: in every reachable state exactly one connection is
  open when a user is signed in and none otherwise; signing in, out and in again, or being signed
  out by an expired session, never leaves an old connection open.\<close>

theorem app_one_connection:
  assumes "reach app_init (app_step pf) os s"
  shows "length (open_conns os) = (if \<exists>u. ap_user s = Signed_in u then 1 else 0)"
  using app.reach_inv [OF assms] by (auto simp: app_inv_def split: option.splits)

theorem app_one_connection_witness:
  "length (open_conns [App_call Fetch_monitor_status, Connect_live 0]) = 1"
  using app_one_connection [OF demo_run_app] by (simp add: demo_app_defs)

text \<open>The statistics wait for a visit of the "Hash approvals" tab: as long as its panel has never been
  mounted, the zone that should hold the statistics and the overview is a skeleton, whatever the
  audit log has loaded, and the tab's own badge stays empty.\<close>

theorem app_stats_need_hashes_tab:
  assumes "reach app_init (app_step pf) os s" and "Tab_hashes \<notin> ap_seen s"
  shows "stats_zone pf s = Some [skeleton 1] \<and> count_badge (pendingCount s) = []"
  using app.reach_inv [OF assms(1)] assms(2)
  by (auto simp: app_inv_def stats_zone_def pendingCount_def count_badge_def split: option.splits)

theorem app_stats_need_hashes_tab_witness:
  "stats_zone demo_platform demo_app = Some [skeleton 1]"
proof -
  have "Tab_hashes \<notin> ap_seen demo_app" by (simp add: demo_app_defs)
  from app_stats_need_hashes_tab [OF demo_run_app this] show ?thesis by blast
qed

text \<open>The user administration outlives the admin: if an admin signs out while the "Users" tab is
  selected, whoever signs in next sees the user administration, also an analyst, for whom the tab
  list does not offer that tab.\<close>

theorem app_users_panel_ungated:
  assumes "reach app_init (app_step pf) os s" and "ap_user s = Signed_in a"
    and "ap_bottomTab s = Tab_users" and "app_view pf s \<noteq> None" and "role_of b = Analyst"
  shows "\<exists>os' s'. reach app_init (app_step pf) (os @ os') s' \<and> ap_user s' = Signed_in b \<and>
    app_shows pf ''UserManagement'' s' \<and>
    \<not> offers (tabs_view (bottom_tabs (role_of b) s') (tab_name (ap_bottomTab s')) id) (tab_name Tab_users)"
proof -
  let ?s' = "relogin b s"
  note f = relogin_fields [of b s]
  have zone: "stats_zone pf ?s' = stats_zone pf s" using f by (auto simp: stats_zone_def split: option.splits)
  obtain stats vp where st: "stats_zone pf s = Some stats" "verdict_panel (ap_verdict s) = Some (vp :: string node)"
    using assms(2,4) by (auto simp: app_view_def split: option.splits)
  have "elements ''UserManagement'' (log_zone (role_of b) ?s') \<noteq> []"
    using f assms(3) by (simp add: log_zone_def tab_panel_def component_def panel_name_def tab_name_def)
  then have "app_shows pf ''UserManagement'' ?s'"
    using f zone st by (simp add: app_shows_def app_view_def)
  moreover have "\<not> offers (tabs_view (bottom_tabs (role_of b) ?s') (tab_name (ap_bottomTab ?s')) id) (tab_name Tab_users)"
    unfolding bottom_tabs_offers using assms(5) by simp
  ultimately show ?thesis using reach_relogin [OF assms(1,2), of b] f by blast
qed

theorem app_users_panel_ungated_witness:
  "\<exists>os' s'. reach app_init (app_step demo_platform)
       ([App_call Fetch_monitor_status, Connect_live 0] @ os') s' \<and>
     ap_user s' = Signed_in demo_analyst \<and> app_shows demo_platform ''UserManagement'' s'"
proof -
  have u: "ap_user demo_app_users = Signed_in demo_admin" and t: "ap_bottomTab demo_app_users = Tab_users"
    and v: "app_view demo_platform demo_app_users \<noteq> None" and b: "role_of demo_analyst = Analyst"
    by (simp_all add: demo_app_users_def select_tab_def demo_app_defs app_view_def stats_zone_def
        verdict_panel_def role_of_def demo_analyst_def)
  from app_users_panel_ungated [OF demo_run_users u t v b] show ?thesis by blast
qed

text \<open>C21: Whatever messages the live connection delivers, and in whatever order, to an application whose
  feeds are empty, its shadow-run feed is the last 500 events of source "sample" and its monitoring
  feed the last 500 of source "monitor", in order of arrival; the verdict shown is that of the last
  sample verdict, and every verdict of any source triggers one refresh; an event
  of the source "interceptor" is in neither feed.\<close>

theorem app_feeds_latest:
  assumes "ap_sampleEvents s = []" and "ap_monitorEvents s = []"
  shows "let t = foldl (\<lambda>t m. app_message m t) s ms in
    ap_sampleEvents t = last_n 500 (events_from Sample ms) \<and>
    ap_monitorEvents t = last_n 500 (events_from Monitor ms) \<and>
    ap_verdict t = (case sample_verdicts ms of [] \<Rightarrow> ap_verdict s | vs \<Rightarrow> Some (last vs)) \<and>
    ap_refreshKey t = ap_refreshKey s + verdict_messages ms"
proof -
  have "ap_sampleEvents (foldl (\<lambda>t m. app_message m t) s ms) = foldl applyLiveEvent (ap_sampleEvents s) ms \<and>
      ap_monitorEvents (foldl (\<lambda>t m. app_message m t) s ms) = foldl applyMonitorEvent (ap_monitorEvents s) ms"
    by (induction ms arbitrary: s) (simp_all add: app_message_feeds)
  then show ?thesis
    using sample_feed.feed_run [of "[]" ms] monitor_feed.feed_run [of "[]" ms] app_message_verdicts [of s ms]
    by (simp add: assms Let_def MAX_EVENTS_def)
qed

theorem app_feeds_latest_witness:
  "\<forall>e. ap_sampleEvents (foldl (\<lambda>t m. app_message m t) demo_app [Live_event Sample e, Live_isolated]) = [e]"
proof
  fix e
  have "ap_sampleEvents demo_app = []" and "ap_monitorEvents demo_app = []"
    by (simp_all add: demo_app_defs)
  from app_feeds_latest [OF this, of "[Live_event Sample e, Live_isolated]"]
  show "ap_sampleEvents (foldl (\<lambda>t m. app_message m t) demo_app [Live_event Sample e, Live_isolated]) = [e]"
    by (simp add: Let_def last_n_short)
qed

text \<open>What one user loaded stays on screen for the next: after signing out and in again as anyone, the
  verdict, both event feeds, the audit rows, the pending hashes, the corpus samples, the quarantined
  files and the chain status are those of the session before.\<close>

theorem app_data_survives_logout:
  assumes "reach app_init (app_step pf) os s" and "ap_user s = Signed_in a"
  shows "\<exists>os' s'. reach app_init (app_step pf) (os @ os') s' \<and> ap_user s' = Signed_in b \<and>
    ap_verdict s' = ap_verdict s \<and> ap_sampleEvents s' = ap_sampleEvents s \<and>
    ap_monitorEvents s' = ap_monitorEvents s \<and> ap_verdicts s' = ap_verdicts s \<and>
    ap_hashes s' = ap_hashes s \<and> ap_quarantine s' = ap_quarantine s \<and> ap_corpus s' = ap_corpus s \<and>
    ap_chainStatus s' = ap_chainStatus s"
  using reach_relogin [OF assms, of b] relogin_fields [of b s] by blast

theorem app_data_survives_logout_witness:
  "\<exists>os' s'. reach app_init (app_step demo_platform)
       ([App_call Fetch_monitor_status, Connect_live 0] @ os') s' \<and>
     ap_user s' = Signed_in demo_analyst \<and> ap_verdicts s' = ap_verdicts demo_app"
proof -
  have "ap_user demo_app = Signed_in demo_admin" by (simp add: demo_app_defs)
  from app_data_survives_logout [OF demo_run_app this, of demo_platform demo_analyst] show ?thesis by blast
qed

text \<open>A late answer hides an isolation: while the request for the monitor's status is in flight, the
  live message "isolated" raises the banner, and an answer from before it takes the banner down
  again, with the announcement of the isolation still in place.\<close>

theorem app_stale_status_hides_isolation:
  assumes "ap_conn s \<noteq> None" and "AP_monitor \<in> set (ap_inflight s)"
  shows "\<exists>s1 s2. app_step pf s [] s1 \<and> ap_isolated s1 \<and> app_step pf s1 [] s2 \<and> \<not> ap_isolated s2 \<and>
    ap_liveAnnouncement s2 = js ''Monitored endpoint isolated after a compromised verdict.''"
proof -
  let ?s1 = "app_message Live_isolated s"
  have s1: "ap_isolated ?s1" "ap_inflight ?s1 = ap_inflight s"
    "ap_liveAnnouncement ?s1 = js ''Monitored endpoint isolated after a compromised verdict.''"
    by (simp_all add: app_message_def shouldUpdateSampleVerdict_def Let_def)
  obtain xs ys where split: "ap_inflight s = xs @ AP_monitor # ys"
    using assms(2) by (auto simp: in_set_conv_decomp)
  let ?s2 = "?s1\<lparr>ap_inflight := xs @ ys, ap_isolated := False, ap_monitorError := None\<rparr>"
  have "app_step pf ?s1 [] ?s2"
    by (rule own, rule settled, rule monitor_settled [where xs = xs and ys = ys and b = "Inr False"])
       (simp_all add: s1 split app_monitor_settled_def)
  moreover have "app_step pf s [] ?s1" by (rule message [OF assms(1)])
  ultimately show ?thesis using s1 by (intro exI [of _ ?s1] exI [of _ ?s2]) simp
qed

theorem app_stale_status_hides_isolation_witness:
  "\<exists>s1 s2. app_step demo_platform demo_app [] s1 \<and> ap_isolated s1 \<and>
     app_step demo_platform s1 [] s2 \<and> \<not> ap_isolated s2"
proof -
  have c: "ap_conn demo_app \<noteq> None" and i: "AP_monitor \<in> set (ap_inflight demo_app)"
    by (simp_all add: demo_app_defs)
  from app_stale_status_hides_isolation [OF c i] show ?thesis by blast
qed

end
