(* ===== verification/LoginPage.thy ===== *)
theory LoginPage
  imports Dashboard Panels
begin

text \<open>
  \<open>LoginPage.tsx\<close>: the sign-in form.  The user name lives in the document (an uncontrolled input read
  through its reference), the rest in \<open>useState\<close> variables; \<open>lp_inflight\<close> counts the calls of \<open>login\<close>
  whose promise has not settled.
\<close>

record login_state =
  lp_username :: jsstr
  lp_password :: jsstr
  lp_showPassword :: bool
  lp_busy :: bool
  lp_error :: "jsstr option"
  lp_capsLockOn :: bool
  lp_inflight :: nat

datatype login_effect = Login_call jsstr jsstr | Logged_in session_user

type_synonym login_out = "login_state \<times> login_effect list"

definition login_start :: login_state where
  "login_start = \<lparr>lp_username = [], lp_password = [], lp_showPassword = False, lp_busy = False,
     lp_error = None, lp_capsLockOn = False, lp_inflight = 0\<rparr>"

definition login_handleSubmit :: "login_state \<Rightarrow> login_out" where
  "login_handleSubmit s =
     (let username = trim (lp_username s)
      in if username = [] \<or> lp_password s = [] then (s, [])
         else (s\<lparr>lp_busy := True, lp_error := None, lp_inflight := Suc (lp_inflight s)\<rparr>,
               [Login_call username (lp_password s)]))"

definition login_settled :: "js_exn + session_user \<Rightarrow> login_state \<Rightarrow> login_out" where
  "login_settled r s =
     (let s1 = s\<lparr>lp_inflight := lp_inflight s - 1, lp_busy := False\<rparr>
      in case r of
           Inr u \<Rightarrow> (s1, [Logged_in u])
         | Inl e \<Rightarrow> (s1\<lparr>lp_error := Some (exn_message e (js ''login failed''))\<rparr>, []))"

datatype login_act =
    LP_username jsstr
  | LP_password jsstr
  | LP_caps bool
  | LP_toggle
  | LP_submit

definition login_handle :: "login_act \<Rightarrow> login_state \<Rightarrow> login_out" where
  "login_handle a s = (case a of
     LP_username v \<Rightarrow> (s\<lparr>lp_username := v\<rparr>, [])
   | LP_password v \<Rightarrow> (s\<lparr>lp_password := v\<rparr>, [])
   | LP_caps b \<Rightarrow> (s\<lparr>lp_capsLockOn := b\<rparr>, [])
   | LP_toggle \<Rightarrow> (s\<lparr>lp_showPassword := \<not> lp_showPassword s\<rparr>, [])
   | LP_submit \<Rightarrow> login_handleSubmit s)"

definition FEATURES :: "(string \<times> string) list" where
  "FEATURES = [(''Flame'', ''Isolated detonation''), (''Eye'', ''Explainable verdicts''),
     (''ShieldCheck'', ''Tamper-evident audit'')]"

definition login_aside :: "login_act node" where
  "login_aside = El ''aside'' [Attr ''className'' ''login-aside'']
     [El ''div'' [Attr ''className'' ''login-aside__scanline''] [],
      El ''div'' [Attr ''className'' ''login-aside__content'']
        [wordmark 40 True ''login-aside__wordmark'',
         El ''p'' [Attr ''className'' ''login-aside__tagline''] [Lit ''Detonate in the shadow. Protect the real.''],
         El ''ul'' [Attr ''className'' ''login-aside__features'']
           (map (\<lambda>(ic, label). El ''li'' [Attr ''key'' label] [icon ic 16, Lit label]) FEATURES)]]"

definition login_password_field :: "login_state \<Rightarrow> login_act node" where
  "login_password_field s = El ''div'' [Attr ''className'' ''login-field'']
     ([El ''label'' [Attr ''htmlFor'' ''password''] [Lit ''Password''],
       El ''div'' [Attr ''className'' ''login-field__password'']
         [El ''input'' [Attr ''id'' ''password'', Attr ''type'' (if lp_showPassword s then ''text'' else ''password''),
            Val ''value'' (lp_password s), On_change LP_password, On_flag ''keyup'' LP_caps,
            Flag ''disabled'' (lp_busy s)] [],
          El ''button'' [Attr ''type'' ''button'', Attr ''className'' ''login-field__toggle'',
            Attr ''aria-label'' (if lp_showPassword s then ''Hide password'' else ''Show password''),
            On_click LP_toggle]
            [icon (if lp_showPassword s then ''EyeOff'' else ''Eye'') 16]]]
      @ show_if (lp_capsLockOn s) [El ''p'' [Attr ''className'' ''login-field__hint''] [Lit ''Caps Lock is on'']])"

definition login_form :: "login_state \<Rightarrow> login_act node" where
  "login_form s = El ''form'' [Attr ''className'' ''login-card'', On_submit LP_submit]
     ([El ''h1'' [] [Lit ''Sign in''],
       El ''p'' [Attr ''className'' ''login-card__subtitle''] [Lit ''Enter your credentials to continue''],
       El ''div'' [Attr ''className'' ''login-field'']
         [El ''label'' [Attr ''htmlFor'' ''username''] [Lit ''Username''],
          El ''input'' [Attr ''id'' ''username'', Attr ''name'' ''username'', On_change LP_username,
            Flag ''disabled'' (lp_busy s)] []],
       login_password_field s,
       El ''button'' [Attr ''type'' ''submit'', Attr ''className'' ''login-submit'', Flag ''disabled'' (lp_busy s)]
         (show_if (lp_busy s) [El ''span'' [Attr ''className'' ''spinner''] []]
          @ [Text (if lp_busy s then js ''Signing in'' @ [0x2026] else js ''Sign in'')])]
      @ error_text (lp_error s))"

definition login_page :: "login_state \<Rightarrow> login_act node" where
  "login_page s = El ''div'' [Attr ''className'' ''login-page'']
     [login_aside,
      El ''div'' [Attr ''className'' ''login-form-side'']
        [El ''div'' [Attr ''className'' ''login-form-side__wordmark''] [wordmark 32 True []], login_form s]]"

inductive login_step :: "login_state \<Rightarrow> login_effect list \<Rightarrow> login_state \<Rightarrow> bool" where
  user: "offers (login_page s) a \<Longrightarrow> login_handle a s = (s', out) \<Longrightarrow> login_step s out s'"
| settled: "0 < lp_inflight s \<Longrightarrow> login_settled r s = (s', out) \<Longrightarrow> login_step s out s'"

definition login_init :: "login_state \<Rightarrow> bool" where
  "login_init s \<longleftrightarrow> s = login_start"

lemmas login_handler_defs = login_handle_def login_handleSubmit_def login_settled_def Let_def

subsection \<open>What the view offers\<close>

lemma login_aside_events [simp]: "handlers login_aside = []" "open_dialogs login_aside = []"
  by (simp_all add: login_aside_def FEATURES_def)

lemma login_page_dialogs: "open_dialogs (login_page s) = []"
  by (auto simp: login_page_def login_form_def login_password_field_def error_text_def split: option.splits)

lemma blocks_password [simp]: "\<not> blocks_submit (login_password_field s)"
  by (auto simp: login_password_field_def icon_def)

lemma blocks_error [simp]: "n \<in> set (error_text e) \<Longrightarrow> \<not> blocks_submit n"
  by (auto simp: error_text_def split: option.splits)

lemma login_password_handlers: "set (handlers (login_password_field s)) =
    insert (On_click LP_toggle) (if lp_busy s then {} else {On_change LP_password, On_flag ''keyup'' LP_caps})"
  by (auto simp: login_password_field_def)

lemma login_form_handlers: "set (handlers (login_form s)) =
    insert (On_click LP_toggle) (if lp_busy s then {}
      else {On_submit LP_submit, On_change LP_username, On_change LP_password, On_flag ''keyup'' LP_caps})"
  by (auto simp: login_form_def login_password_handlers)

lemma login_offers: "offers (login_page s) a \<longleftrightarrow>
    a = LP_toggle \<or> \<not> lp_busy s \<and> (a = LP_submit \<or> (\<exists>v. a = LP_username v) \<or> (\<exists>v. a = LP_password v) \<or>
      (\<exists>b. a = LP_caps b))"
proof -
  have "handlers (login_page s) = handlers (login_form s)" by (simp add: login_page_def)
  then show ?thesis
    by (auto simp: offers_without_dialog login_page_dialogs login_form_handlers)
qed

subsection \<open>The invariant\<close>

definition login_calls :: "login_effect list \<Rightarrow> nat" where
  "login_calls os = length (filter (\<lambda>x. \<exists>u p. x = Login_call u p) os)"

definition logins :: "login_effect list \<Rightarrow> nat" where
  "logins os = length (filter (\<lambda>x. \<exists>u. x = Logged_in u) os)"

lemma login_counts [simp]:
  "login_calls [] = 0" "login_calls (xs @ ys) = login_calls xs + login_calls ys"
  "login_calls [Login_call u p] = 1" "login_calls [Logged_in v] = 0"
  "logins [] = 0" "logins (xs @ ys) = logins xs + logins ys"
  "logins [Login_call u p] = 0" "logins [Logged_in v] = 1"
  by (simp_all add: login_calls_def logins_def)

definition login_inv :: "login_effect list \<Rightarrow> login_state \<Rightarrow> bool" where
  "login_inv os s \<longleftrightarrow> lp_inflight s = (if lp_busy s then 1 else 0) \<and>
     (\<forall>u p. Login_call u p \<in> set os \<longrightarrow> u \<noteq> [] \<and> p \<noteq> [] \<and> trim u = u) \<and>
     logins os + lp_inflight s \<le> login_calls os"

lemma login_inv_step:
  assumes "login_inv os s" and "login_step s out s'"
  shows "login_inv (os @ out) s'"
  using assms(2)
proof cases
  case (user a)
  from user(1) consider "a = LP_toggle" | "a = LP_submit" "\<not> lp_busy s"
    | v where "a = LP_username v" | v where "a = LP_password v" | b where "a = LP_caps b"
    unfolding login_offers by blast
  then show ?thesis
    using user(2) assms(1)
    by cases (auto simp: login_inv_def login_handler_defs trim_trim split: if_splits)
next
  case (settled r)
  with assms(1) show ?thesis
    by (auto simp: login_inv_def login_settled_def Let_def split: sum.splits if_splits)
qed

interpretation login: invariant_system login_init login_step login_inv
proof unfold_locales
  show "login_inv [] s" if "login_init s" for s
    using that by (simp add: login_init_def login_start_def login_inv_def)
qed (rule login_inv_step)

subsection \<open>A run of the component\<close>

definition demo_login :: login_state where
  "demo_login = login_start\<lparr>lp_username := js '' ann '', lp_password := js ''pw''\<rparr>"

lemma demo_trim: "trim (js '' ann '') = js ''ann''"
  by (simp add: trim_def js_def js_space_def)

lemma demo_run_login: "reach login_init login_step [Login_call (js ''ann'') (js ''pw'')]
    (fst (login_handleSubmit demo_login))"
proof -
  let ?s1 = "login_start\<lparr>lp_username := js '' ann ''\<rparr>"
  have b: "\<not> lp_busy login_start" "\<not> lp_busy ?s1" "\<not> lp_busy demo_login"
    by (simp_all add: login_start_def demo_login_def)
  have "reach login_init login_step [] login_start" by (rule reach_init) (simp add: login_init_def)
  moreover have "login_step login_start [] ?s1"
    by (rule user [of _ "LP_username (js '' ann '')"]) (simp_all add: login_offers b login_handle_def)
  ultimately have "reach login_init login_step ([] @ []) ?s1" by (rule reach_step)
  moreover have "login_step ?s1 [] demo_login"
    by (rule user [of _ "LP_password (js ''pw'')"])
       (simp_all add: login_offers b login_handle_def demo_login_def)
  ultimately have "reach login_init login_step (([] @ []) @ []) demo_login" by (rule reach_step)
  moreover have "login_step demo_login [Login_call (js ''ann'') (js ''pw'')] (fst (login_handleSubmit demo_login))"
    by (rule user [of _ LP_submit])
       (simp_all add: login_offers b login_handle_def login_handleSubmit_def demo_trim Let_def, simp add: demo_login_def demo_trim)
  ultimately have "reach login_init login_step ((([] @ []) @ []) @ [Login_call (js ''ann'') (js ''pw'')])
      (fst (login_handleSubmit demo_login))" by (rule reach_step)
  then show ?thesis by simp
qed

subsection \<open>Properties\<close>

text \<open>Signing in is one request at a time with complete credentials: in every run each sign-in request
  carries a non-empty name without surrounding blanks and a non-empty password, a request is in
  flight exactly while the form is disabled, and never more than one is.\<close>

theorem login_complete_single_flight:
  assumes "reach login_init login_step os s"
  shows "(\<forall>u p. Login_call u p \<in> set os \<longrightarrow> u \<noteq> [] \<and> p \<noteq> [] \<and> trim u = u) \<and>
    lp_inflight s = (if lp_busy s then 1 else 0) \<and> logins os + lp_inflight s \<le> login_calls os"
  using login.reach_inv [OF assms] by (simp add: login_inv_def)

theorem login_complete_single_flight_witness:
  "trim (js ''ann'') = js ''ann'' \<and> lp_inflight (fst (login_handleSubmit demo_login)) =
     (if lp_busy (fst (login_handleSubmit demo_login)) then 1 else 0)"
  using login_complete_single_flight [OF demo_run_login] by simp

end
