(* ===== verification/UserAdmin.thy ===== *)
theory UserAdmin
  imports Panels
begin

text \<open>
  \<open>UserManagement.tsx\<close>: the list of users with their roles, the form that adds one, and the dialog that
  removes one.  \<open>user_state\<close> holds the component's \<open>useState\<close> variables and the promises in flight,
  each with what its continuation captured.
\<close>

datatype user_cont = MC_refetch | MC_create jsstr | MC_delete jsstr | MC_role

record user_state =
  um_users :: "user_entry list"
  um_username :: jsstr
  um_password :: jsstr
  um_role :: role
  um_error :: "jsstr option"
  um_pendingDelete :: "jsstr option"
  um_inflight :: "user_cont list"

type_synonym user_out = "user_state \<times> user_entry panel_effect list"

definition user_start :: user_state where
  "user_start = \<lparr>um_users = [], um_username = [], um_password = [], um_role = Analyst,
     um_error = None, um_pendingDelete = None, um_inflight = []\<rparr>"

subsection \<open>The handlers\<close>

definition user_refetch :: "user_state \<Rightarrow> user_out" where
  "user_refetch s = (s\<lparr>um_inflight := um_inflight s @ [MC_refetch]\<rparr>, [Call Fetch_users])"

definition user_refetched :: "js_exn + user_entry list \<Rightarrow> user_state \<Rightarrow> user_out" where
  "user_refetched r s = (case r of
     Inr users \<Rightarrow> (s\<lparr>um_users := users\<rparr>, [])
   | Inl e \<Rightarrow>
       if is_status 401 e then (s, [Session_expired])
       else (s\<lparr>um_error := Some (exn_message e (js ''failed to load users''))\<rparr>, []))"

definition user_handleCreate :: "user_state \<Rightarrow> user_out" where
  "user_handleCreate s =
     (s\<lparr>um_error := None, um_inflight := um_inflight s @ [MC_create (um_username s)]\<rparr>,
      [Call (Create_user (um_username s) (um_password s) (um_role s))])"

definition user_created :: "jsstr \<Rightarrow> js_exn + unit \<Rightarrow> user_state \<Rightarrow> user_out" where
  "user_created username r s = (case r of
     Inr _ \<Rightarrow>
       (let (s1, out) = user_refetch (s\<lparr>um_username := [], um_password := []\<rparr>)
        in (s1, out @ [Push (js ''Created user '' @ username) Tone_success]))
   | Inl e \<Rightarrow>
       if is_status 401 e then (s, [Session_expired])
       else (s\<lparr>um_error := Some (exn_message e (js ''failed to create user''))\<rparr>, []))"

definition user_handleDelete :: "jsstr \<Rightarrow> user_state \<Rightarrow> user_out" where
  "user_handleDelete target s =
     (s\<lparr>um_pendingDelete := None, um_inflight := um_inflight s @ [MC_delete target]\<rparr>,
      [Call (Delete_user target)])"

definition user_deleted :: "jsstr \<Rightarrow> js_exn + unit \<Rightarrow> user_state \<Rightarrow> user_out" where
  "user_deleted target r s = (case r of
     Inr _ \<Rightarrow>
       (let (s1, out) = user_refetch s
        in (s1, out @ [Push (js ''Removed user '' @ target) Tone_success]))
   | Inl e \<Rightarrow>
       if is_status 401 e then (s, [Session_expired])
       else (s, [Push (exn_message e (js ''failed to remove user'')) Tone_error]))"

definition user_handleRoleChange :: "jsstr \<Rightarrow> role \<Rightarrow> user_state \<Rightarrow> user_out" where
  "user_handleRoleChange target newRole s =
     (s\<lparr>um_inflight := um_inflight s @ [MC_role]\<rparr>, [Call (Update_user_role target newRole)])"

definition user_role_changed :: "js_exn + unit \<Rightarrow> user_state \<Rightarrow> user_out" where
  "user_role_changed r s = (case r of
     Inr _ \<Rightarrow> user_refetch s
   | Inl e \<Rightarrow>
       if is_status 401 e then (s, [Session_expired])
       else (s, [Push (exn_message e (js ''failed to change role'')) Tone_error]))"

subsection \<open>The rendered tree and the user's actions\<close>

datatype user_act =
    MA_username jsstr
  | MA_password jsstr
  | MA_role role
  | MA_create
  | MA_change_role jsstr role
  | MA_ask_delete jsstr
  | MA_confirm
  | MA_cancel

definition user_handle :: "user_act \<Rightarrow> user_state \<Rightarrow> user_out" where
  "user_handle a s = (case a of
     MA_username v \<Rightarrow> (s\<lparr>um_username := v\<rparr>, [])
   | MA_password v \<Rightarrow> (s\<lparr>um_password := v\<rparr>, [])
   | MA_role r \<Rightarrow> (s\<lparr>um_role := r\<rparr>, [])
   | MA_create \<Rightarrow> user_handleCreate s
   | MA_change_role u r \<Rightarrow> user_handleRoleChange u r s
   | MA_ask_delete u \<Rightarrow> (s\<lparr>um_pendingDelete := Some u\<rparr>, [])
   | MA_confirm \<Rightarrow> (case um_pendingDelete s of
        None \<Rightarrow> (s, []) | Some u \<Rightarrow> if u = [] then (s, []) else user_handleDelete u s)
   | MA_cancel \<Rightarrow> (s\<lparr>um_pendingDelete := None\<rparr>, []))"

text \<open>A \<open>select\<close> with one option per role: choosing an option changes the value to it.\<close>

definition role_select :: "role \<Rightarrow> role list \<Rightarrow> (role \<Rightarrow> 'a) \<Rightarrow> 'a node" where
  "role_select v options f = El ''select''
     (Val ''value'' (role_str v) # map (\<lambda>r. On_event ''change'' (f r)) options)
     (map (\<lambda>r. El ''option'' [Val ''value'' (role_str r)] [Text (role_str r)]) options)"

definition user_row :: "user_entry \<Rightarrow> user_act node" where
  "user_row u = El ''tr'' [Val ''key'' (ue_username u)]
     [El ''td'' [Attr ''className'' ''mono''] [Text (ue_username u)],
      El ''td'' [] [role_select (ue_role u) [Admin, Analyst] (MA_change_role (ue_username u))],
      El ''td'' [] [El ''button'' [Attr ''type'' ''button'', Attr ''className'' ''reject-button'',
         On_click (MA_ask_delete (ue_username u))] [Lit ''Remove'']]]"

definition user_form :: "user_state \<Rightarrow> user_act node" where
  "user_form s = El ''form'' [On_submit MA_create, Attr ''className'' ''user-form'']
     [El ''input'' [Attr ''placeholder'' ''username'', Val ''value'' (um_username s),
        On_change MA_username, Flag ''required'' True] [],
      El ''input'' [Attr ''placeholder'' ''password (12+ chars)'', Attr ''type'' ''password'',
        Val ''value'' (um_password s), On_change MA_password, Flag ''required'' True] [],
      role_select (um_role s) [Analyst, Admin] MA_role,
      El ''button'' [Attr ''type'' ''submit''] [Lit ''Add user'']]"

definition user_dialog :: "user_state \<Rightarrow> user_act node" where
  "user_dialog s = confirm_dialog (um_pendingDelete s \<noteq> None) (js ''Remove this user?'')
     [El ''p'' [] [Text ((case um_pendingDelete s of None \<Rightarrow> [] | Some u \<Rightarrow> u)
        @ js '' will no longer be able to sign in.'')]]
     (js ''Remove'') MA_confirm MA_cancel"

definition user_view :: "user_state \<Rightarrow> user_act node" where
  "user_view s = card ''User management'' []
     (error_text (um_error s)
      @ [El ''table'' [Attr ''className'' ''user-table'']
          [El ''thead'' [] [El ''tr'' [] (map (\<lambda>t. El ''th'' [] [Lit t]) [''Username'', ''Role'', ''Action''])],
           El ''tbody'' [] (map user_row (um_users s))],
         user_form s,
         user_dialog s])"

subsection \<open>The steps of the component\<close>

text \<open>A promise in flight settles, in any order and with any answer.\<close>

inductive user_settle :: "user_state \<Rightarrow> user_entry panel_effect list \<Rightarrow> user_state \<Rightarrow> bool" where
  refetched: "um_inflight s = xs @ MC_refetch # ys \<Longrightarrow>
     user_refetched ans (s\<lparr>um_inflight := xs @ ys\<rparr>) = (s', out) \<Longrightarrow> user_settle s out s'"
| created: "um_inflight s = xs @ MC_create u # ys \<Longrightarrow>
     user_created u ok (s\<lparr>um_inflight := xs @ ys\<rparr>) = (s', out) \<Longrightarrow> user_settle s out s'"
| deleted: "um_inflight s = xs @ MC_delete u # ys \<Longrightarrow>
     user_deleted u ok (s\<lparr>um_inflight := xs @ ys\<rparr>) = (s', out) \<Longrightarrow> user_settle s out s'"
| role_changed: "um_inflight s = xs @ MC_role # ys \<Longrightarrow>
     user_role_changed ok (s\<lparr>um_inflight := xs @ ys\<rparr>) = (s', out) \<Longrightarrow> user_settle s out s'"

inductive user_step :: "user_state \<Rightarrow> user_entry panel_effect list \<Rightarrow> user_state \<Rightarrow> bool" where
  user: "offers (user_view s) a \<Longrightarrow> user_handle a s = (s', out) \<Longrightarrow> user_step s out s'"
| settle: "user_settle s out s' \<Longrightarrow> user_step s out s'"

definition user_init :: "user_state \<Rightarrow> bool" where
  "user_init s \<longleftrightarrow> s = fst (user_refetch user_start)"

lemmas user_handler_defs = user_refetch_def user_refetched_def user_handleCreate_def user_created_def
  user_handleDelete_def user_deleted_def user_handleRoleChange_def user_role_changed_def
  user_handle_def Let_def

subsection \<open>What the view offers\<close>

lemma role_select_events [simp]:
  "handlers (role_select v rs f) = map (\<lambda>r. On_event ''change'' (f r)) rs"
  "open_dialogs (role_select v rs f) = []"
  by (induction rs) (auto simp: role_select_def)

lemma user_row_dialogs [simp]: "open_dialogs (user_row u) = []"
  by (simp add: user_row_def)

lemma user_row_handlers: "set (handlers (user_row u)) =
     {On_event ''change'' (MA_change_role (ue_username u) Admin),
      On_event ''change'' (MA_change_role (ue_username u) Analyst),
      On_click (MA_ask_delete (ue_username u))}"
  by (auto simp: user_row_def)

lemma user_form_dialogs [simp]: "open_dialogs (user_form s) = []"
  by (simp add: user_form_def)

lemma role_select_submit [simp]: "\<not> blocks_submit (role_select v rs f)"
  by (auto simp: role_select_def)

lemma user_form_handlers: "set (handlers (user_form s)) =
    (if um_username s = [] \<or> um_password s = [] then {} else {On_submit MA_create}) \<union>
    {On_change MA_username, On_change MA_password, On_event ''change'' (MA_role Analyst),
     On_event ''change'' (MA_role Admin)}"
  by (auto simp: user_form_def)

lemma user_view_dialogs: "open_dialogs (user_view s) =
    (if um_pendingDelete s = None then [] else [user_dialog s])"
  by (auto simp: user_view_def user_dialog_def)

lemma user_offers_confirming:
  "um_pendingDelete s \<noteq> None \<Longrightarrow> offers (user_view s) a \<longleftrightarrow> a = MA_cancel \<or> a = MA_confirm"
  using user_view_dialogs [of s] by (auto simp: offers_in_dialog user_dialog_def confirm_dialog_handlers)

lemma user_offers_idle:
  assumes "um_pendingDelete s = None"
  shows "offers (user_view s) a \<longleftrightarrow>
    (a = MA_create \<and> um_username s \<noteq> [] \<and> um_password s \<noteq> []) \<or>
    (\<exists>v. a = MA_username v) \<or> (\<exists>v. a = MA_password v) \<or> (\<exists>r. a = MA_role r) \<or>
    (\<exists>u \<in> set (um_users s). (\<exists>r. a = MA_change_role (ue_username u) r) \<or> a = MA_ask_delete (ue_username u))"
proof -
  have row: "(\<exists>h \<in> set (handlers (user_row u)). fires h a) \<longleftrightarrow>
      (\<exists>r. a = MA_change_role (ue_username u) r) \<or> a = MA_ask_delete (ue_username u)" for u
    by (auto simp: user_row_handlers) (metis role.exhaust)
  have form: "(\<exists>h \<in> set (handlers (user_form s)). fires h a) \<longleftrightarrow>
      (a = MA_create \<and> um_username s \<noteq> [] \<and> um_password s \<noteq> []) \<or>
      (\<exists>v. a = MA_username v) \<or> (\<exists>v. a = MA_password v) \<or> (\<exists>r. a = MA_role r)"
    by (auto simp: user_form_handlers) (metis role.exhaust)+
  have "offers (user_view s) a \<longleftrightarrow> (\<exists>h \<in> set (handlers (user_form s)). fires h a) \<or>
      (\<exists>u \<in> set (um_users s). \<exists>h \<in> set (handlers (user_row u)). fires h a)"
    using assms by (auto simp: offers_without_dialog user_view_dialogs user_view_def user_dialog_def bex_Un)
  then show ?thesis unfolding row form by blast
qed

lemma user_offersE:
  assumes "offers (user_view s) a"
  obtains (confirm) "a = MA_confirm" "um_pendingDelete s \<noteq> None"
  | (cancel) "a = MA_cancel" "um_pendingDelete s \<noteq> None"
  | (create) "a = MA_create" "um_pendingDelete s = None" "um_username s \<noteq> []" "um_password s \<noteq> []"
  | (username) v where "a = MA_username v" "um_pendingDelete s = None"
  | (password) v where "a = MA_password v" "um_pendingDelete s = None"
  | (role) r where "a = MA_role r" "um_pendingDelete s = None"
  | (change_role) u r where "a = MA_change_role (ue_username u) r" "u \<in> set (um_users s)" "um_pendingDelete s = None"
  | (ask) u where "a = MA_ask_delete (ue_username u)" "u \<in> set (um_users s)" "um_pendingDelete s = None"
proof (cases "um_pendingDelete s = None")
  case True
  from assms [unfolded user_offers_idle [OF True]] that True show thesis by blast
next
  case False
  from assms [unfolded user_offers_confirming [OF False]] that False show thesis by blast
qed

subsection \<open>What a step sends\<close>

text \<open>A step sends at most one changing request, and what it may be is read off the state.\<close>

fun changes_users :: "api_call \<Rightarrow> bool" where
  "changes_users (Create_user _ _ _) = True"
| "changes_users (Delete_user _) = True"
| "changes_users (Update_user_role _ _) = True"
| "changes_users _ = False"

definition user_changes :: "user_entry panel_effect list \<Rightarrow> api_call list" where
  "user_changes os = concat (map (\<lambda>x. case x of Call c \<Rightarrow> if changes_users c then [c] else [] | _ \<Rightarrow> []) os)"

lemma user_changes_simps [simp]:
  "user_changes [] = []" "user_changes (xs @ ys) = user_changes xs @ user_changes ys"
  "user_changes (Call c # os) = (if changes_users c then c # user_changes os else user_changes os)"
  "user_changes (Push m t # os) = user_changes os" "user_changes (Session_expired # os) = user_changes os"
  by (simp_all add: user_changes_def)

definition justified :: "user_state \<Rightarrow> api_call \<Rightarrow> user_state \<Rightarrow> bool" where
  "justified s c s' \<longleftrightarrow> (case c of
     Create_user u p r \<Rightarrow> u = um_username s \<and> p = um_password s \<and> r = um_role s \<and> u \<noteq> [] \<and> p \<noteq> []
   | Delete_user u \<Rightarrow> um_pendingDelete s = Some u \<and> u \<noteq> [] \<and> um_pendingDelete s' = None
   | Update_user_role u r \<Rightarrow> um_pendingDelete s = None \<and> (\<exists>e \<in> set (um_users s). ue_username e = u)
   | _ \<Rightarrow> False)"

lemma user_user_changes:
  assumes "offers (user_view s) a" and "user_handle a s = (s', out)"
  shows "user_changes out = [] \<or> (\<exists>c. user_changes out = [c] \<and> justified s c s')"
  using assms(1) by (cases rule: user_offersE)
    (use assms(2) in \<open>auto simp: user_handler_defs justified_def split: if_splits\<close>)

lemma user_step_changes:
  assumes "user_step s out s'"
  shows "user_changes out = [] \<or> (\<exists>c. user_changes out = [c] \<and> justified s c s')"
  using assms
proof cases
  case (user a)
  then show ?thesis by (rule user_user_changes)
next
  case settle
  then have "user_changes out = []"
    by cases (auto simp: user_handler_defs split: sum.splits if_splits)
  then show ?thesis by simp
qed

text \<open>The user whose removal is being confirmed was picked from the list.\<close>

lemma user_step_pending:
  assumes "user_step s out s'" and "um_pendingDelete s' = Some u"
  shows "um_pendingDelete s = Some u \<or> (\<exists>e \<in> set (um_users s). ue_username e = u)"
  using assms(1)
proof cases
  case (user a)
  from user(1) show ?thesis by (cases rule: user_offersE)
    (use user(2) assms(2) in \<open>auto simp: user_handler_defs split: if_splits\<close>)
next
  case settle
  then have "um_pendingDelete s' = um_pendingDelete s"
    by cases (auto simp: user_handler_defs split: sum.splits if_splits)
  with assms(2) show ?thesis by simp
qed

subsection \<open>Settling\<close>

text \<open>The promises in flight, those that may send a new listing request counted twice.\<close>

definition user_weight :: "user_state \<Rightarrow> nat" where
  "user_weight s = sum_list (map (\<lambda>c. case c of MC_refetch \<Rightarrow> 1 | _ \<Rightarrow> 2) (um_inflight s))"

interpretation user_settling: settling user_settle user_weight
proof unfold_locales
  show "user_weight s' < user_weight s" if "user_settle s out s'" for s out s'
    using that by cases (auto simp: user_weight_def user_handler_defs split: sum.splits if_splits)
next
  fix s :: user_state
  assume "0 < user_weight s"
  then obtain c cs where "um_inflight s = [] @ c # cs" by (cases "um_inflight s") (auto simp: user_weight_def)
  then show "\<exists>out s'. user_settle s out s'"
    by (cases c) (metis user_settle.intros surj_pair)+
qed

subsection \<open>A run of the component\<close>

definition demo_user :: user_entry where
  "demo_user = \<lparr>ue_username = js ''ann'', ue_role = Analyst\<rparr>"

definition demo_users :: user_state where
  "demo_users = user_start\<lparr>um_users := [demo_user]\<rparr>"

definition demo_removing :: user_state where
  "demo_removing = demo_users\<lparr>um_pendingDelete := Some (js ''ann'')\<rparr>"

lemma demo_run_removing: "reach user_init user_step [Call (Delete_user (js ''ann''))]
    (fst (user_handle MA_confirm demo_removing))"
proof -
  have "reach user_init user_step [] (fst (user_refetch user_start))"
    by (rule reach_init) (simp add: user_init_def)
  moreover have "user_step (fst (user_refetch user_start)) [] demo_users"
    by (rule user_step.settle, rule refetched [where xs = "[]" and ys = "[]" and ans = "Inr [demo_user]"])
       (simp_all add: user_handler_defs user_start_def demo_users_def)
  ultimately have "reach user_init user_step ([] @ []) demo_users" by (rule reach_step)
  moreover have "offers (user_view demo_users) (MA_ask_delete (js ''ann''))"
    by (subst user_offers_idle) (simp_all add: demo_users_def user_start_def demo_user_def)
  then have "user_step demo_users [] demo_removing"
    by (rule user) (simp add: user_handle_def demo_removing_def)
  ultimately have "reach user_init user_step (([] @ []) @ []) demo_removing" by (rule reach_step)
  moreover have "offers (user_view demo_removing) MA_confirm"
    by (subst user_offers_confirming) (simp_all add: demo_removing_def)
  then have "user_step demo_removing [Call (Delete_user (js ''ann''))]
      (fst (user_handle MA_confirm demo_removing))"
    by (rule user) (simp add: user_handle_def demo_removing_def user_handleDelete_def)
  ultimately have "reach user_init user_step ((([] @ []) @ []) @ [Call (Delete_user (js ''ann''))])
      (fst (user_handle MA_confirm demo_removing))" by (rule reach_step)
  then show ?thesis by simp
qed

subsection \<open>Properties\<close>

text \<open>One confirmation, one request: a step that asks the server to remove a user is the confirmation
  of the dialog for that user and closes it, so that no following step can send a removal before the
  user is asked again; and the dialog only ever opens for a user of the list.\<close>

theorem users_removed_once:
  assumes "user_step s out s'" and "Delete_user u \<in> set (user_changes out)"
  shows "um_pendingDelete s = Some u \<and> user_changes out = [Delete_user u] \<and>
    (\<forall>out2 s2 v. user_step s' out2 s2 \<longrightarrow> Delete_user v \<notin> set (user_changes out2)) \<and>
    (\<forall>out2 s2 v. user_step s' out2 s2 \<and> um_pendingDelete s2 = Some v \<longrightarrow>
       (\<exists>e \<in> set (um_users s'). ue_username e = v))"
proof -
  from user_step_changes [OF assms(1)] assms(2)
  have s: "user_changes out = [Delete_user u]" "justified s (Delete_user u) s'" by auto
  then have closed: "um_pendingDelete s' = None" by (simp add: justified_def)
  have "Delete_user v \<notin> set (user_changes out2)" if "user_step s' out2 s2" for out2 s2 v
    using user_step_changes [OF that] closed by (auto simp: justified_def)
  moreover have "\<exists>e \<in> set (um_users s'). ue_username e = v"
    if "user_step s' out2 s2 \<and> um_pendingDelete s2 = Some v" for out2 s2 v
    using user_step_pending [of s' out2 s2 v] that closed by simp
  ultimately show ?thesis using s by (simp add: justified_def)
qed

theorem users_removed_once_witness:
  "\<not> (\<exists>out2 s2 v. user_step (fst (user_handle MA_confirm demo_removing)) out2 s2 \<and>
     Delete_user v \<in> set (user_changes out2))"
proof -
  have "offers (user_view demo_removing) MA_confirm"
    by (subst user_offers_confirming) (simp_all add: demo_removing_def)
  then have "user_step demo_removing [Call (Delete_user (js ''ann''))]
      (fst (user_handle MA_confirm demo_removing))"
    by (rule user) (simp add: user_handle_def demo_removing_def user_handleDelete_def)
  from users_removed_once [OF this, of "js ''ann''"] show ?thesis by auto
qed

text \<open>In every run, every request that creates a user carries a non-empty name and a non-empty
  password: the form cannot be submitted without them.\<close>

theorem users_created_complete:
  assumes "reach user_init user_step os s" and "Create_user u p r \<in> set (user_changes os)"
  shows "u \<noteq> [] \<and> p \<noteq> []"
  using assms
proof (induction rule: reach.induct)
  case (reach_step os s out s')
  then show ?case using user_step_changes [OF reach_step.hyps(2)]
    by (auto simp: justified_def)
qed simp

definition demo_typed :: user_state where
  "demo_typed = (fst (user_refetch user_start))\<lparr>um_username := js ''bob'', um_password := js ''correct horse''\<rparr>"

theorem users_created_complete_witness:
  "\<exists>s. reach user_init user_step [Call (Create_user (js ''bob'') (js ''correct horse'') Analyst)] s \<and>
     js ''bob'' \<noteq> []"
proof -
  let ?s0 = "fst (user_refetch user_start)"
  let ?s1 = "?s0\<lparr>um_username := js ''bob''\<rparr>"
  have p: "um_pendingDelete ?s0 = None" "um_pendingDelete ?s1 = None" "um_pendingDelete demo_typed = None"
    by (simp_all add: user_refetch_def user_start_def demo_typed_def)
  have "reach user_init user_step [] ?s0" by (rule reach_init) (simp add: user_init_def)
  moreover have "user_step ?s0 [] ?s1"
    by (rule user [of _ "MA_username (js ''bob'')"]) (simp_all add: user_offers_idle p user_handle_def)
  ultimately have "reach user_init user_step ([] @ []) ?s1" by (rule reach_step)
  moreover have "user_step ?s1 [] demo_typed"
    by (rule user [of _ "MA_password (js ''correct horse'')"])
       (simp_all add: user_offers_idle p user_handle_def demo_typed_def)
  ultimately have "reach user_init user_step (([] @ []) @ []) demo_typed" by (rule reach_step)
  moreover have "user_step demo_typed [Call (Create_user (js ''bob'') (js ''correct horse'') Analyst)]
      (fst (user_handle MA_create demo_typed))"
    by (rule user [of _ MA_create])
       (simp_all add: user_offers_idle p user_handler_defs demo_typed_def user_start_def)
  ultimately have r: "reach user_init user_step
      ((([] @ []) @ []) @ [Call (Create_user (js ''bob'') (js ''correct horse'') Analyst)])
      (fst (user_handle MA_create demo_typed))" by (rule reach_step)
  from users_created_complete [OF r, of "js ''bob''" "js ''correct horse''" Analyst] r show ?thesis by auto
qed

end
