(* ===== verification/UploadPanel.thy ===== *)
theory UploadPanel
  imports Panels JsNum
begin

text \<open>
  \<open>UploadPanel.tsx\<close>: choosing a file, the preview of its SHA-256 hash, and the detonation request with
  its progress display.  \<open>upload_state\<close> holds the component's \<open>useState\<close> variables, the interval timers
  that have not been cleared and the promises in flight: a hash under computation with its file, and
  an upload with the timer its continuation will clear.  \<open>digest\<close> is \<open>crypto.subtle.digest\<close>.
\<close>

definition STEPS :: "string list" where
  "STEPS = [''Upload'', ''Isolate'', ''Detonate'', ''Observe'', ''Score'', ''Teardown'']"

definition formatSize :: "nat \<Rightarrow> jsstr" where
  "formatSize bytes =
     (if bytes < 1024 then dec bytes @ js '' B''
      else if bytes < 1024 * 1024 then toFixed 1 (of_nat bytes / 1024) @ js '' KB''
      else toFixed 1 (of_nat bytes / (1024 * 1024)) @ js '' MB'')"

datatype upload_cont = UC_hash js_file | UC_upload nat

record upload_state =
  us_dragOver :: bool
  us_file :: "js_file option"
  us_hash :: "jsstr option"
  us_busy :: bool
  us_error :: "jsstr option"
  us_stepIndex :: nat
  us_tickers :: "nat list"
  us_nextTicker :: nat
  us_inflight :: "upload_cont list"

datatype upload_effect =
    Upload_call api_call
  | Upload_start
  | Upload_verdict verdict
  | Upload_expired

type_synonym upload_out = "upload_state \<times> upload_effect list"

definition upload_start_state :: upload_state where
  "upload_start_state = \<lparr>us_dragOver = False, us_file = None, us_hash = None, us_busy = False,
     us_error = None, us_stepIndex = 0, us_tickers = [], us_nextTicker = 0, us_inflight = []\<rparr>"

subsection \<open>The handlers\<close>

definition handleFile :: "js_file \<Rightarrow> upload_state \<Rightarrow> upload_state" where
  "handleFile f s = s\<lparr>us_file := Some f, us_hash := None, us_error := None,
     us_inflight := us_inflight s @ [UC_hash f]\<rparr>"

text \<open>A digest that fails is ignored.\<close>

definition upload_hashed :: "js_exn + jsstr \<Rightarrow> upload_state \<Rightarrow> upload_state" where
  "upload_hashed ans s = (case ans of Inr h \<Rightarrow> s\<lparr>us_hash := Some h\<rparr> | Inl e \<Rightarrow> s)"

definition upload_handleUpload :: "upload_state \<Rightarrow> upload_out" where
  "upload_handleUpload s = (case us_file s of
     None \<Rightarrow> (s, [])
   | Some f \<Rightarrow>
       (s\<lparr>us_busy := True, us_error := None, us_stepIndex := 0,
          us_tickers := us_tickers s @ [us_nextTicker s], us_nextTicker := Suc (us_nextTicker s),
          us_inflight := us_inflight s @ [UC_upload (us_nextTicker s)]\<rparr>,
        [Upload_start, Upload_call (Upload_sample f)]))"

definition upload_tick :: "upload_state \<Rightarrow> upload_state" where
  "upload_tick s = s\<lparr>us_stepIndex := min (us_stepIndex s + 1) (length STEPS - 2)\<rparr>"

text \<open>The \<open>finally\<close> block runs on every path, the early return included.\<close>

definition upload_settled :: "nat \<Rightarrow> js_exn + verdict \<Rightarrow> upload_state \<Rightarrow> upload_out" where
  "upload_settled ticker ans s =
     (let (s1, out) = (case ans of
         Inr v \<Rightarrow> (s\<lparr>us_stepIndex := length STEPS - 1\<rparr>, [Upload_verdict v])
       | Inl e \<Rightarrow>
           if is_status 401 e then (s, [Upload_expired])
           else (s\<lparr>us_error := Some (exn_message e (js ''Upload failed '' @ [0x2014] @
                   js '' check your connection and try again.''))\<rparr>, []))
      in (s1\<lparr>us_tickers := filter (\<lambda>k. k \<noteq> ticker) (us_tickers s1), us_busy := False\<rparr>, out))"

definition handleDrop :: "js_file option \<Rightarrow> upload_state \<Rightarrow> upload_state" where
  "handleDrop dropped s =
     (let s1 = s\<lparr>us_dragOver := False\<rparr>
      in case dropped of None \<Rightarrow> s1 | Some f \<Rightarrow> handleFile f s1)"

subsection \<open>The rendered tree and the user's actions\<close>

datatype upload_act =
    UA_drag bool
  | UA_browse
  | UA_drop "js_file option"
  | UA_pick "js_file option"
  | UA_run

definition upload_handle :: "upload_act \<Rightarrow> upload_state \<Rightarrow> upload_out" where
  "upload_handle a s = (case a of
     UA_drag b \<Rightarrow> (s\<lparr>us_dragOver := b\<rparr>, [])
   | UA_browse \<Rightarrow> (s, [])
   | UA_drop f \<Rightarrow> (handleDrop f s, [])
   | UA_pick f \<Rightarrow> (case f of None \<Rightarrow> (s, []) | Some g \<Rightarrow> (handleFile g s, []))
   | UA_run \<Rightarrow> upload_handleUpload s)"

definition upload_file_info :: "upload_state \<Rightarrow> upload_act node list" where
  "upload_file_info s = (case us_file s of None \<Rightarrow> [] | Some f \<Rightarrow>
     [El ''dl'' [Attr ''className'' ''upload-file-info'']
       ([El ''dt'' [] [Lit ''File''],
         El ''dd'' [Attr ''className'' ''mono'']
           [Text (file_name f @ [32, 0xB7, 32] @ formatSize (file_size f))]]
        @ (case us_hash s of None \<Rightarrow> [] | Some h \<Rightarrow> show_if (h \<noteq> [])
            [El ''dt'' [] [Lit ''SHA-256''], El ''dd'' [] [copy_hash_ref h ''Sample hash'']]))])"

definition upload_steps :: "upload_state \<Rightarrow> upload_act node list" where
  "upload_steps s = show_if (us_busy s)
     [El ''ol'' [Attr ''className'' ''upload-steps'', Attr ''aria-label'' ''Detonation progress'']
       (map (\<lambda>(i, step). El ''li'' [Attr ''key'' step,
          Attr ''data-state'' (if i < us_stepIndex s then ''done''
            else if i = us_stepIndex s then ''active'' else ''pending'')] [Lit step])
        (zip [0..<length STEPS] STEPS))]"

definition upload_view :: "upload_state \<Rightarrow> upload_act node" where
  "upload_view s = card ''Detonate a sample'' []
     ([El ''div'' [Attr ''className'' ''upload-drop'', Flag ''data-active'' (us_dragOver s),
         On_event ''dragover'' (UA_drag True), On_event ''dragleave'' (UA_drag False), On_drop UA_drop,
         On_click UA_browse]
         [El ''UploadCloud'' [Attr ''className'' ''upload-drop__icon''] [],
          El ''p'' [Attr ''className'' ''upload-drop__label''] [Lit ''Drag a file here, or click to browse''],
          El ''input'' [Attr ''type'' ''file'', Attr ''className'' ''upload-drop__input'',
            Flag ''disabled'' (us_busy s), On_file UA_pick] []]]
      @ upload_file_info s
      @ [El ''button'' [Attr ''className'' ''run-button'', On_click UA_run,
           Flag ''disabled'' (us_busy s \<or> us_file s = None)]
           (show_if (us_busy s) [El ''span'' [Attr ''className'' ''spinner''] []]
            @ [Text (if us_busy s then js ''Detonating'' @ [0x2026] else js ''Run sample'')])]
      @ upload_steps s
      @ error_text (us_error s))"

subsection \<open>The steps of the component\<close>

text \<open>A digest or an upload settles, in any order.\<close>

inductive upload_settle ::
  "(byte list \<Rightarrow> js_exn + byte list) \<Rightarrow> upload_state \<Rightarrow> upload_effect list \<Rightarrow> upload_state \<Rightarrow> bool"
  for digest :: "byte list \<Rightarrow> js_exn + byte list" where
  hashed: "us_inflight s = xs @ UC_hash f # ys \<Longrightarrow>
     s' = upload_hashed (sha256Hex digest f) (s\<lparr>us_inflight := xs @ ys\<rparr>) \<Longrightarrow> upload_settle digest s [] s'"
| settled: "us_inflight s = xs @ UC_upload k # ys \<Longrightarrow>
     upload_settled k ans (s\<lparr>us_inflight := xs @ ys\<rparr>) = (s', out) \<Longrightarrow> upload_settle digest s out s'"

inductive upload_step ::
  "(byte list \<Rightarrow> js_exn + byte list) \<Rightarrow> upload_state \<Rightarrow> upload_effect list \<Rightarrow> upload_state \<Rightarrow> bool"
  for digest :: "byte list \<Rightarrow> js_exn + byte list" where
  user: "offers (upload_view s) a \<Longrightarrow> upload_handle a s = (s', out) \<Longrightarrow> upload_step digest s out s'"
| settle: "upload_settle digest s out s' \<Longrightarrow> upload_step digest s out s'"
| tick: "k \<in> set (us_tickers s) \<Longrightarrow> upload_step digest s [] (upload_tick s)"

definition upload_init :: "upload_state \<Rightarrow> bool" where
  "upload_init s \<longleftrightarrow> s = upload_start_state"

lemmas upload_handler_defs = handleFile_def upload_hashed_def upload_handleUpload_def upload_tick_def
  upload_settled_def handleDrop_def upload_handle_def Let_def

subsection \<open>What the view offers\<close>

lemma upload_parts [simp]:
  "concat (map handlers (upload_file_info s)) = []" "concat (map open_dialogs (upload_file_info s)) = []"
  "concat (map handlers (upload_steps s)) = []" "concat (map open_dialogs (upload_steps s)) = []"
  by (cases "us_file s"; cases "us_hash s"; auto simp: upload_file_info_def upload_steps_def)+

lemma upload_view_dialogs: "open_dialogs (upload_view s) = []"
  by (simp add: upload_view_def del: concat_eq_Nil_conv)

lemma upload_offers: "offers (upload_view s) a \<longleftrightarrow>
    (\<exists>b. a = UA_drag b) \<or> a = UA_browse \<or> (\<exists>f. a = UA_drop f) \<or>
    \<not> us_busy s \<and> (\<exists>f. a = UA_pick f) \<or> \<not> us_busy s \<and> us_file s \<noteq> None \<and> a = UA_run"
proof -
  have "handlers (upload_view s) =
     [On_event ''dragover'' (UA_drag True), On_event ''dragleave'' (UA_drag False), On_drop UA_drop, On_click UA_browse]
     @ (if us_busy s then [] else [On_file UA_pick])
     @ (if us_busy s \<or> us_file s = None then [] else [On_click UA_run])"
    by (simp add: upload_view_def del: concat_eq_Nil_conv)
  then show ?thesis by (auto simp: offers_without_dialog upload_view_dialogs)
qed

subsection \<open>The invariant\<close>

definition ticker_of :: "upload_cont \<Rightarrow> nat list" where
  "ticker_of c = (case c of UC_upload k \<Rightarrow> [k] | UC_hash f \<Rightarrow> [])"

definition uploads :: "upload_state \<Rightarrow> nat list" where
  "uploads s = concat (map ticker_of (us_inflight s))"

lemma ticker_of_simps [simp]: "ticker_of (UC_upload k) = [k]" "ticker_of (UC_hash f) = []"
  by (simp_all add: ticker_of_def)

definition sent_count :: "upload_effect list \<Rightarrow> nat" where
  "sent_count os = length (filter (\<lambda>x. \<exists>f. x = Upload_call (Upload_sample f)) os)"

definition verdict_count :: "upload_effect list \<Rightarrow> nat" where
  "verdict_count os = length (filter (\<lambda>x. \<exists>v. x = Upload_verdict v) os)"

lemma counts_simps [simp]:
  "sent_count (xs @ ys) = sent_count xs + sent_count ys" "sent_count [] = 0"
  "verdict_count (xs @ ys) = verdict_count xs + verdict_count ys" "verdict_count [] = 0"
  "sent_count [Upload_start, Upload_call (Upload_sample f)] = 1"
  "verdict_count [Upload_start, Upload_call c] = 0"
  "sent_count [Upload_verdict v] = 0" "verdict_count [Upload_verdict v] = 1"
  "sent_count [Upload_expired] = 0" "verdict_count [Upload_expired] = 0"
  by (simp_all add: sent_count_def verdict_count_def)

definition upload_inv :: "upload_effect list \<Rightarrow> upload_state \<Rightarrow> bool" where
  "upload_inv os s \<longleftrightarrow> uploads s = us_tickers s \<and>
     length (us_tickers s) = (if us_busy s then 1 else 0) \<and>
     us_stepIndex s \<le> 5 \<and> (us_busy s \<longrightarrow> us_stepIndex s \<le> 4) \<and>
     verdict_count os + (if us_busy s then 1 else 0) \<le> sent_count os"

lemma upload_inv_cong:
  "upload_inv os s \<Longrightarrow> uploads s' = uploads s \<Longrightarrow> us_tickers s' = us_tickers s \<Longrightarrow>
   us_busy s' = us_busy s \<Longrightarrow> us_stepIndex s' = us_stepIndex s \<Longrightarrow> upload_inv os s'"
  by (simp add: upload_inv_def)

lemma handleFile_inv: "upload_inv os s \<Longrightarrow> upload_inv os (handleFile f s)"
  by (erule upload_inv_cong) (simp_all add: handleFile_def uploads_def)

lemma upload_inv_user:
  assumes "upload_inv os s" and "offers (upload_view s) a" and "upload_handle a s = (s', out)"
  shows "upload_inv (os @ out) s'"
proof (cases a)
  case UA_run
  with assms show ?thesis
    by (auto simp: upload_offers upload_handle_def upload_handleUpload_def upload_inv_def uploads_def)
next
  case (UA_drag b)
  with assms show ?thesis by (auto simp: upload_handle_def uploads_def elim: upload_inv_cong)
next
  case (UA_drop f)
  have "upload_inv os (s\<lparr>us_dragOver := False\<rparr>)"
    using assms(1) by (rule upload_inv_cong) (simp_all add: uploads_def)
  with UA_drop assms(3) show ?thesis
    by (cases f) (auto simp: upload_handle_def handleDrop_def handleFile_inv)
qed (use assms(1,3) in \<open>auto simp: upload_handle_def handleFile_inv split: option.splits\<close>)

lemma uploads_split:
  "us_inflight s = xs @ c # ys \<Longrightarrow> uploads s = concat (map ticker_of xs) @ ticker_of c @ concat (map ticker_of ys)"
  by (simp add: uploads_def)

lemma upload_inv_settled:
  assumes "upload_inv os s" and "us_inflight s = xs @ UC_upload k # ys"
    and "upload_settled k ans (s\<lparr>us_inflight := xs @ ys\<rparr>) = (s', out)"
  shows "upload_inv (os @ out) s'"
proof -
  let ?before = "concat (map ticker_of xs)" and ?after = "concat (map ticker_of ys)"
  from assms(1) uploads_split [OF assms(2)]
  have split: "us_tickers s = ?before @ k # ?after" by (simp add: upload_inv_def)
  with assms(1) have busy: "us_busy s" and none: "?before = []" "?after = []"
    by (auto simp: upload_inv_def split: if_splits)
  have "uploads s' = ?before @ ?after" using assms(3)
    by (auto simp: upload_settled_def uploads_def Let_def split: sum.splits if_splits)
  then have "uploads s' = []" by (simp only: none append_Nil)
  moreover have "us_tickers s' = []" using assms(3) split none
    by (auto simp: upload_settled_def Let_def split: sum.splits if_splits simp del: concat_eq_Nil_conv)
  ultimately show ?thesis using assms(1,3) busy
    by (auto simp: upload_inv_def upload_settled_def STEPS_def Let_def split: sum.splits if_splits)
qed

lemma upload_inv_step:
  assumes "upload_inv os s" and "upload_step digest s out s'"
  shows "upload_inv (os @ out) s'"
  using assms(2)
proof cases
  case (user a)
  with assms(1) show ?thesis by (intro upload_inv_user)
next
  case settle
  then show ?thesis
  proof cases
    case (hashed xs f ys)
    with assms(1) show ?thesis
      by (auto simp: upload_hashed_def upload_inv_def uploads_def split: sum.splits)
  next
    case (settled xs k ys ans)
    with assms(1) show ?thesis by (intro upload_inv_settled)
  qed
next
  case (tick k)
  with assms(1) show ?thesis by (auto simp: upload_inv_def upload_tick_def uploads_def STEPS_def)
qed

interpretation upload: invariant_system upload_init "upload_step digest" upload_inv
proof unfold_locales
  show "upload_inv [] s" if "upload_init s" for s
    using that by (simp add: upload_init_def upload_start_state_def upload_inv_def uploads_def)
qed (rule upload_inv_step)

subsection \<open>Settling\<close>

interpretation upload_settling: settling "upload_settle digest" "\<lambda>s. length (us_inflight s)"
proof unfold_locales
  show "length (us_inflight s') < length (us_inflight s)" if "upload_settle digest s out s'" for s out s'
    using that by cases (auto simp: upload_handler_defs split: sum.splits if_splits)
next
  fix s :: upload_state
  assume "0 < length (us_inflight s)"
  then obtain c cs where "us_inflight s = [] @ c # cs" by (cases "us_inflight s") auto
  then show "\<exists>out s'. upload_settle digest s out s'"
    by (cases c) (metis upload_settle.intros surj_pair)+
qed

subsection \<open>A run of the component\<close>

definition demo_upload :: js_file where
  "demo_upload = \<lparr>file_name = js ''a.exe'', file_size = 3, file_bytes = Inr [1, 2, 3]\<rparr>"

lemma reach_upload_start: "reach upload_init (upload_step digest) [] upload_start_state"
  by (rule reach_init) (simp add: upload_init_def)

lemma reach_silent: "reach i st os s \<Longrightarrow> st s [] s' \<Longrightarrow> reach i st os s'"
  using reach_step by fastforce

lemma reach_dropped:
  "reach upload_init (upload_step digest) os s \<Longrightarrow>
   reach upload_init (upload_step digest) os (handleDrop (Some f) s)"
  by (erule reach_silent) (rule user [of _ "UA_drop (Some f)"], simp_all add: upload_offers upload_handle_def)

lemma reach_hashed:
  "reach upload_init (upload_step digest) os s \<Longrightarrow> us_inflight s = xs @ UC_hash f # ys \<Longrightarrow>
   reach upload_init (upload_step digest) os (upload_hashed (sha256Hex digest f) (s\<lparr>us_inflight := xs @ ys\<rparr>))"
  by (erule reach_silent) (rule upload_step.settle, rule hashed [OF _ refl])

definition demo_running :: upload_state where
  "demo_running = fst (upload_handleUpload (handleDrop (Some demo_upload) upload_start_state))"

lemma reach_running: "reach upload_init (upload_step digest)
    [Upload_start, Upload_call (Upload_sample demo_upload)] demo_running"
proof -
  let ?s = "handleDrop (Some demo_upload) upload_start_state"
  have f: "us_file ?s = Some demo_upload" "us_busy ?s = False"
    by (simp_all add: handleDrop_def handleFile_def upload_start_state_def)
  then have "upload_step digest ?s [Upload_start, Upload_call (Upload_sample demo_upload)] demo_running"
    by (intro user [of _ UA_run])
       (simp_all add: upload_offers upload_handle_def demo_running_def upload_handleUpload_def)
  from reach_step [OF reach_dropped [OF reach_upload_start], OF this] show ?thesis by simp
qed

subsection \<open>Properties\<close>

text \<open>At most one detonation is in flight, and the panel says so: in every reachable state the busy
  mark, a running timer and a pending upload go together, one of each or none; the progress display
  never reaches its last step before the answer is in; and no more verdicts are reported than
  samples were sent.\<close>

theorem upload_single_flight:
  assumes "reach upload_init (upload_step digest) os s"
  shows "uploads s = us_tickers s \<and> length (uploads s) = (if us_busy s then 1 else 0) \<and>
    us_stepIndex s < length STEPS \<and> (us_busy s \<longrightarrow> us_stepIndex s < length STEPS - 1) \<and>
    verdict_count os + (if us_busy s then 1 else 0) \<le> sent_count os"
  using upload.reach_inv [OF assms] by (auto simp: upload_inv_def STEPS_def)

theorem upload_single_flight_witness:
  "length (uploads demo_running) = (if us_busy demo_running then 1 else 0) \<and> us_busy demo_running"
  using upload_single_flight [OF reach_running]
  by (simp add: demo_running_def handleDrop_def handleFile_def upload_handleUpload_def upload_start_state_def)

text \<open>The hash preview can belong to another file: whenever two files have digests, there is a run in
  which the second one is chosen after the first, nothing is left in flight, and the panel shows the
  second file's name with the first file's SHA-256 hash.\<close>

theorem upload_stale_hash:
  assumes "sha256Hex digest f1 = Inr h1" and "sha256Hex digest f2 = Inr h2"
  shows "\<exists>s. reach upload_init (upload_step digest) [] s \<and> us_file s = Some f2 \<and>
    us_hash s = Some h1 \<and> us_inflight s = []"
proof -
  let ?s1 = "handleDrop (Some f1) upload_start_state"
  let ?s2 = "handleDrop (Some f2) ?s1"
  have "reach upload_init (upload_step digest) [] ?s2"
    by (intro reach_dropped reach_upload_start)
  moreover have "us_inflight ?s2 = [UC_hash f1] @ UC_hash f2 # []"
    by (simp add: handleDrop_def handleFile_def upload_start_state_def)
  ultimately have "reach upload_init (upload_step digest) []
      (upload_hashed (sha256Hex digest f2) (?s2\<lparr>us_inflight := [UC_hash f1] @ []\<rparr>))"
    by (rule reach_hashed)
  then have "reach upload_init (upload_step digest) []
      (upload_hashed (sha256Hex digest f1)
        ((upload_hashed (sha256Hex digest f2) (?s2\<lparr>us_inflight := [UC_hash f1] @ []\<rparr>))
          \<lparr>us_inflight := [] @ []\<rparr>))"
    by (rule reach_hashed) (simp add: assms upload_hashed_def)
  then show ?thesis
    by - (rule exI, rule conjI, assumption,
      simp add: assms upload_hashed_def handleDrop_def handleFile_def)
qed

theorem upload_stale_hash_witness:
  "\<exists>s. reach upload_init (upload_step (\<lambda>bs. Inr bs)) [] s \<and>
     us_file s = Some \<lparr>file_name = js ''b'', file_size = 1, file_bytes = Inr [255]\<rparr> \<and>
     us_hash s = Some (concat (map hex_byte [1, 2, 3])) \<and> us_inflight s = []"
  by (rule upload_stale_hash [where ?f1.0 = demo_upload and ?h2.0 = "concat (map hex_byte [255])"])
     (simp_all add: sha256Hex_def demo_upload_def)

text \<open>The file size shown is right to half a tenth of its unit: below 1 KB it is the exact number of
  bytes, otherwise the number in front of the unit, times the unit, differs from the size by at most
  a twentieth of the unit.\<close>

theorem formatSize_close:
  "(n < 1024 \<longrightarrow> formatSize n = dec n @ js '' B'') \<and>
   (1024 \<le> n \<longrightarrow> (\<exists>s (unit :: rat). (unit = 1024 \<and> n < 1024 * 1024 \<and> formatSize n = s @ js '' KB'' \<or>
       unit = 1024 * 1024 \<and> 1024 * 1024 \<le> n \<and> formatSize n = s @ js '' MB'') \<and>
     \<bar>fixed_value 1 s * unit - of_nat n\<bar> \<le> unit / 20))"
proof -
  have close: "\<bar>fixed_value 1 (toFixed 1 (of_nat n / unit)) * unit - of_nat n\<bar> \<le> unit / 20"
    if "0 < unit" for unit :: rat
    using scale_error [OF that toFixed_close, of "of_nat n" 1] that by simp
  show ?thesis
  proof (cases "n < 1024 * 1024")
    case True
    then show ?thesis using close [of 1024]
      by (auto simp: formatSize_def intro!: exI [of _ "toFixed 1 (of_nat n / 1024)"] exI [of _ "1024 :: rat"])
  next
    case False
    then show ?thesis using close [of "1024 * 1024"]
      by (auto simp: formatSize_def intro!: exI [of _ "toFixed 1 (of_nat n / (1024 * 1024))"]
          exI [of _ "1024 * 1024 :: rat"])
  qed
qed

theorem formatSize_close_witness:
  "\<exists>s (unit :: rat). (unit = 1024 \<and> formatSize 1536 = s @ js '' KB'' \<or>
       unit = 1024 * 1024 \<and> formatSize 1536 = s @ js '' MB'') \<and>
     \<bar>fixed_value 1 s * unit - 1536\<bar> \<le> unit / 20"
proof -
  have "1024 \<le> (1536 :: nat)" by simp
  from conjunct2 [OF formatSize_close, rule_format, OF this] obtain s and unit :: rat where
    "unit = 1024 \<and> 1536 < 1024 * (1024 :: nat) \<and> formatSize 1536 = s @ js '' KB'' \<or>
      unit = 1024 * 1024 \<and> 1024 * 1024 \<le> (1536 :: nat) \<and> formatSize 1536 = s @ js '' MB''"
    and "\<bar>fixed_value 1 s * unit - of_nat 1536\<bar> \<le> unit / 20" by (elim exE conjE)
  then show ?thesis by (intro exI [of _ s] exI [of _ unit]) (elim disjE; simp)
qed

end
