(* ===== verification/RuleScorer.thy ===== *)
theory RuleScorer
  imports Platform
begin

text \<open>
  \<open>rule_scorer.py\<close> of the verdict engine: the reasons for which the events of a detonation speak
  against a sample, the confidence that their weights add up to as doubles, and the verdict that
  follows from it.  The feed's rule tags are meant to mirror these rules (theory EventFeed).
\<close>

subsection \<open>The rules\<close>

text \<open>The literals of the weights are doubles.\<close>

definition RULE_WEIGHTS :: "string \<rightharpoonup> rat" where
  "RULE_WEIGHTS = map_of [(''child_process'', to_double (3 / 10)), (''sensitive_write'', to_double (25 / 100)),
     (''odd_port'', to_double (2 / 10)), (''rapid_file_changes'', to_double (25 / 100))]"

definition SCORER_SENSITIVE_PREFIXES :: "jsstr list" where
  "SCORER_SENSITIVE_PREFIXES = map js [''/etc/'', ''/bin/'', ''/usr/'', ''/boot/'', ''/sbin/'']"

definition SCORER_STANDARD_PORTS :: "int list" where
  "SCORER_STANDARD_PORTS = [80, 443]"

definition RAPID_FILE_CHANGE_THRESHOLD :: nat where "RAPID_FILE_CHANGE_THRESHOLD = 5"

definition spawned_child :: "mirra_event \<Rightarrow> bool" where
  "spawned_child e \<longleftrightarrow> event_type e = Process_spawn \<and> process_ref e \<noteq> None"

definition sensitive_write :: "mirra_event \<Rightarrow> bool" where
  "sensitive_write e \<longleftrightarrow> event_type e = File_write \<and>
     (case file_ref e of None \<Rightarrow> False
       | Some f \<Rightarrow> \<exists>p \<in> set SCORER_SENSITIVE_PREFIXES. starts_with (fr_path f) p)"

definition odd_connection :: "mirra_event \<Rightarrow> bool" where
  "odd_connection e \<longleftrightarrow> event_type e = Network_connect \<and>
     (case network_ref e of None \<Rightarrow> False | Some n \<Rightarrow> nr_dst_port n \<notin> set SCORER_STANDARD_PORTS)"

definition file_change :: "mirra_event \<Rightarrow> bool" where
  "file_change e \<longleftrightarrow> event_type e = File_write \<or> event_type e = File_delete"

text \<open>The reason a rule gives: for its first event, if there is one.\<close>

definition first_reason :: "(mirra_event \<Rightarrow> bool) \<Rightarrow> (mirra_event \<Rightarrow> jsstr) \<Rightarrow> mirra_event list \<Rightarrow> jsstr list" where
  "first_reason p f es = (case filter p es of [] \<Rightarrow> [] | e # _ \<Rightarrow> [f e])"

definition child_reason :: "mirra_event list \<Rightarrow> jsstr list" where
  "child_reason = first_reason spawned_child (\<lambda>e. case process_ref e of None \<Rightarrow> []
     | Some p \<Rightarrow> js ''spawned child process '' @ [39] @ pr_name p @ [39] @ js '' (pid '' @ dec_int (pr_pid p) @ js '')'')"

definition sensitive_reason :: "mirra_event list \<Rightarrow> jsstr list" where
  "sensitive_reason = first_reason sensitive_write (\<lambda>e. case file_ref e of None \<Rightarrow> []
     | Some f \<Rightarrow> js ''wrote to sensitive path '' @ [39] @ fr_path f @ [39])"

definition port_reason :: "mirra_event list \<Rightarrow> jsstr list" where
  "port_reason = first_reason odd_connection (\<lambda>e. case network_ref e of None \<Rightarrow> []
     | Some n \<Rightarrow> js ''connected to non-standard port '' @ dec_int (nr_dst_port n) @ js '' ('' @ nr_dst_ip n @ js '')'')"

definition rapid_reason :: "mirra_event list \<Rightarrow> jsstr list" where
  "rapid_reason es = (let n = length (filter file_change es)
     in if RAPID_FILE_CHANGE_THRESHOLD < n then [js ''modified '' @ dec n @ js '' files rapidly''] else [])"

subsection \<open>The score\<close>

text \<open>\<open>confidence += RULE_WEIGHTS[key]; chain.append(...)\<close>, if the rule gives a reason.\<close>

definition add_reason :: "string \<Rightarrow> jsstr list \<Rightarrow> rat \<times> jsstr list \<Rightarrow> rat \<times> jsstr list" where
  "add_reason key rs acc = (case rs of [] \<Rightarrow> acc
     | r # _ \<Rightarrow> (case RULE_WEIGHTS key of
         None \<Rightarrow> acc
       | Some w \<Rightarrow> (to_double (fst acc + w), snd acc @ [r])))"

definition score_events :: "mirra_event list \<Rightarrow> rat \<times> jsstr list" where
  "score_events es =
     (let (score, chain) =
        add_reason ''rapid_file_changes'' (rapid_reason es)
          (add_reason ''odd_port'' (port_reason es)
            (add_reason ''sensitive_write'' (sensitive_reason es)
              (add_reason ''child_process'' (child_reason es) (0, []))))
      in (min score 1, chain))"

definition verdict_from_score :: "rat \<Rightarrow> jsstr list \<Rightarrow> bool \<Rightarrow> verdict_label" where
  "verdict_from_score score chain had_telemetry =
     (if \<not> had_telemetry then Inconclusive
      else if score = 0 then Normal
      else if score < to_double (6 / 10) then Suspicious
      else Compromised)"

subsection \<open>The chain of reasons\<close>

lemma first_reason_Nil: "first_reason p f es = [] \<longleftrightarrow> (\<forall>e \<in> set es. \<not> p e)"
  by (cases "filter p es") (simp_all add: first_reason_def flip: filter_empty_conv)

lemma at_most_one:
  "child_reason es = [] \<or> (\<exists>r. child_reason es = [r])" "sensitive_reason es = [] \<or> (\<exists>r. sensitive_reason es = [r])"
  "port_reason es = [] \<or> (\<exists>r. port_reason es = [r])" "rapid_reason es = [] \<or> (\<exists>r. rapid_reason es = [r])"
  by (simp_all add: child_reason_def sensitive_reason_def port_reason_def rapid_reason_def first_reason_def Let_def
      split: list.splits)

lemma score_chain_split:
  "snd (score_events es) = child_reason es @ sensitive_reason es @ port_reason es @ rapid_reason es"
  using at_most_one [of es] by (auto simp: score_events_def add_reason_def RULE_WEIGHTS_def)

lemma score_chain_Nil:
  "snd (score_events es) = [] \<longleftrightarrow> (\<forall>e \<in> set es. \<not> spawned_child e \<and> \<not> sensitive_write e \<and> \<not> odd_connection e) \<and>
     length (filter file_change es) \<le> RAPID_FILE_CHANGE_THRESHOLD"
  by (auto simp: score_chain_split child_reason_def sensitive_reason_def port_reason_def rapid_reason_def
      first_reason_Nil Let_def)

subsection \<open>The confidence as a double\<close>

lemma to_double_nonneg: "0 \<le> x \<Longrightarrow> 0 \<le> to_double x"
proof -
  assume "0 \<le> x"
  with to_double_close [of x] have "x - x / 2 ^ 53 \<le> to_double x" by linarith
  with \<open>0 \<le> x\<close> show ?thesis by simp
qed

text \<open>One addition of a weight \<open>a\<close>, the exact sum being \<open>x\<close> so far.\<close>

lemma add_close:
  assumes "0 \<le> c" and "\<bar>c - x\<bar> \<le> e" and "x \<le> 1" and "e \<le> 1 / 2" and "0 \<le> a" and "a \<le> 1 / 2"
  shows "0 \<le> to_double (c + to_double a) \<and> \<bar>to_double (c + to_double a) - (x + a)\<bar> \<le> e + 1 / 2 ^ 50"
proof -
  define d :: rat where "d = 1 / 2 ^ 50"
  have n: "0 \<le> to_double a" using assms(5) by (rule to_double_nonneg)
  have "\<bar>to_double a - a\<bar> \<le> a / 2 ^ 53" using assms(5) by (rule to_double_close)
  also have "\<dots> \<le> d / 8" using assms(6) by (simp add: d_def)
  finally have w: "\<bar>to_double a - a\<bar> \<le> d / 8" .
  have "d \<le> 1" by (simp add: d_def)
  with w assms have three: "c + to_double a \<le> 3" by linarith
  have "\<bar>to_double (c + to_double a) - (c + to_double a)\<bar> \<le> (c + to_double a) / 2 ^ 53"
    using assms(1) n by (intro to_double_close) simp
  also have "\<dots> \<le> 3 / 8 * d" using three by (simp add: d_def)
  finally have "\<bar>to_double (c + to_double a) - (x + a)\<bar> \<le> e + d"
    using w assms(2) by linarith
  with assms(1) n to_double_nonneg [of "c + to_double a"] show ?thesis by (simp add: d_def)
qed

text \<open>The exact weights, and how far the double is from their sum.\<close>

definition exact_sum :: "mirra_event list \<Rightarrow> rat" where
  "exact_sum es = (if child_reason es = [] then 0 else 3 / 10) + (if sensitive_reason es = [] then 0 else 1 / 4)
     + (if port_reason es = [] then 0 else 1 / 5) + (if rapid_reason es = [] then 0 else 1 / 4)"

definition close_to :: "rat \<Rightarrow> nat \<Rightarrow> rat \<Rightarrow> bool" where
  "close_to x n c \<longleftrightarrow> 0 \<le> c \<and> \<bar>c - x\<bar> \<le> of_nat n / 2 ^ 50 \<and> (x = 0 \<longrightarrow> c = 0)"

lemma add_reason_close:
  assumes "close_to x n (fst acc)" and "RULE_WEIGHTS key = Some (to_double a)" and "0 \<le> x" and "x \<le> 1" and "n \<le> 4"
    and "0 < a" and "a \<le> 1 / 2"
  shows "close_to (x + (if rs = [] then 0 else a)) (Suc n) (fst (add_reason key rs acc))"
proof (cases rs)
  case Nil
  with assms(1) show ?thesis
    by (auto simp: close_to_def add_reason_def intro: order_trans [OF _ divide_right_mono])
next
  case (Cons r rs')
  have "rat_of_nat n / 2 ^ 50 \<le> 4 / 2 ^ 50" using assms(5) by (intro divide_right_mono) simp_all
  then have "rat_of_nat n / 2 ^ 50 \<le> 1 / 2" by simp
  with assms(1) add_close [of "fst acc" x "of_nat n / 2 ^ 50" a] assms(4,6,7)
  have "0 \<le> to_double (fst acc + to_double a)"
    "\<bar>to_double (fst acc + to_double a) - (x + a)\<bar> \<le> of_nat n / 2 ^ 50 + 1 / 2 ^ 50"
    by (simp_all add: close_to_def)
  with Cons assms(2,3,6) show ?thesis by (simp add: close_to_def add_reason_def add_divide_distrib)
qed

lemma score_close: "\<exists>c. fst (score_events es) = min c 1 \<and> close_to (exact_sum es) 4 c"
proof -
  let ?a1 = "add_reason ''child_process'' (child_reason es) (0, [])"
  let ?a2 = "add_reason ''sensitive_write'' (sensitive_reason es) ?a1"
  let ?a3 = "add_reason ''odd_port'' (port_reason es) ?a2"
  have "close_to (0 + (if child_reason es = [] then 0 else 3 / 10)) (Suc 0) (fst ?a1)"
    by (rule add_reason_close) (simp_all add: RULE_WEIGHTS_def close_to_def)
  then have "close_to (0 + (if child_reason es = [] then 0 else 3 / 10) + (if sensitive_reason es = [] then 0 else 25 / 100))
      (Suc (Suc 0)) (fst ?a2)"
    by (rule add_reason_close) (simp_all add: RULE_WEIGHTS_def)
  then have "close_to (0 + (if child_reason es = [] then 0 else 3 / 10) + (if sensitive_reason es = [] then 0 else 25 / 100)
      + (if port_reason es = [] then 0 else 2 / 10)) (Suc (Suc (Suc 0))) (fst ?a3)"
    by (rule add_reason_close) (simp_all add: RULE_WEIGHTS_def)
  then have "close_to (0 + (if child_reason es = [] then 0 else 3 / 10) + (if sensitive_reason es = [] then 0 else 25 / 100)
      + (if port_reason es = [] then 0 else 2 / 10) + (if rapid_reason es = [] then 0 else 25 / 100)) (Suc (Suc (Suc (Suc 0))))
      (fst (add_reason ''rapid_file_changes'' (rapid_reason es) ?a3))"
    by (rule add_reason_close) (simp_all add: RULE_WEIGHTS_def)
  moreover have "fst (score_events es) = min (fst (add_reason ''rapid_file_changes'' (rapid_reason es) ?a3)) 1"
    by (simp add: score_events_def split: prod.split)
  ultimately show ?thesis by (auto simp: exact_sum_def eval_nat_numeral)
qed

lemma no_reason_no_score: "snd (score_events es) = [] \<Longrightarrow> fst (score_events es) = 0"
  using score_close [of es] by (auto simp: close_to_def exact_sum_def score_chain_split)

lemma threshold_close: "\<bar>to_double (6 / 10) - 6 / 10\<bar> \<le> 1 / 2 ^ 50"
proof -
  have "\<bar>to_double (6 / 10) - 6 / 10\<bar> \<le> (6 / 10) / 2 ^ 53" by (rule to_double_close) simp
  then show ?thesis by simp
qed

lemma exact_sum_chain:
  "length (snd (score_events es)) = 0 \<Longrightarrow> exact_sum es = 0"
  "length (snd (score_events es)) \<in> {1, 2} \<Longrightarrow> exact_sum es \<in> {1 / 5 .. 11 / 20}"
  "length (snd (score_events es)) \<ge> 3 \<Longrightarrow> exact_sum es \<in> {7 / 10 .. 1}"
  "length (snd (score_events es)) \<le> 4"
  using at_most_one [of es] by (auto simp: score_chain_split exact_sum_def)

subsection \<open>Properties\<close>

text \<open>C40: The scorer's verdict is decided by the number of its reasons, rounding notwithstanding: the
  confidence, added up in double arithmetic, lies between 0 and 1; without telemetry the verdict is
  inconclusive; with it, no reason means normal, one or two reasons, whichever they are, suspicious,
  and three or four compromised.\<close>

theorem scorer_counts_reasons:
  "(case score_events es of (score, chain) \<Rightarrow>
      0 \<le> score \<and> score \<le> 1 \<and> length chain \<le> 4 \<and>
      verdict_from_score score chain False = Inconclusive \<and>
      verdict_from_score score chain True =
        (if length chain = 0 then Normal else if length chain \<le> 2 then Suspicious else Compromised))"
proof -
  obtain c where c: "fst (score_events es) = min c 1" "0 \<le> c" "\<bar>c - exact_sum es\<bar> \<le> 4 / 2 ^ 50"
    "exact_sum es = 0 \<Longrightarrow> c = 0" using score_close [of es] by (auto simp: close_to_def)
  have near: "\<bar>c - exact_sum es\<bar> \<le> 1 / 1000" using c(3) by (rule order_trans) simp
  have six: "\<bar>to_double (6 / 10) - 6 / 10\<bar> \<le> 1 / 1000" using threshold_close by (rule order_trans) simp
  let ?n = "length (snd (score_events es))"
  have "?n = 0 \<or> ?n = 1 \<or> ?n = 2 \<or> 3 \<le> ?n" by linarith
  then consider "?n = 0" | "?n \<in> {1, 2}" | "3 \<le> ?n" by blast
  then have "verdict_from_score (min c 1) (snd (score_events es)) True =
      (if ?n = 0 then Normal else if ?n \<le> 2 then Suspicious else Compromised)"
  proof cases
    case 1
    with exact_sum_chain(1) [of es] c(4) show ?thesis by (simp add: verdict_from_score_def)
  next
    case 2
    from exact_sum_chain(2) [OF 2] have "1 / 5 \<le> exact_sum es" "exact_sum es \<le> 11 / 20" by simp_all
    with near have "0 < c" "c < 59 / 100" by linarith+
    moreover have "59 / 100 < to_double (6 / 10)" using six by linarith
    ultimately show ?thesis using 2 by (auto simp: verdict_from_score_def)
  next
    case 3
    from exact_sum_chain(3) [OF 3] have "7 / 10 \<le> exact_sum es" by simp
    with near have "69 / 100 < c" by linarith
    moreover have "to_double (6 / 10) < 61 / 100" using six by linarith
    ultimately show ?thesis using 3 by (auto simp: verdict_from_score_def min_def)
  qed
  with c(1,2) exact_sum_chain(4) [of es] show ?thesis
    by (cases "score_events es") (auto simp: verdict_from_score_def)
qed

end
