(* ===== verification/EventFeed.thy ===== *)
theory EventFeed
  imports RuleScorer
begin

text \<open>
  \<open>EventFeed.tsx\<close>: the two live traces with their filters, their automatic scrolling and the counter of
  events that arrived out of sight; the text and the rule tag of an event.  The tags claim to name
  the rule of the verdict engine an event would trigger, so they are compared with the reasons that
  \<open>score_events\<close> gives (theory RuleScorer).
\<close>

subsection \<open>The text of an event\<close>

definition formatTime :: "platform \<Rightarrow> jsstr \<Rightarrow> jsstr" where
  "formatTime pf stamp = (case pf_parse_date pf stamp of
     None \<Rightarrow> stamp
   | Some t \<Rightarrow>
       (let d = pf_local pf t;
            hh = pad_start 2 48 (dec (lt_hours d)); mm = pad_start 2 48 (dec (lt_minutes d));
            ss = pad_start 2 48 (dec (lt_seconds d)); ms = pad_start 3 48 (dec (lt_millis d))
        in hh @ [58] @ mm @ [58] @ ss @ [46] @ ms))"

definition detail :: "mirra_event \<Rightarrow> jsstr option" where
  "detail e = (case process_ref e of
     Some p \<Rightarrow> Some (pr_name p @ js '' (pid '' @ dec_int (pr_pid p) @ js '')'')
   | None \<Rightarrow> (case file_ref e of
       Some f \<Rightarrow> Some (fr_action f @ [32, 39] @ fr_path f @ [39])
     | None \<Rightarrow> (case network_ref e of
         Some n \<Rightarrow> Some (js ''connect '' @ nr_dst_ip n @ [58] @ dec_int (nr_dst_port n))
       | None \<Rightarrow> None)))"

definition SENSITIVE_PREFIXES :: "jsstr list" where
  "SENSITIVE_PREFIXES = map js [''/etc/'', ''/bin/'', ''/usr/'', ''/boot/'', ''/sbin/'']"

definition STANDARD_PORTS :: "int list" where
  "STANDARD_PORTS = [80, 443]"

definition ruleTag :: "mirra_event \<Rightarrow> jsstr option" where
  "ruleTag e =
     (if event_type e = Process_spawn then Some (js ''child process'')
      else if event_type e = File_write \<and>
        (\<exists>f. file_ref e = Some f \<and> (\<exists>p \<in> set SENSITIVE_PREFIXES. starts_with (fr_path f) p))
        then Some (js ''sensitive path'')
      else if event_type e = Network_connect \<and>
        (\<exists>n. network_ref e = Some n \<and> nr_dst_port n \<notin> set STANDARD_PORTS)
        then Some (js ''non-standard port'')
      else None)"

lemma ruleTag_code [code]:
  "ruleTag e =
     (if event_type e = Process_spawn then Some (js ''child process'')
      else if event_type e = File_write \<and>
        (case file_ref e of None \<Rightarrow> False
          | Some f \<Rightarrow> \<exists>p \<in> set SENSITIVE_PREFIXES. starts_with (fr_path f) p)
        then Some (js ''sensitive path'')
      else if event_type e = Network_connect \<and>
        (case network_ref e of None \<Rightarrow> False | Some n \<Rightarrow> nr_dst_port n \<notin> set STANDARD_PORTS)
        then Some (js ''non-standard port'')
      else None)"
  by (auto simp: ruleTag_def split: option.splits)

subsection \<open>EventList\<close>

definition FILTER_CHIPS :: "(event_type \<times> string) list" where
  "FILTER_CHIPS = [(Process_spawn, ''Process''), (File_write, ''File''), (Network_connect, ''Network'')]"

record list_state =
  el_events :: "mirra_event list"
  el_filters :: "event_type list"
  el_autoScroll :: bool
  el_newCount :: nat
  el_prevLength :: nat

datatype list_effect = Scroll_bottom

type_synonym list_out = "list_state \<times> list_effect list"

definition list_mount :: "mirra_event list \<Rightarrow> list_state" where
  "list_mount es = \<lparr>el_events = es, el_filters = map fst FILTER_CHIPS, el_autoScroll = True,
     el_newCount = 0, el_prevLength = length es\<rparr>"

text \<open>The set of active filters, as the list of its elements in order of insertion.\<close>

definition toggleFilter :: "event_type \<Rightarrow> list_state \<Rightarrow> list_state" where
  "toggleFilter t s = s\<lparr>el_filters := (if t \<in> set (el_filters s)
     then filter (\<lambda>u. u \<noteq> t) (el_filters s) else el_filters s @ [t])\<rparr>"

definition list_filtered :: "list_state \<Rightarrow> mirra_event list" where
  "list_filtered s = filter (\<lambda>e. event_type e \<in> set (el_filters s)) (el_events s)"

text \<open>The effect on \<open>[events, autoScroll]\<close>; the list element exists while some event is shown.\<close>

definition list_effect_run :: "list_state \<Rightarrow> list_out" where
  "list_effect_run s =
     (let added = int (length (el_events s)) - int (el_prevLength s);
          s1 = s\<lparr>el_prevLength := length (el_events s)\<rparr>
      in if added \<le> 0 then (s1, [])
         else if el_autoScroll s \<and> list_filtered s \<noteq> [] then (s1, [Scroll_bottom])
         else (s1\<lparr>el_newCount := el_newCount s + nat added\<rparr>, []))"

definition list_receive :: "mirra_event list \<Rightarrow> list_state \<Rightarrow> list_out" where
  "list_receive es s = list_effect_run (s\<lparr>el_events := es\<rparr>)"

definition handleScroll :: "bool \<Rightarrow> list_state \<Rightarrow> list_out" where
  "handleScroll nearBottom s =
     (let s1 = s\<lparr>el_autoScroll := nearBottom,
                 el_newCount := (if nearBottom then 0 else el_newCount s)\<rparr>
      in if nearBottom = el_autoScroll s then (s1, []) else list_effect_run s1)"

definition jumpToBottom :: "list_state \<Rightarrow> list_out" where
  "jumpToBottom s =
     (let s1 = s\<lparr>el_autoScroll := True, el_newCount := 0\<rparr>;
          (s2, out) = (if el_autoScroll s then (s1, []) else list_effect_run s1)
      in (s2, (if list_filtered s \<noteq> [] then [Scroll_bottom] else []) @ out))"

datatype list_act = LA_toggle event_type | LA_scroll bool | LA_jump

definition list_handle :: "list_act \<Rightarrow> list_state \<Rightarrow> list_out" where
  "list_handle a s = (case a of
     LA_toggle t \<Rightarrow> (toggleFilter t s, [])
   | LA_scroll nearBottom \<Rightarrow> handleScroll nearBottom s
   | LA_jump \<Rightarrow> jumpToBottom s)"

definition event_icon :: "event_type \<Rightarrow> 'a node" where
  "event_icon t = (if t = Process_spawn then icon ''TerminalSquare'' 14
     else if t = Network_connect then icon ''Network'' 14 else icon ''FileWarning'' 14)"

definition trace_row :: "platform \<Rightarrow> mirra_event \<Rightarrow> 'a node" where
  "trace_row pf e = El ''li''
     [Attr ''className'' ''trace-row'', Val ''key'' (event_id e), Val ''data-type'' (event_type_str (event_type e))]
     ([event_icon (event_type e),
       El ''span'' [Attr ''className'' ''trace-row__time mono'', Val ''title'' (event_timestamp e)]
         [Text (formatTime pf (event_timestamp e))]]
      @ (case detail e of None \<Rightarrow> [] | Some d \<Rightarrow> show_if (d \<noteq> [])
           [El ''span'' [Attr ''className'' ''trace-row__detail mono''] [Text d]])
      @ (case ruleTag e of None \<Rightarrow> [] | Some t \<Rightarrow>
           [El ''span'' [Attr ''className'' ''trace-row__tag''] [Text t]]))"

definition list_view :: "platform \<Rightarrow> jsstr \<Rightarrow> list_state \<Rightarrow> list_act node" where
  "list_view pf emptyMessage s = El ''div'' [Attr ''className'' ''event-feed'']
     ([El ''div'' [Attr ''className'' ''event-feed__chips'']
        (map (\<lambda>(t, l). El ''button'' [Val ''key'' (event_type_str t), Attr ''type'' ''button'',
           Attr ''className'' ''event-feed__chip'', Flag ''data-active'' (t \<in> set (el_filters s)),
           On_click (LA_toggle t)] [Lit l]) FILTER_CHIPS),
       if list_filtered s = [] then El ''p'' [Attr ''className'' ''trace-empty''] [Text emptyMessage]
       else El ''ul'' [Attr ''className'' ''trace-list'', On_flag ''scroll'' LA_scroll]
         (map (trace_row pf) (list_filtered s))]
      @ show_if (\<not> el_autoScroll s \<and> 0 < el_newCount s)
         [El ''button'' [Attr ''type'' ''button'', Attr ''className'' ''trace-jump'', On_click LA_jump]
           [Text ([0x2193, 32] @ dec (el_newCount s) @ js '' new event'' @
              (if el_newCount s = 1 then [] else js ''s''))]])"

subsection \<open>EventFeed\<close>

text \<open>Only the list of the active tab is mounted, so changing tabs starts it afresh.\<close>

datatype feed_tab = Tab_shadow | Tab_monitor

record feed_state =
  ef_tab :: feed_tab
  ef_list :: list_state
  ef_sample :: "mirra_event list"
  ef_monitor :: "mirra_event list"

definition tab_events :: "feed_tab \<Rightarrow> feed_state \<Rightarrow> mirra_event list" where
  "tab_events t s = (case t of Tab_shadow \<Rightarrow> ef_sample s | Tab_monitor \<Rightarrow> ef_monitor s)"

definition feed_mount :: "mirra_event list \<Rightarrow> mirra_event list \<Rightarrow> feed_state" where
  "feed_mount sampleEvents monitorEvents = \<lparr>ef_tab = Tab_shadow, ef_list = list_mount sampleEvents,
     ef_sample = sampleEvents, ef_monitor = monitorEvents\<rparr>"

definition feed_select :: "feed_tab \<Rightarrow> feed_state \<Rightarrow> feed_state" where
  "feed_select t s = (if t = ef_tab s then s
     else s\<lparr>ef_tab := t, ef_list := list_mount (tab_events t s)\<rparr>)"

text \<open>New properties from the application.\<close>

definition feed_update :: "mirra_event list \<Rightarrow> mirra_event list \<Rightarrow> feed_state \<Rightarrow> feed_state \<times> list_effect list" where
  "feed_update sampleEvents monitorEvents s =
     (let s1 = s\<lparr>ef_sample := sampleEvents, ef_monitor := monitorEvents\<rparr>;
          (l, out) = list_receive (tab_events (ef_tab s) s1) (ef_list s)
      in (s1\<lparr>ef_list := l\<rparr>, out))"

definition feed_message :: "feed_tab \<Rightarrow> jsstr" where
  "feed_message t = (case t of
     Tab_shadow \<Rightarrow> js ''No trace yet '' @ [0x2014] @ js '' upload a sample to begin.''
   | Tab_monitor \<Rightarrow> js ''No monitor activity yet.'')"

datatype feed_act = FA_tab string | FA_list list_act

definition tab_string :: "feed_tab \<Rightarrow> string" where
  "tab_string t = (case t of Tab_shadow \<Rightarrow> ''shadow'' | Tab_monitor \<Rightarrow> ''monitor'')"

definition feed_view :: "platform \<Rightarrow> feed_state \<Rightarrow> feed_act node" where
  "feed_view pf s = card ''Live telemetry'' []
     (tabs_view [\<lparr>tab_id = ''shadow'', tab_label = ''Shadow run'', tab_badge = []\<rparr>,
                 \<lparr>tab_id = ''monitor'', tab_label = ''Endpoint monitor'', tab_badge = []\<rparr>]
        (tab_string (ef_tab s)) FA_tab
      # tab_panel ''shadow'' (tab_string (ef_tab s))
          [map_node FA_list (list_view pf (feed_message Tab_shadow) (ef_list s))]
      @ tab_panel ''monitor'' (tab_string (ef_tab s))
          [map_node FA_list (list_view pf (feed_message Tab_monitor) (ef_list s))])"

inductive feed_step :: "platform \<Rightarrow> feed_state \<Rightarrow> list_effect list \<Rightarrow> feed_state \<Rightarrow> bool"
  for pf :: platform where
  user: "offers (list_view pf (feed_message (ef_tab s)) (ef_list s)) a \<Longrightarrow>
     list_handle a (ef_list s) = (l, out) \<Longrightarrow> feed_step pf s out (s\<lparr>ef_list := l\<rparr>)"
| select: "feed_step pf s [] (feed_select t s)"
| props: "feed_update es ms s = (s', out) \<Longrightarrow> feed_step pf s out s'"

definition feed_init :: "feed_state \<Rightarrow> bool" where
  "feed_init s \<longleftrightarrow> (\<exists>es ms. s = feed_mount es ms)"

lemmas list_handler_defs = list_handle_def list_receive_def list_effect_run_def handleScroll_def
  jumpToBottom_def toggleFilter_def Let_def

subsection \<open>What the lists offer\<close>

lemma trace_row_events [simp]: "handlers (trace_row pf e) = []" "open_dialogs (trace_row pf e) = []"
  by (auto simp: trace_row_def event_icon_def split: option.splits)

lemma list_view_dialogs: "open_dialogs (list_view pf m s) = []"
  by (auto simp: list_view_def FILTER_CHIPS_def)

lemma list_offers_toggle: "offers (list_view pf m s) (LA_toggle t) \<Longrightarrow> t \<in> set (map fst FILTER_CHIPS)"
  by (auto simp: offers_without_dialog list_view_dialogs list_view_def FILTER_CHIPS_def split: if_splits)

subsection \<open>The invariant of the visible list\<close>

definition list_inv :: "list_state \<Rightarrow> bool" where
  "list_inv s \<longleftrightarrow> el_prevLength s = length (el_events s) \<and> distinct (el_filters s) \<and>
     set (el_filters s) \<subseteq> set (map fst FILTER_CHIPS)"

definition feed_inv :: "feed_state \<Rightarrow> bool" where
  "feed_inv s \<longleftrightarrow> list_inv (ef_list s) \<and> el_events (ef_list s) = tab_events (ef_tab s) s"

lemma list_mount_inv: "list_inv (list_mount es)"
  by (simp add: list_inv_def list_mount_def FILTER_CHIPS_def)

lemma list_mount_events [simp]: "el_events (list_mount es) = es"
  by (simp add: list_mount_def)

lemma list_effect_cases:
  "list_effect_run s = (s', out) \<Longrightarrow> el_events s' = el_events s \<and> el_filters s' = el_filters s \<and>
     el_prevLength s' = length (el_events s) \<and> el_autoScroll s' = el_autoScroll s"
  by (auto simp: list_effect_run_def Let_def split: if_splits)

lemma list_handle_inv:
  assumes "list_inv s" and "offers (list_view pf m s) a" and "list_handle a s = (s', out)"
  shows "list_inv s' \<and> el_events s' = el_events s"
proof (cases a)
  case (LA_toggle t)
  with assms list_offers_toggle [of pf m s t] show ?thesis
    by (auto simp: list_handle_def list_inv_def toggleFilter_def FILTER_CHIPS_def split: if_splits)
qed (use assms(1,3) in \<open>auto simp: list_handle_def list_inv_def handleScroll_def jumpToBottom_def Let_def
    split: prod.splits if_splits dest!: list_effect_cases\<close>)

lemma list_receive_inv:
  "list_receive es s = (s', out) \<Longrightarrow> list_inv s \<Longrightarrow> list_inv s' \<and> el_events s' = es"
  by (auto simp: list_receive_def list_inv_def dest!: list_effect_cases)

lemma feed_update_inv: "feed_update es ms s = (s', out) \<Longrightarrow> feed_inv s \<Longrightarrow> feed_inv s'"
  using list_receive_inv by (cases "ef_tab s")
    (fastforce simp: feed_inv_def feed_update_def tab_events_def split: prod.splits)+

lemma feed_select_inv: "feed_inv s \<Longrightarrow> feed_inv (feed_select t s)"
  by (cases t) (auto simp: feed_inv_def feed_select_def tab_events_def list_mount_inv)

lemma feed_list_inv:
  "feed_inv s \<Longrightarrow> list_inv l \<Longrightarrow> el_events l = el_events (ef_list s) \<Longrightarrow> feed_inv (s\<lparr>ef_list := l\<rparr>)"
  by (cases "ef_tab s") (simp_all add: feed_inv_def tab_events_def)

lemma feed_inv_step: "feed_inv s \<Longrightarrow> feed_step pf s out s' \<Longrightarrow> feed_inv s'"
proof (erule feed_step.cases, goal_cases)
  case (1 s a l out)
  with list_handle_inv [OF _ 1(5,6)] show ?case by (auto simp: feed_inv_def [of s] intro: feed_list_inv)
qed (auto intro: feed_select_inv feed_update_inv)

interpretation feed: invariant_system feed_init "feed_step pf" "\<lambda>_. feed_inv"
proof unfold_locales
  show "feed_inv s" if "feed_init s" for s
    using that by (auto simp: feed_init_def feed_inv_def feed_mount_def list_mount_inv tab_events_def)
qed (rule feed_inv_step)

lemma feed_run_mount: "reach feed_init (feed_step pf) [] (feed_mount es ms)"
  by (rule reach_init) (auto simp: feed_init_def)

subsection \<open>Tags and reasons\<close>

definition well_formed_event :: "mirra_event \<Rightarrow> bool" where
  "well_formed_event e \<longleftrightarrow> (event_type e = Process_spawn \<longrightarrow> process_ref e \<noteq> None)"

text \<open>The feed and the scorer have their constants apart, with the same values.\<close>

lemma same_constants: "SCORER_SENSITIVE_PREFIXES = SENSITIVE_PREFIXES" "SCORER_STANDARD_PORTS = STANDARD_PORTS"
  by (simp_all add: SCORER_SENSITIVE_PREFIXES_def SENSITIVE_PREFIXES_def SCORER_STANDARD_PORTS_def STANDARD_PORTS_def)

lemma ruleTag_iff:
  "ruleTag e = (if event_type e = Process_spawn then Some (js ''child process'')
     else if sensitive_write e then Some (js ''sensitive path'')
     else if odd_connection e then Some (js ''non-standard port'') else None)"
  by (auto simp: ruleTag_def sensitive_write_def odd_connection_def same_constants split: option.splits)

lemma tagged_iff: "well_formed_event e \<Longrightarrow>
    ruleTag e \<noteq> None \<longleftrightarrow> spawned_child e \<or> sensitive_write e \<or> odd_connection e"
  by (auto simp: ruleTag_iff well_formed_event_def spawned_child_def)

subsection \<open>Properties\<close>

definition demo_event :: mirra_event where
  "demo_event = \<lparr>event_id = js ''e1'', device_id = js ''d'', event_type = File_write,
     process_ref = None, network_ref = None,
     file_ref = Some \<lparr>fr_path = js ''/etc/passwd'', fr_action = js ''write''\<rparr>,
     event_timestamp = js ''0'', baseline_deviation_score = 0\<rparr>"

text \<open>C39: The rule tags mirror the rule scorer: for events whose process events name their process, and
  with at most five file changes, a trace carries a tag exactly when the scorer gives some reason for
  it; and an event on its own is tagged exactly when the scorer has a reason for that event alone.  A
  process event without its process is tagged although the scorer ignores it.\<close>

theorem tags_mirror_scorer:
  "(\<forall>es. (\<forall>e \<in> set es. well_formed_event e) \<and>
        length (filter file_change es) \<le> RAPID_FILE_CHANGE_THRESHOLD \<longrightarrow>
      ((\<exists>e \<in> set es. ruleTag e \<noteq> None) \<longleftrightarrow> snd (score_events es) \<noteq> [])) \<and>
   (\<forall>e. well_formed_event e \<longrightarrow> (ruleTag e \<noteq> None \<longleftrightarrow> snd (score_events [e]) \<noteq> [])) \<and>
   (\<forall>e. event_type e = Process_spawn \<and> process_ref e = None \<longrightarrow>
      ruleTag e \<noteq> None \<and> snd (score_events [e]) = [])"
proof -
  have run: "(\<exists>e \<in> set es. ruleTag e \<noteq> None) \<longleftrightarrow> snd (score_events es) \<noteq> []"
    if "\<forall>e \<in> set es. well_formed_event e"
      and "length (filter file_change es) \<le> RAPID_FILE_CHANGE_THRESHOLD" for es
    using that tagged_iff by (auto simp: score_chain_Nil)
  have "length (filter file_change [e]) \<le> RAPID_FILE_CHANGE_THRESHOLD" for e
    by (simp add: RAPID_FILE_CHANGE_THRESHOLD_def)
  then have "ruleTag e \<noteq> None \<longleftrightarrow> snd (score_events [e]) \<noteq> []" if "well_formed_event e" for e
    using run [of "[e]"] that by simp
  moreover have "ruleTag e \<noteq> None \<and> snd (score_events [e]) = []"
    if "event_type e = Process_spawn \<and> process_ref e = None" for e
    using that by (simp add: ruleTag_iff score_chain_Nil spawned_child_def sensitive_write_def odd_connection_def
        file_change_def)
  ultimately show ?thesis using run by blast
qed

theorem tags_mirror_scorer_witness:
  "ruleTag demo_event \<noteq> None \<longleftrightarrow> snd (score_events [demo_event]) \<noteq> []"
  using conjunct1 [OF conjunct2 [OF tags_mirror_scorer], rule_format, of demo_event]
  by (simp add: well_formed_event_def demo_event_def)

text \<open>In every reachable state the trace on screen is, in order, exactly the events of the active
  tab's feed whose type has an active chip; the chips are without duplicates and never let an event
  of type "file_delete" through, so no such event is ever shown.\<close>

theorem feed_shows_filtered:
  assumes "reach feed_init (feed_step pf) os s"
  shows "list_filtered (ef_list s) =
      filter (\<lambda>e. event_type e \<in> set (el_filters (ef_list s))) (tab_events (ef_tab s) s) \<and>
    distinct (el_filters (ef_list s)) \<and>
    (\<forall>e \<in> set (list_filtered (ef_list s)). event_type e \<noteq> File_delete)"
  using feed.reach_inv [OF assms]
  by (auto simp: feed_inv_def list_inv_def list_filtered_def FILTER_CHIPS_def)

theorem feed_shows_filtered_witness:
  "list_filtered (ef_list (feed_mount [demo_event] [])) =
     filter (\<lambda>e. event_type e \<in> set (el_filters (ef_list (feed_mount [demo_event] [])))) [demo_event]"
  using feed_shows_filtered [OF feed_run_mount, of "[demo_event]" "[]"]
  by (simp add: feed_mount_def tab_events_def)

text \<open>Automatic scrolling stops at the cap: once the shown feed holds its 500 events, a further event
  replaces the oldest one, is shown last, but neither scrolls the list nor counts as new, whatever
  the state of the list.\<close>

theorem feed_cap_stalls:
  assumes "reach feed_init (feed_step pf) os s" and "ef_tab s = Tab_shadow"
    and "length (ef_sample s) = 500"
  shows "\<exists>s'. feed_step pf s [] s' \<and> ef_sample s' = tl (ef_sample s) @ [e] \<and>
    el_events (ef_list s') = ef_sample s' \<and> el_newCount (ef_list s') = el_newCount (ef_list s)"
proof -
  let ?es = "applyLiveEvent (ef_sample s) (Live_event Sample e)"
  have es: "?es = tl (ef_sample s) @ [e]" using assms(3)
    by (cases "ef_sample s") (simp_all add: applyLiveEvent_def slice_neg_def MAX_EVENTS_def)
  have len: "length ?es = 500" using assms(3) by (simp add: es)
  have inv: "feed_inv s" using feed.reach_inv [OF assms(1)] .
  then have prev: "el_prevLength (ef_list s) = 500"
    using assms(2,3) by (simp add: feed_inv_def list_inv_def tab_events_def)
  let ?l = "(ef_list s)\<lparr>el_events := ?es, el_prevLength := 500\<rparr>"
  let ?s' = "s\<lparr>ef_sample := ?es, ef_monitor := ef_monitor s, ef_list := ?l\<rparr>"
  have "feed_update ?es (ef_monitor s) s = (?s', [])"
    using assms(2) len prev
    by (simp add: feed_update_def tab_events_def list_receive_def list_effect_run_def Let_def)
  then have "feed_step pf s [] ?s'" by (rule props)
  then show ?thesis by (intro exI [of _ ?s']) (simp add: es)
qed

theorem feed_cap_stalls_witness:
  "\<exists>s'. feed_step demo_platform (feed_mount (replicate 500 demo_event) []) [] s' \<and>
     ef_sample s' = tl (replicate 500 demo_event) @ [demo_event]"
  using feed_cap_stalls [OF feed_run_mount, of "replicate 500 demo_event" "[]" demo_platform demo_event]
  by (auto simp: feed_mount_def)

text \<open>A readable timestamp is shown as hours, minutes, seconds and milliseconds of fixed width, from
  which the four numbers can be read back.\<close>

theorem formatTime_reads_back:
  assumes "pf_parse_date pf stamp = Some t" and "pf_local pf t = d"
    and "lt_hours d < 24" and "lt_minutes d < 60" and "lt_seconds d < 60" and "lt_millis d < 1000"
  shows "let s = formatTime pf stamp in length s = 12 \<and>
    digits_value (take 2 s) = lt_hours d \<and> digits_value (take 2 (drop 3 s)) = lt_minutes d \<and>
    digits_value (take 2 (drop 6 s)) = lt_seconds d \<and> digits_value (drop 9 s) = lt_millis d"
proof -
  have len: "length (dec n) \<le> k" if "n < 10 ^ k" "0 < k" for n k
    using that
  proof (induction k arbitrary: n)
    case (Suc k)
    show ?case
    proof (cases "n < 10")
      case True
      then show ?thesis by (simp add: dec_def to_base.simps [of 10 n])
    next
      case False
      with Suc.prems have "n div 10 < 10 ^ k" "0 < k" by (auto simp: not_less intro!: Nat.gr0I)
      from Suc.IH [OF this] False show ?thesis by (simp add: dec_def to_base.simps [of 10 n])
    qed
  qed simp
  have "length (pad_start 2 48 (dec (lt_hours d))) = 2" "length (pad_start 2 48 (dec (lt_minutes d))) = 2"
    "length (pad_start 2 48 (dec (lt_seconds d))) = 2" "length (pad_start 3 48 (dec (lt_millis d))) = 3"
    using assms(3-6) len [of "lt_hours d" 2] len [of "lt_minutes d" 2] len [of "lt_seconds d" 2]
      len [of "lt_millis d" 3] by (auto simp: length_pad_start)
  then show ?thesis using assms(1,2) by (simp add: formatTime_def Let_def)
qed

theorem formatTime_reads_back_witness:
  "digits_value (drop 9 (formatTime demo_platform (js ''3723004''))) = 4"
proof -
  have v: "digits_value (js ''3723004'') = 3723004" by (simp add: digits_value_def js_def digit_val_def)
  have p: "pf_parse_date demo_platform (js ''3723004'') = Some 3723004"
    using v by (simp add: demo_platform_def is_digit_def js_def)
  have l: "pf_local demo_platform 3723004 =
      \<lparr>lt_hours = 1, lt_minutes = 2, lt_seconds = 3, lt_millis = 4\<rparr>"
    by (simp add: demo_platform_def Let_def)
  show ?thesis using formatTime_reads_back [OF p l] by (simp add: Let_def)
qed

end
