(* ===== verification/AuditLog.thy ===== *)
theory AuditLog
  imports Platform Panels
begin

text \<open>
  \<open>AuditLogTable.tsx\<close>: the audit log with its search, its order, its pages, its downloads and the
  indicator of the hash chain.  \<open>audit_state\<close> holds the component's \<open>useState\<close> variables, the number
  of the effect that is live (each change of \<open>refreshKey\<close> ends one effect and starts the next; \<open>None\<close>
  after unmounting) and the promises in flight, each with the effect that issued it: its \<open>cancelled\<close>
  flag is set exactly when that effect is no longer the live one.
\<close>

subsection \<open>Times\<close>

definition RELATIVE_UNITS :: "(jsstr \<times> nat) list" where
  "RELATIVE_UNITS = [(js ''year'', 31536000), (js ''month'', 2592000), (js ''day'', 86400),
     (js ''hour'', 3600), (js ''minute'', 60)]"

definition relativeTime :: "platform \<Rightarrow> rat \<Rightarrow> jsstr \<Rightarrow> jsstr" where
  "relativeTime pf now stamp = (case pf_parse_date pf stamp of
     None \<Rightarrow> stamp
   | Some t \<Rightarrow>
       let seconds = (t - now) / 1000
       in (case find (\<lambda>(u, n). of_nat n \<le> \<bar>seconds\<bar>) RELATIVE_UNITS of
             Some (u, n) \<Rightarrow> pf_rtf pf (math_round (seconds / of_nat n)) u
           | None \<Rightarrow> pf_rtf pf (math_round seconds) (js ''second'')))"

subsection \<open>Searching\<close>

text \<open>\<open>[...].filter(Boolean)\<close> drops the fields that are missing or empty.\<close>

definition truthy_strings :: "jsstr option list \<Rightarrow> jsstr list" where
  "truthy_strings xs = concat (map (\<lambda>x. case x of None \<Rightarrow> [] | Some s \<Rightarrow> if s = [] then [] else [s]) xs)"

definition search_fields :: "audit_row \<Rightarrow> jsstr option list" where
  "search_fields r = [row_action r, map_option label_str (row_verdict r), row_actor r,
     row_sample_hash r, row_hash r, row_source r]"

definition matchesQuery :: "platform \<Rightarrow> audit_row \<Rightarrow> jsstr \<Rightarrow> bool" where
  "matchesQuery pf r query =
     str_includes (pf_lower pf (join [32] (truthy_strings (search_fields r)))) (pf_lower pf query)"

subsection \<open>Downloads\<close>

definition csvCell :: "jsstr option \<Rightarrow> jsstr" where
  "csvCell value =
     (let s = (case value of None \<Rightarrow> [] | Some v \<Rightarrow> v)
      in if \<exists>c \<in> set s. c = 34 \<or> c = 44 \<or> c = 10
         then [34] @ concat (map (\<lambda>c. if c = 34 then [34, 34] else [c]) s) @ [34] else s)"

definition CSV_COLUMNS :: "jsstr list" where
  "CSV_COLUMNS = map js [''timestamp'', ''sample_filename'', ''sample_hash'', ''hash'', ''source'',
     ''verdict'', ''action'', ''actor'', ''confidence'']"

text \<open>\<open>String(r[c])\<close> for the columns, in their order.\<close>

definition csv_values :: "platform \<Rightarrow> audit_row \<Rightarrow> jsstr option list" where
  "csv_values pf r = [row_timestamp r, row_sample_filename r, row_sample_hash r, row_hash r,
     row_source r, map_option label_str (row_verdict r), row_action r, row_actor r,
     map_option (pf_num pf) (row_confidence r)]"

definition csv_text :: "platform \<Rightarrow> audit_row list \<Rightarrow> jsstr" where
  "csv_text pf rows =
     join [10] (join [44] CSV_COLUMNS # map (\<lambda>r. join [44] (map csvCell (csv_values pf r))) rows)"

definition download_stamp :: "platform \<Rightarrow> rat \<Rightarrow> jsstr" where
  "download_stamp pf now = map (\<lambda>c. if c = 58 \<or> c = 46 then 45 else c) (pf_iso pf now)"

text \<open>\<open>JSON.stringify(rows, null, 2)\<close>: the objects of the response, indented.\<close>

definition json_rows :: "platform \<Rightarrow> audit_row list \<Rightarrow> jsstr" where
  "json_rows pf rows = json_text (pf_num pf) 0 (J_arr (map row_raw rows))"

text \<open>\<open>Download content mime filename\<close> is a call of \<open>triggerDownload\<close>.\<close>

datatype audit_effect =
    Audit_call api_call
  | Audit_push jsstr toast_tone
  | Audit_session_expired
  | Verdicts_change "audit_row list"
  | Chain_change "chain_status option"
  | Download jsstr jsstr jsstr

definition downloadAuditLogJson :: "platform \<Rightarrow> rat \<Rightarrow> audit_row list \<Rightarrow> audit_effect" where
  "downloadAuditLogJson pf now rows = Download (json_rows pf rows) (js ''application/json'')
     (js ''mirraura-audit-log-'' @ download_stamp pf now @ js ''.json'')"

definition downloadAuditLogCsv :: "platform \<Rightarrow> rat \<Rightarrow> audit_row list \<Rightarrow> audit_effect" where
  "downloadAuditLogCsv pf now rows = Download (csv_text pf rows) (js ''text/csv'')
     (js ''mirraura-audit-log-'' @ download_stamp pf now @ js ''.csv'')"

text \<open>
  \<open>triggerDownload\<close> goes through the browser's object URLs: \<open>createObjectURL\<close> gives a blob a fresh
  URL, a click on an anchor with a \<open>download\<close> attribute saves what its URL names at that moment under
  that file name (nothing, if the URL names nothing), and \<open>revokeObjectURL\<close> drops the URL with the
  blob it keeps alive.
\<close>

type_synonym blob = "jsstr \<times> jsstr"

record browser =
  br_urls :: "(nat \<times> blob) list"
  br_next :: nat
  br_saved :: "(jsstr \<times> blob) list"

record anchor =
  a_href :: nat
  a_download :: jsstr

definition createObjectURL :: "blob \<Rightarrow> browser \<Rightarrow> nat \<times> browser" where
  "createObjectURL blob b =
     (br_next b, b\<lparr>br_urls := (br_next b, blob) # br_urls b, br_next := Suc (br_next b)\<rparr>)"

definition click :: "anchor \<Rightarrow> browser \<Rightarrow> browser" where
  "click a b = (case map_of (br_urls b) (a_href a) of
     None \<Rightarrow> b | Some blob \<Rightarrow> b\<lparr>br_saved := br_saved b @ [(a_download a, blob)]\<rparr>)"

definition revokeObjectURL :: "nat \<Rightarrow> browser \<Rightarrow> browser" where
  "revokeObjectURL url b = b\<lparr>br_urls := filter (\<lambda>(u, _). u \<noteq> url) (br_urls b)\<rparr>"

definition triggerDownload :: "jsstr \<Rightarrow> jsstr \<Rightarrow> jsstr \<Rightarrow> browser \<Rightarrow> browser" where
  "triggerDownload content mime filename b =
     (let (url, b1) = createObjectURL (content, mime) b;
          a = \<lparr>a_href = url, a_download = filename\<rparr>
      in revokeObjectURL url (click a b1))"

text \<open>The downloads among the effects of a run, in a page that has made none.\<close>

definition page_start :: browser where
  "page_start = \<lparr>br_urls = [], br_next = 0, br_saved = []\<rparr>"

fun browse :: "audit_effect list \<Rightarrow> browser \<Rightarrow> browser" where
  "browse [] b = b"
| "browse (Download c m f # os) b = browse os (triggerDownload c m f b)"
| "browse (_ # os) b = browse os b"

subsection \<open>The state and the loads\<close>

datatype sort_order = Newest | Oldest

datatype audit_cont = AC_verdicts | AC_chain

record audit_state =
  as_rows :: "audit_row list"
  as_chainStatus :: "chain_status option"
  as_chainCheckedAt :: "rat option"
  as_error :: "jsstr option"
  as_query :: jsstr
  as_page :: int
  as_loading :: bool
  as_sortOrder :: sort_order
  as_live :: "nat option"
  as_next :: nat
  as_inflight :: "(nat \<times> audit_cont) list"

type_synonym audit_out = "audit_state \<times> audit_effect list"

definition audit_start :: audit_state where
  "audit_start = \<lparr>as_rows = [], as_chainStatus = None, as_chainCheckedAt = None, as_error = None,
     as_query = [], as_page = 0, as_loading = True, as_sortOrder = Newest, as_live = None,
     as_next = 0, as_inflight = []\<rparr>"

definition audit_load :: "nat \<Rightarrow> audit_state \<Rightarrow> audit_out" where
  "audit_load k s =
     (s\<lparr>as_inflight := as_inflight s @ [(k, AC_verdicts), (k, AC_chain)]\<rparr>,
      [Audit_call Fetch_verdicts, Audit_call Fetch_chain_status])"

text \<open>The effect: the clean-up of the one before sets its \<open>cancelled\<close>, the new one loads at once.\<close>

definition audit_effect_run :: "audit_state \<Rightarrow> audit_out" where
  "audit_effect_run s = audit_load (as_next s) (s\<lparr>as_live := Some (as_next s), as_next := Suc (as_next s)\<rparr>)"

definition audit_unmount :: "audit_state \<Rightarrow> audit_out" where
  "audit_unmount s = (s\<lparr>as_live := None\<rparr>, [])"

definition audit_cancelled :: "nat \<Rightarrow> audit_state \<Rightarrow> bool" where
  "audit_cancelled k s \<longleftrightarrow> as_live s \<noteq> Some k"

definition audit_verdicts_settled :: "nat \<Rightarrow> js_exn + audit_row list \<Rightarrow> audit_state \<Rightarrow> audit_out" where
  "audit_verdicts_settled k ans s = (if audit_cancelled k s then (s, []) else case ans of
     Inr v \<Rightarrow> (s\<lparr>as_rows := v, as_error := None, as_loading := False\<rparr>, [Verdicts_change v])
   | Inl e \<Rightarrow>
       if is_status 401 e then (s\<lparr>as_loading := False\<rparr>, [Audit_session_expired])
       else if is_status 403 e then (s\<lparr>as_loading := False\<rparr>, [Audit_push (js ''Admins only'') Tone_error])
       else (s\<lparr>as_error := Some (exn_message e (js ''failed to load audit log'')),
               as_loading := False\<rparr>, []))"

definition audit_chain_settled :: "nat \<Rightarrow> rat \<Rightarrow> js_exn + chain_status \<Rightarrow> audit_state \<Rightarrow> audit_out" where
  "audit_chain_settled k now ans s = (if audit_cancelled k s then (s, []) else case ans of
     Inr c \<Rightarrow> (s\<lparr>as_chainStatus := Some c, as_chainCheckedAt := Some now\<rparr>, [Chain_change (Some c)])
   | Inl e \<Rightarrow> (s\<lparr>as_chainStatus := None, as_chainCheckedAt := None\<rparr>, [Chain_change None]))"

subsection \<open>Rows, order and pages\<close>

definition PAGE_SIZE :: nat where "PAGE_SIZE = 25"

definition audit_filtered :: "platform \<Rightarrow> audit_state \<Rightarrow> audit_row list" where
  "audit_filtered pf s =
     (let q = trim (as_query s);
          base = (if q \<noteq> [] then filter (\<lambda>r. matchesQuery pf r q) (as_rows s) else as_rows s)
      in (case as_sortOrder s of Newest \<Rightarrow> rev base | Oldest \<Rightarrow> base))"

text \<open>\<open>Math.max(1, Math.ceil(n / PAGE_SIZE))\<close>.\<close>

definition page_count :: "nat \<Rightarrow> nat" where
  "page_count n = max 1 ((n + PAGE_SIZE - 1) div PAGE_SIZE)"

definition current_page :: "int \<Rightarrow> nat \<Rightarrow> int" where
  "current_page p n = min p (int (page_count n) - 1)"

text \<open>\<open>xs.slice(i * PAGE_SIZE, i * PAGE_SIZE + PAGE_SIZE)\<close> for a page number \<open>i\<close> that is not negative.\<close>

definition page_of :: "'a list \<Rightarrow> nat \<Rightarrow> 'a list" where
  "page_of xs i = slice_range (i * PAGE_SIZE) (i * PAGE_SIZE + PAGE_SIZE) xs"

definition audit_current :: "platform \<Rightarrow> audit_state \<Rightarrow> int" where
  "audit_current pf s = current_page (as_page s) (length (audit_filtered pf s))"

definition audit_page_rows :: "platform \<Rightarrow> audit_state \<Rightarrow> audit_row list" where
  "audit_page_rows pf s = page_of (audit_filtered pf s) (nat (audit_current pf s))"

subsection \<open>The user's actions\<close>

datatype audit_act = AA_query jsstr | AA_sort | AA_json | AA_csv | AA_prev | AA_next

definition handleQueryChange :: "jsstr \<Rightarrow> audit_state \<Rightarrow> audit_state" where
  "handleQueryChange v s = s\<lparr>as_query := v, as_page := 0\<rparr>"

definition toggleSortOrder :: "audit_state \<Rightarrow> audit_state" where
  "toggleSortOrder s = s\<lparr>as_sortOrder := (case as_sortOrder s of Newest \<Rightarrow> Oldest | Oldest \<Rightarrow> Newest),
     as_page := 0\<rparr>"

definition audit_handle :: "platform \<Rightarrow> rat \<Rightarrow> audit_act \<Rightarrow> audit_state \<Rightarrow> audit_out" where
  "audit_handle pf now a s = (case a of
     AA_query v \<Rightarrow> (handleQueryChange v s, [])
   | AA_sort \<Rightarrow> (toggleSortOrder s, [])
   | AA_json \<Rightarrow> (s, [downloadAuditLogJson pf now (as_rows s)])
   | AA_csv \<Rightarrow> (s, [downloadAuditLogCsv pf now (as_rows s)])
   | AA_prev \<Rightarrow> (s\<lparr>as_page := as_page s - 1\<rparr>, [])
   | AA_next \<Rightarrow> (s\<lparr>as_page := as_page s + 1\<rparr>, []))"

subsection \<open>The rendered tree\<close>

definition SOURCE_LABEL :: "(jsstr \<times> jsstr) list" where
  "SOURCE_LABEL = [(js ''sample'', js ''Manual upload''),
     (js ''interceptor'', js ''Auto-intercepted download''), (js ''monitor'', js ''Continuous monitoring'')]"

definition VERDICT_TONE :: "verdict_label \<Rightarrow> badge_tone" where
  "VERDICT_TONE v = (case v of Normal \<Rightarrow> Tone_normal | Suspicious \<Rightarrow> Tone_suspicious
     | Compromised \<Rightarrow> Tone_compromised | Inconclusive \<Rightarrow> Tone_inconclusive)"

definition VERDICT_ICON :: "verdict_label \<Rightarrow> string" where
  "VERDICT_ICON v = (case v of Normal \<Rightarrow> ''CheckCircle2'' | Suspicious \<Rightarrow> ''AlertTriangle''
     | Compromised \<Rightarrow> ''ShieldAlert'' | Inconclusive \<Rightarrow> ''HelpCircle'')"

text \<open>A missing value in a template literal.\<close>

definition template :: "jsstr option \<Rightarrow> jsstr" where
  "template x = (case x of None \<Rightarrow> js ''undefined'' | Some s \<Rightarrow> s)"

definition audit_key :: "audit_row \<Rightarrow> jsstr" where
  "audit_key r = (case row_verdict_id r of Some v \<Rightarrow> v | None \<Rightarrow> (case row_record_id r of Some v \<Rightarrow> v
     | None \<Rightarrow> template (row_action r) @ [45] @ template (row_device_id r) @ [45] @ template (row_timestamp r)))"

definition falsy :: "jsstr option \<Rightarrow> bool" where
  "falsy x \<longleftrightarrow> x = None \<or> x = Some []"

definition or_dash :: "jsstr option \<Rightarrow> audit_act node" where
  "or_dash x = (if falsy x then Dash else Text (the x))"

definition child :: "jsstr option \<Rightarrow> 'a node list" where
  "child x = (case x of None \<Rightarrow> [] | Some s \<Rightarrow> [Text s])"

definition source_cell :: "audit_row \<Rightarrow> audit_act node list option" where
  "source_cell r = (if falsy (row_action r)
     then (case row_source r of None \<Rightarrow> Some [] | Some src \<Rightarrow> label_or_key SOURCE_LABEL src)
     else Some [Dash])"

text \<open>\<open>r.confidence.toFixed(2)\<close> throws when the field is missing.\<close>

definition confidence_cell :: "audit_row \<Rightarrow> audit_act node list option" where
  "confidence_cell r = (if falsy (row_action r)
     then map_option (\<lambda>c. [Text (toFixed 2 c)]) (row_confidence r) else Some [Dash])"

definition outcome_badge :: "audit_row \<Rightarrow> audit_act node" where
  "outcome_badge r = (case (falsy (row_action r), row_verdict r) of
     (True, Some v) \<Rightarrow> badge (VERDICT_TONE v) (icon (VERDICT_ICON v) 14) [Text (label_str v)]
   | _ \<Rightarrow> badge Tone_neutral (icon ''HelpCircle'' 14)
       [case row_action r of None \<Rightarrow> Dash | Some a \<Rightarrow> Text a])"

definition audit_row_view :: "platform \<Rightarrow> rat \<Rightarrow> audit_row \<Rightarrow> audit_act node option" where
  "audit_row_view pf now r = (case (source_cell r, confidence_cell r) of
     (Some source_nodes, Some confidence_nodes) \<Rightarrow>
       (let isVerdict = falsy (row_action r);
            h = (if isVerdict then row_sample_hash r else row_hash r)
        in Some (El ''tr'' [Val ''key'' (audit_key r)]
             [El ''td'' (Attr ''className'' ''mono'' #
                  (case row_timestamp r of None \<Rightarrow> [] | Some t \<Rightarrow> [Val ''title'' t]))
                (child (map_option (relativeTime pf now) (row_timestamp r))),
              El ''td'' [Attr ''className'' ''mono'']
                [if isVerdict then or_dash (row_sample_filename r) else Dash],
              El ''td'' [] [if falsy h then Dash else copy_hash_ref (the h) []],
              El ''td'' [] source_nodes,
              El ''td'' [] [outcome_badge r],
              El ''td'' [Attr ''className'' ''mono''] [or_dash (row_actor r)],
              El ''td'' [Attr ''className'' ''mono''] confidence_nodes]))
   | _ \<Rightarrow> None)"

definition chain_indicator :: "platform \<Rightarrow> rat \<Rightarrow> chain_status option \<Rightarrow> rat option \<Rightarrow> audit_act node list" where
  "chain_indicator pf now status checkedAt = (case status of None \<Rightarrow> [] | Some c \<Rightarrow>
     (let seen = map_option (\<lambda>t. relativeTime pf now (pf_iso pf t)) checkedAt;
          note = (\<lambda>verb. if falsy seen then []
            else [El ''span'' [Attr ''className'' ''chain-indicator__checked'']
                   [Text ([32, 0xB7, 32] @ js verb @ the seen)]])
      in (if intact c
          then [El ''p'' [Attr ''className'' ''chain-indicator'', Attr ''data-intact'' ''true'']
                 ([icon ''ShieldCheck'' 16,
                   Text (js ''Chain intact '' @ [0xB7, 32] @ dec (chain_entries c) @ js '' entries'')]
                  @ note ''verified '')]
          else [El ''p'' [Attr ''className'' ''chain-indicator'', Attr ''data-intact'' ''false'']
                 ([icon ''ShieldX'' 16,
                   Text (js ''Chain broken at entry '' @
                     (case broken_at c of None \<Rightarrow> [] | Some b \<Rightarrow> dec b))]
                  @ note ''checked '')])))"

definition audit_controls :: "platform \<Rightarrow> role \<Rightarrow> audit_state \<Rightarrow> audit_act node" where
  "audit_controls pf r s = El ''div'' [Attr ''className'' ''audit-controls'']
     ([El ''input'' [Attr ''type'' ''search'', Attr ''className'' ''audit-search'',
         Val ''value'' (as_query s), On_change AA_query, Attr ''aria-label'' ''Search audit log''] [],
       El ''button'' [Attr ''type'' ''button'', Attr ''className'' ''audit-sort'', On_click AA_sort]
         [case as_sortOrder s of Newest \<Rightarrow> icon ''ArrowDownNarrowWide'' 14 | Oldest \<Rightarrow> icon ''ArrowUpNarrowWide'' 14,
          case as_sortOrder s of Newest \<Rightarrow> Lit ''Newest first'' | Oldest \<Rightarrow> Lit ''Oldest first''],
       El ''span'' [Attr ''className'' ''audit-count mono'']
         [Text (dec (length (audit_filtered pf s)) @ js '' entries'')]]
      @ show_if (r = Admin \<and> as_rows s \<noteq> [])
         [El ''span'' [Attr ''className'' ''audit-download-group'']
           [El ''button'' [Attr ''type'' ''button'', Attr ''className'' ''audit-download'', On_click AA_json]
              [icon ''Download'' 14, Lit ''JSON''],
            El ''button'' [Attr ''type'' ''button'', Attr ''className'' ''audit-download'', On_click AA_csv]
              [icon ''Download'' 14, Lit ''CSV'']]])"

definition audit_pagination :: "platform \<Rightarrow> audit_state \<Rightarrow> audit_act node list" where
  "audit_pagination pf s =
     (let n = page_count (length (audit_filtered pf s)); c = audit_current pf s
      in show_if (1 < n)
        [El ''div'' [Attr ''className'' ''audit-pagination'']
          [El ''button'' [Attr ''type'' ''button'', Flag ''disabled'' (c = 0), On_click AA_prev] [Lit ''Previous''],
           El ''span'' [Attr ''className'' ''mono''] [Text (js ''Page '' @ dec_int (c + 1) @ js '' of '' @ dec n)],
           El ''button'' [Attr ''type'' ''button'', Flag ''disabled'' (int n - 1 \<le> c), On_click AA_next]
             [Lit ''Next'']]])"

definition audit_table :: "platform \<Rightarrow> rat \<Rightarrow> audit_state \<Rightarrow> audit_act node option" where
  "audit_table pf now s =
     (if as_loading s then Some (skeleton 5)
      else if audit_page_rows pf s = []
        then Some (El ''p'' [Attr ''className'' ''empty-copy''] [Lit ''No audit entries yet.''])
      else map_option (\<lambda>trs. El ''div'' [Attr ''className'' ''table-scroll'']
        [El ''table'' [Attr ''className'' ''audit-table'']
          [El ''thead'' [] [El ''tr'' [] (map (\<lambda>t. El ''th'' [] [Lit t])
             [''When'', ''File'', ''Hash'', ''Source'', ''Verdict / Action'', ''Actor'', ''Confidence''])],
           El ''tbody'' [] trs]])
        (those (map (audit_row_view pf now) (audit_page_rows pf s))))"

text \<open>\<open>None\<close>: rendering threw.\<close>

definition audit_view :: "platform \<Rightarrow> rat \<Rightarrow> role \<Rightarrow> audit_state \<Rightarrow> audit_act node option" where
  "audit_view pf now r s = map_option (\<lambda>t. card ''Audit log'' []
     (chain_indicator pf now (as_chainStatus s) (as_chainCheckedAt s)
      @ error_text (as_error s) @ [audit_controls pf r s, t] @ audit_pagination pf s))
     (audit_table pf now s)"

subsection \<open>The steps of the component\<close>

text \<open>\<open>now\<close> is the time at which a step happens; the interval of the live effect loads again.\<close>

inductive audit_settle :: "audit_state \<Rightarrow> audit_effect list \<Rightarrow> audit_state \<Rightarrow> bool" where
  verdicts: "as_inflight s = xs @ (k, AC_verdicts) # ys \<Longrightarrow>
     audit_verdicts_settled k ans (s\<lparr>as_inflight := xs @ ys\<rparr>) = (s', out) \<Longrightarrow> audit_settle s out s'"
| chain: "as_inflight s = xs @ (k, AC_chain) # ys \<Longrightarrow>
     audit_chain_settled k now answer (s\<lparr>as_inflight := xs @ ys\<rparr>) = (s', out) \<Longrightarrow> audit_settle s out s'"

inductive audit_step :: "platform \<Rightarrow> role \<Rightarrow> audit_state \<Rightarrow> audit_effect list \<Rightarrow> audit_state \<Rightarrow> bool"
  for pf :: platform and r :: role where
  user: "as_live s \<noteq> None \<Longrightarrow> audit_view pf now r s = Some v \<Longrightarrow> offers v a \<Longrightarrow>
     audit_handle pf now a s = (s', out) \<Longrightarrow> audit_step pf r s out s'"
| refresh: "as_live s \<noteq> None \<Longrightarrow> audit_effect_run s = (s', out) \<Longrightarrow> audit_step pf r s out s'"
| tick: "as_live s = Some k \<Longrightarrow> audit_load k s = (s', out) \<Longrightarrow> audit_step pf r s out s'"
| settle: "audit_settle s out s' \<Longrightarrow> audit_step pf r s out s'"
| unmount: "audit_unmount s = (s', out) \<Longrightarrow> audit_step pf r s out s'"

definition audit_init :: "audit_state \<Rightarrow> bool" where
  "audit_init s \<longleftrightarrow> s = fst (audit_effect_run audit_start)"

lemmas audit_handler_defs = audit_load_def audit_effect_run_def audit_unmount_def
  audit_verdicts_settled_def audit_chain_settled_def audit_handle_def handleQueryChange_def
  toggleSortOrder_def downloadAuditLogJson_def downloadAuditLogCsv_def

subsection \<open>What the view offers\<close>

lemma source_cell_events: "source_cell r = Some ns \<Longrightarrow>
    concat (map handlers ns) = [] \<and> concat (map open_dialogs ns) = []"
  by (auto simp: source_cell_def label_or_key_def split: if_splits option.splits looked_up.splits)

lemma confidence_cell_events: "confidence_cell r = Some ns \<Longrightarrow>
    concat (map handlers ns) = [] \<and> concat (map open_dialogs ns) = []"
  by (auto simp: confidence_cell_def split: if_splits)

lemma verdict_icon_events [simp]:
  "handlers (icon (VERDICT_ICON v) n) = []" "open_dialogs (icon (VERDICT_ICON v) n) = []"
  by (cases v; simp add: VERDICT_ICON_def)+

lemma outcome_badge_events [simp]: "handlers (outcome_badge r) = []" "open_dialogs (outcome_badge r) = []"
  by (auto simp: outcome_badge_def split: option.splits bool.splits)

lemma cell_events [simp]:
  "handlers (or_dash x) = []" "open_dialogs (or_dash x) = []"
  "concat (map handlers (child x)) = []" "concat (map open_dialogs (child x)) = []"
  by (simp_all add: or_dash_def) (cases x; simp add: child_def)+

lemma audit_row_events: "audit_row_view pf now r = Some n \<Longrightarrow> handlers n = [] \<and> open_dialogs n = []"
  using source_cell_events [of r] confidence_cell_events [of r]
  by (auto simp: audit_row_view_def Let_def split: option.splits)

lemma audit_table_events: "audit_table pf now s = Some t \<Longrightarrow> handlers t = [] \<and> open_dialogs t = []"
  using audit_row_events
  by (auto simp: audit_table_def those_map_set split: if_splits; blast)

lemma chain_indicator_events [simp]:
  "concat (map handlers (chain_indicator pf now c t)) = []"
  "concat (map open_dialogs (chain_indicator pf now c t)) = []"
  by (cases c; simp add: chain_indicator_def Let_def)+

lemma audit_pagination_dialogs [simp]: "concat (map open_dialogs (audit_pagination pf s)) = []"
  by (simp add: audit_pagination_def Let_def)

lemma audit_controls_dialogs [simp]: "open_dialogs (audit_controls pf r s) = []"
  by (simp add: audit_controls_def split: sort_order.splits)

lemma audit_controls_fires: "(\<exists>h \<in> set (handlers (audit_controls pf r s)). fires h a) \<longleftrightarrow>
    (\<exists>q. a = AA_query q) \<or> a = AA_sort \<or> (a = AA_json \<or> a = AA_csv) \<and> r = Admin \<and> as_rows s \<noteq> []"
  by (auto simp: audit_controls_def split: sort_order.splits)

lemma audit_pagination_fires:
  "(\<exists>h \<in> set (concat (map handlers (audit_pagination pf s))). fires h a) \<longleftrightarrow>
    1 < page_count (length (audit_filtered pf s)) \<and>
      (a = AA_prev \<and> audit_current pf s \<noteq> 0 \<or>
       a = AA_next \<and> audit_current pf s < int (page_count (length (audit_filtered pf s))) - 1)"
  by (cases "1 < page_count (length (audit_filtered pf s))")
     (auto simp: audit_pagination_def Let_def not_le)

lemma audit_offers:
  assumes "audit_view pf now r s = Some v"
  shows "offers v a \<longleftrightarrow> (\<exists>q. a = AA_query q) \<or> a = AA_sort \<or>
    (a = AA_json \<or> a = AA_csv) \<and> r = Admin \<and> as_rows s \<noteq> [] \<or>
    1 < page_count (length (audit_filtered pf s)) \<and>
      (a = AA_prev \<and> audit_current pf s \<noteq> 0 \<or>
       a = AA_next \<and> audit_current pf s < int (page_count (length (audit_filtered pf s))) - 1)"
proof -
  from assms obtain t where t: "audit_table pf now s = Some t"
    and v: "v = card ''Audit log'' [] (chain_indicator pf now (as_chainStatus s) (as_chainCheckedAt s)
      @ error_text (as_error s) @ [audit_controls pf r s, t] @ audit_pagination pf s)"
    by (auto simp: audit_view_def)
  from audit_table_events [OF t] have "open_dialogs v = []"
    by (simp add: v del: concat_eq_Nil_conv)
  moreover have "handlers v = handlers (audit_controls pf r s) @
      concat (map handlers (audit_pagination pf s))"
    using audit_table_events [OF t] by (simp add: v)
  ultimately have "offers v a \<longleftrightarrow> (\<exists>h \<in> set (handlers (audit_controls pf r s)). fires h a) \<or>
      (\<exists>h \<in> set (concat (map handlers (audit_pagination pf s))). fires h a)"
    by (simp only: offers_without_dialog set_append bex_Un)
  then show ?thesis unfolding audit_controls_fires audit_pagination_fires by blast
qed

subsection \<open>Pages\<close>

lemma page_count_bounds: "n \<le> page_count n * PAGE_SIZE" "i < page_count n \<Longrightarrow> 0 < n \<Longrightarrow> i * PAGE_SIZE < n"
  "0 < page_count n"
  by (auto simp: page_count_def PAGE_SIZE_def)

lemma concat_chunks: "concat (map (\<lambda>i. take k (drop (i * k) xs)) [0..<m]) = take (m * k) xs"
proof (induction m)
  case (Suc m)
  have "take (m * k) xs @ take k (drop (m * k) xs) = take (m * k + k) xs"
    by (simp add: take_add)
  with Suc show ?case by (simp add: add.commute)
qed simp

lemma pages_partition: "concat (map (page_of xs) [0..<page_count (length xs)]) = xs"
proof -
  have "page_of xs = (\<lambda>i. take PAGE_SIZE (drop (i * PAGE_SIZE) xs))"
    by (simp add: fun_eq_iff page_of_def slice_range_def)
  then have "concat (map (page_of xs) [0..<page_count (length xs)]) =
      take (page_count (length xs) * PAGE_SIZE) xs"
    by (simp only: concat_chunks)
  then show ?thesis using page_count_bounds(1) [of "length xs"] by simp
qed

lemma page_nonempty: "xs \<noteq> [] \<Longrightarrow> i < page_count (length xs) \<Longrightarrow> page_of xs i \<noteq> []"
  using page_count_bounds(2) [of i "length xs"] by (simp add: page_of_def slice_range_def PAGE_SIZE_def)

lemma current_page_bounds: "0 \<le> p \<Longrightarrow> 0 \<le> current_page p n \<and> current_page p n < int (page_count n)"
  using page_count_bounds(3) [of n] by (auto simp: current_page_def)

subsection \<open>The CSV text\<close>

text \<open>A reader of comma-separated values: fields may be quoted, with doubled quotes inside, and
  lines end with a line feed.\<close>

fun csv_quoted :: "jsstr \<Rightarrow> (jsstr \<times> jsstr) option" where
  "csv_quoted [] = None"
| "csv_quoted [c] = (if c = 34 then Some ([], []) else None)"
| "csv_quoted (c # d # s) =
     (if c = 34 then (if d = 34 then map_option (apfst ((#) 34)) (csv_quoted s) else Some ([], d # s))
      else map_option (apfst ((#) c)) (csv_quoted (d # s)))"

definition csv_plain :: "code_unit \<Rightarrow> bool" where
  "csv_plain c \<longleftrightarrow> c \<noteq> 34 \<and> c \<noteq> 44 \<and> c \<noteq> 10"

definition csv_field :: "jsstr \<Rightarrow> (jsstr \<times> jsstr) option" where
  "csv_field s = (case s of
     c # t \<Rightarrow> if c = 34 then csv_quoted t else Some (takeWhile csv_plain s, dropWhile csv_plain s)
   | [] \<Rightarrow> Some ([], []))"

lemma csv_quoted_shorter: "csv_quoted s = Some (f, t) \<Longrightarrow> length t < length s"
  by (induction s arbitrary: f t rule: csv_quoted.induct) (fastforce split: if_splits)+

lemma csv_field_shorter: "csv_field s = Some (f, t) \<Longrightarrow> length t \<le> length s"
  by (auto simp: csv_field_def split: list.splits if_splits dest: csv_quoted_shorter
      intro: le_SucI length_dropWhile_le)

function csv_read :: "jsstr \<Rightarrow> jsstr list list option" where
  "csv_read s = (case csv_field s of
     None \<Rightarrow> None
   | Some (f, []) \<Rightarrow> Some [[f]]
   | Some (f, c # t) \<Rightarrow>
       if c = 44 then (case csv_read t of Some (r # rs) \<Rightarrow> Some ((f # r) # rs) | _ \<Rightarrow> None)
       else if c = 10 then map_option ((#) [f]) (csv_read t) else None)"
  by pat_completeness auto
termination by (relation "measure length") (auto dest: csv_field_shorter)

declare csv_read.simps [simp del]

definition csv_value :: "jsstr option \<Rightarrow> jsstr" where
  "csv_value x = (case x of None \<Rightarrow> [] | Some v \<Rightarrow> v)"

definition csv_end :: "jsstr \<Rightarrow> bool" where
  "csv_end t \<longleftrightarrow> t = [] \<or> hd t = 44 \<or> hd t = 10"

lemma csv_quoted_cell:
  "csv_end t \<Longrightarrow>
   csv_quoted (concat (map (\<lambda>c. if c = 34 then [34, 34] else [c]) s) @ 34 # t) = Some (s, t)"
proof (induction s)
  case Nil
  then show ?case by (cases t) (auto simp: csv_end_def)
next
  case (Cons c s)
  let ?e = "concat (map (\<lambda>c. if c = 34 then [34, 34] else [c]) s) @ 34 # t"
  obtain d u where "?e = d # u" by (cases ?e) auto
  with Cons show ?case by (cases "c = 34") auto
qed

lemma csv_plain_prefix:
  "\<forall>c \<in> set s. csv_plain c \<Longrightarrow> csv_end t \<Longrightarrow>
   takeWhile csv_plain (s @ t) = s \<and> dropWhile csv_plain (s @ t) = t"
  by (cases t) (auto simp: csv_end_def csv_plain_def)

lemma csvCell_value: "csvCell x =
    (if \<exists>c \<in> set (csv_value x). c = 34 \<or> c = 44 \<or> c = 10
     then [34] @ concat (map (\<lambda>c. if c = 34 then [34, 34] else [c]) (csv_value x)) @ [34]
     else csv_value x)"
  by (simp only: csvCell_def csv_value_def Let_def)

lemma csv_field_cell:
  assumes "csv_end t"
  shows "csv_field (csvCell x @ t) = Some (csv_value x, t)"
proof (cases "\<exists>c \<in> set (csv_value x). c = 34 \<or> c = 44 \<or> c = 10")
  case True
  then show ?thesis
    using csv_quoted_cell [OF assms] by (simp add: csvCell_value csv_field_def)
next
  case False
  then have cell: "csvCell x = csv_value x" by (simp only: csvCell_value if_False)
  from False have plain: "\<forall>c \<in> set (csv_value x). csv_plain c" by (auto simp: csv_plain_def)
  have "csv_value x @ t = [] \<or> hd (csv_value x @ t) \<noteq> 34"
    using plain assms by (cases "csv_value x") (auto simp: csv_plain_def csv_end_def)
  then show ?thesis using csv_plain_prefix [OF plain assms]
    by (cases "csv_value x @ t") (auto simp: cell csv_field_def split: list.splits)
qed

lemma csv_read_last: "csv_read (csvCell x) = Some [[csv_value x]]"
  using csv_field_cell [of "[]" x] by (subst csv_read.simps) (simp add: csv_end_def)

lemma csv_read_comma: "csv_read (csvCell x @ 44 # u) =
    (case csv_read u of Some (r # rs) \<Rightarrow> Some ((csv_value x # r) # rs) | _ \<Rightarrow> None)"
  using csv_field_cell [of "44 # u" x] by (subst csv_read.simps) (simp add: csv_end_def)

lemma csv_read_newline: "csv_read (csvCell x @ 10 # u) = map_option ((#) [csv_value x]) (csv_read u)"
  using csv_field_cell [of "10 # u" x] by (subst csv_read.simps) (simp add: csv_end_def)

lemma csv_read_cells:
  "xs \<noteq> [] \<Longrightarrow> csv_read (join [44] (map csvCell xs)) = Some [map csv_value xs] \<and>
     csv_read (join [44] (map csvCell xs) @ 10 # t) = map_option ((#) (map csv_value xs)) (csv_read t)"
proof (induction xs rule: induct_list012)
  case (3 x y zs)
  then show ?case by (cases "csv_read t") (simp_all add: csv_read_comma)
qed (simp_all add: csv_read_last csv_read_newline)

lemma csv_read_lines:
  "\<forall>xs \<in> set xss. xs \<noteq> [] \<Longrightarrow> xss \<noteq> [] \<Longrightarrow>
   csv_read (join [10] (map (\<lambda>xs. join [44] (map csvCell xs)) xss)) = Some (map (map csv_value) xss)"
proof (induction xss rule: induct_list012)
  case (3 x y zs)
  then show ?case
    using csv_read_cells [of x "join [10] (map (\<lambda>xs. join [44] (map csvCell xs)) (y # zs))"] by simp
qed (simp_all add: csv_read_cells)

lemma csv_header: "CSV_COLUMNS = map csvCell (map Some CSV_COLUMNS)"
  by (simp add: CSV_COLUMNS_def csvCell_def js_def)

subsection \<open>The search over ASCII text\<close>

lemma join_piece: "str_includes t q \<Longrightarrow> t \<in> set ts \<Longrightarrow> str_includes (join sep ts) q"
proof (induction sep ts rule: join.induct)
  case (3 sep s u ts)
  from 3(3) consider "t = s" | "t \<in> set (u # ts)" by auto
  then show ?case
  proof cases
    case 1
    with 3(2) obtain a b where "s = a @ q @ b" by (auto simp: includes_iff)
    then have "join sep (s # u # ts) = a @ q @ (b @ sep @ join sep (u # ts))" by simp
    then show ?thesis unfolding includes_iff by blast
  next
    case 2
    with 3 obtain a b where "join sep (u # ts) = a @ q @ b" by (auto simp: includes_iff)
    then have "join sep (s # u # ts) = (s @ sep @ a) @ q @ b" by simp
    then show ?thesis unfolding includes_iff by blast
  qed
qed auto

lemma split_at_separator:
  assumes "a @ q @ b = s @ c # rest" and "c \<notin> set q"
  shows "(\<exists>b'. s = a @ q @ b') \<or> (\<exists>a'. rest = a' @ q @ b) \<or> q = []"
proof -
  consider u where "a @ u = s" "q @ b = u @ c # rest" | u where "a = s @ u" "u @ q @ b = c # rest"
    using assms(1) by (auto simp: append_eq_append_conv2)
  then show ?thesis
  proof cases
    case 1
    from 1(2) consider v where "q @ v = u" | v where "q = u @ v" "v @ b = c # rest"
      by (auto simp: append_eq_append_conv2)
    then show ?thesis
    proof cases
      case 1
      with \<open>a @ u = s\<close> show ?thesis by auto
    next
      case 2
      with assms(2) have "v = []" by (cases v) auto
      with 2 \<open>a @ u = s\<close> show ?thesis by auto
    qed
  next
    case 2
    with assms(2) show ?thesis by (cases u; cases q) auto
  qed
qed

lemma join_includes:
  "str_includes (join [c] ts) q \<Longrightarrow> c \<notin> set q \<Longrightarrow> q \<noteq> [] \<Longrightarrow> \<exists>t \<in> set ts. str_includes t q"
proof (induction "[c]" ts rule: join.induct)
  case (3 s u ts)
  from 3(2) obtain a b where "s @ c # join [c] (u # ts) = a @ q @ b" by (auto simp: includes_iff)
  from split_at_separator [OF this [symmetric] 3(3)] 3(4)
  have "str_includes s q \<or> str_includes (join [c] (u # ts)) q" by (auto simp: includes_iff)
  with 3(1,3,4) show ?case by auto
qed (auto simp: includes_iff)

definition ascii_text :: "jsstr \<Rightarrow> bool" where
  "ascii_text s \<longleftrightarrow> list_all (\<lambda>c. unat c < 128) s"

lemma lower_space: "ascii_lower [32] = [32]"
  by (simp add: ascii_lower_def)

lemma ascii_lower_join: "ascii_lower (join [32] ts) = join [32] (map ascii_lower ts)"
  by (induction "[32] :: jsstr" ts rule: join.induct) (simp_all add: ascii_lower_def)

lemma ascii_join: "\<forall>t \<in> set ts. ascii_text t \<Longrightarrow> ascii_text (join [32] ts)"
  by (induction "[32] :: jsstr" ts rule: join.induct) (auto simp: ascii_text_def)

lemma unat_lower_ne_space: "unat c < 128 \<Longrightarrow> c \<noteq> 32 \<Longrightarrow>
    (if 65 \<le> unat c \<and> unat c < 91 then c + 32 else c) \<noteq> (32 :: code_unit)"
proof -
  have "c + 32 \<noteq> 32" if "65 \<le> unat c" using that by auto
  then show "unat c < 128 \<Longrightarrow> c \<noteq> 32 \<Longrightarrow> ?thesis" by auto
qed

lemma lower_no_space: "ascii_text q \<Longrightarrow> 32 \<notin> set q \<Longrightarrow> 32 \<notin> set (ascii_lower q)"
  using unat_lower_ne_space by (fastforce simp: ascii_lower_def ascii_text_def list_all_iff)

lemma truthy_strings_set: "t \<in> set (truthy_strings xs) \<longleftrightarrow> Some t \<in> set xs \<and> t \<noteq> []"
  by (auto simp: truthy_strings_def split: option.splits if_splits)

lemma label_ascii: "ascii_text (label_str v)"
  by (cases v) (simp_all add: label_str_def js_def ascii_text_def)

lemma unit_choice:
  fixes a :: rat
  shows "case find (\<lambda>(u, n). of_nat n \<le> a) RELATIVE_UNITS of
     Some (u, n) \<Rightarrow> (u, n) \<in> set RELATIVE_UNITS \<and> of_nat n \<le> a \<and>
       (\<forall>(v, m) \<in> set RELATIVE_UNITS. n < m \<longrightarrow> a < of_nat m)
   | None \<Rightarrow> \<forall>(v, m) \<in> set RELATIVE_UNITS. a < of_nat m"
  by (simp add: RELATIVE_UNITS_def not_le)

subsection \<open>What a run has reported\<close>

fun last_rows :: "audit_row list \<Rightarrow> audit_effect list \<Rightarrow> audit_row list" where
  "last_rows rows [] = rows"
| "last_rows rows (Verdicts_change v # os) = last_rows v os"
| "last_rows rows (_ # os) = last_rows rows os"

fun downloads_ok :: "platform \<Rightarrow> role \<Rightarrow> audit_row list \<Rightarrow> audit_effect list \<Rightarrow> bool" where
  "downloads_ok pf r rows [] = True"
| "downloads_ok pf r rows (Verdicts_change v # os) = downloads_ok pf r v os"
| "downloads_ok pf r rows (Download c m f # os) =
     (r = Admin \<and> rows \<noteq> [] \<and> (m = js ''application/json'' \<and> c = json_rows pf rows \<or> m = js ''text/csv'' \<and> c = csv_text pf rows) \<and>
      downloads_ok pf r rows os)"
| "downloads_ok pf r rows (_ # os) = downloads_ok pf r rows os"

lemma last_rows_append: "last_rows rows (xs @ ys) = last_rows (last_rows rows xs) ys"
  by (induction rows xs rule: last_rows.induct) simp_all

lemma downloads_ok_append: "downloads_ok pf r rows (xs @ ys) \<longleftrightarrow>
    downloads_ok pf r rows xs \<and> downloads_ok pf r (last_rows rows xs) ys"
  by (induction pf r rows xs rule: downloads_ok.induct) auto

definition audit_inv :: "platform \<Rightarrow> role \<Rightarrow> audit_effect list \<Rightarrow> audit_state \<Rightarrow> bool" where
  "audit_inv pf r os s \<longleftrightarrow> 0 \<le> as_page s \<and> as_rows s = last_rows [] os \<and> downloads_ok pf r [] os \<and>
     (as_live s \<noteq> None \<longrightarrow> as_loading s \<longrightarrow> (\<exists>k. as_live s = Some k \<and> (k, AC_verdicts) \<in> set (as_inflight s))) \<and>
     (\<forall>k. as_live s = Some k \<longrightarrow> k < as_next s)"

lemma current_le: "current_page p n \<noteq> 0 \<Longrightarrow> 0 \<le> p \<Longrightarrow> 1 \<le> p"
  using page_count_bounds(3) [of n] by (auto simp: current_page_def min_def split: if_splits)

lemma audit_inv_user:
  assumes "audit_inv pf r os s" and "audit_view pf now r s = Some v" and "offers v a"
    and "audit_handle pf now a s = (s', out)"
  shows "audit_inv pf r (os @ out) s'"
proof (cases a)
  case AA_prev
  with assms(3) have "audit_current pf s \<noteq> 0" by (simp add: audit_offers [OF assms(2)])
  with assms(1) have "1 \<le> as_page s" by (auto simp: audit_inv_def audit_current_def intro: current_le)
  with AA_prev assms(1,4) show ?thesis by (auto simp: audit_inv_def audit_handle_def)
next
  case AA_json
  with assms(3) have "r = Admin" "as_rows s \<noteq> []" by (simp_all add: audit_offers [OF assms(2)])
  with AA_json assms(1,4) show ?thesis
    by (auto simp: audit_inv_def audit_handler_defs last_rows_append downloads_ok_append)
next
  case AA_csv
  with assms(3) have "r = Admin" "as_rows s \<noteq> []" by (simp_all add: audit_offers [OF assms(2)])
  with AA_csv assms(1,4) show ?thesis
    by (auto simp: audit_inv_def audit_handler_defs last_rows_append downloads_ok_append)
qed (use assms(1,4) in \<open>auto simp: audit_inv_def audit_handler_defs\<close>)

lemma audit_inv_step:
  assumes "audit_inv pf r os s" and "audit_step pf r s out s'"
  shows "audit_inv pf r (os @ out) s'"
  using assms(2)
proof cases
  case (user now v a)
  with assms(1) show ?thesis by (intro audit_inv_user)
next
  case settle
  then show ?thesis
  proof cases
    case (verdicts xs k ys ans)
    with assms(1) show ?thesis
      by (auto simp: audit_inv_def audit_verdicts_settled_def audit_cancelled_def last_rows_append
          downloads_ok_append split: sum.splits if_splits)
  next
    case (chain xs k ys now answer)
    with assms(1) show ?thesis
      by (auto simp: audit_inv_def audit_chain_settled_def last_rows_append downloads_ok_append
          split: sum.splits if_splits)
  qed
qed (use assms(1) in \<open>auto simp: audit_inv_def audit_handler_defs last_rows_append downloads_ok_append\<close>)

interpretation audit: invariant_system audit_init "audit_step pf r" "audit_inv pf r"
proof unfold_locales
  show "audit_inv pf r [] s" if "audit_init s" for s
    using that by (simp add: audit_init_def audit_inv_def audit_start_def audit_handler_defs)
qed (rule audit_inv_step)

text \<open>A load that the clean-up has cancelled changes nothing.\<close>

lemma audit_unmounted_step:
  "audit_step pf r s out s' \<Longrightarrow> as_live s = None \<Longrightarrow>
     out = [] \<and> as_live s' = None \<and> as_rows s' = as_rows s \<and> as_loading s' = as_loading s"
  by (auto elim!: audit_step.cases audit_settle.cases
      simp: audit_verdicts_settled_def audit_chain_settled_def audit_cancelled_def audit_unmount_def)

subsection \<open>Settling\<close>

interpretation audit_settling: settling audit_settle "\<lambda>s. length (as_inflight s)"
proof unfold_locales
  show "length (as_inflight s') < length (as_inflight s)" if "audit_settle s out s'" for s out s'
    using that by cases (auto simp: audit_verdicts_settled_def audit_chain_settled_def split: sum.splits if_splits)
next
  fix s :: audit_state
  assume "0 < length (as_inflight s)"
  then obtain k c cs where "as_inflight s = [] @ (k, c) # cs" by (cases "as_inflight s") auto
  then show "\<exists>out s'. audit_settle s out s'"
    by (cases c) (metis audit_settle.intros surj_pair)+
qed

subsection \<open>Saved files\<close>

lemma triggerDownload_saves: "br_urls b = [] \<Longrightarrow> triggerDownload c m f b =
    b\<lparr>br_next := Suc (br_next b), br_saved := br_saved b @ [(f, c, m)]\<rparr>"
  by (simp add: triggerDownload_def createObjectURL_def click_def revokeObjectURL_def)

fun files_of :: "audit_effect list \<Rightarrow> (jsstr \<times> blob) list" where
  "files_of [] = []"
| "files_of (Download c m f # os) = (f, c, m) # files_of os"
| "files_of (_ # os) = files_of os"

lemma browse_files: "br_urls b = [] \<Longrightarrow>
    br_urls (browse os b) = [] \<and> br_saved (browse os b) = br_saved b @ files_of os"
  by (induction os b rule: browse.induct) (simp_all add: triggerDownload_saves)

lemma files_downloads: "(f, c, m) \<in> set (files_of os) \<longleftrightarrow> Download c m f \<in> set os"
  by (induction os rule: files_of.induct) auto

subsection \<open>A run of the component\<close>

definition demo_object :: json_value where
  "demo_object = J_obj [(js ''verdict_id'', J_str (js ''v1'')), (js ''sample_hash'', J_str (js ''abc'')),
     (js ''sample_filename'', J_str (js ''a, \"b\".exe'')), (js ''verdict'', J_str (js ''Compromised'')),
     (js ''confidence'', J_num (9 / 10)), (js ''causal_chain'', J_arr [J_str (js ''write'')]),
     (js ''timestamp'', J_str (js ''0'')), (js ''prev_log_hash'', J_str (js ''00'')),
     (js ''detection_method'', J_str (js ''dynamic'')), (js ''source'', J_str (js ''sample''))]"

definition demo_row :: audit_row where
  "demo_row = \<lparr>row_verdict_id = Some (js ''v1''), row_sample_hash = Some (js ''abc''),
     row_sample_filename = Some (js ''a, \"b\".exe''), row_verdict = Some Compromised,
     row_confidence = Some (9 / 10), row_timestamp = Some (js ''0''),
     row_detection_method = Some (js ''dynamic''), row_source = Some (js ''sample''),
     row_action = None, row_device_id = None, row_record_id = None, row_hash = None, row_actor = None,
     row_raw = demo_object\<rparr>"

lemma demo_row_of: "audit_row_of demo_object = demo_row"
  by (simp add: audit_row_of_def demo_object_def demo_row_def str_prop_def num_prop_def json_field_def
      label_of_def label_str_def)

definition demo_loaded :: audit_state where
  "demo_loaded = audit_start\<lparr>as_rows := [demo_row], as_loading := False, as_live := Some 0,
     as_next := 1, as_inflight := [(0, AC_chain)]\<rparr>"

lemma demo_run_loaded: "reach audit_init (audit_step pf r) [Verdicts_change [demo_row]] demo_loaded"
proof -
  have "reach audit_init (audit_step pf r) [] (fst (audit_effect_run audit_start))"
    by (rule reach_init) (simp add: audit_init_def)
  moreover have "audit_step pf r (fst (audit_effect_run audit_start)) [Verdicts_change [demo_row]] demo_loaded"
    by (rule audit_step.settle, rule verdicts [where xs = "[]" and ys = "[(0, AC_chain)]" and k = 0 and ans = "Inr [demo_row]"])
       (simp_all add: audit_handler_defs audit_start_def audit_cancelled_def demo_loaded_def)
  ultimately show ?thesis using reach_step by fastforce
qed

lemma demo_view: "\<exists>v. audit_view pf now r demo_loaded = Some v"
  by (simp add: audit_view_def audit_table_def demo_loaded_def audit_start_def audit_page_rows_def
      audit_filtered_def audit_row_view_def demo_row_def falsy_def source_cell_def confidence_cell_def
      label_or_key_def obj_get_def SOURCE_LABEL_def page_of_def slice_range_def PAGE_SIZE_def
      audit_current_def current_page_def page_count_def trim_def Let_def)

lemma demo_run_json:
  "reach audit_init (audit_step pf Admin)
     [Verdicts_change [demo_row], downloadAuditLogJson pf 0 [demo_row]] demo_loaded"
proof -
  obtain v where v: "audit_view pf 0 Admin demo_loaded = Some v" using demo_view by blast
  have rows: "as_rows demo_loaded = [demo_row]" and live: "as_live demo_loaded \<noteq> None"
    by (simp_all add: demo_loaded_def)
  have "audit_handle pf 0 AA_json demo_loaded = (demo_loaded, [downloadAuditLogJson pf 0 [demo_row]])"
    by (simp add: audit_handle_def rows)
  moreover have "offers v AA_json" unfolding audit_offers [OF v] by (simp add: rows)
  ultimately have "audit_step pf Admin demo_loaded [downloadAuditLogJson pf 0 [demo_row]] demo_loaded"
    using user [OF live v] by blast
  from reach_step [OF demo_run_loaded this] show ?thesis by simp
qed

definition demo_gone :: audit_state where
  "demo_gone = demo_loaded\<lparr>as_live := None\<rparr>"

lemma demo_run_gone: "reach audit_init (audit_step pf r) [Verdicts_change [demo_row]] demo_gone"
proof -
  have "audit_step pf r demo_loaded [] demo_gone"
    by (rule unmount) (simp add: audit_unmount_def demo_gone_def)
  from reach_step [OF demo_run_loaded this] show ?thesis by simp
qed

subsection \<open>Properties\<close>

text \<open>C22: The downloaded CSV file is lossless: a reader of comma-separated values recovers from it the
  header and, for every row of the log in order, the exact text of every column, whatever commas,
  quotes and line feeds the fields hold.\<close>

theorem audit_csv_roundtrip:
  "csv_read (csv_text pf rows) =
     Some (CSV_COLUMNS # map (\<lambda>r. map csv_value (csv_values pf r)) rows)"
proof -
  let ?xss = "map Some CSV_COLUMNS # map (csv_values pf) rows"
  have "csv_text pf rows = join [10] (map (\<lambda>xs. join [44] (map csvCell xs)) ?xss)"
    using csv_header by (simp add: csv_text_def comp_def)
  moreover have "\<forall>xs \<in> set ?xss. xs \<noteq> []" by (auto simp: csv_values_def CSV_COLUMNS_def)
  moreover have "map csv_value (map Some CSV_COLUMNS) = CSV_COLUMNS"
    by (simp add: comp_def csv_value_def)
  ultimately show ?thesis using csv_read_lines [of ?xss] by (simp add: comp_def)
qed

text \<open>C28: In every reachable state the page shown exists: its number is between 0 and the number of
  pages, it is not empty unless the filtered log is, the pages put together are exactly the filtered
  log, and "Next" leads to the following page.\<close>

theorem audit_pages:
  assumes "reach audit_init (audit_step pf r) os s"
  shows "0 \<le> audit_current pf s \<and>
    audit_current pf s < int (page_count (length (audit_filtered pf s))) \<and>
    (audit_filtered pf s \<noteq> [] \<longrightarrow> audit_page_rows pf s \<noteq> []) \<and>
    concat (map (page_of (audit_filtered pf s)) [0..<page_count (length (audit_filtered pf s))]) =
      audit_filtered pf s \<and>
    (audit_current pf s < int (page_count (length (audit_filtered pf s))) - 1 \<longrightarrow>
      audit_current pf (fst (audit_handle pf now AA_next s)) = audit_current pf s + 1)"
proof -
  let ?f = "audit_filtered pf s"
  have "0 \<le> as_page s" using audit.reach_inv [OF assms] by (simp add: audit_inv_def)
  then have c: "0 \<le> audit_current pf s \<and> audit_current pf s < int (page_count (length ?f))"
    unfolding audit_current_def by (rule current_page_bounds)
  then have "nat (audit_current pf s) < page_count (length ?f)" by (simp add: nat_less_iff)
  then have "?f \<noteq> [] \<longrightarrow> audit_page_rows pf s \<noteq> []" by (simp add: audit_page_rows_def page_nonempty)
  moreover have "audit_filtered pf (s\<lparr>as_page := as_page s + 1\<rparr>) = ?f"
    by (simp add: audit_filtered_def Let_def cong: if_cong)
  then have "audit_current pf s < int (page_count (length ?f)) - 1 \<longrightarrow>
      audit_current pf (fst (audit_handle pf now AA_next s)) = audit_current pf s + 1"
    by (simp add: audit_handle_def audit_current_def current_page_def)
  ultimately show ?thesis using c pages_partition [of ?f] by blast
qed

theorem audit_pages_witness:
  "0 \<le> audit_current demo_platform demo_loaded \<and> audit_page_rows demo_platform demo_loaded \<noteq> []"
proof -
  have "audit_filtered demo_platform demo_loaded \<noteq> []"
    by (simp add: audit_filtered_def demo_loaded_def audit_start_def trim_def Let_def)
  with audit_pages [OF demo_run_loaded, of demo_platform 0] show ?thesis by blast
qed

text \<open>A download holds the whole log: in every run each downloaded file contains exactly the rows
  the server answered last, not just those of the current search or page, it is never empty, and
  only an admin's table produces one.\<close>

theorem audit_downloads_complete:
  assumes "reach audit_init (audit_step pf r) (ps @ Download c m f # qs) s"
  shows "r = Admin \<and> last_rows [] ps \<noteq> [] \<and>
    (m = js ''application/json'' \<and> c = json_rows pf (last_rows [] ps) \<or>
     m = js ''text/csv'' \<and> c = csv_text pf (last_rows [] ps))"
  using audit.reach_inv [OF assms] by (simp add: audit_inv_def downloads_ok_append)

theorem audit_downloads_complete_witness:
  "last_rows [] [Verdicts_change [demo_row]] \<noteq> []"
  using audit_downloads_complete [of demo_platform Admin "[Verdicts_change [demo_row]]"
      "json_rows demo_platform [demo_row]" "js ''application/json''"
      "js ''mirraura-audit-log-'' @ download_stamp demo_platform 0 @ js ''.json''" "[]" demo_loaded]
    demo_run_json [of demo_platform]
  by (simp add: downloadAuditLogJson_def)

text \<open>C24: What reaches the disk: in a run of the table the files saved are those of the download clicks,
  in order and under their names, each with the whole log as the server answered it last before the
  click, only an admin gets any, and no object URL is left alive.\<close>

theorem audit_saved_files:
  assumes "reach audit_init (audit_step pf r) os s"
  shows "br_urls (browse os page_start) = [] \<and>
    br_saved (browse os page_start) = files_of os \<and>
    (\<forall>f c m. (f, c, m) \<in> set (br_saved (browse os page_start)) \<longrightarrow>
      r = Admin \<and> (\<exists>ps qs. os = ps @ Download c m f # qs \<and> last_rows [] ps \<noteq> [] \<and>
        (m = js ''application/json'' \<and> c = json_rows pf (last_rows [] ps) \<or>
         m = js ''text/csv'' \<and> c = csv_text pf (last_rows [] ps))))"
proof -
  have files: "br_urls (browse os page_start) = [] \<and> br_saved (browse os page_start) = files_of os"
    using browse_files [of page_start os] by (simp add: page_start_def)
  have "r = Admin \<and> (\<exists>ps qs. os = ps @ Download c m f # qs \<and> last_rows [] ps \<noteq> [] \<and>
        (m = js ''application/json'' \<and> c = json_rows pf (last_rows [] ps) \<or>
         m = js ''text/csv'' \<and> c = csv_text pf (last_rows [] ps)))"
    if "(f, c, m) \<in> set (files_of os)" for f c m
  proof -
    from that obtain ps qs where "os = ps @ Download c m f # qs"
      unfolding files_downloads by (blast dest: split_list)
    with audit.reach_inv [OF assms] show ?thesis by (auto simp: audit_inv_def downloads_ok_append)
  qed
  with files show ?thesis by auto
qed

theorem audit_saved_files_witness:
  "br_saved (browse [Verdicts_change [demo_row], downloadAuditLogJson demo_platform 0 [demo_row]] page_start) =
     [(js ''mirraura-audit-log-0.json'', json_rows demo_platform [demo_row], js ''application/json'')]"
proof -
  have "to_base 10 0 = [48]" by (simp add: to_base.simps digit_unit_def)
  then have "download_stamp demo_platform 0 = js ''0''"
    by (simp add: download_stamp_def demo_platform_def dec_def js_def)
  then show ?thesis
    using audit_saved_files [OF demo_run_json [of demo_platform]] by (simp add: downloadAuditLogJson_def js_def)
qed

text \<open>C23: The downloaded JSON file is lossless: if the engine reads back the numerals it prints for the
  numbers of the log, a reader of JSON recovers from the file exactly the objects the server answered,
  with every property of theirs, and reading the rows off them gives the rows of the table.\<close>

theorem audit_json_roundtrip:
  assumes "\<forall>q \<in> set (concat (map json_numbers objs)). num_ok (pf_num pf) rd q"
    and "rows = map audit_row_of objs"
  shows "read_json rd (json_rows pf rows) = Some (J_arr objs) \<and>
    (\<exists>f. downloadAuditLogJson pf now rows = Download (json_rows pf rows) (js ''application/json'') f)"
proof -
  have raw: "row_raw (audit_row_of j) = j" for j by (simp add: audit_row_of_def)
  then have "map row_raw rows = objs" by (simp add: assms(2) comp_def)
  moreover have "read_json rd (json_text (pf_num pf) 0 (J_arr objs)) = Some (J_arr objs)"
    by (rule read_json_text) (use assms(1) in simp)
  ultimately show ?thesis by (simp only: json_rows_def downloadAuditLogJson_def simp_thms) blast
qed

lemma demo_numeral: "num_ok (toFixed 2) (\<lambda>s. Some (fixed_value 2 s)) (9 / 10)"
proof -
  have "dec 90 = [57, 48]"
    by (simp add: dec_def to_base.simps [of 10 90] to_base.simps [of 10 9] digit_unit_def)
  moreover have "\<lfloor>181 / 2 :: rat\<rfloor> = 90" by (simp add: floor_eq_iff)
  then have "fixed_units 2 (9 / 10) = 90" by (simp add: fixed_units_def)
  ultimately have "toFixed 2 (9 / 10) = [48, 46, 57, 48]" by (simp add: toFixed_def Let_def pad_start_def)
  then show ?thesis
    by (simp add: num_ok_def num_unit_def is_digit_def fixed_value_def digits_value_def digit_val_def)
qed

theorem audit_json_roundtrip_witness:
  "read_json (\<lambda>s. Some (fixed_value 2 s)) (json_rows demo_platform [demo_row]) = Some (J_arr [demo_object])"
proof -
  have "pf_num demo_platform = toFixed 2" by (simp add: demo_platform_def)
  then have "\<forall>q \<in> set (concat (map json_numbers [demo_object])).
      num_ok (pf_num demo_platform) (\<lambda>s. Some (fixed_value 2 s)) q"
    using demo_numeral by (simp add: demo_object_def)
  from audit_json_roundtrip [OF this refl] show ?thesis by (simp add: demo_row_of)
qed

text \<open>The search finds what a field holds and nothing else: on ASCII text, where lower-casing is
  that of the letters A to Z, a query without spaces selects a row exactly when one of its action,
  verdict, actor, hashes or source contains the query up to case.\<close>

theorem audit_search_fields:
  assumes "\<And>s. ascii_text s \<Longrightarrow> pf_lower pf s = ascii_lower s"
    and "\<forall>t. Some t \<in> set (search_fields row) \<longrightarrow> ascii_text t"
    and "ascii_text q" and "q \<noteq> []" and "32 \<notin> set q"
  shows "matchesQuery pf row q \<longleftrightarrow>
    (\<exists>t. Some t \<in> set (search_fields row) \<and> str_includes (ascii_lower t) (ascii_lower q))"
proof -
  let ?ts = "truthy_strings (search_fields row)"
  have ne: "t \<noteq> []" if "str_includes (ascii_lower t) (ascii_lower q)" for t
    using that assms(4) by (auto simp: ascii_lower_def)
  have "ascii_text (join [32] ?ts)"
    using assms(2) by (intro ascii_join) (simp add: truthy_strings_set)
  then have "matchesQuery pf row q \<longleftrightarrow> str_includes (join [32] (map ascii_lower ?ts)) (ascii_lower q)"
    using assms(1) [of q] assms(1) [of "join [32] ?ts"] assms(3)
    by (simp add: matchesQuery_def ascii_lower_join)
  also have "\<dots> \<longleftrightarrow> (\<exists>t \<in> set ?ts. str_includes (ascii_lower t) (ascii_lower q))"
    using join_includes [of 32 "map ascii_lower ?ts" "ascii_lower q"] lower_no_space [OF assms(3,5)]
      assms(4) join_piece [of _ "ascii_lower q" "map ascii_lower ?ts" "[32]"]
    by (fastforce simp: ascii_lower_def)
  also have "\<dots> \<longleftrightarrow>
      (\<exists>t. Some t \<in> set (search_fields row) \<and> str_includes (ascii_lower t) (ascii_lower q))"
    unfolding Bex_def truthy_strings_set using ne by blast
  finally show ?thesis .
qed

theorem audit_search_fields_witness:
  "matchesQuery demo_platform demo_row (js ''COMP'') \<longleftrightarrow>
     (\<exists>t. Some t \<in> set (search_fields demo_row) \<and>
        str_includes (ascii_lower t) (ascii_lower (js ''COMP'')))"
  by (rule audit_search_fields)
     (auto simp: demo_platform_def search_fields_def demo_row_def ascii_text_def js_def label_str_def)

text \<open>A relative time is right to half a unit: for a readable timestamp the text is the number of
  units, rounded, in a unit of the list or in seconds; the number is off by at most half a unit; and
  the unit is the largest one that the difference reaches.  An unreadable timestamp is shown as it
  is.\<close>

theorem relativeTime_rounds:
  "(case pf_parse_date pf stamp of
      None \<Rightarrow> relativeTime pf now stamp = stamp
    | Some t \<Rightarrow> (\<exists>u n k. (u, n) \<in> set (RELATIVE_UNITS @ [(js ''second'', 1)]) \<and>
        relativeTime pf now stamp = pf_rtf pf k u \<and>
        \<bar>of_int k * of_nat n - (t - now) / 1000\<bar> \<le> of_nat n / 2 \<and>
        (u \<noteq> js ''second'' \<longrightarrow> of_nat n \<le> \<bar>(t - now) / 1000\<bar>) \<and>
        (\<forall>(v, m) \<in> set RELATIVE_UNITS. n < m \<longrightarrow> \<bar>(t - now) / 1000\<bar> < of_nat m)))"
proof (cases "pf_parse_date pf stamp")
  case None
  then show ?thesis by (simp add: relativeTime_def)
next
  case (Some t)
  define d where "d = (t - now) / 1000"
  define chosen where "chosen = find (\<lambda>(u, n). of_nat n \<le> \<bar>d\<bar>) RELATIVE_UNITS"
  note choice = unit_choice [of "\<bar>d\<bar>", folded chosen_def]
  have eq: "relativeTime pf now stamp = (case chosen of
      Some (u, n) \<Rightarrow> pf_rtf pf (math_round (d / of_nat n)) u
    | None \<Rightarrow> pf_rtf pf (math_round d) (js ''second''))"
    unfolding relativeTime_def Some option.case Let_def d_def [symmetric] chosen_def ..
  show ?thesis unfolding Some option.case d_def [symmetric]
  proof (cases chosen)
    case None
    with choice show "\<exists>u n k. (u, n) \<in> set (RELATIVE_UNITS @ [(js ''second'', 1)]) \<and>
        relativeTime pf now stamp = pf_rtf pf k u \<and> \<bar>of_int k * of_nat n - d\<bar> \<le> of_nat n / 2 \<and>
        (u \<noteq> js ''second'' \<longrightarrow> of_nat n \<le> \<bar>d\<bar>) \<and>
        (\<forall>(v, m) \<in> set RELATIVE_UNITS. n < m \<longrightarrow> \<bar>d\<bar> < of_nat m)"
      using math_round_scaled [of 1 d]
      by (intro exI [of _ "js ''second''"] exI [of _ 1] exI [of _ "math_round d"]) (auto simp: eq)
  next
    case (Some un)
    obtain u n where un: "un = (u, n)" by fastforce
    with choice Some have "0 < n" by (auto simp: RELATIVE_UNITS_def)
    then show "\<exists>u n k. (u, n) \<in> set (RELATIVE_UNITS @ [(js ''second'', 1)]) \<and>
        relativeTime pf now stamp = pf_rtf pf k u \<and> \<bar>of_int k * of_nat n - d\<bar> \<le> of_nat n / 2 \<and>
        (u \<noteq> js ''second'' \<longrightarrow> of_nat n \<le> \<bar>d\<bar>) \<and>
        (\<forall>(v, m) \<in> set RELATIVE_UNITS. n < m \<longrightarrow> \<bar>d\<bar> < of_nat m)"
      using math_round_scaled [of "of_nat n" d] choice
      by (intro exI [of _ u] exI [of _ n] exI [of _ "math_round (d / of_nat n)"])
         (simp add: eq Some un)
  qed
qed

theorem relativeTime_rounds_witness:
  "\<exists>u n k. (u, n) \<in> set (RELATIVE_UNITS @ [(js ''second'', 1)]) \<and>
     relativeTime demo_platform 0 (js ''7200000'') = pf_rtf demo_platform k u \<and>
     \<bar>of_int k * of_nat n - (7200000 - 0) / 1000 :: rat\<bar> \<le> of_nat n / 2"
proof -
  have p: "pf_parse_date demo_platform (js ''7200000'') = Some 7200000"
    by (simp add: demo_platform_def js_def is_digit_def digits_value_def digit_val_def)
  from relativeTime_rounds [where pf = demo_platform and stamp = "js ''7200000''" and now = 0,
      unfolded p option.case]
  show ?thesis by blast
qed

text \<open>After unmounting, the loads still in flight are dead: whatever the server answers, no callback
  of the application runs, no notification is pushed and the rows stay as they were.\<close>

theorem audit_unmounted_silent:
  assumes "as_live s = None" and "reach (\<lambda>t. t = s) (audit_step pf r) os s'"
  shows "os = [] \<and> as_live s' = None \<and> as_rows s' = as_rows s"
  using assms(2)
proof (induction rule: reach.induct)
  case (reach_init t)
  with assms(1) show ?case by simp
next
  case (reach_step os t out t')
  with audit_unmounted_step [of pf r t out t'] show ?case by simp
qed

theorem audit_unmounted_silent_witness:
  "\<exists>s'. reach (\<lambda>t. t = demo_gone) (audit_step demo_platform Admin) [] s' \<and>
     as_inflight s' = [] \<and> as_rows s' = as_rows demo_gone"
proof -
  let ?s' = "demo_gone\<lparr>as_inflight := []\<rparr>"
  have live: "as_live demo_gone = None" by (simp add: demo_gone_def)
  have "reach (\<lambda>t. t = demo_gone) (audit_step demo_platform Admin) [] demo_gone"
    by (rule reach_init) simp
  moreover have "audit_step demo_platform Admin demo_gone [] ?s'"
    by (rule audit_step.settle, rule chain [where xs = "[]" and ys = "[]" and k = 0 and answer = "Inl Not_an_error"])
       (simp_all add: demo_gone_def demo_loaded_def audit_chain_settled_def audit_cancelled_def)
  ultimately have "reach (\<lambda>t. t = demo_gone) (audit_step demo_platform Admin) ([] @ []) ?s'"
    by (rule reach_step)
  then have r: "reach (\<lambda>t. t = demo_gone) (audit_step demo_platform Admin) [] ?s'" by simp
  from audit_unmounted_silent [OF live r] r show ?thesis by auto
qed

end
