(* ===== verification/CorpusPanel.thy ===== *)
theory CorpusPanel
  imports Panels
begin

text \<open>
  \<open>CorpusReview.tsx\<close>: the table of pending known-bad samples, the decision dialog with its preview,
  and the form that submits a sample file.  Same structure as \<open>HashPanel\<close>: \<open>useState\<close> variables and
  promises in flight, handlers cut at their \<open>await\<close>.
\<close>

text \<open>\<open>PendingAction\<close>: \<open>decide\<close> is \<open>approveCorpusEntry\<close> or \<open>rejectCorpusEntry\<close>.\<close>

record corpus_action =
  ca_contentHash :: jsstr
  ca_label :: jsstr
  ca_preview :: jsstr
  ca_decide :: decision
  ca_verb :: jsstr

datatype corpus_cont = CC_refetch | CC_decide | CC_submit

record corpus_state =
  cs_entries :: "corpus_entry list"
  cs_fileInput :: "js_file option"
  cs_labelInput :: jsstr
  cs_fileError :: "jsstr option"
  cs_formKey :: nat
  cs_busyHash :: "jsstr option"
  cs_error :: "jsstr option"
  cs_pendingAction :: "corpus_action option"
  cs_loading :: bool
  cs_inflight :: "corpus_cont list"

type_synonym corpus_out = "corpus_state \<times> corpus_entry panel_effect list"

definition corpus_start :: corpus_state where
  "corpus_start = \<lparr>cs_entries = [], cs_fileInput = None, cs_labelInput = [], cs_fileError = None,
     cs_formKey = 0, cs_busyHash = None, cs_error = None, cs_pendingAction = None, cs_loading = True,
     cs_inflight = []\<rparr>"

definition MAX_CORPUS_SAMPLE_BYTES :: nat where
  "MAX_CORPUS_SAMPLE_BYTES = 64 * 1024"

definition corpus_decide :: "decision \<Rightarrow> jsstr \<Rightarrow> api_call" where
  "corpus_decide d h = (case d of Approve \<Rightarrow> Approve_corpus_entry h | Reject \<Rightarrow> Reject_corpus_entry h)"

subsection \<open>The handlers\<close>

definition corpus_refetch :: "corpus_state \<Rightarrow> corpus_out" where
  "corpus_refetch s = (s\<lparr>cs_inflight := cs_inflight s @ [CC_refetch]\<rparr>, [Call Fetch_corpus_pending])"

text \<open>The server lists every sample; \<open>fetchCorpusPending\<close> keeps the pending ones.\<close>

definition corpus_refetched :: "js_exn + corpus_entry list \<Rightarrow> corpus_state \<Rightarrow> corpus_out" where
  "corpus_refetched r s = (case r of
     Inr answer \<Rightarrow>
       (let entries = corpus_pending answer
        in (s\<lparr>cs_entries := entries, cs_error := None, cs_loading := False\<rparr>, [Entries_change entries]))
   | Inl e \<Rightarrow>
       if is_status 401 e then (s\<lparr>cs_loading := False\<rparr>, [Session_expired])
       else if is_status 403 e then (s\<lparr>cs_loading := False\<rparr>, [Push (js ''Admins only'') Tone_error])
       else (s\<lparr>cs_error := Some (exn_message e (js ''failed to load pending corpus samples'')),
               cs_loading := False\<rparr>, []))"

definition corpus_runDecision :: "jsstr \<Rightarrow> decision \<Rightarrow> corpus_state \<Rightarrow> corpus_out" where
  "corpus_runDecision h d s =
     (s\<lparr>cs_busyHash := Some h, cs_error := None, cs_inflight := cs_inflight s @ [CC_decide]\<rparr>,
      [Call (corpus_decide d h)])"

text \<open>The \<open>finally\<close> block clears the busy mark and the dialog in every case.\<close>

definition corpus_decided :: "js_exn + unit \<Rightarrow> corpus_state \<Rightarrow> corpus_out" where
  "corpus_decided r s =
     (let (s1, out) = (case r of
         Inr _ \<Rightarrow> let (s2, out2) = corpus_refetch s in (s2, out2 @ [Decision_made])
       | Inl e \<Rightarrow>
           if is_status 401 e then (s, [Session_expired])
           else if is_status 403 e then (s, [Push (js ''Admins only'') Tone_error])
           else (s\<lparr>cs_error := Some (exn_message e (js ''action failed''))\<rparr>, []))
      in (s1\<lparr>cs_busyHash := None, cs_pendingAction := None\<rparr>, out))"

definition corpus_handleSubmit :: "corpus_state \<Rightarrow> corpus_out" where
  "corpus_handleSubmit s =
     (let s1 = s\<lparr>cs_error := None\<rparr>
      in case cs_fileInput s of
        None \<Rightarrow> (s1\<lparr>cs_fileError := Some (js ''Choose a sample file.'')\<rparr>, [])
      | Some f \<Rightarrow>
          if file_size f = 0 \<or> MAX_CORPUS_SAMPLE_BYTES < file_size f
          then (s1\<lparr>cs_fileError := Some (js ''Sample must be between 1 byte and ''
                  @ dec (MAX_CORPUS_SAMPLE_BYTES div 1024) @ js '' KB.'')\<rparr>, [])
          else (s1\<lparr>cs_fileError := None, cs_inflight := cs_inflight s1 @ [CC_submit]\<rparr>,
                [Call (Submit_corpus_sample f (trim (cs_labelInput s)))]))"

text \<open>A file input cannot be cleared through its value, so the form key changes to remount it.\<close>

definition corpus_submitted :: "js_exn + unit \<Rightarrow> corpus_state \<Rightarrow> corpus_out" where
  "corpus_submitted r s = (case r of
     Inr _ \<Rightarrow> corpus_refetch
       (s\<lparr>cs_fileInput := None, cs_labelInput := [], cs_formKey := Suc (cs_formKey s)\<rparr>)
   | Inl e \<Rightarrow>
       if is_status 401 e then (s, [Session_expired])
       else if is_status 403 e then (s, [Push (js ''Admins only'') Tone_error])
       else (s\<lparr>cs_error := Some (exn_message e (js ''submit failed''))\<rparr>, []))"

subsection \<open>The rendered tree and the user's actions\<close>

datatype corpus_act =
    CA_ask decision corpus_entry
  | CA_file_input "js_file option"
  | CA_label_input jsstr
  | CA_submit
  | CA_confirm
  | CA_cancel

definition corpus_handle :: "corpus_act \<Rightarrow> corpus_state \<Rightarrow> corpus_out" where
  "corpus_handle a s = (case a of
     CA_ask d e \<Rightarrow> (s\<lparr>cs_pendingAction := Some \<lparr>ca_contentHash = ce_content_hash e,
        ca_label = ce_label e, ca_preview = ce_preview e, ca_decide = d, ca_verb = verb_str d\<rparr>\<rparr>, [])
   | CA_file_input f \<Rightarrow> (s\<lparr>cs_fileInput := f, cs_fileError := None\<rparr>, [])
   | CA_label_input v \<Rightarrow> (s\<lparr>cs_labelInput := v\<rparr>, [])
   | CA_submit \<Rightarrow> corpus_handleSubmit s
   | CA_confirm \<Rightarrow> (case cs_pendingAction s of
        None \<Rightarrow> (s, []) | Some p \<Rightarrow> corpus_runDecision (ca_contentHash p) (ca_decide p) s)
   | CA_cancel \<Rightarrow> (s\<lparr>cs_pendingAction := None\<rparr>, []))"

definition corpus_button :: "decision \<Rightarrow> corpus_entry \<Rightarrow> corpus_state \<Rightarrow> corpus_act node" where
  "corpus_button d e s = El ''button''
     [Attr ''type'' ''button'',
      Attr ''className'' (case d of Approve \<Rightarrow> ''approve-button'' | Reject \<Rightarrow> ''reject-button''),
      Flag ''disabled'' (cs_busyHash s = Some (ce_content_hash e)), On_click (CA_ask d e)]
     [Text (verb_str d)]"

definition corpus_row :: "role \<Rightarrow> corpus_state \<Rightarrow> corpus_entry \<Rightarrow> corpus_act node" where
  "corpus_row r s e = El ''tr'' [Val ''key'' (ce_content_hash e)]
     ([El ''td'' [] [copy_hash_ref (ce_content_hash e) ''Sample content hash''],
       El ''td'' [] [Text (ce_label e)],
       El ''td'' [Attr ''className'' ''mono''] [Text (ce_preview e)],
       El ''td'' [Attr ''className'' ''mono''] [Text (dec (ce_size e)), Lit '' B''],
       El ''td'' [Attr ''className'' ''mono''] [Text (ce_proposed_at e)]]
      @ show_if (r = Admin) [El ''td'' [] [corpus_button Approve e s, corpus_button Reject e s]])"

definition corpus_form :: "corpus_state \<Rightarrow> corpus_act node" where
  "corpus_form s = El ''form'' [On_submit CA_submit, Attr ''className'' ''hash-form'']
     [El ''input'' [Val ''key'' (dec (cs_formKey s)), Attr ''type'' ''file'',
        Attr ''aria-label'' ''sample file'', On_file CA_file_input,
        Flag ''aria-invalid'' (cs_fileError s \<noteq> None)] [],
      El ''input'' [Attr ''placeholder'' ''label'', Val ''value'' (cs_labelInput s),
        On_change CA_label_input] [],
      El ''button'' [Attr ''type'' ''submit''] [Lit ''Submit for approval'']]"

definition corpus_dialog :: "corpus_state \<Rightarrow> corpus_act node" where
  "corpus_dialog s = confirm_dialog (cs_pendingAction s \<noteq> None)
     ((case cs_pendingAction s of None \<Rightarrow> [] | Some p \<Rightarrow> ca_verb p) @ js '' this sample?'')
     (case cs_pendingAction s of None \<Rightarrow> [] | Some p \<Rightarrow>
        [El ''p'' [Attr ''className'' ''mono confirm-dialog__hash''] [Text (ca_contentHash p)],
         El ''p'' [] [Text (if ca_label p = [] then js ''(no label)'' else ca_label p)],
         El ''pre'' [Attr ''className'' ''mono''] [Text (ca_preview p)],
         El ''p'' [] [Lit (if ca_verb p = js ''Approve''
           then ''Uploads at least 85% similar to this will be marked Compromised without detonation.''
           else ''It will not be used for similarity matching.'')]])
     (case cs_pendingAction s of None \<Rightarrow> js ''Confirm'' | Some p \<Rightarrow> ca_verb p)
     CA_confirm CA_cancel"

definition corpus_view :: "role \<Rightarrow> corpus_state \<Rightarrow> corpus_act node" where
  "corpus_view r s = card ''Pending corpus samples''
     [El ''span'' [Attr ''className'' ''pending-count mono''] [Text (dec (length (cs_entries s)))]]
     (error_text (cs_error s)
      @ [if cs_loading s then skeleton 3
         else if cs_entries s = []
           then El ''p'' [Attr ''className'' ''empty-copy'']
             [Lit ''No samples awaiting review. Approved samples are matched by content similarity before detonation.'']
         else El ''div'' [Attr ''className'' ''table-scroll'']
           [El ''table'' [Attr ''className'' ''hash-table'']
             [El ''thead'' [] [El ''tr'' [] (map (\<lambda>t. El ''th'' [] [Lit t])
                ([''Hash'', ''Label'', ''Preview'', ''Size'', ''Proposed'']
                 @ (if r = Admin then [''Action''] else [])))],
              El ''tbody'' [] (map (corpus_row r s) (cs_entries s))]],
         corpus_form s]
      @ error_text (cs_fileError s)
      @ [corpus_dialog s])"

subsection \<open>The steps of the component\<close>

text \<open>A promise in flight settles, in any order and with any answer.\<close>

inductive corpus_settle :: "corpus_state \<Rightarrow> corpus_entry panel_effect list \<Rightarrow> corpus_state \<Rightarrow> bool" where
  refetched: "cs_inflight s = xs @ CC_refetch # ys \<Longrightarrow>
     corpus_refetched ans (s\<lparr>cs_inflight := xs @ ys\<rparr>) = (s', out) \<Longrightarrow> corpus_settle s out s'"
| decided: "cs_inflight s = xs @ CC_decide # ys \<Longrightarrow>
     corpus_decided ok (s\<lparr>cs_inflight := xs @ ys\<rparr>) = (s', out) \<Longrightarrow> corpus_settle s out s'"
| submitted: "cs_inflight s = xs @ CC_submit # ys \<Longrightarrow>
     corpus_submitted ok (s\<lparr>cs_inflight := xs @ ys\<rparr>) = (s', out) \<Longrightarrow> corpus_settle s out s'"

inductive corpus_step :: "role \<Rightarrow> corpus_state \<Rightarrow> corpus_entry panel_effect list \<Rightarrow> corpus_state \<Rightarrow> bool"
  for r :: role where
  user: "offers (corpus_view r s) a \<Longrightarrow> corpus_handle a s = (s', out) \<Longrightarrow> corpus_step r s out s'"
| refresh: "corpus_refetch s = (s', out) \<Longrightarrow> corpus_step r s out s'"
| settle: "corpus_settle s out s' \<Longrightarrow> corpus_step r s out s'"

text \<open>The mount effect has issued the first request.\<close>

definition corpus_init :: "corpus_state \<Rightarrow> bool" where
  "corpus_init s \<longleftrightarrow> s = fst (corpus_refetch corpus_start)"

lemmas corpus_handler_defs = corpus_refetch_def corpus_refetched_def corpus_runDecision_def corpus_decided_def
  corpus_handleSubmit_def corpus_submitted_def corpus_handle_def Let_def

subsection \<open>What the view offers\<close>

lemma corpus_row_dialogs [simp]: "open_dialogs (corpus_row r s e) = []"
  by (simp add: corpus_row_def corpus_button_def)

lemma corpus_form_dialogs [simp]: "open_dialogs (corpus_form s) = []"
  by (simp add: corpus_form_def)

lemma corpus_view_dialogs: "open_dialogs (corpus_view r s) =
    (if cs_pendingAction s = None then [] else [corpus_dialog s])"
  by (auto simp: corpus_view_def corpus_dialog_def)

lemma corpus_dialog_handlers: "cs_pendingAction s \<noteq> None \<Longrightarrow>
    set (handlers (corpus_dialog s)) = {On_cancel CA_cancel, On_click CA_cancel, On_click CA_confirm}"
  unfolding corpus_dialog_def by (auto simp: confirm_dialog_handlers)

lemma corpus_row_handlers: "set (handlers (corpus_row r s e)) =
    (if r = Admin \<and> cs_busyHash s \<noteq> Some (ce_content_hash e)
     then {On_click (CA_ask Approve e), On_click (CA_ask Reject e)} else {})"
  by (auto simp: corpus_row_def corpus_button_def)

lemma corpus_form_handlers: "set (handlers (corpus_form s)) =
    {On_submit CA_submit, On_file CA_file_input, On_change CA_label_input}"
  by (auto simp: corpus_form_def)

lemma corpus_offers_confirming:
  "cs_pendingAction s \<noteq> None \<Longrightarrow> offers (corpus_view r s) a \<longleftrightarrow> a = CA_cancel \<or> a = CA_confirm"
  using corpus_view_dialogs [of r s] by (auto simp: offers_in_dialog corpus_dialog_handlers)

lemma corpus_offers_idle:
  assumes "cs_pendingAction s = None"
  shows "offers (corpus_view r s) a \<longleftrightarrow>
    a = CA_submit \<or> (\<exists>v. a = CA_file_input v) \<or> (\<exists>v. a = CA_label_input v) \<or>
    (\<exists>d e. a = CA_ask d e \<and> r = Admin \<and> \<not> cs_loading s \<and> e \<in> set (cs_entries s) \<and>
       cs_busyHash s \<noteq> Some (ce_content_hash e))"
proof -
  have ask: "(\<exists>h \<in> set (handlers (corpus_row r s e)). fires h a) \<longleftrightarrow>
      r = Admin \<and> cs_busyHash s \<noteq> Some (ce_content_hash e) \<and> (\<exists>d. a = CA_ask d e)" for e
    by (auto simp: corpus_row_handlers) (metis decision.exhaust)
  have form: "(\<exists>h \<in> set (handlers (corpus_form s)). fires h a) \<longleftrightarrow>
      a = CA_submit \<or> (\<exists>v. a = CA_file_input v) \<or> (\<exists>v. a = CA_label_input v)"
    by (auto simp: corpus_form_handlers)
  have "offers (corpus_view r s) a \<longleftrightarrow> (\<exists>h \<in> set (handlers (corpus_view r s)). fires h a)"
    using assms by (simp add: offers_without_dialog corpus_view_dialogs)
  also have "\<dots> \<longleftrightarrow> (\<exists>h \<in> set (handlers (corpus_form s)). fires h a) \<or>
      \<not> cs_loading s \<and> (\<exists>e \<in> set (cs_entries s). \<exists>h \<in> set (handlers (corpus_row r s e)). fires h a)"
    using assms by (auto simp: corpus_view_def corpus_dialog_def bex_Un)
  finally show ?thesis unfolding ask form by blast
qed

subsection \<open>The contract of the panel\<close>

definition corpus_armed :: "corpus_state \<Rightarrow> api_call option" where
  "corpus_armed s = map_option (\<lambda>p. corpus_decide (ca_decide p) (ca_contentHash p)) (cs_pendingAction s)"

definition corpus_eligible :: "corpus_entry \<Rightarrow> api_call \<Rightarrow> bool" where
  "corpus_eligible e c \<longleftrightarrow>
     c = Approve_corpus_entry (ce_content_hash e) \<or> c = Reject_corpus_entry (ce_content_hash e)"

lemma corpus_armed_cong: "cs_pendingAction s' = cs_pendingAction s \<Longrightarrow> corpus_armed s' = corpus_armed s"
  and corpus_armed_None: "cs_pendingAction s = None \<Longrightarrow> corpus_armed s = None"
  and corpus_armed_Some: "cs_pendingAction s = Some p \<Longrightarrow>
    corpus_armed s = Some (corpus_decide (ca_decide p) (ca_contentHash p))"
  by (simp_all add: corpus_armed_def)

lemma corpus_decide_decision [simp]: "is_decision (corpus_decide d h)"
  by (cases d) (simp_all add: corpus_decide_def)

lemma corpus_decide_eligible: "corpus_eligible e (corpus_decide d (ce_content_hash e))"
  by (cases d) (simp_all add: corpus_eligible_def corpus_decide_def)

text \<open>The actions a user can take, with what the view says about when.\<close>

lemma corpus_offersE:
  assumes "offers (corpus_view r s) a"
  obtains (confirm) "a = CA_confirm" "cs_pendingAction s \<noteq> None"
  | (cancel) "a = CA_cancel" "cs_pendingAction s \<noteq> None"
  | (submit) "a = CA_submit" "cs_pendingAction s = None"
  | (file_input) v where "a = CA_file_input v" "cs_pendingAction s = None"
  | (label_input) v where "a = CA_label_input v" "cs_pendingAction s = None"
  | (ask) d e where "a = CA_ask d e" "r = Admin" "cs_pendingAction s = None"
      "e \<in> set (cs_entries s)"
proof (cases "cs_pendingAction s = None")
  case True
  with corpus_offers_idle [OF True] assms show thesis
    by (auto intro: that)
next
  case False
  with corpus_offers_confirming [OF False] assms show thesis by (auto intro: that)
qed

lemma corpus_user_laws:
  assumes "offers (corpus_view r s) a" and "corpus_handle a s = (s', out)"
  shows "cs_entries s' = cs_entries s \<and> listed out = {} \<and>
    (\<forall>c. corpus_armed s' = Some c \<longrightarrow>
      corpus_armed s = Some c \<or> r = Admin \<and> (\<exists>e \<in> set (cs_entries s). corpus_eligible e c)) \<and>
    (\<forall>c \<in> set (decisions out). corpus_armed s = Some c)"
  using assms(1)
proof (cases rule: corpus_offersE)
  case (ask d e)
  with assms(2) show ?thesis
    by (auto simp: corpus_handle_def corpus_armed_def intro!: bexI [of _ e] corpus_decide_eligible)
next
  case confirm
  with assms(2) show ?thesis
    by (auto simp: corpus_handle_def corpus_runDecision_def corpus_armed_Some
        intro: corpus_armed_cong [THEN trans])
next
  case submit
  then have "corpus_armed s' = None" "corpus_armed s = None"
    using assms(2)
    by (auto simp: corpus_handler_defs corpus_armed_None split: if_splits option.splits)
  with submit assms(2) show ?thesis
    by (auto simp: corpus_handler_defs split: if_splits option.splits)
qed (use assms(2) in \<open>auto simp: corpus_handle_def corpus_armed_None\<close>)

lemma corpus_decided_cases:
  "corpus_decided ok s = (s', out) \<Longrightarrow>
     cs_pendingAction s' = None \<and> cs_busyHash s' = None \<and> cs_entries s' = cs_entries s \<and>
     cs_loading s' = cs_loading s \<and> set (cs_inflight s) \<subseteq> set (cs_inflight s') \<and>
     decisions out = [] \<and> listed out = {}"
  by (auto simp: corpus_handler_defs split: sum.splits if_splits)

lemma corpus_submitted_cases:
  "corpus_submitted ok s = (s', out) \<Longrightarrow>
     cs_pendingAction s' = cs_pendingAction s \<and> cs_busyHash s' = cs_busyHash s \<and>
     cs_entries s' = cs_entries s \<and> cs_loading s' = cs_loading s \<and>
     set (cs_inflight s) \<subseteq> set (cs_inflight s') \<and> decisions out = [] \<and> listed out = {}"
  by (auto simp: corpus_handler_defs split: sum.splits if_splits)

lemma corpus_refetched_cases:
  "corpus_refetched ans s = (s', out) \<Longrightarrow>
     cs_pendingAction s' = cs_pendingAction s \<and> cs_busyHash s' = cs_busyHash s \<and>
     set (cs_entries s') \<subseteq> set (cs_entries s) \<union> listed out \<and> \<not> cs_loading s' \<and>
     cs_inflight s' = cs_inflight s \<and> decisions out = []"
  by (auto simp: corpus_handler_defs split: sum.splits if_splits)

lemma corpus_refetch_cases:
  "corpus_refetch s = (s', out) \<Longrightarrow>
     cs_pendingAction s' = cs_pendingAction s \<and> cs_busyHash s' = cs_busyHash s \<and>
     cs_entries s' = cs_entries s \<and> cs_loading s' = cs_loading s \<and>
     cs_inflight s' = cs_inflight s @ [CC_refetch] \<and> out = [Call Fetch_corpus_pending]"
  by (auto simp: corpus_refetch_def)

lemma corpus_settle_laws:
  assumes "corpus_settle s out s'"
  shows "set (cs_entries s') \<subseteq> set (cs_entries s) \<union> listed out \<and>
    (\<forall>c. corpus_armed s' = Some c \<longrightarrow> corpus_armed s = Some c) \<and> decisions out = []"
  using assms
proof cases
  case (refetched xs ys ans)
  from corpus_refetched_cases [OF this(2)] show ?thesis by (simp add: corpus_armed_cong [of s' s])
next
  case (decided xs ys ok)
  from corpus_decided_cases [OF this(2)] show ?thesis by (simp add: corpus_armed_None)
next
  case (submitted xs ys ok)
  from corpus_submitted_cases [OF this(2)] show ?thesis by (simp add: corpus_armed_cong [of s' s])
qed

lemma corpus_step_laws:
  assumes "corpus_step r s out s'"
  shows "set (cs_entries s') \<subseteq> set (cs_entries s) \<union> listed out \<and>
    (\<forall>c. corpus_armed s' = Some c \<longrightarrow>
      corpus_armed s = Some c \<or> r = Admin \<and> (\<exists>e \<in> set (cs_entries s). corpus_eligible e c)) \<and>
    (\<forall>c \<in> set (decisions out). corpus_armed s = Some c)"
  using assms
proof cases
  case (user a)
  from corpus_user_laws [OF this] show ?thesis by simp
next
  case refresh
  from corpus_refetch_cases [OF this] show ?thesis by (simp add: corpus_armed_cong [of s' s])
next
  case settle
  from corpus_settle_laws [OF this] show ?thesis by auto
qed

interpretation corpus_panel: review_panel corpus_init "corpus_step r" cs_entries corpus_armed corpus_eligible
proof unfold_locales
  show "cs_entries s = [] \<and> corpus_armed s = None" if "corpus_init s" for s
    using that by (simp add: corpus_init_def corpus_refetch_def corpus_start_def corpus_armed_def)
qed (use corpus_step_laws in blast)+

interpretation corpus_analyst:
  analyst_panel corpus_init "corpus_step Analyst" cs_entries corpus_armed corpus_eligible
proof unfold_locales
  show "corpus_armed s' = None" if "corpus_step Analyst s out s'" "corpus_armed s = None" for s out s'
    using corpus_step_laws [OF that(1)] that(2) by (cases "corpus_armed s'") auto
qed

subsection \<open>Marks, listings and submissions\<close>

definition corpus_live :: "corpus_entry panel_effect list \<Rightarrow> corpus_state \<Rightarrow> bool" where
  "corpus_live os s \<longleftrightarrow>
     (cs_busyHash s \<noteq> None \<longrightarrow> CC_decide \<in> set (cs_inflight s)) \<and>
     (cs_loading s \<longrightarrow> CC_refetch \<in> set (cs_inflight s)) \<and>
     (\<forall>p. cs_pendingAction s = Some p \<longrightarrow> ca_verb p = verb_str (ca_decide p)) \<and>
     (\<forall>e \<in> listed os. ce_status e = Pending) \<and>
     (\<forall>f l. Call (Submit_corpus_sample f l) \<in> set os \<longrightarrow>
        0 < file_size f \<and> file_size f \<le> MAX_CORPUS_SAMPLE_BYTES \<and> trim l = l)"

lemma corpus_no_submit:
  "corpus_decided ok s = (s', out) \<Longrightarrow> Call (Submit_corpus_sample f l) \<notin> set out"
  "corpus_submitted ok s = (s', out) \<Longrightarrow> Call (Submit_corpus_sample f l) \<notin> set out"
  "corpus_refetched ans s = (s', out) \<Longrightarrow> Call (Submit_corpus_sample f l) \<notin> set out"
  "corpus_refetched ans s = (s', out) \<Longrightarrow> e \<in> listed out \<Longrightarrow> ce_status e = Pending"
  by (auto simp: corpus_handler_defs corpus_pending_def split: sum.splits if_splits)

lemma corpus_live_user:
  assumes "corpus_live os s" and "offers (corpus_view r s) a" and "corpus_handle a s = (s', out)"
  shows "corpus_live (os @ out) s'"
  using assms(2)
proof (cases rule: corpus_offersE)
  case confirm
  with assms(1,3) show ?thesis
    by (auto simp: corpus_live_def corpus_handle_def corpus_runDecision_def corpus_decide_def
        split: decision.splits)
next
  case submit
  with assms(1,3) show ?thesis
    by (auto simp: corpus_live_def corpus_handler_defs trim_trim split: if_splits option.splits)
qed (use assms(1,3) in \<open>auto simp: corpus_live_def corpus_handle_def\<close>)

lemma corpus_live_settle:
  assumes "corpus_live os s" and "corpus_settle s out s'"
  shows "corpus_live (os @ out) s'"
  using assms(2)
proof cases
  case (refetched xs ys ans)
  from corpus_refetched_cases [OF this(2)] corpus_no_submit(3,4) [OF this(2)] assms(1) this(1)
  show ?thesis by (auto simp: corpus_live_def)
next
  case (decided xs ys ok)
  from corpus_decided_cases [OF this(2)] corpus_no_submit(1) [OF this(2)] assms(1) this(1)
  show ?thesis by (auto simp: corpus_live_def)
next
  case (submitted xs ys ok)
  from corpus_submitted_cases [OF this(2)] corpus_no_submit(2) [OF this(2)] assms(1) this(1)
  show ?thesis by (auto simp: corpus_live_def)
qed

lemma corpus_live_step:
  assumes "corpus_live os s" and "corpus_step r s out s'"
  shows "corpus_live (os @ out) s'"
  using assms(2)
proof cases
  case (user a)
  with assms(1) show ?thesis by (rule corpus_live_user)
next
  case refresh
  from corpus_refetch_cases [OF this] assms(1) show ?thesis by (auto simp: corpus_live_def)
next
  case settle
  with assms(1) show ?thesis by (rule corpus_live_settle)
qed

interpretation corpus_liveness: invariant_system corpus_init "corpus_step r" corpus_live
proof unfold_locales
  show "corpus_live [] s" if "corpus_init s" for s
    using that by (simp add: corpus_init_def corpus_refetch_def corpus_start_def corpus_live_def)
qed (rule corpus_live_step)

subsection \<open>Settling\<close>

text \<open>The promises in flight; a decision or submission counts for the listing requests that it may lead
  to, here and, through \<open>onDecision\<close>, in the panel on screen.\<close>

definition corpus_weight :: "corpus_state \<Rightarrow> nat" where
  "corpus_weight s = sum_list (map (\<lambda>c. case c of CC_refetch \<Rightarrow> 1 | _ \<Rightarrow> 4) (cs_inflight s))"

interpretation corpus_settling: settling corpus_settle corpus_weight
proof unfold_locales
  show "corpus_weight s' < corpus_weight s" if "corpus_settle s out s'" for s out s'
    using that by cases (auto simp: corpus_weight_def corpus_handler_defs split: sum.splits if_splits)
next
  fix s :: corpus_state
  assume "0 < corpus_weight s"
  then obtain c cs where "cs_inflight s = [] @ c # cs" by (cases "cs_inflight s") (auto simp: corpus_weight_def)
  then show "\<exists>out s'. corpus_settle s out s'"
    by (cases c) (metis corpus_settle.intros surj_pair)+
qed

subsection \<open>A run of the component\<close>

definition demo_sample :: corpus_entry where
  "demo_sample = \<lparr>ce_content_hash = replicate 64 98, ce_label = [], ce_status = Pending,
     ce_source = Manual, ce_proposed_at = js ''2026-10-22'', ce_reviewed_at = None, ce_size = 12,
     ce_preview = js ''#!/bin/sh''\<rparr>"

definition demo_file :: js_file where
  "demo_file = \<lparr>file_name = js ''s.sh'', file_size = 4, file_bytes = Inr [0, 255, 104, 105]\<rparr>"

text \<open>A listing with one decided and one pending sample, then a submission.\<close>

definition corpus_listed :: corpus_state where
  "corpus_listed = corpus_start\<lparr>cs_entries := [demo_sample], cs_loading := False\<rparr>"

definition corpus_chosen :: corpus_state where
  "corpus_chosen = corpus_listed\<lparr>cs_fileInput := Some demo_file\<rparr>"

definition corpus_sent :: corpus_state where
  "corpus_sent = corpus_chosen\<lparr>cs_inflight := [CC_submit]\<rparr>"

definition corpus_asked :: corpus_state where
  "corpus_asked = fst (corpus_handle (CA_ask Reject demo_sample) corpus_listed)"

lemmas corpus_demo_defs = corpus_listed_def corpus_chosen_def corpus_sent_def corpus_asked_def
  demo_sample_def demo_file_def corpus_start_def corpus_init_def corpus_handler_defs
  corpus_pending_def corpus_decide_def MAX_CORPUS_SAMPLE_BYTES_def trim_def

lemma corpus_run_listed: "reach corpus_init (corpus_step r) [Entries_change [demo_sample]] corpus_listed"
proof -
  have "reach corpus_init (corpus_step r) [] (fst (corpus_refetch corpus_start))"
    by (rule reach_init) (simp add: corpus_init_def)
  moreover have "corpus_step r (fst (corpus_refetch corpus_start)) [Entries_change [demo_sample]] corpus_listed"
    by (rule corpus_step.settle, rule refetched [where xs = "[]" and ys = "[]" and
          ans = "Inr [demo_sample\<lparr>ce_status := Approved\<rparr>, demo_sample]"])
       (simp_all add: corpus_demo_defs)
  ultimately show ?thesis using reach_step by fastforce
qed

lemma corpus_run_sent:
  "reach corpus_init (corpus_step r)
     [Entries_change [demo_sample], Call (Submit_corpus_sample demo_file [])] corpus_sent"
proof -
  have "offers (corpus_view r corpus_listed) (CA_file_input (Some demo_file))"
    by (subst corpus_offers_idle) (simp_all add: corpus_listed_def corpus_start_def)
  then have "corpus_step r corpus_listed [] corpus_chosen"
    by (rule user) (simp add: corpus_demo_defs)
  from reach_step [OF corpus_run_listed this]
  have "reach corpus_init (corpus_step r) [Entries_change [demo_sample]] corpus_chosen" by simp
  moreover have "offers (corpus_view r corpus_chosen) CA_submit"
    by (subst corpus_offers_idle) (simp_all add: corpus_chosen_def corpus_listed_def corpus_start_def)
  then have "corpus_step r corpus_chosen [Call (Submit_corpus_sample demo_file [])] corpus_sent"
    by (rule user) (simp add: corpus_demo_defs)
  ultimately show ?thesis using reach_step by fastforce
qed

lemma corpus_run_decided:
  "\<exists>s. reach corpus_init (corpus_step Admin)
     [Entries_change [demo_sample], Call (Reject_corpus_entry (ce_content_hash demo_sample))] s"
proof -
  have "offers (corpus_view Admin corpus_listed) (CA_ask Reject demo_sample)"
    by (subst corpus_offers_idle) (simp_all add: corpus_listed_def corpus_start_def)
  then have "corpus_step Admin corpus_listed [] corpus_asked"
    by (rule user) (simp add: corpus_demo_defs)
  from reach_step [OF corpus_run_listed this]
  have "reach corpus_init (corpus_step Admin) [Entries_change [demo_sample]] corpus_asked" by simp
  moreover have "offers (corpus_view Admin corpus_asked) CA_confirm"
    by (subst corpus_offers_confirming) (simp_all add: corpus_demo_defs)
  then have "corpus_step Admin corpus_asked [Call (Reject_corpus_entry (ce_content_hash demo_sample))]
      (fst (corpus_handle CA_confirm corpus_asked))"
    by (rule user) (simp add: corpus_demo_defs)
  ultimately show ?thesis using reach_step by fastforce
qed

subsection \<open>Properties\<close>

text \<open>Every approve or reject request the corpus panel ever sends names a sample that the server
  had listed as pending, and a panel rendered for an analyst sends none at all.\<close>

theorem corpus_decisions_listed_pending:
  assumes "reach corpus_init (corpus_step r) os s" and "c \<in> set (decisions os)"
  shows "r = Admin \<and> (\<exists>e \<in> listed os. ce_status e = Pending \<and>
    (c = Approve_corpus_entry (ce_content_hash e) \<or> c = Reject_corpus_entry (ce_content_hash e)))"
proof -
  have "r = Admin" using corpus_analyst.no_decision assms by (cases r) auto
  moreover obtain e where "e \<in> listed os" "corpus_eligible e c"
    using corpus_panel.provenance [OF assms(1)] assms(2) by blast
  moreover have "ce_status e = Pending"
    using corpus_liveness.reach_inv [OF assms(1)] \<open>e \<in> listed os\<close> by (simp add: corpus_live_def)
  ultimately show ?thesis by (auto simp: corpus_eligible_def)
qed

theorem corpus_decisions_listed_pending_witness:
  "\<exists>e \<in> listed [Entries_change [demo_sample], Call (Reject_corpus_entry (ce_content_hash demo_sample))].
     ce_status e = Pending \<and> (Reject_corpus_entry (ce_content_hash demo_sample) = Approve_corpus_entry (ce_content_hash e)
       \<or> Reject_corpus_entry (ce_content_hash demo_sample) = Reject_corpus_entry (ce_content_hash e))"
proof -
  from corpus_run_decided obtain s where "reach corpus_init (corpus_step Admin)
     [Entries_change [demo_sample], Call (Reject_corpus_entry (ce_content_hash demo_sample))] s" ..
  from corpus_decisions_listed_pending [OF this, of "Reject_corpus_entry (ce_content_hash demo_sample)"]
  show ?thesis by simp
qed

text \<open>Every sample the form submits has between 1 byte and 64 KB and a label without surrounding
  blanks; rows are blocked only while a decision is in flight and the skeleton shows only while a
  listing is.\<close>

theorem corpus_submissions_sized:
  assumes "reach corpus_init (corpus_step r) os s"
  shows "(\<forall>f l. Call (Submit_corpus_sample f l) \<in> set os \<longrightarrow>
      0 < file_size f \<and> file_size f \<le> 65536 \<and> trim l = l) \<and>
    (cs_busyHash s \<noteq> None \<longrightarrow> CC_decide \<in> set (cs_inflight s)) \<and>
    (cs_loading s \<longrightarrow> CC_refetch \<in> set (cs_inflight s))"
  using corpus_liveness.reach_inv [OF assms]
  by (simp add: corpus_live_def MAX_CORPUS_SAMPLE_BYTES_def)

theorem corpus_submissions_sized_witness:
  "0 < file_size demo_file \<and> file_size demo_file \<le> 65536 \<and> \<not> cs_loading corpus_sent"
  using corpus_submissions_sized [OF corpus_run_sent [of Analyst]]
  by (auto simp: corpus_sent_def corpus_chosen_def corpus_listed_def)

end
