(* ===== verification/QuarantinePanel.thy ===== *)
theory QuarantinePanel
  imports Panels JsNum
begin

text \<open>
  \<open>QuarantineReview.tsx\<close>: the files the interceptor holds for a human decision.  Same structure as
  \<open>HashPanel\<close> without a form; entries are identified by a number.
\<close>

text \<open>\<open>PendingAction\<close>: \<open>decide\<close> is \<open>approveQuarantine\<close> or \<open>rejectQuarantine\<close>.\<close>

record quarantine_action =
  qa_id :: int
  qa_filename :: jsstr
  qa_decide :: decision
  qa_verb :: jsstr

datatype quarantine_cont = QC_refetch | QC_decide

record quarantine_state =
  qs_entries :: "quarantine_entry list"
  qs_busyId :: "int option"
  qs_error :: "jsstr option"
  qs_pendingAction :: "quarantine_action option"
  qs_loading :: bool
  qs_inflight :: "quarantine_cont list"

type_synonym quarantine_out = "quarantine_state \<times> quarantine_entry panel_effect list"

definition quarantine_start :: quarantine_state where
  "quarantine_start = \<lparr>qs_entries = [], qs_busyId = None, qs_error = None, qs_pendingAction = None,
     qs_loading = True, qs_inflight = []\<rparr>"

definition quarantine_decide :: "decision \<Rightarrow> int \<Rightarrow> api_call" where
  "quarantine_decide d i = (case d of Approve \<Rightarrow> Approve_quarantine i | Reject \<Rightarrow> Reject_quarantine i)"

subsection \<open>The handlers\<close>

definition quarantine_refetch :: "quarantine_state \<Rightarrow> quarantine_out" where
  "quarantine_refetch s =
     (s\<lparr>qs_inflight := qs_inflight s @ [QC_refetch]\<rparr>, [Call Fetch_quarantine_pending])"

definition quarantine_refetched :: "js_exn + quarantine_entry list \<Rightarrow> quarantine_state \<Rightarrow> quarantine_out" where
  "quarantine_refetched r s = (case r of
     Inr entries \<Rightarrow>
       (s\<lparr>qs_entries := entries, qs_error := None, qs_loading := False\<rparr>, [Entries_change entries])
   | Inl e \<Rightarrow>
       if is_status 401 e then (s\<lparr>qs_loading := False\<rparr>, [Session_expired])
       else if is_status 403 e then (s\<lparr>qs_loading := False\<rparr>, [Push (js ''Admins only'') Tone_error])
       else (s\<lparr>qs_error := Some (exn_message e (js ''failed to load quarantined files'')),
               qs_loading := False\<rparr>, []))"

definition quarantine_runDecision :: "int \<Rightarrow> decision \<Rightarrow> quarantine_state \<Rightarrow> quarantine_out" where
  "quarantine_runDecision i d s =
     (s\<lparr>qs_busyId := Some i, qs_error := None, qs_inflight := qs_inflight s @ [QC_decide]\<rparr>,
      [Call (quarantine_decide d i)])"

definition quarantine_decided :: "js_exn + unit \<Rightarrow> quarantine_state \<Rightarrow> quarantine_out" where
  "quarantine_decided r s =
     (let (s1, out) = (case r of
         Inr _ \<Rightarrow> let (s2, out2) = quarantine_refetch s in (s2, out2 @ [Decision_made])
       | Inl e \<Rightarrow>
           if is_status 401 e then (s, [Session_expired])
           else if is_status 403 e then (s, [Push (js ''Admins only'') Tone_error])
           else (s\<lparr>qs_error := Some (exn_message e (js ''action failed''))\<rparr>, []))
      in (s1\<lparr>qs_busyId := None, qs_pendingAction := None\<rparr>, out))"

subsection \<open>The rendered tree and the user's actions\<close>

datatype quarantine_act = QA_ask decision quarantine_entry | QA_confirm | QA_cancel

definition quarantine_handle :: "quarantine_act \<Rightarrow> quarantine_state \<Rightarrow> quarantine_out" where
  "quarantine_handle a s = (case a of
     QA_ask d e \<Rightarrow> (s\<lparr>qs_pendingAction := Some \<lparr>qa_id = qe_id e, qa_filename = qe_filename e,
        qa_decide = d, qa_verb = verb_str d\<rparr>\<rparr>, [])
   | QA_confirm \<Rightarrow> (case qs_pendingAction s of
        None \<Rightarrow> (s, []) | Some p \<Rightarrow> quarantine_runDecision (qa_id p) (qa_decide p) s)
   | QA_cancel \<Rightarrow> (s\<lparr>qs_pendingAction := None\<rparr>, []))"

definition quarantine_button :: "decision \<Rightarrow> quarantine_entry \<Rightarrow> quarantine_state \<Rightarrow> quarantine_act node" where
  "quarantine_button d e s = El ''button''
     [Attr ''type'' ''button'',
      Attr ''className'' (case d of Approve \<Rightarrow> ''approve-button'' | Reject \<Rightarrow> ''reject-button''),
      Flag ''disabled'' (qs_busyId s = Some (qe_id e)), On_click (QA_ask d e)]
     [Text (verb_str d)]"

definition quarantine_row :: "role \<Rightarrow> quarantine_state \<Rightarrow> quarantine_entry \<Rightarrow> quarantine_act node" where
  "quarantine_row r s e = El ''tr'' [Val ''key'' (dec_int (qe_id e))]
     ([El ''td'' [] [Text (qe_filename e)],
       El ''td'' [] [copy_hash_ref (qe_sample_hash e) ''Quarantined file hash''],
       El ''td'' [] [Text (qe_verdict_label e), Lit '' '',
         El ''span'' [Attr ''className'' ''mono'']
           [Lit ''('', Text (toFixed 2 (qe_confidence e)), Lit '')'']],
       El ''td'' [Attr ''className'' ''mono''] [Text (qe_original_path e)],
       El ''td'' [Attr ''className'' ''mono''] [Text (qe_created_at e)]]
      @ show_if (r = Admin) [El ''td'' [] [quarantine_button Approve e s, quarantine_button Reject e s]])"

definition quarantine_dialog :: "quarantine_state \<Rightarrow> quarantine_act node" where
  "quarantine_dialog s = confirm_dialog (qs_pendingAction s \<noteq> None)
     ((case qs_pendingAction s of None \<Rightarrow> [] | Some p \<Rightarrow> qa_verb p) @ js '' this file?'')
     (case qs_pendingAction s of None \<Rightarrow> [] | Some p \<Rightarrow>
        [El ''p'' [] [Text (qa_filename p)],
         El ''p'' [] [Lit (if qa_verb p = js ''Approve''
           then ''It will be released back to its original location.''
           else ''It stays quarantined and will not be released.'')]])
     (case qs_pendingAction s of None \<Rightarrow> js ''Confirm'' | Some p \<Rightarrow> qa_verb p)
     QA_confirm QA_cancel"

definition quarantine_empty_copy :: jsstr where
  "quarantine_empty_copy = js ''No files awaiting review. Anything the interceptor couldn't confidently clear or condemn shows up here.''"

definition quarantine_view :: "role \<Rightarrow> quarantine_state \<Rightarrow> quarantine_act node" where
  "quarantine_view r s = card ''Quarantined downloads''
     [El ''span'' [Attr ''className'' ''pending-count mono''] [Text (dec (length (qs_entries s)))]]
     (error_text (qs_error s)
      @ [if qs_loading s then skeleton 3
         else if qs_entries s = []
           then El ''p'' [Attr ''className'' ''empty-copy''] [Text quarantine_empty_copy]
         else El ''div'' [Attr ''className'' ''table-scroll'']
           [El ''table'' [Attr ''className'' ''hash-table'']
             [El ''thead'' [] [El ''tr'' [] (map (\<lambda>t. El ''th'' [] [Lit t])
                ([''File'', ''Hash'', ''Verdict'', ''Original path'', ''Quarantined'']
                 @ (if r = Admin then [''Action''] else [])))],
              El ''tbody'' [] (map (quarantine_row r s) (qs_entries s))]],
         quarantine_dialog s])"

subsection \<open>The steps of the component\<close>

text \<open>A promise in flight settles, in any order and with any answer.\<close>

inductive quarantine_settle :: "quarantine_state \<Rightarrow> quarantine_entry panel_effect list \<Rightarrow> quarantine_state \<Rightarrow> bool" where
  refetched: "qs_inflight s = xs @ QC_refetch # ys \<Longrightarrow>
     quarantine_refetched ans (s\<lparr>qs_inflight := xs @ ys\<rparr>) = (s', out) \<Longrightarrow> quarantine_settle s out s'"
| decided: "qs_inflight s = xs @ QC_decide # ys \<Longrightarrow>
     quarantine_decided ok (s\<lparr>qs_inflight := xs @ ys\<rparr>) = (s', out) \<Longrightarrow> quarantine_settle s out s'"

inductive quarantine_step ::
  "role \<Rightarrow> quarantine_state \<Rightarrow> quarantine_entry panel_effect list \<Rightarrow> quarantine_state \<Rightarrow> bool"
  for r :: role where
  user: "offers (quarantine_view r s) a \<Longrightarrow> quarantine_handle a s = (s', out) \<Longrightarrow>
     quarantine_step r s out s'"
| refresh: "quarantine_refetch s = (s', out) \<Longrightarrow> quarantine_step r s out s'"
| settle: "quarantine_settle s out s' \<Longrightarrow> quarantine_step r s out s'"

text \<open>The mount effect has issued the first request.\<close>

definition quarantine_init :: "quarantine_state \<Rightarrow> bool" where
  "quarantine_init s \<longleftrightarrow> s = fst (quarantine_refetch quarantine_start)"

lemmas quarantine_handler_defs = quarantine_refetch_def quarantine_refetched_def
  quarantine_runDecision_def quarantine_decided_def quarantine_handle_def Let_def

subsection \<open>What the view offers\<close>

lemma quarantine_row_dialogs [simp]: "open_dialogs (quarantine_row r s e) = []"
  by (simp add: quarantine_row_def quarantine_button_def)

lemma quarantine_view_dialogs: "open_dialogs (quarantine_view r s) =
    (if qs_pendingAction s = None then [] else [quarantine_dialog s])"
  by (auto simp: quarantine_view_def quarantine_dialog_def)

lemma quarantine_dialog_handlers: "qs_pendingAction s \<noteq> None \<Longrightarrow>
    set (handlers (quarantine_dialog s)) = {On_cancel QA_cancel, On_click QA_cancel, On_click QA_confirm}"
  unfolding quarantine_dialog_def by (auto simp: confirm_dialog_handlers)

lemma quarantine_row_handlers: "set (handlers (quarantine_row r s e)) =
    (if r = Admin \<and> qs_busyId s \<noteq> Some (qe_id e)
     then {On_click (QA_ask Approve e), On_click (QA_ask Reject e)} else {})"
  by (auto simp: quarantine_row_def quarantine_button_def)

lemma quarantine_offers_confirming:
  "qs_pendingAction s \<noteq> None \<Longrightarrow> offers (quarantine_view r s) a \<longleftrightarrow> a = QA_cancel \<or> a = QA_confirm"
  using quarantine_view_dialogs [of r s] by (auto simp: offers_in_dialog quarantine_dialog_handlers)

lemma quarantine_offers_idle:
  assumes "qs_pendingAction s = None"
  shows "offers (quarantine_view r s) a \<longleftrightarrow>
    (\<exists>d e. a = QA_ask d e \<and> r = Admin \<and> \<not> qs_loading s \<and> e \<in> set (qs_entries s) \<and>
       qs_busyId s \<noteq> Some (qe_id e))"
proof -
  have ask: "(\<exists>h \<in> set (handlers (quarantine_row r s e)). fires h a) \<longleftrightarrow>
      r = Admin \<and> qs_busyId s \<noteq> Some (qe_id e) \<and> (\<exists>d. a = QA_ask d e)" for e
    by (auto simp: quarantine_row_handlers) (metis decision.exhaust)
  have "offers (quarantine_view r s) a \<longleftrightarrow> (\<exists>h \<in> set (handlers (quarantine_view r s)). fires h a)"
    using assms by (simp add: offers_without_dialog quarantine_view_dialogs)
  also have "\<dots> \<longleftrightarrow>
      \<not> qs_loading s \<and> (\<exists>e \<in> set (qs_entries s). \<exists>h \<in> set (handlers (quarantine_row r s e)). fires h a)"
    using assms by (auto simp: quarantine_view_def quarantine_dialog_def)
  finally show ?thesis unfolding ask by blast
qed

subsection \<open>The contract of the panel\<close>

definition quarantine_armed :: "quarantine_state \<Rightarrow> api_call option" where
  "quarantine_armed s = map_option (\<lambda>p. quarantine_decide (qa_decide p) (qa_id p)) (qs_pendingAction s)"

definition quarantine_eligible :: "quarantine_entry \<Rightarrow> api_call \<Rightarrow> bool" where
  "quarantine_eligible e c \<longleftrightarrow> c = Approve_quarantine (qe_id e) \<or> c = Reject_quarantine (qe_id e)"

lemma quarantine_armed_cong: "qs_pendingAction s' = qs_pendingAction s \<Longrightarrow> quarantine_armed s' = quarantine_armed s"
  and quarantine_armed_None: "qs_pendingAction s = None \<Longrightarrow> quarantine_armed s = None"
  and quarantine_armed_Some: "qs_pendingAction s = Some p \<Longrightarrow>
    quarantine_armed s = Some (quarantine_decide (qa_decide p) (qa_id p))"
  by (simp_all add: quarantine_armed_def)

lemma quarantine_decide_decision [simp]: "is_decision (quarantine_decide d i)"
  by (cases d) (simp_all add: quarantine_decide_def)

lemma quarantine_decide_eligible: "quarantine_eligible e (quarantine_decide d (qe_id e))"
  by (cases d) (simp_all add: quarantine_eligible_def quarantine_decide_def)

lemma quarantine_offersE:
  assumes "offers (quarantine_view r s) a"
  obtains (confirm) "a = QA_confirm" "qs_pendingAction s \<noteq> None"
  | (cancel) "a = QA_cancel" "qs_pendingAction s \<noteq> None"
  | (ask) d e where "a = QA_ask d e" "r = Admin" "qs_pendingAction s = None" "e \<in> set (qs_entries s)"
proof (cases "qs_pendingAction s = None")
  case True
  with quarantine_offers_idle [OF True] assms show thesis by (auto intro: that)
next
  case False
  with quarantine_offers_confirming [OF False] assms show thesis by (auto intro: that)
qed

lemma quarantine_user_laws:
  assumes "offers (quarantine_view r s) a" and "quarantine_handle a s = (s', out)"
  shows "qs_entries s' = qs_entries s \<and> listed out = {} \<and>
    (\<forall>c. quarantine_armed s' = Some c \<longrightarrow>
      quarantine_armed s = Some c \<or> r = Admin \<and> (\<exists>e \<in> set (qs_entries s). quarantine_eligible e c)) \<and>
    (\<forall>c \<in> set (decisions out). quarantine_armed s = Some c)"
  using assms(1)
proof (cases rule: quarantine_offersE)
  case (ask d e)
  with assms(2) show ?thesis
    by (auto simp: quarantine_handle_def quarantine_armed_def intro!: bexI [of _ e] quarantine_decide_eligible)
next
  case confirm
  with assms(2) show ?thesis
    by (auto simp: quarantine_handle_def quarantine_runDecision_def quarantine_armed_Some
        intro: quarantine_armed_cong [THEN trans])
qed (use assms(2) in \<open>auto simp: quarantine_handle_def quarantine_armed_None\<close>)

lemma quarantine_decided_cases:
  "quarantine_decided ok s = (s', out) \<Longrightarrow>
     qs_pendingAction s' = None \<and> qs_busyId s' = None \<and> qs_entries s' = qs_entries s \<and>
     qs_loading s' = qs_loading s \<and> set (qs_inflight s) \<subseteq> set (qs_inflight s') \<and>
     decisions out = [] \<and> listed out = {}"
  by (auto simp: quarantine_handler_defs split: sum.splits if_splits)

lemma quarantine_refetched_cases:
  "quarantine_refetched ans s = (s', out) \<Longrightarrow>
     qs_pendingAction s' = qs_pendingAction s \<and> qs_busyId s' = qs_busyId s \<and>
     set (qs_entries s') \<subseteq> set (qs_entries s) \<union> listed out \<and> \<not> qs_loading s' \<and>
     qs_inflight s' = qs_inflight s \<and> decisions out = []"
  by (auto simp: quarantine_handler_defs split: sum.splits if_splits)

lemma quarantine_refetch_cases:
  "quarantine_refetch s = (s', out) \<Longrightarrow>
     qs_pendingAction s' = qs_pendingAction s \<and> qs_busyId s' = qs_busyId s \<and>
     qs_entries s' = qs_entries s \<and> qs_loading s' = qs_loading s \<and>
     qs_inflight s' = qs_inflight s @ [QC_refetch] \<and> out = [Call Fetch_quarantine_pending]"
  by (auto simp: quarantine_refetch_def)

lemma quarantine_settle_laws:
  assumes "quarantine_settle s out s'"
  shows "set (qs_entries s') \<subseteq> set (qs_entries s) \<union> listed out \<and>
    (\<forall>c. quarantine_armed s' = Some c \<longrightarrow> quarantine_armed s = Some c) \<and> decisions out = []"
  using assms
proof cases
  case (refetched xs ys ans)
  from quarantine_refetched_cases [OF this(2)] show ?thesis
    by (simp add: quarantine_armed_cong [of s' s])
next
  case (decided xs ys ok)
  from quarantine_decided_cases [OF this(2)] show ?thesis by (simp add: quarantine_armed_None)
qed

lemma quarantine_step_laws:
  assumes "quarantine_step r s out s'"
  shows "set (qs_entries s') \<subseteq> set (qs_entries s) \<union> listed out \<and>
    (\<forall>c. quarantine_armed s' = Some c \<longrightarrow>
      quarantine_armed s = Some c \<or> r = Admin \<and> (\<exists>e \<in> set (qs_entries s). quarantine_eligible e c)) \<and>
    (\<forall>c \<in> set (decisions out). quarantine_armed s = Some c)"
  using assms
proof cases
  case (user a)
  from quarantine_user_laws [OF this] show ?thesis by simp
next
  case refresh
  from quarantine_refetch_cases [OF this] show ?thesis by (simp add: quarantine_armed_cong [of s' s])
next
  case settle
  from quarantine_settle_laws [OF this] show ?thesis by auto
qed

interpretation quarantine_panel:
  review_panel quarantine_init "quarantine_step r" qs_entries quarantine_armed quarantine_eligible
proof unfold_locales
  show "qs_entries s = [] \<and> quarantine_armed s = None" if "quarantine_init s" for s
    using that by (simp add: quarantine_init_def quarantine_refetch_def quarantine_start_def
        quarantine_armed_def)
qed (use quarantine_step_laws in blast)+

interpretation quarantine_analyst:
  analyst_panel quarantine_init "quarantine_step Analyst" qs_entries quarantine_armed quarantine_eligible
proof unfold_locales
  show "quarantine_armed s' = None"
    if "quarantine_step Analyst s out s'" "quarantine_armed s = None" for s out s'
    using quarantine_step_laws [OF that(1)] that(2) by (cases "quarantine_armed s'") auto
qed

subsection \<open>Liveness\<close>

text \<open>A row is busy, and the table loading, only while a promise that clears the mark is in flight.\<close>

definition quarantine_live :: "quarantine_entry panel_effect list \<Rightarrow> quarantine_state \<Rightarrow> bool" where
  "quarantine_live os s \<longleftrightarrow>
     (qs_busyId s \<noteq> None \<longrightarrow> QC_decide \<in> set (qs_inflight s)) \<and>
     (qs_loading s \<longrightarrow> QC_refetch \<in> set (qs_inflight s))"

lemma quarantine_live_step:
  assumes "quarantine_live os s" and "quarantine_step r s out s'"
  shows "quarantine_live (os @ out) s'"
  using assms(2)
proof cases
  case (user a)
  from user(1) show ?thesis by (cases rule: quarantine_offersE)
    (use user(2) assms(1) in \<open>auto simp: quarantine_live_def quarantine_handle_def quarantine_runDecision_def\<close>)
next
  case refresh
  from quarantine_refetch_cases [OF this] assms(1) show ?thesis by (auto simp: quarantine_live_def)
next
  case settle
  then show ?thesis
  proof cases
    case (refetched xs ys ans)
    from quarantine_refetched_cases [OF this(2)] assms(1) this(1) show ?thesis
      by (auto simp: quarantine_live_def)
  next
    case (decided xs ys ok)
    from quarantine_decided_cases [OF this(2)] assms(1) this(1) show ?thesis
      by (auto simp: quarantine_live_def)
  qed
qed

interpretation quarantine_liveness: invariant_system quarantine_init "quarantine_step r" quarantine_live
proof unfold_locales
  show "quarantine_live [] s" if "quarantine_init s" for s
    using that by (simp add: quarantine_init_def quarantine_refetch_def quarantine_start_def quarantine_live_def)
qed (rule quarantine_live_step)

subsection \<open>Settling\<close>

text \<open>The promises in flight; a decision counts for the listing requests that it may lead to, here and,
  through \<open>onDecision\<close>, in the panel on screen.\<close>

definition quarantine_weight :: "quarantine_state \<Rightarrow> nat" where
  "quarantine_weight s = sum_list (map (\<lambda>c. case c of QC_refetch \<Rightarrow> 1 | QC_decide \<Rightarrow> 4) (qs_inflight s))"

interpretation quarantine_settling: settling quarantine_settle quarantine_weight
proof unfold_locales
  show "quarantine_weight s' < quarantine_weight s" if "quarantine_settle s out s'" for s out s'
    using that by cases (auto simp: quarantine_weight_def quarantine_handler_defs split: sum.splits if_splits)
next
  fix s :: quarantine_state
  assume "0 < quarantine_weight s"
  then obtain c cs where "qs_inflight s = [] @ c # cs" by (cases "qs_inflight s") (auto simp: quarantine_weight_def)
  then show "\<exists>out s'. quarantine_settle s out s'"
    by (cases c) (metis quarantine_settle.intros surj_pair)+
qed

subsection \<open>A run of the component\<close>

definition demo_held :: quarantine_entry where
  "demo_held = \<lparr>qe_id = 7, qe_sample_hash = replicate 64 99, qe_filename = js ''a.bin'',
     qe_original_path = js ''/home/u/a.bin'', qe_verdict_label = js ''Suspicious'',
     qe_confidence = 55 / 100, qe_status = Pending, qe_created_at = js ''2026-10-22''\<rparr>"

definition quarantine_listed :: quarantine_state where
  "quarantine_listed = quarantine_start\<lparr>qs_entries := [demo_held], qs_loading := False\<rparr>"

definition quarantine_asked :: quarantine_state where
  "quarantine_asked = fst (quarantine_handle (QA_ask Approve demo_held) quarantine_listed)"

lemmas quarantine_demo_defs = quarantine_listed_def quarantine_asked_def quarantine_start_def
  quarantine_handler_defs quarantine_decide_def demo_held_def

lemma quarantine_run_listed:
  "reach quarantine_init (quarantine_step r) [Entries_change [demo_held]] quarantine_listed"
proof -
  have "reach quarantine_init (quarantine_step r) [] (fst (quarantine_refetch quarantine_start))"
    by (rule reach_init) (simp add: quarantine_init_def)
  moreover have "quarantine_step r (fst (quarantine_refetch quarantine_start))
      [Entries_change [demo_held]] quarantine_listed"
    by (rule quarantine_step.settle, rule refetched [where xs = "[]" and ys = "[]" and ans = "Inr [demo_held]"])
       (simp_all add: quarantine_demo_defs)
  ultimately show ?thesis using reach_step by fastforce
qed

lemma quarantine_run_decided:
  "\<exists>s. reach quarantine_init (quarantine_step Admin)
     [Entries_change [demo_held], Call (Approve_quarantine 7)] s"
proof -
  have "offers (quarantine_view Admin quarantine_listed) (QA_ask Approve demo_held)"
    by (subst quarantine_offers_idle) (simp_all add: quarantine_listed_def quarantine_start_def)
  then have "quarantine_step Admin quarantine_listed [] quarantine_asked"
    by (rule user) (simp add: quarantine_demo_defs)
  from reach_step [OF quarantine_run_listed this]
  have "reach quarantine_init (quarantine_step Admin) [Entries_change [demo_held]] quarantine_asked"
    by simp
  moreover have "offers (quarantine_view Admin quarantine_asked) QA_confirm"
    by (subst quarantine_offers_confirming) (simp_all add: quarantine_demo_defs)
  then have "quarantine_step Admin quarantine_asked [Call (Approve_quarantine 7)]
      (fst (quarantine_handle QA_confirm quarantine_asked))"
    by (rule user) (simp add: quarantine_demo_defs)
  ultimately show ?thesis using reach_step by fastforce
qed

subsection \<open>Properties\<close>

text \<open>Every approve or reject request the quarantine panel ever sends names a file that the server
  had listed to this panel, and a panel rendered for an analyst sends none at all.\<close>

theorem quarantine_decisions_listed:
  assumes "reach quarantine_init (quarantine_step r) os s" and "c \<in> set (decisions os)"
  shows "r = Admin \<and> (\<exists>e \<in> listed os. c = Approve_quarantine (qe_id e) \<or> c = Reject_quarantine (qe_id e))"
proof -
  have "r = Admin" using quarantine_analyst.no_decision assms by (cases r) auto
  then show ?thesis
    using quarantine_panel.provenance [OF assms(1)] assms(2) by (auto simp: quarantine_eligible_def)
qed

theorem quarantine_decisions_listed_witness:
  "\<exists>e \<in> listed [Entries_change [demo_held], Call (Approve_quarantine 7)].
     Approve_quarantine 7 = Approve_quarantine (qe_id e) \<or> Approve_quarantine 7 = Reject_quarantine (qe_id e)"
proof -
  from quarantine_run_decided obtain s where "reach quarantine_init (quarantine_step Admin)
     [Entries_change [demo_held], Call (Approve_quarantine 7)] s" ..
  from quarantine_decisions_listed [OF this, of "Approve_quarantine 7"] show ?thesis by simp
qed

text \<open>A refused listing is indistinguishable from an empty quarantine: when the server answers the
  first listing with 403 (as it does for every analyst), the panel shows its "No files awaiting
  review" text and no error line; the only trace is a toast.\<close>

theorem quarantine_forbidden_looks_empty:
  assumes "quarantine_init s" and "qs_inflight s = [QC_refetch]"
  shows "\<exists>s'. quarantine_step r s [Push (js ''Admins only'') Tone_error] s' \<and>
    texts (quarantine_view r s') =
      texts (quarantine_view r (s\<lparr>qs_entries := [], qs_error := None, qs_loading := False\<rparr>)) \<and>
    quarantine_empty_copy \<in> set (texts (quarantine_view r s')) \<and> qs_error s' = None"
proof -
  let ?s' = "s\<lparr>qs_inflight := [], qs_loading := False\<rparr>"
  have "quarantine_step r s [Push (js ''Admins only'') Tone_error] ?s'"
    by (rule quarantine_step.settle, rule refetched [where xs = "[]" and ys = "[]" and ans = "Inl (Api_error [] 403)"])
       (simp_all add: quarantine_refetched_def assms(2))
  moreover have "qs_entries s = []" "qs_error s = None" "qs_pendingAction s = None"
    using assms(1) by (simp_all add: quarantine_init_def quarantine_refetch_def quarantine_start_def)
  ultimately show ?thesis
    by (intro exI [of _ ?s']) (simp add: quarantine_view_def quarantine_dialog_def error_text_def)
qed

theorem quarantine_forbidden_looks_empty_witness:
  "\<exists>s'. quarantine_step Analyst (fst (quarantine_refetch quarantine_start))
     [Push (js ''Admins only'') Tone_error] s' \<and>
     quarantine_empty_copy \<in> set (texts (quarantine_view Analyst s'))"
  using quarantine_forbidden_looks_empty [of "fst (quarantine_refetch quarantine_start)" Analyst]
  by (auto simp: quarantine_init_def quarantine_refetch_def quarantine_start_def)

end
