(* ===== verification/HashPanel.thy ===== *)
theory HashPanel
  imports Panels
begin

text \<open>
  \<open>PendingHashApprovals.tsx\<close>: the table of pending known-bad hashes, the decision dialog and the
  submission form.  \<open>hash_state\<close> holds the component's \<open>useState\<close> variables and the promises that
  are still in flight, each with the values its continuation captured.  The handlers are cut at
  their \<open>await\<close>: the part before it issues the request, the part after it runs when the promise
  settles, in any order.
\<close>

text \<open>\<open>PendingAction\<close>: \<open>decide\<close> is \<open>approveHash\<close> or \<open>rejectHash\<close>.\<close>

record hash_action =
  ha_hash :: jsstr
  ha_label :: jsstr
  ha_decide :: decision
  ha_verb :: jsstr

datatype hash_cont = HC_refetch | HC_decide | HC_submit

record hash_state =
  hs_entries :: "hash_entry list"
  hs_hashInput :: jsstr
  hs_labelInput :: jsstr
  hs_hashError :: "jsstr option"
  hs_busyHash :: "jsstr option"
  hs_error :: "jsstr option"
  hs_pendingAction :: "hash_action option"
  hs_loading :: bool
  hs_inflight :: "hash_cont list"

type_synonym hash_out = "hash_state \<times> hash_entry panel_effect list"

definition hash_start :: hash_state where
  "hash_start = \<lparr>hs_entries = [], hs_hashInput = [], hs_labelInput = [], hs_hashError = None,
     hs_busyHash = None, hs_error = None, hs_pendingAction = None, hs_loading = True,
     hs_inflight = []\<rparr>"

definition hash_decide :: "decision \<Rightarrow> jsstr \<Rightarrow> api_call" where
  "hash_decide d h = (case d of Approve \<Rightarrow> Approve_hash h | Reject \<Rightarrow> Reject_hash h)"

subsection \<open>The handlers\<close>

definition hash_refetch :: "hash_state \<Rightarrow> hash_out" where
  "hash_refetch s = (s\<lparr>hs_inflight := hs_inflight s @ [HC_refetch]\<rparr>, [Call Fetch_hashes])"

definition hash_refetched :: "js_exn + hash_entry list \<Rightarrow> hash_state \<Rightarrow> hash_out" where
  "hash_refetched r s = (case r of
     Inr entries \<Rightarrow>
       (s\<lparr>hs_entries := entries, hs_error := None, hs_loading := False\<rparr>, [Entries_change entries])
   | Inl e \<Rightarrow>
       if is_status 401 e then (s\<lparr>hs_loading := False\<rparr>, [Session_expired])
       else if is_status 403 e then (s\<lparr>hs_loading := False\<rparr>, [Push (js ''Admins only'') Tone_error])
       else (s\<lparr>hs_error := Some (exn_message e (js ''failed to load pending hashes'')),
               hs_loading := False\<rparr>, []))"

definition hash_runDecision :: "jsstr \<Rightarrow> decision \<Rightarrow> hash_state \<Rightarrow> hash_out" where
  "hash_runDecision h d s =
     (s\<lparr>hs_busyHash := Some h, hs_error := None, hs_inflight := hs_inflight s @ [HC_decide]\<rparr>,
      [Call (hash_decide d h)])"

text \<open>The \<open>finally\<close> block clears the busy mark and the dialog in every case.\<close>

definition hash_decided :: "js_exn + unit \<Rightarrow> hash_state \<Rightarrow> hash_out" where
  "hash_decided r s =
     (let (s1, out) = (case r of
         Inr _ \<Rightarrow> let (s2, out2) = hash_refetch s in (s2, out2 @ [Decision_made])
       | Inl e \<Rightarrow>
           if is_status 401 e then (s, [Session_expired])
           else if is_status 403 e then (s, [Push (js ''Admins only'') Tone_error])
           else (s\<lparr>hs_error := Some (exn_message e (js ''action failed''))\<rparr>, []))
      in (s1\<lparr>hs_busyHash := None, hs_pendingAction := None\<rparr>, out))"

definition hash_handleSubmit :: "hash_state \<Rightarrow> hash_out" where
  "hash_handleSubmit s =
     (let s1 = s\<lparr>hs_error := None\<rparr>; h = trim (hs_hashInput s)
      in if \<not> isValidSha256 h
         then (s1\<lparr>hs_hashError := Some (js ''Must be 64 lowercase hex characters (a SHA-256 hash).'')\<rparr>, [])
         else (s1\<lparr>hs_hashError := None, hs_inflight := hs_inflight s1 @ [HC_submit]\<rparr>,
               [Call (Submit_hash h (trim (hs_labelInput s)))]))"

definition hash_submitted :: "js_exn + unit \<Rightarrow> hash_state \<Rightarrow> hash_out" where
  "hash_submitted r s = (case r of
     Inr _ \<Rightarrow> hash_refetch (s\<lparr>hs_hashInput := [], hs_labelInput := []\<rparr>)
   | Inl e \<Rightarrow>
       if is_status 401 e then (s, [Session_expired])
       else if is_status 403 e then (s, [Push (js ''Admins only'') Tone_error])
       else (s\<lparr>hs_error := Some (exn_message e (js ''submit failed''))\<rparr>, []))"

definition hash_pending :: "hash_state \<Rightarrow> hash_entry list" where
  "hash_pending s = filter (\<lambda>e. he_status e = Pending) (hs_entries s)"

subsection \<open>The rendered tree and the user's actions\<close>

datatype hash_act =
    HA_ask decision hash_entry
  | HA_hash_input jsstr
  | HA_label_input jsstr
  | HA_submit
  | HA_confirm
  | HA_cancel

definition hash_handle :: "hash_act \<Rightarrow> hash_state \<Rightarrow> hash_out" where
  "hash_handle a s = (case a of
     HA_ask d e \<Rightarrow> (s\<lparr>hs_pendingAction := Some \<lparr>ha_hash = he_hash e, ha_label = he_label e,
        ha_decide = d, ha_verb = verb_str d\<rparr>\<rparr>, [])
   | HA_hash_input v \<Rightarrow> (s\<lparr>hs_hashInput := v, hs_hashError := None\<rparr>, [])
   | HA_label_input v \<Rightarrow> (s\<lparr>hs_labelInput := v\<rparr>, [])
   | HA_submit \<Rightarrow> hash_handleSubmit s
   | HA_confirm \<Rightarrow> (case hs_pendingAction s of
        None \<Rightarrow> (s, []) | Some p \<Rightarrow> hash_runDecision (ha_hash p) (ha_decide p) s)
   | HA_cancel \<Rightarrow> (s\<lparr>hs_pendingAction := None\<rparr>, []))"

definition hash_button :: "decision \<Rightarrow> hash_entry \<Rightarrow> hash_state \<Rightarrow> hash_act node" where
  "hash_button d e s = El ''button''
     [Attr ''type'' ''button'',
      Attr ''className'' (case d of Approve \<Rightarrow> ''approve-button'' | Reject \<Rightarrow> ''reject-button''),
      Flag ''disabled'' (hs_busyHash s = Some (he_hash e)), On_click (HA_ask d e)]
     [Text (verb_str d)]"

definition hash_row :: "role \<Rightarrow> hash_state \<Rightarrow> hash_entry \<Rightarrow> hash_act node" where
  "hash_row r s e = El ''tr'' [Val ''key'' (he_hash e)]
     ([El ''td'' [] [copy_hash_ref (he_hash e) ''Proposed hash''],
       El ''td'' [] [Text (he_label e)],
       El ''td'' [] [Text (source_str (he_source e))],
       El ''td'' [Attr ''className'' ''mono''] [Text (he_proposed_at e)]]
      @ show_if (r = Admin) [El ''td'' [] [hash_button Approve e s, hash_button Reject e s]])"

definition hash_form :: "hash_state \<Rightarrow> hash_act node" where
  "hash_form s = El ''form'' [On_submit HA_submit, Attr ''className'' ''hash-form'']
     [El ''input'' [Attr ''placeholder'' ''sha256 hash'', Val ''value'' (hs_hashInput s),
        On_change HA_hash_input, Flag ''aria-invalid'' (hs_hashError s \<noteq> None)] [],
      El ''input'' [Attr ''placeholder'' ''label'', Val ''value'' (hs_labelInput s),
        On_change HA_label_input] [],
      El ''button'' [Attr ''type'' ''submit''] [Lit ''Submit for approval'']]"

definition hash_dialog :: "hash_state \<Rightarrow> hash_act node" where
  "hash_dialog s = confirm_dialog (hs_pendingAction s \<noteq> None)
     ((case hs_pendingAction s of None \<Rightarrow> [] | Some p \<Rightarrow> ha_verb p) @ js '' this hash?'')
     (case hs_pendingAction s of None \<Rightarrow> [] | Some p \<Rightarrow>
        [El ''p'' [Attr ''className'' ''mono confirm-dialog__hash''] [Text (ha_hash p)],
         El ''p'' [] [Text (if ha_label p = [] then js ''(no label)'' else ha_label p)]])
     (case hs_pendingAction s of None \<Rightarrow> js ''Confirm'' | Some p \<Rightarrow> ha_verb p)
     HA_confirm HA_cancel"

definition hash_view :: "role \<Rightarrow> hash_state \<Rightarrow> hash_act node" where
  "hash_view r s = card ''Pending hash approvals''
     [El ''span'' [Attr ''className'' ''pending-count mono''] [Text (dec (length (hash_pending s)))]]
     (error_text (hs_error s)
      @ [if hs_loading s then skeleton 3
         else if hash_pending s = []
           then El ''p'' [Attr ''className'' ''empty-copy''] [Lit ''No hashes awaiting review.'']
         else El ''div'' [Attr ''className'' ''table-scroll'']
           [El ''table'' [Attr ''className'' ''hash-table'']
             [El ''thead'' [] [El ''tr'' [] (map (\<lambda>t. El ''th'' [] [Lit t])
                ([''Hash'', ''Label'', ''Source'', ''Proposed''] @ (if r = Admin then [''Action''] else [])))],
              El ''tbody'' [] (map (hash_row r s) (hash_pending s))]],
         hash_form s]
      @ error_text (hs_hashError s)
      @ [hash_dialog s])"

subsection \<open>The steps of the component\<close>

text \<open>A promise in flight settles, in any order and with any answer.\<close>

inductive hash_settle :: "hash_state \<Rightarrow> hash_entry panel_effect list \<Rightarrow> hash_state \<Rightarrow> bool" where
  refetched: "hs_inflight s = xs @ HC_refetch # ys \<Longrightarrow>
     hash_refetched ans (s\<lparr>hs_inflight := xs @ ys\<rparr>) = (s', out) \<Longrightarrow> hash_settle s out s'"
| decided: "hs_inflight s = xs @ HC_decide # ys \<Longrightarrow>
     hash_decided ok (s\<lparr>hs_inflight := xs @ ys\<rparr>) = (s', out) \<Longrightarrow> hash_settle s out s'"
| submitted: "hs_inflight s = xs @ HC_submit # ys \<Longrightarrow>
     hash_submitted ok (s\<lparr>hs_inflight := xs @ ys\<rparr>) = (s', out) \<Longrightarrow> hash_settle s out s'"

inductive hash_step :: "role \<Rightarrow> hash_state \<Rightarrow> hash_entry panel_effect list \<Rightarrow> hash_state \<Rightarrow> bool"
  for r :: role where
  user: "offers (hash_view r s) a \<Longrightarrow> hash_handle a s = (s', out) \<Longrightarrow> hash_step r s out s'"
| refresh: "hash_refetch s = (s', out) \<Longrightarrow> hash_step r s out s'"
| settle: "hash_settle s out s' \<Longrightarrow> hash_step r s out s'"

text \<open>The mount effect has issued the first request.\<close>

definition hash_init :: "hash_state \<Rightarrow> bool" where
  "hash_init s \<longleftrightarrow> s = fst (hash_refetch hash_start)"

lemmas hash_handler_defs = hash_refetch_def hash_refetched_def hash_runDecision_def hash_decided_def
  hash_handleSubmit_def hash_submitted_def hash_handle_def Let_def

subsection \<open>What the view offers\<close>

lemma hash_row_dialogs [simp]: "open_dialogs (hash_row r s e) = []"
  by (simp add: hash_row_def hash_button_def)

lemma hash_form_dialogs [simp]: "open_dialogs (hash_form s) = []"
  by (simp add: hash_form_def)

lemma hash_view_dialogs: "open_dialogs (hash_view r s) =
    (if hs_pendingAction s = None then [] else [hash_dialog s])"
  by (auto simp: hash_view_def hash_dialog_def)

lemma hash_dialog_handlers: "hs_pendingAction s \<noteq> None \<Longrightarrow>
    set (handlers (hash_dialog s)) = {On_cancel HA_cancel, On_click HA_cancel, On_click HA_confirm}"
  unfolding hash_dialog_def by (auto simp: confirm_dialog_handlers)

lemma hash_row_handlers: "set (handlers (hash_row r s e)) =
    (if r = Admin \<and> hs_busyHash s \<noteq> Some (he_hash e)
     then {On_click (HA_ask Approve e), On_click (HA_ask Reject e)} else {})"
  by (auto simp: hash_row_def hash_button_def)

lemma hash_form_handlers: "set (handlers (hash_form s)) =
    {On_submit HA_submit, On_change HA_hash_input, On_change HA_label_input}"
  by (auto simp: hash_form_def)

lemma hash_offers_confirming:
  "hs_pendingAction s \<noteq> None \<Longrightarrow> offers (hash_view r s) a \<longleftrightarrow> a = HA_cancel \<or> a = HA_confirm"
  using hash_view_dialogs [of r s] by (auto simp: offers_in_dialog hash_dialog_handlers)

lemma hash_offers_idle:
  assumes "hs_pendingAction s = None"
  shows "offers (hash_view r s) a \<longleftrightarrow>
    a = HA_submit \<or> (\<exists>v. a = HA_hash_input v) \<or> (\<exists>v. a = HA_label_input v) \<or>
    (\<exists>d e. a = HA_ask d e \<and> r = Admin \<and> \<not> hs_loading s \<and> e \<in> set (hash_pending s) \<and>
       hs_busyHash s \<noteq> Some (he_hash e))"
proof -
  have ask: "(\<exists>h \<in> set (handlers (hash_row r s e)). fires h a) \<longleftrightarrow>
      r = Admin \<and> hs_busyHash s \<noteq> Some (he_hash e) \<and> (\<exists>d. a = HA_ask d e)" for e
    by (auto simp: hash_row_handlers) (metis decision.exhaust)
  have form: "(\<exists>h \<in> set (handlers (hash_form s)). fires h a) \<longleftrightarrow>
      a = HA_submit \<or> (\<exists>v. a = HA_hash_input v) \<or> (\<exists>v. a = HA_label_input v)"
    by (auto simp: hash_form_handlers)
  have "offers (hash_view r s) a \<longleftrightarrow> (\<exists>h \<in> set (handlers (hash_view r s)). fires h a)"
    using assms by (simp add: offers_without_dialog hash_view_dialogs)
  also have "\<dots> \<longleftrightarrow> (\<exists>h \<in> set (handlers (hash_form s)). fires h a) \<or>
      \<not> hs_loading s \<and> (\<exists>e \<in> set (hash_pending s). \<exists>h \<in> set (handlers (hash_row r s e)). fires h a)"
    using assms by (auto simp: hash_view_def hash_dialog_def bex_Un)
  finally show ?thesis unfolding ask form by blast
qed

subsection \<open>The contract of the panel\<close>

definition hash_armed :: "hash_state \<Rightarrow> api_call option" where
  "hash_armed s = map_option (\<lambda>p. hash_decide (ha_decide p) (ha_hash p)) (hs_pendingAction s)"

definition hash_eligible :: "hash_entry \<Rightarrow> api_call \<Rightarrow> bool" where
  "hash_eligible e c \<longleftrightarrow>
     he_status e = Pending \<and> (c = Approve_hash (he_hash e) \<or> c = Reject_hash (he_hash e))"

lemma hash_armed_cong: "hs_pendingAction s' = hs_pendingAction s \<Longrightarrow> hash_armed s' = hash_armed s"
  and hash_armed_None: "hs_pendingAction s = None \<Longrightarrow> hash_armed s = None"
  and hash_armed_Some: "hs_pendingAction s = Some p \<Longrightarrow>
    hash_armed s = Some (hash_decide (ha_decide p) (ha_hash p))"
  by (simp_all add: hash_armed_def)

lemma hash_decide_decision [simp]: "is_decision (hash_decide d h)"
  by (cases d) (simp_all add: hash_decide_def)

lemma hash_decide_eligible: "he_status e = Pending \<Longrightarrow> hash_eligible e (hash_decide d (he_hash e))"
  by (cases d) (simp_all add: hash_eligible_def hash_decide_def)

text \<open>The actions a user can take, with what the view says about when.\<close>

lemma hash_offersE:
  assumes "offers (hash_view r s) a"
  obtains (confirm) "a = HA_confirm" "hs_pendingAction s \<noteq> None"
  | (cancel) "a = HA_cancel" "hs_pendingAction s \<noteq> None"
  | (submit) "a = HA_submit" "hs_pendingAction s = None"
  | (hash_input) v where "a = HA_hash_input v" "hs_pendingAction s = None"
  | (label_input) v where "a = HA_label_input v" "hs_pendingAction s = None"
  | (ask) d e where "a = HA_ask d e" "r = Admin" "hs_pendingAction s = None"
      "e \<in> set (hs_entries s)" "he_status e = Pending"
proof (cases "hs_pendingAction s = None")
  case True
  with hash_offers_idle [OF True] assms show thesis
    by (auto simp: hash_pending_def intro: that)
next
  case False
  with hash_offers_confirming [OF False] assms show thesis by (auto intro: that)
qed

lemma hash_user_laws:
  assumes "offers (hash_view r s) a" and "hash_handle a s = (s', out)"
  shows "hs_entries s' = hs_entries s \<and> listed out = {} \<and>
    (\<forall>c. hash_armed s' = Some c \<longrightarrow>
      hash_armed s = Some c \<or> r = Admin \<and> (\<exists>e \<in> set (hs_entries s). hash_eligible e c)) \<and>
    (\<forall>c \<in> set (decisions out). hash_armed s = Some c)"
  using assms(1)
proof (cases rule: hash_offersE)
  case (ask d e)
  with assms(2) show ?thesis
    by (auto simp: hash_handle_def hash_armed_def intro!: bexI [of _ e] hash_decide_eligible)
next
  case confirm
  with assms(2) show ?thesis
    by (auto simp: hash_handle_def hash_runDecision_def hash_armed_Some
        intro: hash_armed_cong [THEN trans])
next
  case submit
  then have "hash_armed s' = None" "hash_armed s = None"
    using assms(2) by (auto simp: hash_handler_defs hash_armed_None split: if_splits)
  with submit assms(2) show ?thesis by (auto simp: hash_handler_defs split: if_splits)
qed (use assms(2) in \<open>auto simp: hash_handle_def hash_armed_None\<close>)

lemma hash_decided_cases:
  "hash_decided ok s = (s', out) \<Longrightarrow>
     hs_pendingAction s' = None \<and> hs_busyHash s' = None \<and> hs_entries s' = hs_entries s \<and>
     hs_loading s' = hs_loading s \<and> set (hs_inflight s) \<subseteq> set (hs_inflight s') \<and>
     decisions out = [] \<and> listed out = {}"
  by (auto simp: hash_handler_defs split: sum.splits if_splits)

lemma hash_submitted_cases:
  "hash_submitted ok s = (s', out) \<Longrightarrow>
     hs_pendingAction s' = hs_pendingAction s \<and> hs_busyHash s' = hs_busyHash s \<and>
     hs_entries s' = hs_entries s \<and> hs_loading s' = hs_loading s \<and>
     set (hs_inflight s) \<subseteq> set (hs_inflight s') \<and> decisions out = [] \<and> listed out = {}"
  by (auto simp: hash_handler_defs split: sum.splits if_splits)

lemma hash_refetched_cases:
  "hash_refetched ans s = (s', out) \<Longrightarrow>
     hs_pendingAction s' = hs_pendingAction s \<and> hs_busyHash s' = hs_busyHash s \<and>
     set (hs_entries s') \<subseteq> set (hs_entries s) \<union> listed out \<and> \<not> hs_loading s' \<and>
     hs_inflight s' = hs_inflight s \<and> decisions out = []"
  by (auto simp: hash_handler_defs split: sum.splits if_splits)

lemma hash_refetch_cases:
  "hash_refetch s = (s', out) \<Longrightarrow>
     hs_pendingAction s' = hs_pendingAction s \<and> hs_busyHash s' = hs_busyHash s \<and>
     hs_entries s' = hs_entries s \<and> hs_loading s' = hs_loading s \<and>
     hs_inflight s' = hs_inflight s @ [HC_refetch] \<and> out = [Call Fetch_hashes]"
  by (auto simp: hash_refetch_def)

lemma hash_settle_laws:
  assumes "hash_settle s out s'"
  shows "set (hs_entries s') \<subseteq> set (hs_entries s) \<union> listed out \<and>
    (\<forall>c. hash_armed s' = Some c \<longrightarrow> hash_armed s = Some c) \<and> decisions out = []"
  using assms
proof cases
  case (refetched xs ys ans)
  from hash_refetched_cases [OF this(2)] show ?thesis by (simp add: hash_armed_cong [of s' s])
next
  case (decided xs ys ok)
  from hash_decided_cases [OF this(2)] show ?thesis by (simp add: hash_armed_None)
next
  case (submitted xs ys ok)
  from hash_submitted_cases [OF this(2)] show ?thesis by (simp add: hash_armed_cong [of s' s])
qed

lemma hash_step_laws:
  assumes "hash_step r s out s'"
  shows "set (hs_entries s') \<subseteq> set (hs_entries s) \<union> listed out \<and>
    (\<forall>c. hash_armed s' = Some c \<longrightarrow>
      hash_armed s = Some c \<or> r = Admin \<and> (\<exists>e \<in> set (hs_entries s). hash_eligible e c)) \<and>
    (\<forall>c \<in> set (decisions out). hash_armed s = Some c)"
  using assms
proof cases
  case (user a)
  from hash_user_laws [OF this] show ?thesis by simp
next
  case refresh
  from hash_refetch_cases [OF this] show ?thesis by (simp add: hash_armed_cong [of s' s])
next
  case settle
  from hash_settle_laws [OF this] show ?thesis by auto
qed

interpretation hash_panel: review_panel hash_init "hash_step r" hs_entries hash_armed hash_eligible
proof unfold_locales
  show "hs_entries s = [] \<and> hash_armed s = None" if "hash_init s" for s
    using that by (simp add: hash_init_def hash_refetch_def hash_start_def hash_armed_def)
qed (use hash_step_laws in blast)+

interpretation hash_analyst:
  analyst_panel hash_init "hash_step Analyst" hs_entries hash_armed hash_eligible
proof unfold_locales
  show "hash_armed s' = None" if "hash_step Analyst s out s'" "hash_armed s = None" for s out s'
    using hash_step_laws [OF that(1)] that(2) by (cases "hash_armed s'") auto
qed

subsection \<open>Liveness of the marks and honesty of the dialog\<close>

text \<open>A row is disabled, or the table still a skeleton, only while the promise that will lift it is
  in flight; the dialog's label is the verb of the decision it stands for; and what the form sent
  had the shape of a SHA-256 hash.\<close>

definition hash_live :: "hash_entry panel_effect list \<Rightarrow> hash_state \<Rightarrow> bool" where
  "hash_live os s \<longleftrightarrow>
     (hs_busyHash s \<noteq> None \<longrightarrow> HC_decide \<in> set (hs_inflight s)) \<and>
     (hs_loading s \<longrightarrow> HC_refetch \<in> set (hs_inflight s)) \<and>
     (\<forall>p. hs_pendingAction s = Some p \<longrightarrow> ha_verb p = verb_str (ha_decide p)) \<and>
     (\<forall>h l. Call (Submit_hash h l) \<in> set os \<longrightarrow> isValidSha256 h \<and> trim h = h \<and> trim l = l)"

lemma hash_no_submit:
  "hash_decided ok s = (s', out) \<Longrightarrow> Call (Submit_hash h l) \<notin> set out"
  "hash_submitted ok s = (s', out) \<Longrightarrow> Call (Submit_hash h l) \<notin> set out"
  "hash_refetched ans s = (s', out) \<Longrightarrow> Call (Submit_hash h l) \<notin> set out"
  by (auto simp: hash_handler_defs split: sum.splits if_splits)

lemma hash_live_user:
  assumes "hash_live os s" and "offers (hash_view r s) a" and "hash_handle a s = (s', out)"
  shows "hash_live (os @ out) s'"
  using assms(2)
proof (cases rule: hash_offersE)
  case confirm
  with assms(1,3) show ?thesis
    by (auto simp: hash_live_def hash_handle_def hash_runDecision_def hash_decide_def
        split: decision.splits)
next
  case submit
  with assms(1,3) show ?thesis
    by (auto simp: hash_live_def hash_handler_defs trim_trim split: if_splits)
qed (use assms(1,3) in \<open>auto simp: hash_live_def hash_handle_def\<close>)

lemma hash_live_settle:
  assumes "hash_live os s" and "hash_settle s out s'"
  shows "hash_live (os @ out) s'"
  using assms(2)
proof cases
  case (refetched xs ys ans)
  from hash_refetched_cases [OF this(2)] hash_no_submit(3) [OF this(2)] assms(1) this(1)
  show ?thesis by (auto simp: hash_live_def)
next
  case (decided xs ys ok)
  from hash_decided_cases [OF this(2)] hash_no_submit(1) [OF this(2)] assms(1) this(1)
  show ?thesis by (auto simp: hash_live_def)
next
  case (submitted xs ys ok)
  from hash_submitted_cases [OF this(2)] hash_no_submit(2) [OF this(2)] assms(1) this(1)
  show ?thesis by (auto simp: hash_live_def)
qed

lemma hash_live_step:
  assumes "hash_live os s" and "hash_step r s out s'"
  shows "hash_live (os @ out) s'"
  using assms(2)
proof cases
  case (user a)
  with assms(1) show ?thesis by (rule hash_live_user)
next
  case refresh
  from hash_refetch_cases [OF this] assms(1) show ?thesis by (auto simp: hash_live_def)
next
  case settle
  with assms(1) show ?thesis by (rule hash_live_settle)
qed

interpretation hash_liveness: invariant_system hash_init "hash_step r" hash_live
proof unfold_locales
  show "hash_live [] s" if "hash_init s" for s
    using that by (simp add: hash_init_def hash_refetch_def hash_start_def hash_live_def)
qed (rule hash_live_step)

subsection \<open>Settling\<close>

text \<open>The promises in flight; a decision or submission counts for the listing requests that it may lead
  to, here and, through \<open>onDecision\<close>, in the panel on screen.\<close>

definition hash_weight :: "hash_state \<Rightarrow> nat" where
  "hash_weight s = sum_list (map (\<lambda>c. case c of HC_refetch \<Rightarrow> 1 | _ \<Rightarrow> 4) (hs_inflight s))"

interpretation hash_settling: settling hash_settle hash_weight
proof unfold_locales
  show "hash_weight s' < hash_weight s" if "hash_settle s out s'" for s out s'
    using that by cases (auto simp: hash_weight_def hash_handler_defs split: sum.splits if_splits)
next
  fix s :: hash_state
  assume "0 < hash_weight s"
  then obtain c cs where "hs_inflight s = [] @ c # cs" by (cases "hs_inflight s") (auto simp: hash_weight_def)
  then show "\<exists>out s'. hash_settle s out s'"
    by (cases c) (metis hash_settle.intros surj_pair)+
qed

subsection \<open>A run of the component\<close>

definition demo_hash :: hash_entry where
  "demo_hash = \<lparr>he_hash = replicate 64 97, he_label = js ''dropper'', he_status = Pending,
     he_source = Auto, he_proposed_at = js ''2026-10-22'', he_reviewed_at = None\<rparr>"

definition demo_listed :: hash_state where
  "demo_listed = hash_start\<lparr>hs_entries := [demo_hash], hs_loading := False\<rparr>"

definition demo_asked :: hash_state where
  "demo_asked = fst (hash_handle (HA_ask Approve demo_hash) demo_listed)"

definition demo_confirmed :: hash_state where
  "demo_confirmed = fst (hash_handle HA_confirm demo_asked)"

lemmas demo_defs = demo_listed_def demo_asked_def demo_confirmed_def demo_hash_def hash_handle_def
  hash_runDecision_def hash_start_def hash_decide_def hash_refetch_def hash_refetched_def hash_init_def

lemma demo_run_listed: "reach hash_init (hash_step r) [Entries_change [demo_hash]] demo_listed"
proof -
  have "reach hash_init (hash_step r) [] (fst (hash_refetch hash_start))"
    by (rule reach_init) (simp add: hash_init_def)
  moreover have "hash_step r (fst (hash_refetch hash_start)) [Entries_change [demo_hash]] demo_listed"
    by (rule hash_step.settle, rule refetched [where xs = "[]" and ys = "[]" and ans = "Inr [demo_hash]"])
       (simp_all add: demo_defs)
  ultimately show ?thesis using reach_step by fastforce
qed

lemma demo_run_asked: "reach hash_init (hash_step Admin) [Entries_change [demo_hash]] demo_asked"
proof -
  have "offers (hash_view Admin demo_listed) (HA_ask Approve demo_hash)"
    by (subst hash_offers_idle) (simp_all add: demo_defs hash_pending_def)
  then have "hash_step Admin demo_listed [] demo_asked"
    by (rule user) (simp add: demo_defs)
  from reach_step [OF demo_run_listed this] show ?thesis by simp
qed

lemma demo_run_confirmed:
  "reach hash_init (hash_step Admin)
     [Entries_change [demo_hash], Call (Approve_hash (he_hash demo_hash))] demo_confirmed"
proof -
  have "offers (hash_view Admin demo_asked) HA_confirm"
    by (subst hash_offers_confirming) (simp_all add: demo_defs)
  then have "hash_step Admin demo_asked [Call (Approve_hash (he_hash demo_hash))] demo_confirmed"
    by (rule user) (simp add: demo_defs)
  from reach_step [OF demo_run_asked this] show ?thesis by simp
qed

subsection \<open>Properties\<close>

text \<open>In every run of the panel rendered for an analyst, whatever the server answers and in
  whatever order, no approve or reject request is ever sent and no decision dialog is open.\<close>

theorem hash_analyst_never_decides:
  assumes "reach hash_init (hash_step Analyst) os s"
  shows "decisions os = [] \<and> hs_pendingAction s = None"
  using hash_analyst.no_decision [OF assms] by (simp add: hash_armed_def)

theorem hash_analyst_never_decides_witness:
  "decisions [Entries_change [demo_hash]] = [] \<and> hs_pendingAction demo_listed = None"
  by (rule hash_analyst_never_decides [OF demo_run_listed])

text \<open>Every approve or reject request the panel ever sends names a hash that the server had
  listed to this panel as pending.\<close>

theorem hash_decisions_listed_pending:
  assumes "reach hash_init (hash_step r) os s" and "c \<in> set (decisions os)"
  shows "\<exists>e \<in> listed os. he_status e = Pending \<and>
    (c = Approve_hash (he_hash e) \<or> c = Reject_hash (he_hash e))"
  using hash_panel.provenance [OF assms(1)] assms(2) by (auto simp: hash_eligible_def)

theorem hash_decisions_listed_pending_witness:
  "\<exists>e \<in> listed [Entries_change [demo_hash], Call (Approve_hash (he_hash demo_hash))].
     he_status e = Pending \<and> (Approve_hash (he_hash demo_hash) = Approve_hash (he_hash e) \<or>
       Approve_hash (he_hash demo_hash) = Reject_hash (he_hash e))"
  by (rule hash_decisions_listed_pending [OF demo_run_confirmed]) simp

text \<open>C29: No control stays blocked for ever: in every reachable state a row is disabled only while a
  decision is in flight, the skeleton is shown only while a listing is in flight, the decision
  dialog is labelled with the verb of the request that confirming it sends, and every hash the form
  submitted is 64 lower-case hexadecimal characters without surrounding blanks.\<close>

theorem hash_panel_live:
  assumes "reach hash_init (hash_step r) os s"
  shows "(hs_busyHash s \<noteq> None \<longrightarrow> HC_decide \<in> set (hs_inflight s)) \<and>
    (hs_loading s \<longrightarrow> HC_refetch \<in> set (hs_inflight s)) \<and>
    (\<forall>p. hs_pendingAction s = Some p \<longrightarrow> ha_verb p = verb_str (ha_decide p)) \<and>
    (\<forall>h l. Call (Submit_hash h l) \<in> set os \<longrightarrow> isValidSha256 h \<and> trim h = h \<and> trim l = l)"
  using hash_liveness.reach_inv [OF assms] by (simp add: hash_live_def)

theorem hash_panel_live_witness:
  "hs_busyHash demo_confirmed = Some (he_hash demo_hash) \<and> HC_decide \<in> set (hs_inflight demo_confirmed)"
  using hash_panel_live [OF demo_run_confirmed] by (simp add: demo_defs)

text \<open>The confirm button is not disabled while its decision is in flight: in every reachable
  state with an open dialog, confirming sends the decision, leaves the dialog open with the button
  still active, and confirming again sends the same decision a second time.\<close>

theorem hash_double_confirm:
  assumes "reach hash_init (hash_step r) os s" and "hs_pendingAction s = Some p"
  shows "\<exists>s1 s2. reach hash_init (hash_step r)
      (os @ [Call (hash_decide (ha_decide p) (ha_hash p)), Call (hash_decide (ha_decide p) (ha_hash p))]) s2 \<and>
    hash_step r s [Call (hash_decide (ha_decide p) (ha_hash p))] s1 \<and>
    hash_step r s1 [Call (hash_decide (ha_decide p) (ha_hash p))] s2"
proof -
  let ?c = "Call (hash_decide (ha_decide p) (ha_hash p)) :: hash_entry panel_effect"
  have again: "hash_step r t [?c] (fst (hash_handle HA_confirm t)) \<and>
      hs_pendingAction (fst (hash_handle HA_confirm t)) = Some p"
    if "hs_pendingAction t = Some p" for t
    using that hash_offers_confirming [of t r HA_confirm]
    by (auto simp: hash_handle_def hash_runDecision_def intro!: user [of r t HA_confirm])
  let ?s1 = "fst (hash_handle HA_confirm s)"
  from again [OF assms(2)] have 1: "hash_step r s [?c] ?s1" and p1: "hs_pendingAction ?s1 = Some p"
    by blast+
  from again [OF p1] have 2: "hash_step r ?s1 [?c] (fst (hash_handle HA_confirm ?s1))" by blast
  from reach_step [OF reach_step [OF assms(1) 1] 2] 1 2 show ?thesis by (auto intro!: exI)
qed

theorem hash_double_confirm_witness:
  "\<exists>s1 s2. reach hash_init (hash_step Admin)
     ([Entries_change [demo_hash]] @ [Call (Approve_hash (he_hash demo_hash)),
        Call (Approve_hash (he_hash demo_hash))]) s2 \<and>
     hash_step Admin demo_asked [Call (Approve_hash (he_hash demo_hash))] s1 \<and>
     hash_step Admin s1 [Call (Approve_hash (he_hash demo_hash))] s2"
  using hash_double_confirm [OF demo_run_asked,
      of "\<lparr>ha_hash = he_hash demo_hash, ha_label = he_label demo_hash, ha_decide = Approve,
           ha_verb = verb_str Approve\<rparr>"]
  by (simp add: demo_asked_def hash_handle_def hash_decide_def)

end
