(* ===== verification/Console.thy ===== *)
theory Console
  imports App LoginPage UserAdmin UploadPanel EventFeed AuditLog CorpusPanel QuarantinePanel HashPanel
    LiveSocket
begin

text \<open>
  The dashboard as a whole: \<open>App\<close>, the components with state of their own that it has mounted, those
  it has unmounted whose promises are still in flight, and its live connections.  After each step
  \<open>reconcile\<close> does what React does with the tree that \<open>App\<close> renders: an instance whose place is still in
  the tree stays and gets its new properties, a place without an instance is mounted afresh, and an
  instance without a place is unmounted.  An unmounted instance takes no more actions and shows
  nothing, but its promises still settle, and their continuations still call back into \<open>App\<close>.
\<close>

subsection \<open>Instances of the components\<close>

datatype panel =
    P_login login_state
  | P_banner banner_state
  | P_upload upload_state
  | P_feed feed_state
  | P_audit audit_state
  | P_hashes hash_state
  | P_corpus corpus_state
  | P_quarantine quarantine_state
  | P_users user_state

text \<open>Where the tree that \<open>App\<close> renders has an instance: its place decides which one it is.\<close>

datatype place = At_login | At_banner | At_upload | At_feed | At_log bottom_tab

fun place_of :: "panel \<Rightarrow> place" where
  "place_of (P_login _) = At_login"
| "place_of (P_banner _) = At_banner"
| "place_of (P_upload _) = At_upload"
| "place_of (P_feed _) = At_feed"
| "place_of (P_audit _) = At_log Tab_audit"
| "place_of (P_hashes _) = At_log Tab_hashes"
| "place_of (P_corpus _) = At_log Tab_corpus"
| "place_of (P_quarantine _) = At_log Tab_quarantine"
| "place_of (P_users _) = At_log Tab_users"

definition places :: "app_state \<Rightarrow> place list" where
  "places a = (case ap_user a of
     Unknown \<Rightarrow> []
   | Signed_out \<Rightarrow> [At_login]
   | Signed_in u \<Rightarrow> [At_banner, At_upload, At_feed, At_log (ap_bottomTab a)])"

text \<open>What an instance hands to its surroundings, with the callbacks that \<open>App\<close> gave it.\<close>

datatype port =
    Request api_call
  | Toast jsstr toast_tone
  | Callback panel_call
  | Login_callback session_user
  | Save jsstr jsstr jsstr

definition login_port :: "login_effect \<Rightarrow> port list" where
  "login_port x = (case x of Login_call u p \<Rightarrow> [Request (Login u p)] | Logged_in u \<Rightarrow> [Login_callback u])"

definition banner_port :: "banner_effect \<Rightarrow> port list" where
  "banner_port x = (case x of Banner_call c \<Rightarrow> [Request c] | Reconnected \<Rightarrow> [Callback On_reconnected])"

definition upload_port :: "upload_effect \<Rightarrow> port list" where
  "upload_port x = (case x of
     Upload_call c \<Rightarrow> [Request c]
   | Upload_start \<Rightarrow> [Callback On_upload_start]
   | Upload_verdict v \<Rightarrow> [Callback (On_verdict v)]
   | Upload_expired \<Rightarrow> [Callback On_session_expired])"

definition feed_port :: "list_effect \<Rightarrow> port list" where
  "feed_port x = []"

definition audit_port :: "audit_effect \<Rightarrow> port list" where
  "audit_port x = (case x of
     Audit_call c \<Rightarrow> [Request c]
   | Audit_push m t \<Rightarrow> [Toast m t]
   | Audit_session_expired \<Rightarrow> [Callback On_session_expired]
   | Verdicts_change v \<Rightarrow> [Callback (On_verdicts_change v)]
   | Chain_change c \<Rightarrow> [Callback (On_chain_change c)]
   | Download c m f \<Rightarrow> [Save c m f])"

definition review_port :: "('e list \<Rightarrow> panel_call list) \<Rightarrow> 'e panel_effect \<Rightarrow> port list" where
  "review_port f x = (case x of
     Call c \<Rightarrow> [Request c]
   | Push m t \<Rightarrow> [Toast m t]
   | Session_expired \<Rightarrow> [Callback On_session_expired]
   | Decision_made \<Rightarrow> [Callback On_decision]
   | Entries_change es \<Rightarrow> map Callback (f es))"

abbreviation hash_port :: "hash_entry panel_effect \<Rightarrow> port list" where
  "hash_port \<equiv> review_port (\<lambda>es. [On_hashes_change es])"

abbreviation corpus_port :: "corpus_entry panel_effect \<Rightarrow> port list" where
  "corpus_port \<equiv> review_port (\<lambda>es. [On_corpus_change es])"

abbreviation quarantine_port :: "quarantine_entry panel_effect \<Rightarrow> port list" where
  "quarantine_port \<equiv> review_port (\<lambda>es. [On_quarantine_change es])"

text \<open>\<open>UserManagement\<close> gets no callback for its list.\<close>

abbreviation users_port :: "user_entry panel_effect \<Rightarrow> port list" where
  "users_port \<equiv> review_port (\<lambda>es. [])"

definition ports :: "('o \<Rightarrow> port list) \<Rightarrow> 'o list \<Rightarrow> port list" where
  "ports f os = concat (map f os)"

subsection \<open>What an instance does\<close>

text \<open>The user's actions, on an instance that is mounted.\<close>

inductive panel_user :: "platform \<Rightarrow> role \<Rightarrow> panel \<Rightarrow> port list \<Rightarrow> panel \<Rightarrow> bool"
  for pf :: platform and r :: role where
  login: "offers (login_page s) a \<Longrightarrow> login_handle a s = (s', out) \<Longrightarrow>
     panel_user pf r (P_login s) (ports login_port out) (P_login s')"
| banner: "banner_offers r s a \<Longrightarrow> banner_handle a s = (s', out) \<Longrightarrow>
     panel_user pf r (P_banner s) (ports banner_port out) (P_banner s')"
| upload: "offers (upload_view s) a \<Longrightarrow> upload_handle a s = (s', out) \<Longrightarrow>
     panel_user pf r (P_upload s) (ports upload_port out) (P_upload s')"
| feed_list: "offers (list_view pf (feed_message (ef_tab s)) (ef_list s)) a \<Longrightarrow>
     list_handle a (ef_list s) = (l, out) \<Longrightarrow>
     panel_user pf r (P_feed s) (ports feed_port out) (P_feed (s\<lparr>ef_list := l\<rparr>))"
| feed_tab: "panel_user pf r (P_feed s) [] (P_feed (feed_select t s))"
| audit: "audit_view pf now r s = Some v \<Longrightarrow> offers v a \<Longrightarrow> audit_handle pf now a s = (s', out) \<Longrightarrow>
     panel_user pf r (P_audit s) (ports audit_port out) (P_audit s')"
| hashes: "offers (hash_view r s) a \<Longrightarrow> hash_handle a s = (s', out) \<Longrightarrow>
     panel_user pf r (P_hashes s) (ports hash_port out) (P_hashes s')"
| corpus: "offers (corpus_view r s) a \<Longrightarrow> corpus_handle a s = (s', out) \<Longrightarrow>
     panel_user pf r (P_corpus s) (ports corpus_port out) (P_corpus s')"
| quarantine: "offers (quarantine_view r s) a \<Longrightarrow> quarantine_handle a s = (s', out) \<Longrightarrow>
     panel_user pf r (P_quarantine s) (ports quarantine_port out) (P_quarantine s')"
| users: "offers (user_view s) a \<Longrightarrow> user_handle a s = (s', out) \<Longrightarrow>
     panel_user pf r (P_users s) (ports users_port out) (P_users s')"

text \<open>Promises that settle, on any instance.\<close>

inductive panel_settle :: "(byte list \<Rightarrow> js_exn + byte list) \<Rightarrow> panel \<Rightarrow> port list \<Rightarrow> panel \<Rightarrow> bool"
  for digest :: "byte list \<Rightarrow> js_exn + byte list" where
  login: "0 < lp_inflight s \<Longrightarrow> login_settled ans s = (s', out) \<Longrightarrow>
     panel_settle digest (P_login s) (ports login_port out) (P_login s')"
| banner: "0 < mb_inflight s \<Longrightarrow> banner_settled ok s = (s', out) \<Longrightarrow>
     panel_settle digest (P_banner s) (ports banner_port out) (P_banner s')"
| upload: "upload_settle digest s out s' \<Longrightarrow>
     panel_settle digest (P_upload s) (ports upload_port out) (P_upload s')"
| audit: "audit_settle s out s' \<Longrightarrow> panel_settle digest (P_audit s) (ports audit_port out) (P_audit s')"
| hashes: "hash_settle s out s' \<Longrightarrow> panel_settle digest (P_hashes s) (ports hash_port out) (P_hashes s')"
| corpus: "corpus_settle s out s' \<Longrightarrow> panel_settle digest (P_corpus s) (ports corpus_port out) (P_corpus s')"
| quarantine: "quarantine_settle s out s' \<Longrightarrow>
     panel_settle digest (P_quarantine s) (ports quarantine_port out) (P_quarantine s')"
| users: "user_settle s out s' \<Longrightarrow> panel_settle digest (P_users s) (ports users_port out) (P_users s')"

text \<open>Intervals: the progress display of an upload, the polling of the audit log.\<close>

inductive panel_tick :: "panel \<Rightarrow> port list \<Rightarrow> panel \<Rightarrow> bool" where
  upload: "k \<in> set (us_tickers s) \<Longrightarrow> panel_tick (P_upload s) [] (P_upload (upload_tick s))"
| audit: "as_live s = Some k \<Longrightarrow> audit_load k s = (s', out) \<Longrightarrow>
     panel_tick (P_audit s) (ports audit_port out) (P_audit s')"

subsection \<open>Mounting, updating and unmounting\<close>

definition mounted_banner :: "bool \<Rightarrow> banner_state" where
  "mounted_banner b = \<lparr>mb_busy = False, mb_error = None, mb_confirming = False, mb_isolated = b, mb_inflight = 0\<rparr>"

fun mount :: "app_state \<Rightarrow> place \<Rightarrow> panel \<times> port list" where
  "mount a At_login = (P_login login_start, [])"
| "mount a At_banner = (P_banner (mounted_banner (ap_isolated a)), [])"
| "mount a At_upload = (P_upload upload_start_state, [])"
| "mount a At_feed = (P_feed (feed_mount (ap_sampleEvents a) (ap_monitorEvents a)), [])"
| "mount a (At_log Tab_audit) = map_prod P_audit (ports audit_port) (audit_effect_run audit_start)"
| "mount a (At_log Tab_hashes) = map_prod P_hashes (ports hash_port) (hash_refetch hash_start)"
| "mount a (At_log Tab_corpus) = map_prod P_corpus (ports corpus_port) (corpus_refetch corpus_start)"
| "mount a (At_log Tab_quarantine) =
     map_prod P_quarantine (ports quarantine_port) (quarantine_refetch quarantine_start)"
| "mount a (At_log Tab_users) = map_prod P_users (ports users_port) (user_refetch user_start)"

text \<open>New properties; the effects on \<open>[refreshKey]\<close> run when it has changed.\<close>

fun refresh :: "panel \<Rightarrow> panel \<times> port list" where
  "refresh (P_audit s) = map_prod P_audit (ports audit_port) (audit_effect_run s)"
| "refresh (P_hashes s) = map_prod P_hashes (ports hash_port) (hash_refetch s)"
| "refresh (P_corpus s) = map_prod P_corpus (ports corpus_port) (corpus_refetch s)"
| "refresh (P_quarantine s) = map_prod P_quarantine (ports quarantine_port) (quarantine_refetch s)"
| "refresh p = (p, [])"

fun new_props :: "app_state \<Rightarrow> panel \<Rightarrow> panel" where
  "new_props a (P_banner s) = P_banner (s\<lparr>mb_isolated := ap_isolated a\<rparr>)"
| "new_props a (P_feed s) = P_feed (fst (feed_update (ap_sampleEvents a) (ap_monitorEvents a) s))"
| "new_props a p = p"

definition update :: "app_state \<Rightarrow> app_state \<Rightarrow> panel \<Rightarrow> panel \<times> port list" where
  "update a a' p =
     (if ap_refreshKey a' = ap_refreshKey a then (new_props a' p, []) else refresh (new_props a' p))"

fun unmount :: "panel \<Rightarrow> panel" where
  "unmount (P_audit s) = P_audit (fst (audit_unmount s))"
| "unmount p = p"

definition reconcile :: "app_state \<Rightarrow> app_state \<Rightarrow> panel list \<Rightarrow> (panel \<times> port list) list" where
  "reconcile a a' ps = map (\<lambda>k. case find (\<lambda>p. place_of p = k) ps of
     Some p \<Rightarrow> update a a' p | None \<Rightarrow> mount a' k) (places a')"

definition left_over :: "app_state \<Rightarrow> panel list \<Rightarrow> panel list" where
  "left_over a' ps = map unmount (filter (\<lambda>p. place_of p \<notin> set (places a')) ps)"

subsection \<open>The dashboard\<close>

text \<open>The trace of a run: who was signed in when an instance or \<open>App\<close> did something, and what.\<close>

datatype console_out = Panel_out session port | App_out session app_effect

record console =
  co_app :: app_state
  co_mounted :: "panel list"
  co_gone :: "panel list"
  co_conns :: "nat \<rightharpoonup> live_conn"

text \<open>The callbacks among the ports, in order, run in \<open>App\<close>.\<close>

fun deliver :: "port list \<Rightarrow> app_state \<Rightarrow> app_out" where
  "deliver [] a = (a, [])"
| "deliver (Callback c # ps) a =
     (let (a1, out1) = app_callback c a; (a2, out2) = deliver ps a1 in (a2, out1 @ out2))"
| "deliver (Login_callback u # ps) a =
     (let (a1, out1) = app_onLogin u a; (a2, out2) = deliver ps a1 in (a2, out1 @ out2))"
| "deliver (p # ps) a = deliver ps a"

text \<open>The callbacks that \<open>App\<close> gives to \<open>connectLive\<close>.\<close>

definition hear :: "app_state \<Rightarrow> live_out \<Rightarrow> app_state" where
  "hear a x = (case x of
     Status c \<Rightarrow> a\<lparr>ap_connState := c\<rparr> | Message m \<Rightarrow> app_message m a | Schedule d \<Rightarrow> a)"

definition conn_effect :: "(nat \<rightharpoonup> live_conn) \<Rightarrow> app_effect \<Rightarrow> (nat \<rightharpoonup> live_conn)" where
  "conn_effect cs x = (case x of
     Connect_live k \<Rightarrow> cs(k \<mapsto> fst connectLive)
   | Close_live k \<Rightarrow> cs(k := map_option (\<lambda>l. fst (close_conn l)) (cs k))
   | App_call c \<Rightarrow> cs)"

definition acting_role :: "app_state \<Rightarrow> role" where
  "acting_role a = (case ap_user a of Signed_in u \<Rightarrow> role_of u | _ \<Rightarrow> Analyst)"

text \<open>The end of every step: the new state of \<open>App\<close>, the instances after their own moves, the
  connections, the effects of \<open>App\<close> and the ports of the instance that moved.\<close>

definition finish :: "console \<Rightarrow> app_state \<Rightarrow> app_effect list \<Rightarrow> panel list \<Rightarrow> panel list \<Rightarrow>
    (nat \<rightharpoonup> live_conn) \<Rightarrow> port list \<Rightarrow> console \<times> console_out list" where
  "finish c a effs ms gs cs ps =
     (let rs = reconcile (co_app c) a ms; who = ap_user (co_app c)
      in (\<lparr>co_app = a, co_mounted = map fst rs, co_gone = gs @ left_over a ms,
           co_conns = foldl conn_effect cs effs\<rparr>,
          map (Panel_out who) ps @ map (App_out who) effs
          @ map (Panel_out (ap_user a)) (concat (map snd rs))))"

inductive console_step ::
  "platform \<Rightarrow> (byte list \<Rightarrow> js_exn + byte list) \<Rightarrow> console \<Rightarrow> console_out list \<Rightarrow> console \<Rightarrow> bool"
  for pf :: platform and digest :: "byte list \<Rightarrow> js_exn + byte list" where
  app: "app_own (co_app c) effs a \<Longrightarrow>
     finish c a effs (co_mounted c) (co_gone c) (co_conns c) [] = (c', os) \<Longrightarrow> console_step pf digest c os c'"
| acts: "co_mounted c = xs @ p # ys \<Longrightarrow> panel_user pf (acting_role (co_app c)) p ps p' \<Longrightarrow>
     deliver ps (co_app c) = (a, effs) \<Longrightarrow>
     finish c a effs (xs @ p' # ys) (co_gone c) (co_conns c) ps = (c', os) \<Longrightarrow> console_step pf digest c os c'"
| moves: "co_mounted c = xs @ p # ys \<Longrightarrow> panel_settle digest p ps p' \<or> panel_tick p ps p' \<Longrightarrow>
     deliver ps (co_app c) = (a, effs) \<Longrightarrow>
     finish c a effs (xs @ p' # ys) (co_gone c) (co_conns c) ps = (c', os) \<Longrightarrow> console_step pf digest c os c'"
| lingers: "co_gone c = xs @ p # ys \<Longrightarrow> panel_settle digest p ps p' \<or> panel_tick p ps p' \<Longrightarrow>
     deliver ps (co_app c) = (a, effs) \<Longrightarrow>
     finish c a effs (co_mounted c) (xs @ p' # ys) (co_conns c) ps = (c', os) \<Longrightarrow> console_step pf digest c os c'"
| live: "co_conns c k = Some l \<Longrightarrow> socket_step l out l' \<Longrightarrow> conn_closed l' = conn_closed l \<Longrightarrow>
     finish c (foldl hear (co_app c) out) [] (co_mounted c) (co_gone c) ((co_conns c)(k \<mapsto> l')) [] = (c', os) \<Longrightarrow>
     console_step pf digest c os c'"

definition console_init :: "console \<Rightarrow> bool" where
  "console_init c \<longleftrightarrow> c = \<lparr>co_app = fst app_mount, co_mounted = [], co_gone = [], co_conns = Map.empty\<rparr>"

end
