(* ===== verification/ConsoleRuns.thy ===== *)
theory ConsoleRuns
  imports Console
begin

text \<open>
  The runs of the dashboard.  Its invariant says that every instance, mounted or not, is in a state
  that a run of its own component reaches, with all it handed out in the trace; that \<open>App\<close> is in a state
  that its own step relation reaches, which leaves the panels and the connection arbitrary; that the
  mounted instances are those of the rendered tree; and that the connections follow the session and
  report the status that \<open>App\<close> shows.
\<close>

subsection \<open>Every instance runs as its component\<close>

definition heard :: "console_out list \<Rightarrow> port \<Rightarrow> bool" where
  "heard os x \<longleftrightarrow> (\<exists>w. Panel_out w x \<in> set os)"

lemma heard_append [simp]: "heard (os @ os') x \<longleftrightarrow> heard os x \<or> heard os' x"
  by (auto simp: heard_def)

lemma heard_own [simp]: "heard (map (Panel_out w) ps) x \<longleftrightarrow> x \<in> set ps"
  by (auto simp: heard_def)

lemma heard_app [simp]: "\<not> heard (map (App_out w) effs) x"
  by (auto simp: heard_def)

lemma ports_append [simp]: "ports f (xs @ ys) = ports f xs @ ports f ys"
  by (simp add: ports_def)

lemma ports_Nil [simp]: "ports f [] = []"
  by (simp add: ports_def)

lemma ports_Cons [simp]: "ports f (x # xs) = f x @ ports f xs"
  by (simp add: ports_def)

text \<open>A run of the component that led to the state, all of whose ports are in the trace.\<close>

definition ran :: "('s \<Rightarrow> bool) \<Rightarrow> ('s \<Rightarrow> 'o list \<Rightarrow> 's \<Rightarrow> bool) \<Rightarrow> ('o \<Rightarrow> port list) \<Rightarrow>
    console_out list \<Rightarrow> 's \<Rightarrow> bool" where
  "ran init step f os s \<longleftrightarrow> (\<exists>xs. reach init step xs s \<and> (\<forall>x \<in> set (ports f xs). heard os x))"

lemma ran_init: "init s \<Longrightarrow> ran init step f os s"
  unfolding ran_def by (intro exI [of _ "[]"]) (simp add: reach_init)

lemma ran_step:
  "ran init step f os s \<Longrightarrow> step s out s' \<Longrightarrow> \<forall>x \<in> set (ports f out). heard os x \<Longrightarrow> ran init step f os s'"
  unfolding ran_def by (metis UnE ports_append reach_step set_append)

lemma ran_more: "ran init step f os s \<Longrightarrow> ran init step f (os @ os') s"
  unfolding ran_def by auto

fun panel_ran :: "platform \<Rightarrow> (byte list \<Rightarrow> js_exn + byte list) \<Rightarrow> role \<Rightarrow> console_out list \<Rightarrow> panel \<Rightarrow> bool" where
  "panel_ran pf digest r os (P_login s) = ran login_init login_step login_port os s"
| "panel_ran pf digest r os (P_banner s) = ran banner_init (banner_step r) banner_port os s"
| "panel_ran pf digest r os (P_upload s) = ran upload_init (upload_step digest) upload_port os s"
| "panel_ran pf digest r os (P_feed s) = ran feed_init (feed_step pf) feed_port os s"
| "panel_ran pf digest r os (P_audit s) = ran audit_init (audit_step pf r) audit_port os s"
| "panel_ran pf digest r os (P_hashes s) = ran hash_init (hash_step r) hash_port os s"
| "panel_ran pf digest r os (P_corpus s) = ran corpus_init (corpus_step r) corpus_port os s"
| "panel_ran pf digest r os (P_quarantine s) = ran quarantine_init (quarantine_step r) quarantine_port os s"
| "panel_ran pf digest r os (P_users s) = ran user_init user_step users_port os s"

lemma panel_ran_more: "panel_ran pf digest r os p \<Longrightarrow> panel_ran pf digest r (os @ os') p"
  by (cases p) (simp_all add: ran_more)

text \<open>The audit log's effect is live while the instance is mounted.\<close>

fun alive :: "panel \<Rightarrow> bool" where
  "alive (P_audit s) = (as_live s \<noteq> None)"
| "alive p = True"

lemma panel_user_place: "panel_user pf r p ps p' \<Longrightarrow> place_of p' = place_of p"
  by (cases rule: panel_user.cases) auto

lemma panel_settle_place: "panel_settle digest p ps p' \<Longrightarrow> place_of p' = place_of p"
  by (cases rule: panel_settle.cases) auto

lemma panel_tick_place: "panel_tick p ps p' \<Longrightarrow> place_of p' = place_of p"
  by (cases rule: panel_tick.cases) auto

lemma panel_user_ran:
  assumes "panel_user pf r p ps p'" and "panel_ran pf digest r os p" and "alive p"
    and "\<forall>x \<in> set ps. heard os x"
  shows "panel_ran pf digest r os p'"
  using assms
  by (cases rule: panel_user.cases)
    (auto elim!: ran_step intro: login_step.user banner_step.user upload_step.user feed_step.user
      feed_step.select audit_step.user hash_step.user corpus_step.user quarantine_step.user user_step.user)

lemma panel_settle_ran:
  assumes "panel_settle digest p ps p'" and "panel_ran pf digest r os p" and "\<forall>x \<in> set ps. heard os x"
  shows "panel_ran pf digest r os p'"
  using assms
  by (cases rule: panel_settle.cases)
    (auto elim!: ran_step intro: login_step.settled banner_step.settled upload_step.settle
      audit_step.settle hash_step.settle corpus_step.settle quarantine_step.settle user_step.settle)

lemma panel_tick_ran:
  assumes "panel_tick p ps p'" and "panel_ran pf digest r os p" and "\<forall>x \<in> set ps. heard os x"
  shows "panel_ran pf digest r os p'"
  using assms
  by (cases rule: panel_tick.cases) (auto elim!: ran_step intro: upload_step.tick audit_step.tick)

lemma panel_user_alive: "panel_user pf r p ps p' \<Longrightarrow> alive p \<Longrightarrow> alive p'"
  by (cases rule: panel_user.cases)
    (auto simp: audit_handle_def handleQueryChange_def toggleSortOrder_def split: audit_act.splits)

lemma panel_settle_alive: "panel_settle digest p ps p' \<Longrightarrow> alive p \<Longrightarrow> alive p'"
  by (cases rule: panel_settle.cases)
    (auto elim!: audit_settle.cases simp: audit_verdicts_settled_def audit_chain_settled_def
      split: sum.splits if_splits)

lemma panel_tick_alive: "panel_tick p ps p' \<Longrightarrow> alive p \<Longrightarrow> alive p'"
  by (cases rule: panel_tick.cases) (auto simp: audit_load_def)

lemma mount_ran: "panel_ran pf digest r os (fst (mount a k)) \<and> alive (fst (mount a k)) \<and>
    place_of (fst (mount a k)) = k"
proof (cases k)
  case (At_log t)
  then show ?thesis
    by (cases t) (auto intro!: ran_init simp: audit_init_def hash_init_def corpus_init_def
        quarantine_init_def user_init_def, simp add: audit_effect_run_def audit_load_def)
next
  case At_feed
  then show ?thesis by (auto intro!: ran_init exI simp: feed_init_def)
qed (auto intro!: ran_init simp: login_init_def banner_init_def mounted_banner_def upload_init_def)

lemma new_props_ran: "panel_ran pf digest r os p \<Longrightarrow> panel_ran pf digest r os (new_props a p) \<and>
    alive (new_props a p) = alive p \<and> place_of (new_props a p) = place_of p"
proof (cases p)
  case (P_feed s)
  assume "panel_ran pf digest r os p"
  with P_feed show ?thesis
    by (auto elim!: ran_step simp: feed_port_def ports_def intro: feed_step.props [OF surjective_pairing])
qed (auto elim!: ran_step intro: banner_step.props)

lemma refresh_ran:
  assumes "panel_ran pf digest r os p" and "alive p" and "\<forall>x \<in> set (snd (refresh p)). heard os x"
  shows "panel_ran pf digest r os (fst (refresh p)) \<and> alive (fst (refresh p)) \<and>
    place_of (fst (refresh p)) = place_of p"
proof (cases p)
  case (P_audit s)
  with assms have "ran audit_init (audit_step pf r) audit_port os (fst (audit_effect_run s))"
    by (auto elim!: ran_step intro: audit_step.refresh [OF _ surjective_pairing])
  with P_audit show ?thesis by (simp add: audit_effect_run_def audit_load_def)
next
  case (P_hashes s)
  with assms show ?thesis by (auto elim!: ran_step intro: hash_step.refresh [OF surjective_pairing])
next
  case (P_corpus s)
  with assms show ?thesis by (auto elim!: ran_step intro: corpus_step.refresh [OF surjective_pairing])
next
  case (P_quarantine s)
  with assms show ?thesis by (auto elim!: ran_step intro: quarantine_step.refresh [OF surjective_pairing])
qed (use assms in simp_all)

lemma update_ran:
  assumes "panel_ran pf digest r os p" and "alive p" and "\<forall>x \<in> set (snd (update a a' p)). heard os x"
  shows "panel_ran pf digest r os (fst (update a a' p)) \<and> alive (fst (update a a' p)) \<and>
    place_of (fst (update a a' p)) = place_of p"
  using new_props_ran [OF assms(1)] refresh_ran [of pf digest r os "new_props a' p"] assms(2,3)
  by (simp add: update_def split: if_splits)

lemma unmount_ran:
  assumes "panel_ran pf digest r os p"
  shows "panel_ran pf digest r os (unmount p) \<and> place_of (unmount p) = place_of p"
proof (cases p)
  case (P_audit s)
  have "audit_step pf r s [] (fst (audit_unmount s))"
    by (rule audit_step.unmount) (simp add: audit_unmount_def)
  with P_audit assms show ?thesis by (auto elim!: ran_step)
qed (use assms in simp_all)

subsection \<open>What the callbacks do to \<open>App\<close> and its connections\<close>

text \<open>Each connection that was opened ran as \<open>connectLive\<close>; the one that \<open>App\<close> holds is the one that
  has not been closed, and what it last reported is the status that \<open>App\<close> shows.\<close>

definition conns_ok :: "app_state \<Rightarrow> (nat \<rightharpoonup> live_conn) \<Rightarrow> bool" where
  "conns_ok a cs \<longleftrightarrow>
     (\<forall>k l. cs k = Some l \<longrightarrow> k < ap_nextConn a \<and>
        (\<exists>xs. socket_run xs l \<and> (ap_conn a = Some k \<longrightarrow> last_status xs = Some (ap_connState a))) \<and>
        (\<not> conn_closed l \<longleftrightarrow> ap_conn a = Some k)) \<and>
     (\<forall>k. ap_conn a = Some k \<longrightarrow> cs k \<noteq> None)"

lemma conns_ok_cong:
  "conns_ok a cs \<Longrightarrow> ap_conn a' = ap_conn a \<Longrightarrow> ap_nextConn a' = ap_nextConn a \<Longrightarrow>
   ap_connState a' = ap_connState a \<Longrightarrow> conns_ok a' cs"
  by (simp add: conns_ok_def)

lemma conn_closed_ws_close [simp]: "conn_closed (ws_close l) = conn_closed l"
  by (simp add: ws_close_def split: option.splits)

lemma socket_run_close:
  "\<exists>xs. socket_run xs l \<Longrightarrow> \<exists>xs. socket_run xs (ws_close (l\<lparr>conn_closed := True\<rparr>))"
  using socket_run_step [OF _ cleanup] by (fastforce simp: close_conn_def)

lemma closed_ok:
  assumes "conns_ok a cs" and "ap_conn a' = None" and "ap_nextConn a' = ap_nextConn a"
  shows "conns_ok a' (foldl conn_effect cs (close_live a))"
proof -
  have run: "\<exists>xs. socket_run xs l" if "cs k = Some l" for k l
    using assms(1) that unfolding conns_ok_def by blast
  show ?thesis
  proof (cases "ap_conn a")
    case None
    with assms run show ?thesis by (simp add: conns_ok_def close_live_def)
  next
    case (Some k)
    have "\<exists>xs. socket_run xs (ws_close (l\<lparr>conn_closed := True\<rparr>))" if "cs k = Some l" for l
      using run [OF that] by (rule socket_run_close)
    with Some assms run show ?thesis
      by (auto simp: conns_ok_def close_live_def conn_effect_def close_conn_def split: if_splits)
  qed
qed

lemma opened_ok:
  assumes "conns_ok a cs" and "ap_conn a = None" and "ap_conn a' = Some (ap_nextConn a)"
    and "ap_nextConn a' = Suc (ap_nextConn a)" and "ap_connState a' = Conn_connecting"
  shows "conns_ok a' (cs(ap_nextConn a \<mapsto> fst connectLive))"
proof -
  have "\<exists>xs. socket_run xs (fst connectLive) \<and> last_status xs = Some Conn_connecting"
    using socket_run_start by (auto simp: connectLive_def connect_def)
  with assms show ?thesis by (auto simp: conns_ok_def connectLive_def connect_def less_Suc_eq)
qed

lemma moved_ok:
  assumes "conns_ok a cs" and "cs k = Some l" and "conn_closed l' = conn_closed l" and "socket_run xs l'"
    and "ap_conn a = Some k \<Longrightarrow> last_status xs = Some (ap_connState a')"
    and "ap_conn a \<noteq> Some k \<Longrightarrow> ap_connState a' = ap_connState a"
    and "ap_conn a' = ap_conn a" and "ap_nextConn a' = ap_nextConn a"
  shows "conns_ok a' (cs(k \<mapsto> l'))"
  unfolding conns_ok_def
proof (intro conjI allI impI)
  fix j m assume j: "(cs(k \<mapsto> l')) j = Some m"
  show "j < ap_nextConn a'" and "\<not> conn_closed m \<longleftrightarrow> ap_conn a' = Some j"
    using j assms(1,2,3,7,8) by (auto simp: conns_ok_def split: if_splits)
  show "\<exists>xs. socket_run xs m \<and> (ap_conn a' = Some j \<longrightarrow> last_status xs = Some (ap_connState a'))"
  proof (cases "j = k")
    case True
    with j assms(4,5,7) show ?thesis by auto
  next
    case False
    with j assms(1) have "\<exists>xs. socket_run xs m \<and> (ap_conn a = Some j \<longrightarrow> last_status xs = Some (ap_connState a))"
      by (simp add: conns_ok_def)
    with False assms(6,7) show ?thesis by auto
  qed
qed (use assms(1,7) in \<open>auto simp: conns_ok_def\<close>)

lemma set_user_conns:
  assumes "set_user u a = (a', effs)" and "conns_ok a cs"
  shows "conns_ok a' (foldl conn_effect cs effs)"
proof (cases u)
  case None
  with assms show ?thesis by (auto simp: set_user_def intro: closed_ok)
next
  case (Some v)
  let ?m = "a\<lparr>ap_conn := None\<rparr>"
  have "conns_ok ?m (foldl conn_effect cs (close_live a))" using assms(2) by (rule closed_ok) simp_all
  from opened_ok [OF this, of a'] Some assms(1) show ?thesis
    by (auto simp: set_user_def conn_effect_def)
qed

definition same_session :: "app_state \<Rightarrow> app_state \<Rightarrow> bool" where
  "same_session a a' \<longleftrightarrow> (\<forall>u v. ap_user a = Signed_in u \<longrightarrow> ap_user a' = Signed_in v \<longrightarrow> v = u)"

lemma app_own_frame:
  assumes "app_own a effs a'" and "app_asking a"
  shows "ap_seen a \<subseteq> ap_seen a' \<and> same_session a a'"
  using assms(1)
proof (cases rule: app_own_cases)
  case (me_settled xs ys r)
  with assms(2) show ?thesis
    by (auto simp: app_asking_def app_me_settled_def set_user_def same_session_def
        split: sum.splits if_splits)
qed (auto simp: app_monitor_settled_def app_logout_settled_def set_user_def handleLogout_def
    select_tab_def same_session_def split: sum.splits)

lemma app_own_conns:
  assumes "app_own a effs a'" and "conns_ok a cs"
  shows "conns_ok a' (foldl conn_effect cs effs)"
  using assms(1)
proof (cases rule: app_own_cases)
  case (me_settled xs ys r)
  have "conns_ok (a\<lparr>ap_inflight := xs @ ys\<rparr>) cs" using assms(2) by (rule conns_ok_cong) simp_all
  with me_settled show ?thesis by (auto simp: app_me_settled_def set_user_conns split: sum.splits)
next
  case (logout_settled xs ys)
  have "conns_ok (a\<lparr>ap_inflight := xs @ ys\<rparr>) cs" using assms(2) by (rule conns_ok_cong) simp_all
  with logout_settled show ?thesis by (auto simp: app_logout_settled_def set_user_conns)
qed (use assms(2) in \<open>auto simp: app_monitor_settled_def handleLogout_def select_tab_def conn_effect_def
    elim!: conns_ok_cong split: sum.splits\<close>)

lemma app_callback_frame:
  "app_callback c a = (a', effs) \<Longrightarrow> ap_seen a' = ap_seen a \<and> (ap_user a' = ap_user a \<or> ap_user a' = Signed_out)"
  by (cases c) (auto simp: app_callback_def handleUpload_def handleSessionExpired_def set_user_def)

lemma app_callback_conns:
  assumes "app_callback c a = (a', effs)" and "conns_ok a cs"
  shows "conns_ok a' (foldl conn_effect cs effs)"
proof (cases c)
  case On_session_expired
  have "conns_ok (a\<lparr>ap_sessionExpired := True\<rparr>) cs" using assms(2) by (rule conns_ok_cong) simp_all
  with On_session_expired assms(1) show ?thesis
    by (auto simp: app_callback_def handleSessionExpired_def set_user_conns)
qed (use assms in \<open>auto simp: app_callback_def handleUpload_def elim!: conns_ok_cong\<close>)

text \<open>Which callbacks an instance at a place can make.\<close>

fun port_ok :: "place \<Rightarrow> port \<Rightarrow> bool" where
  "port_ok k (Callback c) \<longleftrightarrow> k \<noteq> At_login \<and>
     (case callback_tabs c of None \<Rightarrow> True | Some ts \<Rightarrow> \<exists>t \<in> ts. k = At_log t)"
| "port_ok k (Login_callback u) \<longleftrightarrow> k = At_login"
| "port_ok k _ \<longleftrightarrow> True"

text \<open>A place that can only have been mounted after a sign-in, with its tab selected.\<close>

definition place_seen :: "app_state \<Rightarrow> place \<Rightarrow> bool" where
  "place_seen a k \<longleftrightarrow> (case k of At_login \<Rightarrow> True | At_log t \<Rightarrow> t \<in> ap_seen a | _ \<Rightarrow> ap_seen a \<noteq> {})"

lemma place_seen_mono: "place_seen a k \<Longrightarrow> ap_seen a \<subseteq> ap_seen a' \<Longrightarrow> place_seen a' k"
  by (auto simp: place_seen_def split: place.splits)

lemma deliver_moves:
  assumes "deliver ps a = (a', effs)" and "k \<noteq> At_login" and "place_seen a k" and "\<forall>x \<in> set ps. port_ok k x"
    and "reach app_init (app_step pf) os a"
  shows "reach app_init (app_step pf) (os @ effs) a' \<and> ap_seen a' = ap_seen a \<and>
    (ap_user a' = ap_user a \<or> ap_user a' = Signed_out) \<and>
    (\<forall>cs. conns_ok a cs \<longrightarrow> conns_ok a' (foldl conn_effect cs effs))"
  using assms(1,3,4,5)
proof (induction ps a arbitrary: a' effs os rule: deliver.induct)
  case (2 c ps a)
  obtain a1 out1 where c: "app_callback c a = (a1, out1)" by fastforce
  with 2(2) obtain out2 where d: "deliver ps a1 = (a', out2)" "effs = out1 @ out2"
    by (auto split: prod.splits)
  have "app_step pf a out1 a1"
    by (rule panel_callback [OF _ _ c])
       (use 2(3,4) in \<open>auto simp: place_seen_def split: place.splits option.splits\<close>)
  from reach_step [OF 2(5), OF this] have r: "reach app_init (app_step pf) (os @ out1) a1" .
  note f = app_callback_frame [OF c]
  then have "place_seen a1 k" using place_seen_mono [OF 2(3), of a1] by simp
  from 2(1) [OF c [symmetric] refl d(1) this _ r] 2(4) f app_callback_conns [OF c] show ?case
    by (auto simp: d(2))
qed (use assms(2) in auto)

lemma login_deliver:
  assumes "app_onLogin u a = (a', effs)" and "ap_user a = Signed_out" and "reach app_init (app_step pf) os a"
  shows "reach app_init (app_step pf) (os @ effs) a' \<and> ap_seen a \<subseteq> ap_seen a' \<and> same_session a a' \<and>
    (\<forall>cs. conns_ok a cs \<longrightarrow> conns_ok a' (foldl conn_effect cs effs))"
proof -
  have "conns_ok a' (foldl conn_effect cs effs)" if "conns_ok a cs" for cs
  proof -
    have "conns_ok (a\<lparr>ap_sessionExpired := False\<rparr>) cs" using that by (rule conns_ok_cong) simp_all
    with assms(1) show ?thesis by (auto simp: app_onLogin_def set_user_conns)
  qed
  with reach_step [OF assms(3), OF log_in [OF assms(2,1)]] assms(1,2) show ?thesis
    by (auto simp: app_onLogin_def set_user_def same_session_def)
qed

subsection \<open>The ports of an instance fit its place\<close>

lemma ports_all: "\<forall>y \<in> set out. \<forall>x \<in> set (f y). P x \<Longrightarrow> \<forall>x \<in> set (ports f out). P x"
  by (auto simp: ports_def)

lemma port_fits:
  "x \<in> set (banner_port b) \<Longrightarrow> port_ok At_banner x"
  "x \<in> set (upload_port u) \<Longrightarrow> port_ok At_upload x"
  "x \<in> set (feed_port f) \<Longrightarrow> port_ok At_feed x"
  "x \<in> set (audit_port e) \<Longrightarrow> port_ok (At_log Tab_audit) x"
  "x \<in> set (login_port l) \<Longrightarrow> port_ok At_login x"
  "x \<in> set (hash_port h) \<Longrightarrow> port_ok (At_log Tab_hashes) x"
  "x \<in> set (corpus_port c) \<Longrightarrow> port_ok (At_log Tab_corpus) x"
  "x \<in> set (quarantine_port q) \<Longrightarrow> port_ok (At_log Tab_quarantine) x"
  "x \<in> set (users_port m) \<Longrightarrow> m \<noteq> Decision_made \<Longrightarrow> port_ok (At_log Tab_users) x"
  by (auto simp: banner_port_def upload_port_def feed_port_def audit_port_def login_port_def
      review_port_def callback_tabs_def
      split: banner_effect.splits upload_effect.splits audit_effect.splits login_effect.splits
        panel_effect.splits)

lemma users_no_decision: "user_step s out s' \<Longrightarrow> Decision_made \<notin> set out"
  by (auto elim!: user_step.cases user_settle.cases simp: user_handler_defs
      split: user_act.splits option.splits sum.splits if_splits)

lemma panel_user_ports: "panel_user pf r p ps p' \<Longrightarrow> \<forall>x \<in> set ps. port_ok (place_of p) x"
  by (erule panel_user.cases)
    (force intro!: ports_all intro: port_fits dest!: user_step.user users_no_decision)+

lemma panel_settle_ports: "panel_settle digest p ps p' \<Longrightarrow> \<forall>x \<in> set ps. port_ok (place_of p) x"
  by (erule panel_settle.cases)
    (force intro!: ports_all intro: port_fits dest!: user_step.settle users_no_decision)+

lemma panel_tick_ports: "panel_tick p ps p' \<Longrightarrow> \<forall>x \<in> set ps. port_ok (place_of p) x"
  by (erule panel_tick.cases) (auto intro!: ports_all intro: port_fits)

lemma login_user_ports: "panel_user pf r p ps p' \<Longrightarrow> place_of p = At_login \<Longrightarrow> deliver ps a = (a, [])"
  by (erule panel_user.cases) (auto simp: login_handler_defs login_port_def
      split: login_act.splits if_splits)

lemma panel_tick_login: "panel_tick p ps p' \<Longrightarrow> place_of p \<noteq> At_login"
  by (erule panel_tick.cases) auto

fun quiet :: "panel \<Rightarrow> bool" where
  "quiet (P_login s) = (lp_inflight s = 0)"
| "quiet p = True"

lemma quiet_settle: "panel_settle digest p ps p' \<Longrightarrow> quiet p \<Longrightarrow> place_of p \<noteq> At_login"
  by (erule panel_settle.cases) auto

lemma quiet_other: "place_of p \<noteq> At_login \<Longrightarrow> quiet p"
  by (cases p) auto

lemma quiet_unmount [simp]: "quiet (unmount p) = quiet p"
  by (cases p) auto

text \<open>A settled sign-in makes at most one callback, and leaves no other in flight.\<close>

lemma login_settle_ports:
  assumes "panel_settle digest p ps p'" and "place_of p = At_login" and "panel_ran pf digest r os p"
  shows "quiet p' \<and> (deliver ps a = (a, []) \<or> (\<exists>u. ps = [Login_callback u]))"
  using assms(1)
proof cases
  case (login s ans s' out)
  with assms(3) obtain xs where "reach login_init login_step xs s" by (auto simp: ran_def)
  from login.reach_inv [OF this] have "lp_inflight s \<le> 1" by (simp add: login_inv_def)
  with login show ?thesis
    by (auto simp: login_settled_def login_port_def Let_def split: sum.splits)
qed (use assms(2) in auto)

subsection \<open>The invariant of the dashboard\<close>

definition app_effects :: "console_out list \<Rightarrow> app_effect list" where
  "app_effects os = concat (map (\<lambda>x. case x of App_out w e \<Rightarrow> [e] | Panel_out w p \<Rightarrow> []) os)"

lemma app_effects_simps [simp]:
  "app_effects [] = []" "app_effects (os @ os') = app_effects os @ app_effects os'"
  "app_effects (map (App_out w) effs) = effs" "app_effects (map (Panel_out w) ps) = []"
  by (induction effs) (auto simp: app_effects_def)

definition console_inv :: "platform \<Rightarrow> (byte list \<Rightarrow> js_exn + byte list) \<Rightarrow> console_out list \<Rightarrow> console \<Rightarrow> bool" where
  "console_inv pf digest os c \<longleftrightarrow>
     reach app_init (app_step pf) (app_effects os) (co_app c) \<and>
     conns_ok (co_app c) (co_conns c) \<and>
     map place_of (co_mounted c) = places (co_app c) \<and>
     (\<forall>p \<in> set (co_mounted c). panel_ran pf digest (acting_role (co_app c)) os p \<and> alive p) \<and>
     (\<forall>p \<in> set (co_gone c). (\<exists>r. panel_ran pf digest r os p) \<and> quiet p \<and> place_seen (co_app c) (place_of p))"

lemma places_seen:
  assumes "reach app_init (app_step pf) os a" and "k \<in> set (places a)"
  shows "place_seen a k"
  using app.reach_inv [OF assms(1)] assms(2)
  by (auto simp: app_inv_def places_def place_seen_def split: session.splits)

lemma role_kept: "same_session a a' \<Longrightarrow> k \<in> set (places a) \<Longrightarrow> k \<in> set (places a') \<Longrightarrow>
    acting_role a' = acting_role a"
  by (auto simp: same_session_def places_def acting_role_def split: session.splits)

lemma find_place: "find (\<lambda>p. place_of p = k) ps = Some p \<Longrightarrow> p \<in> set ps \<and> place_of p = k"
  by (auto simp: find_Some_iff)

lemma finish_inv:
  assumes fin: "finish c a effs ms gs cs ps = (c', new)"
    and app: "reach app_init (app_step pf) (app_effects os) (co_app c)"
      "reach app_init (app_step pf) (app_effects os @ effs) a"
    and conns: "conns_ok a (foldl conn_effect cs effs)"
    and ms: "map place_of ms = places (co_app c)"
      "\<forall>p \<in> set ms. panel_ran pf digest (acting_role (co_app c)) (os @ map (Panel_out (ap_user (co_app c))) ps) p \<and> alive p"
      "\<forall>p \<in> set ms. place_of p \<notin> set (places a) \<longrightarrow> quiet p"
    and gs: "\<forall>p \<in> set gs. (\<exists>r. panel_ran pf digest r (os @ map (Panel_out (ap_user (co_app c))) ps) p) \<and> quiet p \<and>
      place_seen (co_app c) (place_of p)"
    and sess: "same_session (co_app c) a" "ap_seen (co_app c) \<subseteq> ap_seen a"
  shows "console_inv pf digest (os @ new) c'"
proof -
  let ?who = "map (Panel_out (ap_user (co_app c))) ps"
  define rs where "rs = reconcile (co_app c) a ms"
  from fin have c': "co_app c' = a" "co_mounted c' = map fst rs" "co_gone c' = gs @ left_over a ms"
      "co_conns c' = foldl conn_effect cs effs"
    and new: "new = ?who @ map (App_out (ap_user (co_app c))) effs @ map (Panel_out (ap_user a)) (concat (map snd rs))"
    by (auto simp: finish_def rs_def Let_def)
  have more: "panel_ran pf digest r (os @ new) p" if "panel_ran pf digest r (os @ ?who) p" for r p
    using panel_ran_more [OF that] by (simp add: new)
  have inst: "panel_ran pf digest (acting_role a) (os @ new) (fst x) \<and> alive (fst x) \<and> place_of (fst x) = k"
    if k: "k \<in> set (places a)" and x: "x = (case find (\<lambda>p. place_of p = k) ms of
        Some p \<Rightarrow> update (co_app c) a p | None \<Rightarrow> mount a k)" for k x
  proof (cases "find (\<lambda>p. place_of p = k) ms")
    case None
    with x mount_ran show ?thesis by simp
  next
    case (Some p)
    from find_place [OF Some] have p: "p \<in> set ms" "place_of p = k" by auto
    then have "k \<in> set (places (co_app c))" using ms(1) [symmetric] by force
    with sess(1) k have role: "acting_role a = acting_role (co_app c)" by (intro role_kept)
    have "x \<in> set rs" using k x by (auto simp: rs_def reconcile_def)
    then have "\<forall>y \<in> set (snd x). heard (os @ new) y" by (auto simp: new)
    moreover have "panel_ran pf digest (acting_role a) (os @ new) p" "alive p"
      using p(1) ms(2) more by (auto simp: role)
    ultimately show ?thesis using update_ran [of pf digest "acting_role a" "os @ new" p "co_app c" a] x Some p(2)
      by simp
  qed
  have rs: "rs = map (\<lambda>k. case find (\<lambda>p. place_of p = k) ms of
      Some p \<Rightarrow> update (co_app c) a p | None \<Rightarrow> mount a k) (places a)"
    by (simp add: rs_def reconcile_def)
  have "map place_of (map fst rs) = places a"
    using inst by (simp add: rs comp_def map_idI)
  moreover have "\<forall>p \<in> set (map fst rs). panel_ran pf digest (acting_role a) (os @ new) p \<and> alive p"
    using inst by (fastforce simp: rs)
  moreover have "\<forall>p \<in> set gs. (\<exists>r. panel_ran pf digest r (os @ new) p) \<and> quiet p \<and> place_seen a (place_of p)"
    using gs more place_seen_mono [OF _ sess(2)] by blast
  moreover have "(\<exists>r. panel_ran pf digest r (os @ new) p) \<and> quiet p \<and> place_seen a (place_of p)"
    if left: "p \<in> set (left_over a ms)" for p
  proof -
    from left obtain q where q: "q \<in> set ms" "place_of q \<notin> set (places a)" "p = unmount q"
      by (auto simp: left_over_def)
    with ms(2) more have ran: "panel_ran pf digest (acting_role (co_app c)) (os @ new) p \<and> place_of p = place_of q"
      using unmount_ran by blast
    moreover have "place_of q \<in> set (places (co_app c))" using q(1) ms(1) [symmetric] by simp
    then have "place_seen a (place_of q)" using places_seen [OF app(1)] place_seen_mono [OF _ sess(2)] by blast
    ultimately show ?thesis using q(1,2) ms(3) by (auto simp: q(3))
  qed
  ultimately show ?thesis using app(2) conns
    by (auto simp: console_inv_def c' new)
qed

lemma hear_moves:
  assumes "reach app_init (app_step pf) os a" and "ap_conn a \<noteq> None"
  shows "reach app_init (app_step pf) os (foldl hear a out) \<and> ap_conn (foldl hear a out) = ap_conn a \<and>
    ap_connState (foldl hear a out) = (case last_status out of None \<Rightarrow> ap_connState a | Some c \<Rightarrow> c) \<and>
    ap_nextConn (foldl hear a out) = ap_nextConn a \<and> ap_user (foldl hear a out) = ap_user a \<and>
    ap_seen (foldl hear a out) = ap_seen a \<and> ap_bottomTab (foldl hear a out) = ap_bottomTab a"
  using assms
proof (induction out arbitrary: a)
  case (Cons x out)
  have frame: "ap_conn (hear a x) = ap_conn a \<and> ap_nextConn (hear a x) = ap_nextConn a \<and>
      ap_user (hear a x) = ap_user a \<and> ap_seen (hear a x) = ap_seen a \<and>
      ap_bottomTab (hear a x) = ap_bottomTab a \<and>
      ap_connState (hear a x) = (case x of Status c \<Rightarrow> c | _ \<Rightarrow> ap_connState a)"
    by (cases x) (auto simp: hear_def app_message_def shouldUpdateSampleVerdict_def Let_def
        split: live_message.splits live_source.splits)
  have "reach app_init (app_step pf) os (hear a x)"
  proof (cases "x = Schedule 0 \<or> (\<exists>d. x = Schedule d)")
    case True
    with Cons.prems(1) show ?thesis by (auto simp: hear_def)
  next
    case False
    then have "app_step pf a [] (hear a x)"
      using app_step.message [OF Cons.prems(2), of pf] app_step.status [OF Cons.prems(2), of pf]
      by (cases x) (simp_all add: hear_def)
    from reach_step [OF Cons.prems(1), OF this] show ?thesis by simp
  qed
  from Cons.IH [OF this] frame Cons.prems(2) show ?case
    by (simp split: option.splits live_out.splits)
qed simp

lemma places_user: "ap_user a' = ap_user a \<Longrightarrow> k = At_login \<Longrightarrow> k \<in> set (places a) \<Longrightarrow> k \<in> set (places a')"
  by (auto simp: places_def split: session.splits)

lemma same_session_refl: "ap_user a' = ap_user a \<or> ap_user a' = Signed_out \<Longrightarrow> same_session a a'"
  by (auto simp: same_session_def)

lemma login_stays:
  assumes "map place_of ms = places a" and "ap_user a' = ap_user a \<or> ap_user a' = Signed_out"
  shows "\<forall>p \<in> set ms. place_of p \<notin> set (places a') \<longrightarrow> quiet p"
proof (intro ballI impI)
  fix p assume p: "p \<in> set ms" "place_of p \<notin> set (places a')"
  have "place_of p \<in> set (places a)" using p(1) assms(1) [symmetric] by simp
  with p(2) assms(2) have "place_of p \<noteq> At_login" by (auto simp: places_def split: session.splits)
  then show "quiet p" by (rule quiet_other)
qed

lemma own_login_stays:
  assumes "map place_of ms = places a" and "app_own a effs a'" and "app_asking a"
  shows "\<forall>p \<in> set ms. place_of p \<notin> set (places a') \<longrightarrow> quiet p"
proof (cases "ap_user a = Signed_out")
  case True
  with assms(2,3) have "ap_user a' = Signed_out"
    by (cases rule: app_own_cases) (auto simp: app_asking_def app_monitor_settled_def app_logout_settled_def set_user_def
        handleLogout_def select_tab_def split: sum.splits)
  then show ?thesis by (intro login_stays [OF assms(1)]) simp
next
  case False
  then have "At_login \<notin> set (map place_of ms)" unfolding assms(1) by (auto simp: places_def split: session.splits)
  then show ?thesis by (metis image_eqI list.set_map quiet_other)
qed

text \<open>The move of one mounted instance.\<close>

lemma mounted_inv:
  assumes inv: "console_inv pf digest os c" and ms: "co_mounted c = xs @ p # ys"
    and place: "place_of p' = place_of p" and alive: "alive p'"
    and ran: "panel_ran pf digest (acting_role (co_app c)) (os @ map (Panel_out (ap_user (co_app c))) ps) p'"
    and ok: "\<forall>x \<in> set ps. port_ok (place_of p) x"
    and login: "place_of p = At_login \<longrightarrow>
      deliver ps (co_app c) = (co_app c, []) \<or> quiet p' \<and> (\<exists>u. ps = [Login_callback u])"
    and del: "deliver ps (co_app c) = (a, effs)"
    and fin: "finish c a effs (xs @ p' # ys) (co_gone c) (co_conns c) ps = (c', new)"
  shows "console_inv pf digest (os @ new) c'"
proof -
  from inv have app: "reach app_init (app_step pf) (app_effects os) (co_app c)"
    and conns: "conns_ok (co_app c) (co_conns c)"
    and places: "map place_of (co_mounted c) = places (co_app c)"
    and mounted: "\<forall>q \<in> set (co_mounted c). panel_ran pf digest (acting_role (co_app c)) os q \<and> alive q"
    and gone: "\<forall>q \<in> set (co_gone c). (\<exists>r. panel_ran pf digest r os q) \<and> quiet q \<and> place_seen (co_app c) (place_of q)"
    by (simp_all add: console_inv_def)
  have here: "place_of p \<in> set (places (co_app c))" using places [symmetric] ms by simp
  have seen: "place_seen (co_app c) (place_of p)" using app here by (rule places_seen)
  have same: "map place_of (xs @ p' # ys) = places (co_app c)" using places ms place by simp
  have moved: "reach app_init (app_step pf) (app_effects os @ effs) a \<and>
      conns_ok a (foldl conn_effect (co_conns c) effs) \<and> ap_seen (co_app c) \<subseteq> ap_seen a \<and>
      same_session (co_app c) a \<and>
      (\<forall>q \<in> set (xs @ p' # ys). place_of q \<notin> set (places a) \<longrightarrow> quiet q)"
  proof (cases "place_of p = At_login")
    case True
    with here have out: "ap_user (co_app c) = Signed_out" by (auto simp: places_def split: session.splits)
    from login True consider "deliver ps (co_app c) = (co_app c, [])"
      | u where "quiet p'" "ps = [Login_callback u]" by blast
    then show ?thesis
    proof cases
      case 1
      with del have "a = co_app c" "effs = []" by auto
      with app conns login_stays [OF same, of "co_app c"] show ?thesis by (simp add: same_session_def)
    next
      case 2
      with del have "app_onLogin u (co_app c) = (a, effs)" by (simp split: prod.splits)
      note moves = login_deliver [OF this out app]
      have "places (co_app c) = [At_login]" using out by (simp add: places_def)
      with same 2(1) have "\<forall>q \<in> set (xs @ p' # ys). quiet q" by (auto simp: append_eq_Cons_conv Cons_eq_append_conv)
      with moves conns show ?thesis by blast
    qed
  next
    case False
    note moves = deliver_moves [OF del False seen ok app]
    with conns login_stays [OF same, of a] show ?thesis by (auto intro: same_session_refl)
  qed
  have more: "\<forall>q \<in> set (xs @ p' # ys). panel_ran pf digest (acting_role (co_app c))
      (os @ map (Panel_out (ap_user (co_app c))) ps) q \<and> alive q"
    using mounted ran alive by (auto simp: ms intro: panel_ran_more)
  show ?thesis
    by (rule finish_inv [OF fin app]) (use moved more same gone panel_ran_more in blast)+
qed

text \<open>A move of an instance by itself.\<close>

lemma moved_ran:
  assumes "panel_settle digest p ps p' \<or> panel_tick p ps p'" and "panel_ran pf digest r os p"
  shows "panel_ran pf digest r (os @ map (Panel_out w) ps) p'"
proof -
  let ?os = "os @ map (Panel_out w) ps"
  have "panel_ran pf digest r ?os p" using assms(2) by (rule panel_ran_more)
  moreover have "\<forall>x \<in> set ps. heard ?os x" by simp
  ultimately show ?thesis using assms(1) panel_settle_ran panel_tick_ran by blast
qed

lemma moved_frame:
  assumes "panel_settle digest p ps p' \<or> panel_tick p ps p'"
  shows "place_of p' = place_of p" and "alive p \<Longrightarrow> alive p'" and "\<forall>x \<in> set ps. port_ok (place_of p) x"
  using assms
  by (elim disjE; simp add: panel_settle_place panel_tick_place panel_settle_alive panel_tick_alive
      panel_settle_ports panel_tick_ports)+

lemma lingering_inv:
  assumes inv: "console_inv pf digest os c" and gs: "co_gone c = xs @ p # ys"
    and move: "panel_settle digest p ps p' \<or> panel_tick p ps p'"
    and del: "deliver ps (co_app c) = (a, effs)"
    and fin: "finish c a effs (co_mounted c) (xs @ p' # ys) (co_conns c) ps = (c', new)"
  shows "console_inv pf digest (os @ new) c'"
proof -
  let ?os = "os @ map (Panel_out (ap_user (co_app c))) ps"
  from inv have app: "reach app_init (app_step pf) (app_effects os) (co_app c)"
    and conns: "conns_ok (co_app c) (co_conns c)"
    and places: "map place_of (co_mounted c) = places (co_app c)"
    and mounted: "\<forall>q \<in> set (co_mounted c). panel_ran pf digest (acting_role (co_app c)) os q \<and> alive q"
    and gone: "\<forall>q \<in> set (co_gone c). (\<exists>r. panel_ran pf digest r os q) \<and> quiet q \<and> place_seen (co_app c) (place_of q)"
    by (simp_all add: console_inv_def)
  from gone gs obtain r where r: "panel_ran pf digest r os p" "quiet p" "place_seen (co_app c) (place_of p)" by auto
  have notlogin: "place_of p \<noteq> At_login" using move r(2) quiet_settle panel_tick_login by blast
  note place = moved_frame(1) [OF move] and ok = moved_frame(3) [OF move]
  have ran: "panel_ran pf digest r ?os p'" using move r(1) by (rule moved_ran)
  note moves = deliver_moves [OF del notlogin r(3) ok app]
  have "\<forall>q \<in> set (xs @ p' # ys). (\<exists>r. panel_ran pf digest r ?os q) \<and> quiet q \<and> place_seen (co_app c) (place_of q)"
    using gone ran place r(3) notlogin by (auto simp: gs intro: panel_ran_more quiet_other)
  moreover have "\<forall>q \<in> set (co_mounted c). panel_ran pf digest (acting_role (co_app c)) ?os q \<and> alive q"
    using mounted panel_ran_more by blast
  moreover have "\<forall>q \<in> set (co_mounted c). place_of q \<notin> set (places a) \<longrightarrow> quiet q"
    using login_stays [OF places, of a] moves by blast
  moreover have "same_session (co_app c) a" using moves by (intro same_session_refl) blast
  ultimately show ?thesis using moves conns by (intro finish_inv [OF fin app _ _ places]) auto
qed

lemma live_inv:
  assumes inv: "console_inv pf digest os c" and conn: "co_conns c k = Some l" "socket_step l out l'"
      "conn_closed l' = conn_closed l"
    and fin: "finish c (foldl hear (co_app c) out) [] (co_mounted c) (co_gone c) ((co_conns c)(k \<mapsto> l')) [] = (c', new)"
  shows "console_inv pf digest (os @ new) c'"
proof -
  let ?a = "foldl hear (co_app c) out"
  from inv have app: "reach app_init (app_step pf) (app_effects os) (co_app c)"
    and conns: "conns_ok (co_app c) (co_conns c)"
    and places: "map place_of (co_mounted c) = places (co_app c)"
    by (simp_all add: console_inv_def)
  from conns conn(1) obtain xs where run: "socket_run xs l" and open_iff: "\<not> conn_closed l \<longleftrightarrow> ap_conn (co_app c) = Some k"
    and status: "ap_conn (co_app c) = Some k \<longrightarrow> last_status xs = Some (ap_connState (co_app c))"
    unfolding conns_ok_def by blast
  have closed: "conn_closed l \<Longrightarrow> out = []"
    using closed_step [OF socket_run_inv [OF run] _ conn(2)] by blast
  have hear: "reach app_init (app_step pf) (app_effects os) ?a \<and> ap_conn ?a = ap_conn (co_app c) \<and>
    ap_nextConn ?a = ap_nextConn (co_app c) \<and> ap_user ?a = ap_user (co_app c) \<and> ap_seen ?a = ap_seen (co_app c)"
  proof (cases "conn_closed l")
    case True
    with closed_step [OF socket_run_inv [OF run] _ conn(2)] app show ?thesis by simp
  next
    case False
    with open_iff hear_moves [OF app] show ?thesis by simp
  qed
  have "socket_run (xs @ out) l'" using run conn(2) by (rule socket_run_step)
  moreover have "last_status (xs @ out) = Some (ap_connState ?a)" if "ap_conn (co_app c) = Some k"
    using that status hear_moves [OF app, of out] by (auto simp: last_status_append split: option.splits)
  ultimately have "conns_ok ?a ((co_conns c)(k \<mapsto> l'))"
    by (rule moved_ok [OF conns conn(1,3)]) (use hear closed open_iff in auto)
  moreover have "\<forall>q \<in> set (co_mounted c). place_of q \<notin> set (places ?a) \<longrightarrow> quiet q"
    using login_stays [OF places, of ?a] hear by blast
  moreover have "same_session (co_app c) ?a" using hear by (intro same_session_refl) blast
  ultimately show ?thesis using hear inv
    by (intro finish_inv [OF fin app _ _ places]) (auto simp: console_inv_def)
qed

lemma app_step_inv:
  assumes inv: "console_inv pf digest os c" and own: "app_own (co_app c) effs a"
    and fin: "finish c a effs (co_mounted c) (co_gone c) (co_conns c) [] = (c', new)"
  shows "console_inv pf digest (os @ new) c'"
proof -
  from inv have app: "reach app_init (app_step pf) (app_effects os) (co_app c)"
    and conns: "conns_ok (co_app c) (co_conns c)"
    and places: "map place_of (co_mounted c) = places (co_app c)"
    by (simp_all add: console_inv_def)
  note asking = app_ask.reach_inv [OF app]
  from app_own_frame [OF own asking] app_own_conns [OF own conns] own_login_stays [OF places own asking]
    reach_step [OF app, OF app_step.own, OF own] inv
  show ?thesis by (intro finish_inv [OF fin app _ _ places]) (auto simp: console_inv_def)
qed

lemma console_inv_step:
  assumes "console_inv pf digest os c" and "console_step pf digest c new c'"
  shows "console_inv pf digest (os @ new) c'"
  using assms(2)
proof cases
  case (app effs a)
  with assms(1) show ?thesis by (intro app_step_inv)
next
  case (acts xs p ys ps p' a effs)
  have p: "panel_ran pf digest (acting_role (co_app c)) os p" "alive p"
    using assms(1) acts(1) by (simp_all add: console_inv_def)
  have "panel_ran pf digest (acting_role (co_app c)) (os @ map (Panel_out (ap_user (co_app c))) ps) p'"
    by (rule panel_user_ran [OF acts(2) panel_ran_more [OF p(1)] p(2)]) simp
  from mounted_inv [OF assms(1) acts(1) panel_user_place [OF acts(2)] panel_user_alive [OF acts(2) p(2)] this
      panel_user_ports [OF acts(2)] _ acts(3,4)] login_user_ports [OF acts(2)]
  show ?thesis by blast
next
  case (moves xs p ys ps p' a effs)
  have p: "panel_ran pf digest (acting_role (co_app c)) os p" "alive p"
    using assms(1) moves(1) by (simp_all add: console_inv_def)
  have "panel_ran pf digest (acting_role (co_app c)) (os @ map (Panel_out (ap_user (co_app c))) ps) p'"
    using moves(2) p(1) by (rule moved_ran)
  moreover note moved_frame(1) [OF moves(2)] moved_frame(2) [OF moves(2) p(2)] moved_frame(3) [OF moves(2)]
  moreover have "place_of p = At_login \<longrightarrow>
      deliver ps (co_app c) = (co_app c, []) \<or> quiet p' \<and> (\<exists>u. ps = [Login_callback u])"
    using moves(2) login_settle_ports [OF _ _ p(1)] panel_tick_login by blast
  ultimately show ?thesis using mounted_inv [OF assms(1) moves(1) _ _ _ _ _ moves(3,4)] by blast
next
  case (lingers xs p ys ps p' a effs)
  with assms(1) show ?thesis by (intro lingering_inv)
next
  case (live k l out l' )
  with assms(1) show ?thesis by (intro live_inv)
qed

interpretation console: invariant_system console_init "console_step pf digest" "console_inv pf digest"
proof unfold_locales
  show "console_inv pf digest [] c" if "console_init c" for c
  proof -
    have "reach app_init (app_step pf) [] (fst app_mount)" by (rule reach_init) (simp add: app_init_def)
    with that show ?thesis
      by (simp add: console_init_def console_inv_def conns_ok_def app_mount_def app_start_def places_def)
  qed
qed (rule console_inv_step)

end
