(* ===== verification/ConsoleFacts.thy ===== *)
theory ConsoleFacts
  imports ConsoleRuns
begin

text \<open>
  What the invariant of the dashboard gives: where a request or a download of a run comes from and who
  was signed in, which properties the mounted instances have, what the page's sockets are, and that
  the promises of the instances run out.  The last part is a run in which an admin approves a hash.
\<close>

subsection \<open>Where a request comes from\<close>

text \<open>The requests that change nothing on the server.\<close>

fun is_fetch :: "api_call \<Rightarrow> bool" where
  "is_fetch Me = True"
| "is_fetch Fetch_verdicts = True"
| "is_fetch Fetch_monitor_status = True"
| "is_fetch Fetch_chain_status = True"
| "is_fetch Fetch_hashes = True"
| "is_fetch Fetch_corpus_pending = True"
| "is_fetch Fetch_users = True"
| "is_fetch Fetch_quarantine_pending = True"
| "is_fetch _ = False"

text \<open>Outside the user's actions nothing but listings is requested, and nothing is saved.\<close>

definition harmless :: "port \<Rightarrow> bool" where
  "harmless x \<longleftrightarrow> (case x of Request c \<Rightarrow> is_fetch c | Save d m f \<Rightarrow> False | _ \<Rightarrow> True)"

lemma harmless_simps [simp]:
  "harmless (Request c) = is_fetch c" "harmless (Toast m t)" "harmless (Callback g)"
  "harmless (Login_callback u)" "\<not> harmless (Save d m f)"
  by (simp_all add: harmless_def)

lemma refresh_harmless: "\<forall>x \<in> set (snd (refresh p)). harmless x"
  by (cases p) (auto simp: audit_effect_run_def audit_load_def hash_refetch_def corpus_refetch_def
      quarantine_refetch_def audit_port_def review_port_def)

lemma mount_harmless: "\<forall>x \<in> set (snd (mount a k)). harmless x"
proof (cases k)
  case (At_log t)
  then show ?thesis by (cases t) (auto simp: audit_effect_run_def audit_load_def hash_refetch_def
      corpus_refetch_def quarantine_refetch_def user_refetch_def audit_port_def review_port_def)
qed simp_all

lemma reconcile_harmless: "\<forall>x \<in> set (concat (map snd (reconcile a a' ps))). harmless x"
  using refresh_harmless mount_harmless
  by (auto simp: reconcile_def update_def split: option.splits if_splits)

lemma tick_harmless: "panel_tick p ps p' \<Longrightarrow> \<forall>x \<in> set ps. harmless x"
  by (erule panel_tick.cases) (auto simp: audit_load_def audit_port_def)

lemma settle_harmless: "panel_settle digest p ps p' \<Longrightarrow> \<forall>x \<in> set ps. harmless x"
proof (induction rule: panel_settle.induct)
  case (audit s out s')
  then show ?case by cases
    (auto simp: audit_verdicts_settled_def audit_chain_settled_def audit_port_def split: sum.splits if_splits)
next
  case (upload s out s')
  then show ?case by cases (auto simp: upload_settled_def upload_port_def Let_def split: sum.splits if_splits)
next
  case (hashes s out s')
  then show ?case by cases (auto simp: hash_handler_defs review_port_def split: sum.splits if_splits)
next
  case (corpus s out s')
  then show ?case by cases (auto simp: corpus_handler_defs review_port_def split: sum.splits if_splits)
next
  case (quarantine s out s')
  then show ?case by cases (auto simp: quarantine_handler_defs review_port_def split: sum.splits if_splits)
next
  case (users s out s')
  then show ?case by cases (auto simp: user_handler_defs review_port_def split: sum.splits if_splits)
qed (auto simp: login_settled_def banner_settled_def login_port_def banner_port_def Let_def split: sum.splits)

text \<open>What else an instance requests or saves, its user asked for: who was signed in then is who
  the instance was rendered for.\<close>

lemma finish_split:
  assumes "finish c a effs ms gs cs ps = (c', new1 @ Panel_out who x # new2)" and "\<not> harmless x"
  shows "who = ap_user (co_app c) \<and> x \<in> set ps"
proof -
  let ?rest = "map (App_out (ap_user (co_app c))) effs
      @ map (Panel_out (ap_user a)) (concat (map snd (reconcile (co_app c) a ms)))"
  have "Panel_out who x \<in> set (map (Panel_out (ap_user (co_app c))) ps @ ?rest)"
    using assms(1) by (metis (no_types, lifting) finish_def in_set_conv_decomp snd_conv)
  with reconcile_harmless assms(2) show ?thesis by auto
qed

lemma asked_for:
  assumes "reach console_init (console_step pf digest) (ps @ Panel_out who x # qs) s" and "\<not> harmless x"
  obtains os c p xs p' where "console_inv pf digest os c" and "set os \<subseteq> set ps" and "p \<in> set (co_mounted c)"
    and "panel_user pf (acting_role (co_app c)) p xs p'" and "x \<in> set xs" and "who = ap_user (co_app c)"
proof -
  from reach_emitted [OF assms(1) refl] obtain os c new1 new2 c' where
    r: "reach console_init (console_step pf digest) os c" and
    st: "console_step pf digest c (new1 @ Panel_out who x # new2) c'" and ps: "ps = os @ new1" by blast
  note inv = console.reach_inv [OF r]
  show thesis using st
  proof cases
    case (app effs a)
    with finish_split [OF app(2) assms(2)] show thesis by simp
  next
    case (acts xs p ys qs p' a effs)
    from finish_split [OF acts(4) assms(2)] acts(1,2) show thesis
      by (intro that [OF inv, of p qs p']) (auto simp: ps)
  next
    case (moves xs p ys qs p' a effs)
    with finish_split [OF moves(4) assms(2)] settle_harmless tick_harmless assms(2) show thesis by blast
  next
    case (lingers xs p ys qs p' a effs)
    with finish_split [OF lingers(4) assms(2)] settle_harmless tick_harmless assms(2) show thesis by blast
  next
    case (live k l out l')
    with finish_split [OF live(4) assms(2)] show thesis by simp
  qed
qed

subsection \<open>Who may send what\<close>

lemma signed_in_place: "k \<in> set (places a) \<Longrightarrow> k \<noteq> At_login \<Longrightarrow>
    \<exists>u. ap_user a = Signed_in u \<and> acting_role a = role_of u"
  by (auto simp: places_def acting_role_def split: session.splits)

lemma role_of_admin [simp]: "role_of u = Admin \<longleftrightarrow> su_role u = js ''admin''"
  by (simp add: role_of_def)

lemma decision_port: "Request c \<in> set (ports (review_port f) out) \<Longrightarrow> is_decision c \<Longrightarrow> c \<in> set (decisions out)"
  by (induction out) (auto simp: review_port_def split: panel_effect.splits)

lemma listed_heard:
  assumes "e \<in> listed xs" and "\<forall>x \<in> set (ports (review_port (\<lambda>es. [g es])) xs). heard os x"
  shows "\<exists>es. heard os (Callback (g es)) \<and> e \<in> set es"
proof -
  from assms(1) obtain es where es: "Entries_change es \<in> set xs" "e \<in> set es" by (auto simp: listed_def)
  then have "Callback (g es) \<in> set (ports (review_port (\<lambda>es. [g es])) xs)"
    by (force simp: ports_def review_port_def)
  with es(2) assms(2) show ?thesis by blast
qed

text \<open>A review panel in the dashboard, for either role: who asks for a decision, and what has been heard
  of its entry before.\<close>

locale asked_panel =
  fixes init :: "'s \<Rightarrow> bool"
    and step :: "role \<Rightarrow> 's \<Rightarrow> 'e panel_effect list \<Rightarrow> 's \<Rightarrow> bool"
    and entries :: "'s \<Rightarrow> 'e list"
    and armed :: "'s \<Rightarrow> api_call option"
    and eligible :: "'e \<Rightarrow> api_call \<Rightarrow> bool"
    and lift :: "'e list \<Rightarrow> panel_call"
  assumes reviews: "review_panel init (step r) entries armed eligible"
    and analyst: "analyst_panel init (step Analyst) entries armed eligible"
begin

lemma decision_asked:
  assumes "ran init (step r) (review_port (\<lambda>es. [lift es])) os s" and "step r s out s'"
    and "Request c \<in> set (ports (review_port (\<lambda>es. [lift es])) out)" and "is_decision c"
  shows "r = Admin \<and> (\<exists>es e. heard os (Callback (lift es)) \<and> e \<in> set es \<and> eligible e c)"
proof -
  from assms(1) obtain xs where xs: "reach init (step r) xs s"
      "\<forall>x \<in> set (ports (review_port (\<lambda>es. [lift es])) xs). heard os x" by (auto simp: ran_def)
  note d = decision_port [OF assms(3,4)]
  have "r = Admin"
    using d analyst_panel.no_decision [OF analyst, of "xs @ out" s'] reach_step [OF xs(1) assms(2)]
    by (cases r) auto
  with review_panel.decision_listed [OF reviews xs(1) assms(2) d] listed_heard [OF _ xs(2)] show ?thesis by blast
qed

end

interpretation hash_asks: asked_panel hash_init hash_step hs_entries hash_armed hash_eligible On_hashes_change
  by (rule asked_panel.intro) (rule hash_panel.review_panel_axioms, rule hash_analyst.analyst_panel_axioms)

interpretation corpus_asks: asked_panel corpus_init corpus_step cs_entries corpus_armed corpus_eligible On_corpus_change
  by (rule asked_panel.intro) (rule corpus_panel.review_panel_axioms, rule corpus_analyst.analyst_panel_axioms)

interpretation quarantine_asks: asked_panel quarantine_init quarantine_step qs_entries quarantine_armed
    quarantine_eligible On_quarantine_change
  by (rule asked_panel.intro) (rule quarantine_panel.review_panel_axioms, rule quarantine_analyst.analyst_panel_axioms)

lemma hash_decision_asked:
  assumes "panel_user pf r (P_hashes s) ps p'" and "panel_ran pf digest r os (P_hashes s)"
    and "Request c \<in> set ps" and "is_decision c"
  shows "r = Admin \<and> (\<exists>es e. heard os (Callback (On_hashes_change es)) \<and> e \<in> set es \<and> hash_eligible e c)"
  using assms(1)
proof cases
  case (hashes a s' out)
  from hash_asks.decision_asked [OF _ hash_step.user [OF hashes(3,4)] _ assms(4)] assms(2,3) hashes(1)
  show ?thesis by simp
qed

lemma corpus_decision_asked:
  assumes "panel_user pf r (P_corpus s) ps p'" and "panel_ran pf digest r os (P_corpus s)"
    and "Request c \<in> set ps" and "is_decision c"
  shows "r = Admin \<and> (\<exists>es e. heard os (Callback (On_corpus_change es)) \<and> e \<in> set es \<and> corpus_eligible e c)"
  using assms(1)
proof cases
  case (corpus a s' out)
  from corpus_asks.decision_asked [OF _ corpus_step.user [OF corpus(3,4)] _ assms(4)] assms(2,3) corpus(1)
  show ?thesis by simp
qed

lemma quarantine_decision_asked:
  assumes "panel_user pf r (P_quarantine s) ps p'" and "panel_ran pf digest r os (P_quarantine s)"
    and "Request c \<in> set ps" and "is_decision c"
  shows "r = Admin \<and> (\<exists>es e. heard os (Callback (On_quarantine_change es)) \<and> e \<in> set es \<and> quarantine_eligible e c)"
  using assms(1)
proof cases
  case (quarantine a s' out)
  from quarantine_asks.decision_asked [OF _ quarantine_step.user [OF quarantine(3,4)] _ assms(4)] assms(2,3)
    quarantine(1)
  show ?thesis by simp
qed

text \<open>No other component requests a decision; and what only an admin may do.\<close>

lemma other_decisions:
  assumes "panel_user pf r p ps p'" and "Request c \<in> set ps" and "is_decision c"
  shows "place_of p \<in> {At_log Tab_hashes, At_log Tab_corpus, At_log Tab_quarantine}"
  using assms
  by cases (auto simp: ports_def login_handler_defs login_port_def banner_handle_def handleReconnect_def
      banner_port_def upload_handler_defs upload_port_def feed_port_def audit_handle_def audit_port_def
      handleQueryChange_def toggleSortOrder_def downloadAuditLogJson_def downloadAuditLogCsv_def
      user_handler_defs review_port_def
      split: login_act.splits banner_act.splits upload_act.splits audit_act.splits user_act.splits
        option.splits if_splits)

lemma admin_only:
  assumes "panel_user pf r p ps p'" and "x \<in> set ps" and "x = Request Reconnect_monitor \<or> x = Save d m f"
    and "panel_ran pf digest r os p"
  shows "r = Admin"
  using assms(1)
proof cases
  case (banner s a s' out)
  with assms(4) obtain xs where "reach banner_init (banner_step r) xs s" by (auto simp: ran_def)
  from reach_step [OF this, OF banner_step.user, OF banner(4,5)]
  have "reach banner_init (banner_step r) (xs @ out) s'" .
  moreover obtain y where y: "y \<in> set out" "x \<in> set (banner_port y)"
    using assms(2) banner(2) by (auto simp: ports_def)
  moreover have "\<exists>c. y = Banner_call c" using y(2) assms(3) by (cases y) (auto simp: banner_port_def)
  ultimately show ?thesis using banner.reach_inv [of r "xs @ out" s'] by (auto simp: banner_inv_def)
next
  case (audit now s v a s' out)
  with assms(2,3) have "a = AA_json \<or> a = AA_csv"
    by (auto simp: ports_def audit_handle_def audit_port_def split: audit_act.splits)
  with audit_offers [OF audit(4)] audit(5) show ?thesis by blast
qed (use assms(2,3) in \<open>auto simp: ports_def login_handler_defs login_port_def upload_handler_defs upload_port_def
    feed_port_def hash_handler_defs hash_decide_def corpus_handler_defs corpus_decide_def
    quarantine_handler_defs quarantine_decide_def user_handler_defs review_port_def
    split: login_act.splits upload_act.splits hash_act.splits corpus_act.splits quarantine_act.splits
      user_act.splits decision.splits option.splits if_splits\<close>)

text \<open>Only the login page signs in, and that is all it requests.\<close>

lemma login_port_place:
  assumes "panel_user pf r p xs p'" and "x \<in> set xs" and "\<not> harmless x"
  shows "place_of p = At_login \<longleftrightarrow> (\<exists>n p. x = Request (Login n p))"
  using assms
  by cases (auto simp: ports_def login_handler_defs login_port_def banner_handle_def handleReconnect_def
      banner_port_def upload_handler_defs upload_port_def feed_port_def audit_handle_def audit_port_def
      handleQueryChange_def toggleSortOrder_def downloadAuditLogJson_def downloadAuditLogCsv_def
      hash_handler_defs hash_decide_def corpus_handler_defs corpus_decide_def quarantine_handler_defs
      quarantine_decide_def user_handler_defs review_port_def
      split: login_act.splits banner_act.splits upload_act.splits audit_act.splits user_act.splits
        hash_act.splits corpus_act.splits quarantine_act.splits decision.splits option.splits if_splits)

text \<open>The instances of the audit log, the feed and the banner have the properties that \<open>App\<close> has now.\<close>

definition props_current :: "app_state \<Rightarrow> panel \<Rightarrow> bool" where
  "props_current a p \<longleftrightarrow> (case p of
     P_banner s \<Rightarrow> mb_isolated s = ap_isolated a
   | P_feed s \<Rightarrow> ef_sample s = ap_sampleEvents a \<and> ef_monitor s = ap_monitorEvents a
   | _ \<Rightarrow> True)"

lemma mount_current: "props_current a (fst (mount a k))"
proof (cases k)
  case (At_log t)
  then show ?thesis by (cases t) (simp_all add: props_current_def)
qed (simp_all add: props_current_def mounted_banner_def feed_mount_def)

lemma new_props_current: "props_current a (new_props a p)"
  by (cases p) (simp_all add: props_current_def feed_update_def Let_def split: prod.splits)

lemma refresh_current: "props_current a (fst (refresh p)) = props_current a p"
  by (cases p) (simp_all add: props_current_def)

lemma finish_current:
  "finish c a effs ms gs cs ps = (c', os) \<Longrightarrow> p \<in> set (co_mounted c') \<Longrightarrow> props_current (co_app c') p"
  by (auto simp: finish_def Let_def reconcile_def update_def mount_current new_props_current refresh_current
      split: option.splits if_splits)

lemma mounted_current:
  assumes "reach console_init (console_step pf digest) os c" and "p \<in> set (co_mounted c)"
  shows "props_current (co_app c) p"
  using assms
proof cases
  case reach_init
  with assms(2) show ?thesis by (simp add: console_init_def)
next
  case (reach_step os s out)
  from reach_step(3) assms(2) show ?thesis by cases (auto intro: finish_current)
qed

subsection \<open>The connections of a run\<close>

text \<open>The sockets of the page that are not closing or closed.\<close>

definition live_sockets :: "console \<Rightarrow> (nat \<times> nat) set" where
  "live_sockets c = {(k, i). \<exists>l. co_conns c k = Some l \<and> i < length (socks l) \<and> socks l ! i \<in> {Connecting, Open}}"

lemma live_socket_cases:
  assumes "conns_ok a cs" and "cs k = Some l" and "i < length (socks l)" and "socks l ! i \<in> {Connecting, Open}"
  shows "ap_conn a = Some k \<and> i = length (socks l) - 1"
proof -
  from assms(1,2) obtain xs where run: "socket_run xs l" and iff: "\<not> conn_closed l \<longleftrightarrow> ap_conn a = Some k"
    unfolding conns_ok_def by blast
  note inv = socket_run_inv [OF run]
  then have sh: "socket_shape l" by (simp add: socket_inv_def)
  have ne: "socks l ! i \<noteq> Closed" using assms(4) by auto
  note new = newest_only [OF sh assms(3) ne]
  with assms(4) inv have "\<not> conn_closed l" by (auto simp: socket_inv_def socket_phase_def split: ready_state.splits)
  with iff new(1) show ?thesis by blast
qed

lemma live_sockets_one:
  assumes "conns_ok (co_app c) (co_conns c)" and "x \<in> live_sockets c" and "y \<in> live_sockets c"
  shows "x = y \<and> (\<exists>k. ap_conn (co_app c) = Some k)"
proof -
  have is_live: "\<exists>k l. z = (k, length (socks l) - 1) \<and> co_conns c k = Some l \<and> ap_conn (co_app c) = Some k"
    if "z \<in> live_sockets c" for z
    using that live_socket_cases [OF assms(1)] unfolding live_sockets_def by blast
  from is_live [OF assms(2)] is_live [OF assms(3)] show ?thesis by auto
qed

text \<open>The last status of a connection that is wanted.\<close>

lemma session_status:
  "socket_run xs l \<Longrightarrow> \<not> conn_closed l \<Longrightarrow>
     (last (socks l) = Open \<longrightarrow> last_status xs = Some Conn_live) \<and>
     (last (socks l) = Connecting \<longrightarrow> last_status xs = Some Conn_connecting) \<and>
     (last (socks l) = Closed \<longleftrightarrow> last_status xs = Some Conn_offline)"
  by (drule socket_run_inv) (auto simp: socket_inv_def socket_phase_def split: ready_state.splits)

subsection \<open>What is loaded\<close>

text \<open>The mounted instances are those of the rendered tree.\<close>

definition fitted :: "console \<Rightarrow> bool" where
  "fitted c \<longleftrightarrow> map place_of (co_mounted c) = places (co_app c)"

lemma new_props_place [simp]: "place_of (new_props a p) = place_of p"
  by (cases p) auto

lemma update_place: "place_of (fst (update a a' p)) = place_of p"
proof -
  have "place_of (fst (refresh q)) = place_of q" for q
    by (cases q) (auto simp: audit_effect_run_def audit_load_def)
  then show ?thesis by (simp add: update_def)
qed

lemma mount_place: "place_of (fst (mount a k)) = k"
proof (cases k)
  case (At_log t)
  then show ?thesis by (cases t) auto
qed auto

lemma finish_fitted: "finish c a effs ms gs cs ps = (c', os) \<Longrightarrow> fitted c'"
  by (auto simp: fitted_def finish_def Let_def reconcile_def update_place mount_place find_Some_iff
      intro!: map_idI split: option.splits)

lemma console_fitted: "console_inv pf digest os c \<Longrightarrow> fitted c"
  by (simp add: console_inv_def fitted_def)

text \<open>Every step ends in \<open>finish\<close>, with the instances of the tree that was rendered before.\<close>

lemma console_step_finish:
  assumes "fitted c" and "console_step pf digest c os c'"
  shows "\<exists>effs ms gs cs ps. finish c (co_app c') effs ms gs cs ps = (c', os) \<and>
    map place_of ms = places (co_app c)"
proof -
  have ends: ?thesis if fin: "finish c a effs ms gs cs ps = (c', os)" and "map place_of ms = places (co_app c)"
    for a effs ms gs cs ps
  proof -
    have "co_app c' = a" using fin by (auto simp: finish_def Let_def)
    with that show ?thesis by blast
  qed
  have fit: "map place_of (co_mounted c) = places (co_app c)" using assms(1) by (simp add: fitted_def)
  from assms(2) show ?thesis
  proof cases
    case (app effs a)
    from ends [OF app(2) fit] show ?thesis .
  next
    case (acts xs p ys ps p' a effs)
    from ends [OF acts(4)] fit panel_user_place [OF acts(2)] show ?thesis by (simp add: acts(1))
  next
    case (moves xs p ys ps p' a effs)
    from ends [OF moves(4)] fit moved_frame(1) [OF moves(2)] show ?thesis by (simp add: moves(1))
  next
    case (lingers xs p ys ps p' a effs)
    from ends [OF lingers(4) fit] show ?thesis .
  next
    case (live k l out l')
    from ends [OF live(4) fit] show ?thesis .
  qed
qed

text \<open>The list that the panel of a tab shows.\<close>

fun listing :: "bottom_tab \<Rightarrow> api_call" where
  "listing Tab_audit = Fetch_verdicts"
| "listing Tab_hashes = Fetch_hashes"
| "listing Tab_corpus = Fetch_corpus_pending"
| "listing Tab_quarantine = Fetch_quarantine_pending"
| "listing Tab_users = Fetch_users"

lemma mount_loads: "Request (listing t) \<in> set (snd (mount a (At_log t)))"
  by (cases t) (simp_all add: audit_effect_run_def audit_load_def audit_port_def hash_refetch_def
      corpus_refetch_def quarantine_refetch_def user_refetch_def review_port_def)

lemma refresh_loads:
  "place_of p = At_log t \<Longrightarrow> t \<noteq> Tab_users \<Longrightarrow> Request (listing t) \<in> set (snd (refresh p))"
  by (cases p) (auto simp: audit_effect_run_def audit_load_def audit_port_def hash_refetch_def
      corpus_refetch_def quarantine_refetch_def review_port_def)

lemma finish_loads:
  assumes "finish c a effs ms gs cs ps = (c', os)" and "map place_of ms = places (co_app c)"
    and "ap_user a = Signed_in u"
    and "At_log (ap_bottomTab a) \<notin> set (places (co_app c)) \<or>
      ap_refreshKey a \<noteq> ap_refreshKey (co_app c) \<and> ap_bottomTab a \<noteq> Tab_users"
  shows "Panel_out (Signed_in u) (Request (listing (ap_bottomTab a))) \<in> set os"
proof -
  let ?k = "At_log (ap_bottomTab a)"
  let ?new = "case find (\<lambda>p. place_of p = ?k) ms of Some p \<Rightarrow> update (co_app c) a p | None \<Rightarrow> mount a ?k"
  have k: "?k \<in> set (places a)" using assms(3) by (simp add: places_def)
  have "Request (listing (ap_bottomTab a)) \<in> set (snd ?new)"
  proof (cases "find (\<lambda>p. place_of p = ?k) ms")
    case None
    with mount_loads [of "ap_bottomTab a" a] show ?thesis by simp
  next
    case (Some p)
    from find_place [OF Some] have p: "p \<in> set ms" "place_of p = ?k" by auto
    then have "?k \<in> set (places (co_app c))" unfolding assms(2) [symmetric] by force
    with assms(4) have "ap_refreshKey a \<noteq> ap_refreshKey (co_app c)" "ap_bottomTab a \<noteq> Tab_users" by auto
    moreover have "place_of (new_props a p) = ?k" using p(2) by (cases p) auto
    ultimately show ?thesis using Some refresh_loads [of "new_props a p"] by (simp add: update_def)
  qed
  with k have "Request (listing (ap_bottomTab a)) \<in> set (concat (map snd (reconcile (co_app c) a ms)))"
    unfolding reconcile_def by fastforce
  moreover have "os = map (Panel_out (ap_user (co_app c))) ps @ map (App_out (ap_user (co_app c))) effs
      @ map (Panel_out (ap_user a)) (concat (map snd (reconcile (co_app c) a ms)))"
    using assms(1) by (auto simp: finish_def Let_def)
  ultimately show ?thesis using assms(3) by simp
qed

end
