(* ===== verification/ConsoleRest.thy ===== *)
theory ConsoleRest
  imports ConsoleFacts
begin

text \<open>
  The promises of the dashboard run out: as long as no one acts, no message arrives and no timer
  fires, every settlement lowers a weight that counts the promises in flight with all the requests
  they may still lead to, also through the callbacks that mount or refresh other instances.  With
  nothing in flight no control of a mounted instance is disabled because of a promise.
\<close>

subsection \<open>The instances come to rest\<close>

fun panel_weight :: "panel \<Rightarrow> nat" where
  "panel_weight (P_login s) = 4 * lp_inflight s"
| "panel_weight (P_banner s) = mb_inflight s"
| "panel_weight (P_upload s) = 3 * length (us_inflight s)"
| "panel_weight (P_feed s) = 0"
| "panel_weight (P_audit s) = length (as_inflight s)"
| "panel_weight (P_hashes s) = hash_weight s"
| "panel_weight (P_corpus s) = corpus_weight s"
| "panel_weight (P_quarantine s) = quarantine_weight s"
| "panel_weight (P_users s) = user_weight s"

text \<open>No control is disabled and no placeholder shown because of a promise.\<close>

fun at_rest :: "panel \<Rightarrow> bool" where
  "at_rest (P_login s) \<longleftrightarrow> \<not> lp_busy s"
| "at_rest (P_banner s) \<longleftrightarrow> \<not> mb_busy s"
| "at_rest (P_upload s) \<longleftrightarrow> \<not> us_busy s \<and> us_tickers s = []"
| "at_rest (P_feed s) \<longleftrightarrow> True"
| "at_rest (P_audit s) \<longleftrightarrow> as_live s \<noteq> None \<longrightarrow> \<not> as_loading s"
| "at_rest (P_hashes s) \<longleftrightarrow> \<not> hs_loading s \<and> hs_busyHash s = None"
| "at_rest (P_corpus s) \<longleftrightarrow> \<not> cs_loading s \<and> cs_busyHash s = None"
| "at_rest (P_quarantine s) \<longleftrightarrow> \<not> qs_loading s \<and> qs_busyId s = None"
| "at_rest (P_users s) \<longleftrightarrow> True"

text \<open>What a callback may still cost: a change of \<open>refreshKey\<close> sends at most two requests, a sign-in
  asks for the monitor's status and mounts a panel that sends at most two.\<close>

definition port_cost :: "port \<Rightarrow> nat" where
  "port_cost x = (case x of
     Callback c \<Rightarrow> (case c of On_verdict _ \<Rightarrow> 2 | On_decision \<Rightarrow> 2 | _ \<Rightarrow> 0)
   | Login_callback _ \<Rightarrow> 3
   | _ \<Rightarrow> 0)"

definition costs :: "port list \<Rightarrow> nat" where
  "costs ps = sum_list (map port_cost ps)"

lemma costs_simps [simp]: "costs [] = 0" "costs (x # xs) = port_cost x + costs xs"
  "costs (xs @ ys) = costs xs + costs ys"
  by (simp_all add: costs_def)

lemma port_cost_simps [simp]:
  "port_cost (Request c) = 0" "port_cost (Toast m t) = 0" "port_cost (Login_callback u) = 3"
  "port_cost (Save d m n) = 0"
  "port_cost (Callback g) = (case g of On_verdict _ \<Rightarrow> 2 | On_decision \<Rightarrow> 2 | _ \<Rightarrow> 0)"
  by (simp_all add: port_cost_def)

lemma panel_settle_cost:
  assumes "panel_settle digest p ps p'"
  shows "panel_weight p' + costs ps < panel_weight p"
  using assms
proof cases
  case (login s ans s' out)
  then show ?thesis by (auto simp: login_settled_def login_port_def Let_def split: sum.splits)
next
  case (banner s ok s' out)
  then show ?thesis by (auto simp: banner_settled_def banner_port_def Let_def split: sum.splits)
next
  case (upload s out s')
  from upload(4) show ?thesis
    by cases (auto simp: upload upload_settled_def upload_hashed_def upload_port_def Let_def
        split: sum.splits if_splits)
next
  case (audit s out s')
  from audit(4) show ?thesis
    by cases (auto simp: audit audit_verdicts_settled_def audit_chain_settled_def audit_port_def
        split: sum.splits if_splits)
next
  case (hashes s out s')
  from hashes(4) show ?thesis
    by cases (auto simp: hashes hash_weight_def hash_handler_defs review_port_def split: sum.splits if_splits)
next
  case (corpus s out s')
  from corpus(4) show ?thesis
    by cases (auto simp: corpus corpus_weight_def corpus_handler_defs review_port_def split: sum.splits if_splits)
next
  case (quarantine s out s')
  from quarantine(4) show ?thesis
    by cases (auto simp: quarantine quarantine_weight_def quarantine_handler_defs review_port_def
        split: sum.splits if_splits)
next
  case (users s out s')
  from users(4) show ?thesis
    by cases (auto simp: users user_weight_def user_handler_defs review_port_def split: sum.splits if_splits)
qed

interpretation panel_settling: settling "panel_settle digest" panel_weight
proof unfold_locales
  show "panel_weight p' < panel_weight p" if "panel_settle digest p ps p'" for p ps p'
    using panel_settle_cost [OF that] by simp
next
  show "\<exists>ps p'. panel_settle digest p ps p'" if "0 < panel_weight p" for p
  proof (cases p)
    case (P_login s)
    with that show ?thesis by (auto intro: panel_settle.login [OF _ surjective_pairing])
  next
    case (P_banner s)
    with that show ?thesis by (auto intro: panel_settle.banner [OF _ surjective_pairing])
  next
    case (P_upload s)
    with that upload_settling.settle_enabled [of s digest] show ?thesis by (auto intro: panel_settle.upload)
  next
    case (P_audit s)
    with that audit_settling.settle_enabled [of s] show ?thesis by (auto intro: panel_settle.audit)
  next
    case (P_hashes s)
    with that hash_settling.settle_enabled [of s] show ?thesis by (auto intro: panel_settle.hashes)
  next
    case (P_corpus s)
    with that corpus_settling.settle_enabled [of s] show ?thesis by (auto intro: panel_settle.corpus)
  next
    case (P_quarantine s)
    with that quarantine_settling.settle_enabled [of s] show ?thesis by (auto intro: panel_settle.quarantine)
  next
    case (P_users s)
    with that user_settling.settle_enabled [of s] show ?thesis by (auto intro: panel_settle.users)
  qed (use that in simp)
qed

text \<open>With nothing in flight, an instance that ran as its component is at rest.\<close>

lemma review_weights:
  "hash_weight h = 0 \<longleftrightarrow> hs_inflight h = []"
  "corpus_weight c = 0 \<longleftrightarrow> cs_inflight c = []"
  "quarantine_weight q = 0 \<longleftrightarrow> qs_inflight q = []"
proof -
  show "hash_weight h = 0 \<longleftrightarrow> hs_inflight h = []"
    by (cases "hs_inflight h") (simp_all add: hash_weight_def split: hash_cont.split)
  show "corpus_weight c = 0 \<longleftrightarrow> cs_inflight c = []"
    by (cases "cs_inflight c") (simp_all add: corpus_weight_def split: corpus_cont.split)
  show "quarantine_weight q = 0 \<longleftrightarrow> qs_inflight q = []"
    by (cases "qs_inflight q") (simp_all add: quarantine_weight_def split: quarantine_cont.split)
qed

lemma settled_at_rest:
  assumes "panel_ran pf digest r os p" and "panel_weight p = 0"
  shows "at_rest p"
proof (cases p)
  case (P_login s)
  with assms(1) obtain xs where "reach login_init login_step xs s" by (auto simp: ran_def)
  from login.reach_inv [OF this] assms(2) P_login show ?thesis by (simp add: login_inv_def split: if_splits)
next
  case (P_banner s)
  with assms(1) obtain xs where "reach banner_init (banner_step r) xs s" by (auto simp: ran_def)
  from banner.reach_inv [OF this] assms(2) P_banner show ?thesis by (simp add: banner_inv_def split: if_splits)
next
  case (P_upload s)
  with assms(1) obtain xs where "reach upload_init (upload_step digest) xs s" by (auto simp: ran_def)
  from upload.reach_inv [OF this] assms(2) P_upload show ?thesis
    by (auto simp: upload_inv_def uploads_def split: if_splits)
next
  case (P_audit s)
  with assms(1) obtain xs where "reach audit_init (audit_step pf r) xs s" by (auto simp: ran_def)
  from audit.reach_inv [OF this] assms(2) P_audit show ?thesis by (auto simp: audit_inv_def)
next
  case (P_hashes s)
  with assms(1) obtain xs where "reach hash_init (hash_step r) xs s" by (auto simp: ran_def)
  from hash_liveness.reach_inv [OF this] assms(2) P_hashes show ?thesis
    by (auto simp: hash_live_def review_weights)
next
  case (P_corpus s)
  with assms(1) obtain xs where "reach corpus_init (corpus_step r) xs s" by (auto simp: ran_def)
  from corpus_liveness.reach_inv [OF this] assms(2) P_corpus show ?thesis
    by (auto simp: corpus_live_def review_weights)
next
  case (P_quarantine s)
  with assms(1) obtain xs where "reach quarantine_init (quarantine_step r) xs s" by (auto simp: ran_def)
  from quarantine_liveness.reach_inv [OF this] assms(2) P_quarantine show ?thesis
    by (auto simp: quarantine_live_def review_weights)
qed simp_all

subsection \<open>The dashboard comes to rest\<close>

fun cont_weight :: "app_cont \<Rightarrow> nat" where
  "cont_weight AP_me = 4"
| "cont_weight AP_monitor = 1"
| "cont_weight AP_logout = 1"

definition app_weight :: "app_state \<Rightarrow> nat" where
  "app_weight a = sum_list (map cont_weight (ap_inflight a))"

text \<open>A change of \<open>App\<close> that makes an instance of the lower half load: it is mounted or refreshed.\<close>

definition load_cost :: "app_state \<Rightarrow> app_state \<Rightarrow> nat" where
  "load_cost a a' = (if ap_refreshKey a' = ap_refreshKey a \<and>
     (\<forall>t. At_log t \<in> set (places a') \<longrightarrow> At_log t \<in> set (places a)) then 0 else 2)"

lemma load_cost_refl [simp]: "load_cost a a = 0"
  by (simp add: load_cost_def)

lemma load_cost_trans: "load_cost a a2 \<le> load_cost a a1 + load_cost a1 a2"
  by (auto simp: load_cost_def)

lemma load_cost_le: "load_cost a a' \<le> 2"
  by (simp add: load_cost_def)

lemma load_cost_out: "ap_refreshKey a' = ap_refreshKey a \<Longrightarrow> ap_user a' = Signed_out \<Longrightarrow> load_cost a a' = 0"
  by (simp add: load_cost_def places_def)

lemma load_cost_same: "ap_refreshKey a' = ap_refreshKey a \<Longrightarrow> ap_user a' = ap_user a \<Longrightarrow>
    ap_bottomTab a' = ap_bottomTab a \<Longrightarrow> load_cost a a' = 0"
  by (simp add: load_cost_def places_def split: session.split)

lemma app_settle_cost:
  assumes "app_settle a effs a'"
  shows "app_weight a' + load_cost a a' < app_weight a"
  using assms
proof cases
  case (me_settled xs ys r)
  then show ?thesis using load_cost_le [of a a']
    by (auto simp: app_me_settled_def set_user_def app_weight_def load_cost_out split: sum.splits)
next
  case (monitor_settled xs ys b)
  then show ?thesis
    by (auto simp: app_monitor_settled_def app_weight_def load_cost_same split: sum.splits)
next
  case (logout_settled xs ys)
  then show ?thesis by (auto simp: app_logout_settled_def set_user_def app_weight_def load_cost_out)
qed

lemma app_callback_cost:
  "app_callback c a = (a', effs) \<Longrightarrow> app_weight a' + load_cost a a' \<le> app_weight a + port_cost (Callback c)"
  using load_cost_le [of a a']
  by (cases c) (auto simp: app_callback_def handleUpload_def handleSessionExpired_def set_user_def
      app_weight_def load_cost_same load_cost_out)

lemma app_onLogin_cost:
  "app_onLogin u a = (a', effs) \<Longrightarrow> app_weight a' + load_cost a a' \<le> app_weight a + 3"
  using load_cost_le [of a a'] by (auto simp: app_onLogin_def set_user_def app_weight_def)

lemma deliver_cost: "deliver ps a = (a', effs) \<Longrightarrow> app_weight a' + load_cost a a' \<le> app_weight a + costs ps"
proof (induction ps a arbitrary: a' effs rule: deliver.induct)
  case (2 c ps a)
  obtain a1 out1 where c: "app_callback c a = (a1, out1)" by fastforce
  with 2(2) obtain out2 where d: "deliver ps a1 = (a', out2)" by (auto split: prod.splits)
  from 2(1) [OF c [symmetric] refl d] app_callback_cost [OF c] load_cost_trans [of a a' a1] show ?case by simp
next
  case (3 u ps a)
  obtain a1 out1 where c: "app_onLogin u a = (a1, out1)" by fastforce
  with 3(2) obtain out2 where d: "deliver ps a1 = (a', out2)" by (auto split: prod.splits)
  from 3(1) [OF c [symmetric] refl d] app_onLogin_cost [OF c] load_cost_trans [of a a' a1] show ?case by simp
qed auto

text \<open>The weights of the instances after \<open>reconcile\<close>.\<close>

definition weights :: "panel list \<Rightarrow> nat" where
  "weights ps = sum_list (map panel_weight ps)"

lemma weights_simps [simp]: "weights [] = 0" "weights (p # ps) = panel_weight p + weights ps"
  "weights (ps @ qs) = weights ps + weights qs"
  by (simp_all add: weights_def)

lemma weights_filter: "weights (filter P ps) + weights (filter (\<lambda>p. \<not> P p) ps) = weights ps"
  by (induction ps) auto

definition is_log :: "place \<Rightarrow> bool" where
  "is_log k \<longleftrightarrow> (\<exists>t. k = At_log t)"

lemma refresh_weight: "panel_weight (fst (refresh p)) \<le> panel_weight p + (if is_log (place_of p) then 2 else 0)"
  by (cases p) (auto simp: is_log_def audit_effect_run_def audit_load_def hash_refetch_def corpus_refetch_def
      quarantine_refetch_def hash_weight_def corpus_weight_def quarantine_weight_def)

lemma new_props_weight [simp]: "panel_weight (new_props a p) = panel_weight p"
  by (cases p) auto

lemma unmount_weight [simp]: "panel_weight (unmount p) = panel_weight p"
  by (cases p) (auto simp: audit_unmount_def)

lemma mount_weight: "panel_weight (fst (mount a k)) \<le> (if is_log k then 2 else 0)"
proof (cases k)
  case (At_log t)
  then show ?thesis
    by (cases t) (auto simp: is_log_def audit_effect_run_def audit_load_def hash_refetch_def
        corpus_refetch_def quarantine_refetch_def user_refetch_def hash_weight_def corpus_weight_def
        quarantine_weight_def user_weight_def audit_start_def hash_start_def corpus_start_def
        quarantine_start_def user_start_def)
qed (auto simp: mounted_banner_def login_start_def upload_start_state_def)

text \<open>Looking an instance up by its place uses no instance twice.\<close>

lemma found_weight:
  assumes "distinct ks"
  shows "sum_list (map (\<lambda>k. case find (\<lambda>p. place_of p = k) ps of Some p \<Rightarrow> panel_weight p | None \<Rightarrow> 0) ks)
    \<le> weights (filter (\<lambda>p. place_of p \<in> set ks) ps)"
  using assms
proof (induction ks)
  case (Cons k ks)
  let ?f = "\<lambda>p. place_of p = k"
  have one: "(case find ?f ps of Some p \<Rightarrow> panel_weight p | None \<Rightarrow> 0) \<le> weights (filter ?f ps)"
    by (induction ps) auto
  have "weights (filter ?f ps) + weights (filter (\<lambda>p. place_of p \<in> set ks) ps) =
      weights (filter (\<lambda>p. place_of p \<in> set (k # ks)) ps)"
    using Cons.prems by (induction ps) auto
  with one Cons show ?case by simp
qed simp

lemma reconcile_weight:
  assumes "map place_of ms = places a"
  shows "weights (map fst (reconcile a a' ms)) \<le>
    weights (filter (\<lambda>p. place_of p \<in> set (places a')) ms) + load_cost a a'"
proof -
  let ?found = "\<lambda>k. case find (\<lambda>p. place_of p = k) ms of Some p \<Rightarrow> panel_weight p | None \<Rightarrow> 0"
  let ?new = "\<lambda>k. case find (\<lambda>p. place_of p = k) ms of Some p \<Rightarrow> update a a' p | None \<Rightarrow> mount a' k"
  have each: "panel_weight (fst (?new k)) \<le> ?found k + (if is_log k then load_cost a a' else 0)"
    if "k \<in> set (places a')" for k
  proof (cases "find (\<lambda>p. place_of p = k) ms")
    case None
    then have "k \<notin> set (places a)" unfolding assms [symmetric] by (auto simp: find_None_iff)
    with that mount_weight [of a' k] None show ?thesis by (auto simp: load_cost_def is_log_def split: if_splits)
  next
    case (Some p)
    with find_place [OF Some] refresh_weight [of "new_props a' p"] show ?thesis
      by (auto simp: update_def load_cost_def)
  qed
  have "distinct (places a')" by (auto simp: places_def split: session.splits)
  note found = found_weight [OF this, of ms]
  have "weights (map fst (reconcile a a' ms)) = sum_list (map (\<lambda>k. panel_weight (fst (?new k))) (places a'))"
    by (simp add: weights_def reconcile_def comp_def)
  also have "\<dots> \<le> sum_list (map (\<lambda>k. ?found k + (if is_log k then load_cost a a' else 0)) (places a'))"
    by (rule sum_list_mono) (rule each)
  also have "\<dots> = sum_list (map ?found (places a')) +
      sum_list (map (\<lambda>k. if is_log k then load_cost a a' else 0) (places a'))"
    by (rule sum_list_addf)
  also have "sum_list (map (\<lambda>k. if is_log k then load_cost a a' else 0) (places a')) \<le> load_cost a a'"
    by (auto simp: places_def is_log_def split: session.splits)
  finally show ?thesis using found by linarith
qed

definition console_weight :: "console \<Rightarrow> nat" where
  "console_weight c = app_weight (co_app c) + weights (co_mounted c) + weights (co_gone c)"

lemma finish_weight:
  assumes "finish c a effs ms gs cs ps = (c', os)" and "map place_of ms = places (co_app c)"
  shows "console_weight c' \<le> app_weight a + load_cost (co_app c) a + weights ms + weights gs"
proof -
  have "weights (map unmount xs) = weights xs" for xs by (induction xs) auto
  then have "weights (left_over a ms) = weights (filter (\<lambda>p. place_of p \<notin> set (places a)) ms)"
    by (simp add: left_over_def)
  moreover have "co_app c' = a" "co_mounted c' = map fst (reconcile (co_app c) a ms)"
      "co_gone c' = gs @ left_over a ms"
    using assms(1) by (auto simp: finish_def Let_def)
  ultimately show ?thesis
    using reconcile_weight [OF assms(2), of a] weights_filter [of "\<lambda>p. place_of p \<in> set (places a)" ms]
    by (simp add: console_weight_def)
qed

text \<open>The steps of the dashboard that settle a promise.\<close>

inductive console_settle :: "(byte list \<Rightarrow> js_exn + byte list) \<Rightarrow> console \<Rightarrow> console_out list \<Rightarrow> console \<Rightarrow> bool"
  for digest :: "byte list \<Rightarrow> js_exn + byte list" where
  app: "app_settle (co_app c) effs a \<Longrightarrow>
     finish c a effs (co_mounted c) (co_gone c) (co_conns c) [] = (c', os) \<Longrightarrow> console_settle digest c os c'"
| moves: "co_mounted c = xs @ p # ys \<Longrightarrow> panel_settle digest p ps p' \<Longrightarrow>
     deliver ps (co_app c) = (a, effs) \<Longrightarrow>
     finish c a effs (xs @ p' # ys) (co_gone c) (co_conns c) ps = (c', os) \<Longrightarrow> console_settle digest c os c'"
| lingers: "co_gone c = xs @ p # ys \<Longrightarrow> panel_settle digest p ps p' \<Longrightarrow>
     deliver ps (co_app c) = (a, effs) \<Longrightarrow>
     finish c a effs (co_mounted c) (xs @ p' # ys) (co_conns c) ps = (c', os) \<Longrightarrow> console_settle digest c os c'"

lemma console_settle_step: "console_settle digest c os c' \<Longrightarrow> console_step pf digest c os c'"
  by (induction rule: console_settle.induct)
    (blast intro: console_step.app console_step.moves console_step.lingers app_own.settled)+

lemma console_settle_fitted: "console_settle digest c os c' \<Longrightarrow> fitted c'"
  by (induction rule: console_settle.induct) (auto dest: finish_fitted)

lemma console_settle_lower:
  assumes "fitted c" and "console_settle digest c os c'"
  shows "console_weight c' < console_weight c"
  using assms(2)
proof cases
  case (app effs a)
  from finish_weight [OF app(2)] assms(1) app_settle_cost [OF app(1)] show ?thesis
    by (simp add: fitted_def console_weight_def)
next
  case (moves xs p ys ps p' a effs)
  have "map place_of (xs @ p' # ys) = places (co_app c)"
    using assms(1) panel_settle_place [OF moves(2)] by (simp add: fitted_def moves(1))
  from finish_weight [OF moves(4) this] deliver_cost [OF moves(3)] panel_settle_cost [OF moves(2)] show ?thesis
    by (simp add: console_weight_def moves(1))
next
  case (lingers xs p ys ps p' a effs)
  from finish_weight [OF lingers(4)] assms(1) deliver_cost [OF lingers(3)] panel_settle_cost [OF lingers(2)]
  show ?thesis by (simp add: fitted_def console_weight_def lingers(1))
qed

lemma app_settle_goes: "0 < app_weight a \<Longrightarrow> \<exists>effs a'. app_settle a effs a'"
proof -
  assume "0 < app_weight a"
  then obtain k ks where split: "ap_inflight a = [] @ k # ks" by (cases "ap_inflight a") (auto simp: app_weight_def)
  then show ?thesis by (cases k) (metis app_settle.intros surj_pair)+
qed

lemma weights_goes:
  assumes "0 < weights ps"
  shows "\<exists>xs p ys os p'. ps = xs @ p # ys \<and> panel_settle digest p os p'"
proof -
  have "\<exists>p \<in> set ps. 0 < panel_weight p" using assms by (induction ps) auto
  then obtain p where "p \<in> set ps" "0 < panel_weight p" by blast
  with panel_settling.settle_enabled split_list show ?thesis by metis
qed

lemma console_settle_goes:
  assumes "0 < console_weight c"
  shows "\<exists>os c'. console_settle digest c os c'"
proof -
  consider "0 < app_weight (co_app c)" | "0 < weights (co_mounted c)" | "0 < weights (co_gone c)"
    using assms by (auto simp: console_weight_def)
  then show ?thesis
  proof cases
    case 1
    with app_settle_goes show ?thesis by (metis console_settle.app surj_pair)
  next
    case 2
    from weights_goes [OF this] show ?thesis by (metis console_settle.moves surj_pair)
  next
    case 3
    from weights_goes [OF this] show ?thesis by (metis console_settle.lingers surj_pair)
  qed
qed

interpretation console_settling: settling_under fitted "console_settle digest" console_weight
  by unfold_locales (blast intro: console_settle_fitted console_settle_lower console_settle_goes)+

lemma settling_reach:
  "reach (\<lambda>t. t = c) (console_settle digest) ps c' \<Longrightarrow> reach console_init (console_step pf digest) os c \<Longrightarrow>
   reach console_init (console_step pf digest) (os @ ps) c'"
proof (induction rule: reach.induct)
  case (reach_step ps s out s')
  from reach.reach_step [OF reach_step.IH [OF reach_step.prems], OF console_settle_step [OF reach_step.hyps(2)]]
  show ?case by simp
qed simp

lemma weightless_at_rest:
  assumes "console_inv pf digest os c" and "console_weight c = 0" and "p \<in> set (co_mounted c)"
  shows "at_rest p"
proof -
  have "panel_weight p = 0" using assms(2,3) by (auto simp: console_weight_def weights_def)
  with assms(1,3) settled_at_rest show ?thesis by (auto simp: console_inv_def)
qed

end
