(* ===== verification/ConsoleDemo.thy ===== *)
theory ConsoleDemo
  imports ConsoleRest
begin

text \<open>
  A run of the dashboard, step by step: an admin turns out to be signed in, selects the tab of the
  hash approvals, the server lists a pending hash, and the admin approves it in the dialog.  The
  properties of whole runs are applied to it.
\<close>

subsection \<open>Another user signs in\<close>

text \<open>What the logged-out page does on its own: the login page is the only instance.\<close>

lemma out_finish: "ap_user (co_app c) = Signed_out \<Longrightarrow>
    finish c (co_app c) [] [P_login s] gs cs ps =
      (c\<lparr>co_mounted := [P_login s], co_gone := gs, co_conns := cs\<rparr>, map (Panel_out Signed_out) ps)"
  by (simp add: finish_def Let_def reconcile_def places_def left_over_def update_def)

lemma out_step:
  assumes "ap_user (co_app c) = Signed_out" and "co_mounted c = [P_login s]"
    and "offers (login_page s) a" and "login_handle a s = (s', out)"
  shows "console_step pf digest c (map (Panel_out Signed_out) (ports login_port out)) (c\<lparr>co_mounted := [P_login s']\<rparr>)"
proof (rule console_step.acts [where a = "co_app c" and effs = "[]" and xs = "[]" and ys = "[]"])
  show "panel_user pf (acting_role (co_app c)) (P_login s) (ports login_port out) (P_login s')"
    using assms(3,4) by (rule panel_user.login)
  then show "deliver (ports login_port out) (co_app c) = (co_app c, [])"
    by (rule login_user_ports) simp
qed (simp_all add: assms(2) out_finish [OF assms(1)])

text \<open>Signing in from the logged-out page; the instances that were unmounted before stay so.\<close>

lemma run_signs_in:
  assumes "reach init (console_step pf digest) os c" and "ap_user (co_app c) = Signed_out"
    and "co_mounted c = [P_login login_start]"
  shows "\<exists>new c' zs. reach init (console_step pf digest) (os @ new) c' \<and>
    ap_user (co_app c') = Signed_in v \<and> co_gone c' = co_gone c @ zs"
proof -
  let ?s1 = "login_start\<lparr>lp_username := [97]\<rparr>"
  let ?s2 = "?s1\<lparr>lp_password := [97]\<rparr>"
  let ?s3 = "fst (login_handleSubmit ?s2)"
  have idle: "\<not> lp_busy ?s1" "\<not> lp_busy ?s2" "\<not> lp_busy login_start" by (simp_all add: login_start_def)
  have t: "trim [97] = [97]" by (simp add: trim_def js_space_def)
  from reach_step [OF assms(1), OF out_step [OF assms(2,3), of "LP_username [97]" ?s1 "[]"]]
  have r1: "reach init (console_step pf digest) os (c\<lparr>co_mounted := [P_login ?s1]\<rparr>)"
    by (simp add: login_offers idle login_handle_def)
  from reach_step [OF r1, OF out_step [of _ ?s1 "LP_password [97]" ?s2 "[]"]]
  have r2: "reach init (console_step pf digest) os (c\<lparr>co_mounted := [P_login ?s2]\<rparr>)"
    by (simp add: login_offers idle login_handle_def assms(2))
  have "login_handle LP_submit ?s2 = (?s3, [Login_call [97] [97]])"
    by (simp add: login_handle_def login_handleSubmit_def Let_def t)
  from reach_step [OF r2, OF out_step [OF _ _ _ this]]
  have r3: "reach init (console_step pf digest) (os @ [Panel_out Signed_out (Request (Login [97] [97]))])
      (c\<lparr>co_mounted := [P_login ?s3]\<rparr>)"
    by (simp add: login_offers idle assms(2) login_port_def)
  let ?c3 = "c\<lparr>co_mounted := [P_login ?s3]\<rparr>"
  have settle: "panel_settle digest (P_login ?s3) [Login_callback v] (P_login (fst (login_settled (Inr v) ?s3)))"
    using panel_settle.login [of ?s3 "Inr v" "fst (login_settled (Inr v) ?s3)" "[Logged_in v]"]
    by (simp add: login_settled_def login_handleSubmit_def Let_def t login_port_def)
  let ?app = "app_onLogin v (co_app c)"
  let ?fin = "finish ?c3 (fst ?app) (snd ?app) [P_login (fst (login_settled (Inr v) ?s3))] (co_gone c) (co_conns c)
      [Login_callback v]"
  have "console_step pf digest ?c3 (snd ?fin) (fst ?fin)"
    by (rule console_step.moves [of _ "[]" "P_login ?s3" "[]", OF _ disjI1 [OF settle]]) simp_all
  from reach_step [OF r3, OF this] have "reach init (console_step pf digest)
      (os @ [Panel_out Signed_out (Request (Login [97] [97]))] @ snd ?fin) (fst ?fin)" by simp
  moreover have "ap_user (co_app (fst ?fin)) = Signed_in v \<and>
      (\<exists>zs. co_gone (fst ?fin) = co_gone c @ zs)"
    by (auto simp: finish_def Let_def app_onLogin_def set_user_def)
  ultimately show ?thesis by blast
qed

text \<open>Signing out: what was mounted is left over, with its promises in flight.\<close>

lemma places_inflight [simp]: "places (a\<lparr>ap_inflight := ks\<rparr>) = places a"
  by (simp add: places_def split: session.split)

lemma find_mounted:
  assumes "map place_of ms = places a" and "p \<in> set ms"
  shows "find (\<lambda>q. place_of q = place_of p) ms = Some p"
proof -
  have "distinct (map place_of ms)" unfolding assms(1) by (simp add: places_def split: session.split)
  with assms(2) show ?thesis by (induction ms) auto
qed

lemma finish_keeps:
  assumes "map place_of ms = places (co_app c)" and "p \<in> set ms" and "new_props a p = p"
    and "places a = places (co_app c)" and "ap_refreshKey a = ap_refreshKey (co_app c)"
  shows "p \<in> set (co_mounted (fst (finish c a effs ms gs cs ps)))"
proof -
  have k: "place_of p \<in> set (places a)" using assms(2) unfolding assms(4) assms(1) [symmetric] by simp
  have "(p, []) = (case find (\<lambda>q. place_of q = place_of p) ms of Some q \<Rightarrow> update (co_app c) a q
      | None \<Rightarrow> mount a (place_of p))"
    using find_mounted [OF assms(1,2)] assms(3,5) by (simp add: update_def)
  then have "(p, []) \<in> set (reconcile (co_app c) a ms)"
    unfolding reconcile_def set_map using k by (rule image_eqI)
  then show ?thesis by (force simp: finish_def Let_def)
qed

lemma finish_out:
  assumes "ap_user a = Signed_out" and "fitted c" and "ap_user (co_app c) = Signed_in u"
  shows "co_mounted (fst (finish c a effs (co_mounted c) gs cs ps)) = [P_login login_start] \<and>
    co_gone (fst (finish c a effs (co_mounted c) gs cs ps)) = gs @ map unmount (co_mounted c)"
proof -
  have "place_of p \<noteq> At_login" if "p \<in> set (co_mounted c)" for p
  proof -
    have "place_of p \<in> set (places (co_app c))" using that assms(2) unfolding fitted_def by (metis image_eqI list.set_map)
    then show ?thesis using assms(3) by (auto simp: places_def)
  qed
  then have "find (\<lambda>p. place_of p = At_login) (co_mounted c) = None"
      "filter (\<lambda>p. place_of p \<noteq> At_login) (co_mounted c) = co_mounted c"
    by (auto simp: find_None_iff)
  then show ?thesis using assms(1) by (simp add: finish_def Let_def reconcile_def places_def left_over_def)
qed

lemma reach_one:
  assumes "step s out s'"
  shows "reach (\<lambda>k. k = s) step out s'"
proof -
  have "reach (\<lambda>k. k = s) step [] s" by (rule reach_init) simp
  from reach_step [where step = step, OF this assms] show ?thesis by simp
qed

lemma run_signs_out:
  assumes "reach console_init (console_step pf digest) os c" and "ap_user (co_app c) = Signed_in u"
    and "P_hashes s \<in> set (co_mounted c)"
  shows "\<exists>new c'. reach (\<lambda>k. k = c) (console_step pf digest) new c' \<and>
    ap_user (co_app c') = Signed_out \<and> co_mounted c' = [P_login login_start] \<and> P_hashes s \<in> set (co_gone c')"
proof -
  let ?a1 = "(co_app c)\<lparr>ap_inflight := ap_inflight (co_app c) @ [AP_logout]\<rparr>"
  let ?fin1 = "finish c ?a1 [App_call Logout] (co_mounted c) (co_gone c) (co_conns c) []"
  let ?c1 = "fst ?fin1"
  have own1: "app_own (co_app c) [App_call Logout] ?a1"
    by (rule app_own.log_out [OF assms(2)]) (simp add: handleLogout_def)
  have "console_step pf digest c (snd ?fin1) ?c1" by (rule console_step.app [OF own1]) simp
  from reach_one [where step = "console_step pf digest", OF this]
  have r1: "reach (\<lambda>k. k = c) (console_step pf digest) (snd ?fin1) ?c1" .
  have "map place_of (co_mounted c) = places (co_app c)"
    using console.reach_inv [OF assms(1)] by (simp add: console_inv_def)
  from finish_keeps [OF this assms(3), of ?a1 "[App_call Logout]"]
  have kept: "P_hashes s \<in> set (co_mounted ?c1)" by simp
  have app1: "co_app ?c1 = ?a1" by (simp add: finish_def Let_def)
  let ?a2 = "fst (app_logout_settled (co_app c))" and ?e2 = "snd (app_logout_settled (co_app c))"
  let ?fin2 = "finish ?c1 ?a2 ?e2 (co_mounted ?c1) (co_gone ?c1) (co_conns ?c1) []"
  have own2: "app_own (co_app ?c1) ?e2 ?a2"
    by (rule app_own.settled, rule app_settle.logout_settled [where xs = "ap_inflight (co_app c)" and ys = "[]"])
       (simp_all add: app1 app_logout_settled_def)
  have "console_step pf digest ?c1 (snd ?fin2) (fst ?fin2)" by (rule console_step.app [OF own2]) simp
  note r2 = reach_step [OF r1, OF this]
  have user2: "ap_user ?a2 = Signed_out" by (simp add: app_logout_settled_def set_user_def)
  have "fitted ?c1" by (rule finish_fitted [OF surjective_pairing])
  note out = finish_out [OF user2 this, of u ?e2 "co_gone ?c1" "co_conns ?c1" "[]"]
  have "co_app (fst ?fin2) = ?a2" by (simp add: finish_def Let_def)
  moreover have "P_hashes s \<in> unmount ` set (co_mounted ?c1)" using kept by force
  ultimately show ?thesis using r2 out user2 assms(2) app1
    by (intro exI [of _ "snd ?fin1 @ snd ?fin2"] exI [of _ "fst ?fin2"]) simp
qed

text \<open>An answer 401 to a request of an unmounted instance; \<open>expired_hashes\<close> is what is left of the instance.\<close>

definition expired_hashes :: "jsstr \<Rightarrow> hash_cont list \<Rightarrow> hash_state \<Rightarrow> hash_state" where
  "expired_hashes m ks s = fst (hash_refetched (Inl (Api_error m 401)) (s\<lparr>hs_inflight := ks\<rparr>))"

lemma late_answer:
  assumes "co_gone c = xs @ P_hashes s # ys" and "hs_inflight s = ks @ HC_refetch # ls"
  shows "\<exists>new c' zs. console_settle digest c (Panel_out (ap_user (co_app c)) (Callback On_session_expired) # new) c' \<and>
    co_gone c' = xs @ P_hashes (expired_hashes m (ks @ ls) s) # ys @ zs \<and>
    ap_user (co_app c') = Signed_out \<and> ap_sessionExpired (co_app c')"
proof -
  let ?s = "expired_hashes m (ks @ ls) s"
  from hash_settle.refetched [OF assms(2), of "Inl (Api_error m 401)" ?s "[Session_expired]"]
  have "hash_settle s [Session_expired] ?s" by (simp add: hash_refetched_def is_status_def expired_hashes_def)
  from panel_settle.hashes [OF this, of digest]
  have settle: "panel_settle digest (P_hashes s) [Callback On_session_expired] (P_hashes ?s)" by (simp add: review_port_def)
  let ?app = "handleSessionExpired (co_app c)"
  let ?fin = "finish c (fst ?app) (snd ?app) (co_mounted c) (xs @ P_hashes ?s # ys) (co_conns c) [Callback On_session_expired]"
  have "console_settle digest c (snd ?fin) (fst ?fin)"
    by (rule console_settle.lingers [OF assms(1) settle, of "fst ?app" "snd ?app"])
       (simp_all add: app_callback_def split: prod.split)
  moreover have "\<exists>new zs. snd ?fin = Panel_out (ap_user (co_app c)) (Callback On_session_expired) # new \<and>
      co_gone (fst ?fin) = xs @ P_hashes ?s # ys @ zs \<and> ap_user (co_app (fst ?fin)) = Signed_out \<and> ap_sessionExpired (co_app (fst ?fin))"
    by (simp add: finish_def Let_def handleSessionExpired_def set_user_def)
  ultimately show ?thesis by metis
qed

subsection \<open>An admin approves a hash\<close>

definition demo_mounted :: "hash_state \<Rightarrow> panel list" where
  "demo_mounted s = [P_banner (mounted_banner False), P_upload upload_start_state, P_feed (feed_mount [] []), P_hashes s]"

definition demo_audit :: audit_state where
  "demo_audit = fst (audit_effect_run audit_start)"

definition demo_left :: "panel list" where
  "demo_left = [unmount (P_audit demo_audit)]"

definition demo_conns :: "nat \<rightharpoonup> live_conn" where
  "demo_conns = [0 \<mapsto> fst connectLive]"

definition demo_console :: "app_state \<Rightarrow> hash_state \<Rightarrow> console" where
  "demo_console a s = \<lparr>co_app = a, co_mounted = demo_mounted s, co_gone = demo_left,
     co_conns = demo_conns\<rparr>"

definition demo_signed_in :: console where
  "demo_signed_in = \<lparr>co_app = demo_app, co_mounted = [P_banner (mounted_banner False),
     P_upload upload_start_state, P_feed (feed_mount [] []), P_audit demo_audit], co_gone = [],
     co_conns = demo_conns\<rparr>"

definition demo_app_hashes :: app_state where
  "demo_app_hashes = fst (select_tab Tab_hashes demo_app)"

definition demo_app_listed :: app_state where
  "demo_app_listed = demo_app_hashes\<lparr>ap_hashes := Some [demo_hash]\<rparr>"

abbreviation demo_who :: session where
  "demo_who \<equiv> Signed_in demo_admin"

definition demo_opening :: "console_out list" where
  "demo_opening = [App_out Unknown (App_call Fetch_monitor_status), App_out Unknown (Connect_live 0),
     Panel_out demo_who (Request Fetch_verdicts), Panel_out demo_who (Request Fetch_chain_status),
     Panel_out demo_who (Request Fetch_hashes)]"

definition demo_listing :: console_out where
  "demo_listing = Panel_out demo_who (Callback (On_hashes_change [demo_hash]))"

definition demo_approval :: console_out where
  "demo_approval = Panel_out demo_who (Request (Approve_hash (he_hash demo_hash)))"

lemmas demo_console_defs = demo_signed_in_def demo_console_def demo_mounted_def demo_audit_def demo_conns_def

lemma demo_feed [simp]: "feed_update [] [] (feed_mount [] []) = (feed_mount [] [], [])"
  by (simp add: feed_update_def feed_mount_def list_receive_def list_effect_run_def list_mount_def Let_def
      tab_events_def)

lemma demo_banner [simp]: "(mounted_banner False)\<lparr>mb_isolated := False\<rparr> = mounted_banner False"
  by (simp add: mounted_banner_def)

lemma demo_app_fields [simp]:
  "ap_user demo_app_hashes = demo_who" "ap_bottomTab demo_app_hashes = Tab_hashes"
  "ap_refreshKey demo_app_hashes = 0" "\<not> ap_isolated demo_app_hashes" "ap_sampleEvents demo_app_hashes = []"
  "ap_monitorEvents demo_app_hashes = []" "ap_conn demo_app_hashes = Some 0"
  "ap_connState demo_app_hashes = Conn_connecting"
  "ap_user demo_app = demo_who" "ap_bottomTab demo_app = Tab_audit" "ap_refreshKey demo_app = 0"
  "\<not> ap_isolated demo_app" "ap_sampleEvents demo_app = []" "ap_monitorEvents demo_app = []"
  by (simp_all add: demo_app_hashes_def select_tab_def demo_app_defs)

lemma demo_run_signed_in:
  "reach console_init (console_step pf digest)
     [App_out Unknown (App_call Fetch_monitor_status), App_out Unknown (Connect_live 0),
      Panel_out demo_who (Request Fetch_verdicts), Panel_out demo_who (Request Fetch_chain_status)] demo_signed_in"
proof -
  let ?c = "\<lparr>co_app = fst app_mount, co_mounted = [], co_gone = [], co_conns = Map.empty\<rparr>"
  have init: "reach console_init (console_step pf digest) [] ?c" by (rule reach_init) (simp add: console_init_def)
  have "app_own (fst app_mount) [App_call Fetch_monitor_status, Connect_live 0] demo_app"
    by (rule app_own.settled, rule app_settle.me_settled [where xs = "[]" and ys = "[]" and r = "Inr demo_admin"])
       (simp_all add: app_mount_def app_me_settled_def set_user_def close_live_def app_start_def demo_app_def)
  moreover have "finish ?c demo_app [App_call Fetch_monitor_status, Connect_live 0] [] [] Map.empty [] =
    (demo_signed_in, [App_out Unknown (App_call Fetch_monitor_status), App_out Unknown (Connect_live 0),
      Panel_out demo_who (Request Fetch_verdicts), Panel_out demo_who (Request Fetch_chain_status)])"
    by (simp add: finish_def Let_def reconcile_def places_def left_over_def demo_console_defs conn_effect_def
        app_mount_def app_start_def audit_effect_run_def audit_load_def audit_port_def)
  ultimately have "console_step pf digest ?c [App_out Unknown (App_call Fetch_monitor_status),
      App_out Unknown (Connect_live 0), Panel_out demo_who (Request Fetch_verdicts),
      Panel_out demo_who (Request Fetch_chain_status)] demo_signed_in"
    by (intro console_step.app) simp_all
  from reach_step [OF init, OF this] show ?thesis by simp
qed

lemma demo_tab_step:
  "console_step pf digest demo_signed_in [Panel_out demo_who (Request Fetch_hashes)]
     (demo_console demo_app_hashes (fst (hash_refetch hash_start)))"
proof -
  have "offers (tabs_view (bottom_tabs (role_of demo_admin) demo_app) (tab_name (ap_bottomTab demo_app)) id)
      (tab_name Tab_hashes)"
    unfolding bottom_tabs_offers by simp
  then have "app_own demo_app [] demo_app_hashes"
    by (intro app_own.tab [of _ demo_admin Tab_hashes]) (simp_all add: demo_app_hashes_def select_tab_def)
  moreover have "finish demo_signed_in demo_app_hashes [] (co_mounted demo_signed_in) [] demo_conns [] =
    (demo_console demo_app_hashes (fst (hash_refetch hash_start)), [Panel_out demo_who (Request Fetch_hashes)])"
    by (simp add: finish_def Let_def reconcile_def places_def left_over_def update_def demo_console_defs
        demo_left_def hash_refetch_def review_port_def)
  ultimately show ?thesis by (intro console_step.app) (simp_all add: demo_signed_in_def)
qed

lemma demo_run_tab:
  "reach console_init (console_step pf digest) demo_opening
     (demo_console demo_app_hashes (fst (hash_refetch hash_start)))"
  using reach_step [OF demo_run_signed_in, OF demo_tab_step] by (simp add: demo_opening_def)

text \<open>Moves of the panel on screen that leave the session, the tab and the refresh key: they change
  nothing but the instance and what it handed to \<open>App\<close>.\<close>

definition demo_frame :: "app_state \<Rightarrow> bool" where
  "demo_frame a \<longleftrightarrow> ap_user a = demo_who \<and> ap_bottomTab a = Tab_hashes \<and> ap_refreshKey a = 0 \<and>
     \<not> ap_isolated a \<and> ap_sampleEvents a = [] \<and> ap_monitorEvents a = []"

lemma demo_frames [simp]: "demo_frame demo_app_hashes" "demo_frame demo_app_listed"
  by (simp_all add: demo_frame_def demo_app_listed_def)

lemma demo_finish: "demo_frame a \<Longrightarrow> demo_frame a' \<Longrightarrow>
    finish (demo_console a s) a' [] (demo_mounted s') demo_left demo_conns ps =
      (demo_console a' s', map (Panel_out demo_who) ps)"
  by (simp add: demo_frame_def finish_def Let_def reconcile_def places_def demo_mounted_def demo_console_def
      left_over_def update_def)

lemma demo_split:
  "co_mounted (demo_console a s) = butlast (demo_mounted s) @ P_hashes s # []"
  "butlast (demo_mounted s) @ P_hashes s' # [] = demo_mounted s'"
  "co_gone (demo_console a s) = demo_left" "co_conns (demo_console a s) = demo_conns"
  "co_app (demo_console a s) = a"
  by (simp_all add: demo_console_def demo_mounted_def)

lemma demo_moves:
  assumes "panel_settle digest (P_hashes s) ps (P_hashes s')" and "deliver ps a = (a', [])"
    and "demo_frame a" and "demo_frame a'"
  shows "console_step pf digest (demo_console a s) (map (Panel_out demo_who) ps) (demo_console a' s')"
  by (rule console_step.moves [OF demo_split(1) disjI1 [OF assms(1)]], simp only: demo_split assms(2),
      simp only: demo_split demo_finish [OF assms(3,4)])

lemma demo_acts:
  assumes "panel_user pf Admin (P_hashes s) ps (P_hashes s')" and "deliver ps a = (a', [])"
    and "demo_frame a" and "demo_frame a'"
  shows "console_step pf digest (demo_console a s) (map (Panel_out demo_who) ps) (demo_console a' s')"
proof -
  have "panel_user pf (acting_role (co_app (demo_console a s))) (P_hashes s) ps (P_hashes s')"
    using assms(1,3) by (simp add: demo_split demo_frame_def acting_role_def role_of_def demo_admin_def)
  then show ?thesis
    by (rule console_step.acts [OF demo_split(1)], simp only: demo_split assms(2),
        simp only: demo_split demo_finish [OF assms(3,4)])
qed

lemma demo_run_listing:
  "reach console_init (console_step pf digest) (demo_opening @ [demo_listing]) (demo_console demo_app_listed demo_listed)"
proof -
  let ?s = "fst (hash_refetch hash_start)"
  have "hash_settle ?s [Entries_change [demo_hash]] demo_listed"
    by (rule refetched [where xs = "[]" and ys = "[]" and ans = "Inr [demo_hash]"]) (simp_all add: demo_defs)
  from panel_settle.hashes [OF this]
  have move: "panel_settle digest (P_hashes ?s) [Callback (On_hashes_change [demo_hash])] (P_hashes demo_listed)"
    by (simp add: review_port_def)
  have "deliver [Callback (On_hashes_change [demo_hash])] demo_app_hashes = (demo_app_listed, [])"
    by (simp add: app_callback_def demo_app_listed_def)
  from reach_step [OF demo_run_tab, OF demo_moves [OF move this]] show ?thesis by (simp add: demo_listing_def)
qed

lemma demo_run_asking:
  "reach console_init (console_step pf digest) (demo_opening @ [demo_listing]) (demo_console demo_app_listed demo_asked)"
proof -
  have offer: "offers (hash_view Admin demo_listed) (HA_ask Approve demo_hash)"
    by (subst hash_offers_idle) (simp_all add: demo_defs hash_pending_def)
  have "hash_handle (HA_ask Approve demo_hash) demo_listed = (demo_asked, [])" by (simp add: demo_defs)
  from panel_user.hashes [OF offer this]
  have act: "panel_user pf Admin (P_hashes demo_listed) [] (P_hashes demo_asked)" by simp
  from reach_step [OF demo_run_listing, OF demo_acts [OF act]] show ?thesis by simp
qed

lemma demo_run_approved:
  "reach console_init (console_step pf digest) (demo_opening @ [demo_listing, demo_approval])
     (demo_console demo_app_listed demo_confirmed)"
proof -
  have offer: "offers (hash_view Admin demo_asked) HA_confirm"
    by (subst hash_offers_confirming) (simp_all add: demo_defs)
  have "hash_handle HA_confirm demo_asked = (demo_confirmed, [Call (Approve_hash (he_hash demo_hash))])"
    by (simp add: demo_defs)
  from panel_user.hashes [OF offer this]
  have act: "panel_user pf Admin (P_hashes demo_asked) [Request (Approve_hash (he_hash demo_hash))] (P_hashes demo_confirmed)"
    by (simp add: review_port_def)
  from reach_step [OF demo_run_asking, OF demo_acts [OF act]] show ?thesis by (simp add: demo_approval_def)
qed

end
