(* ===== verification/ConsoleViews.thy ===== *)
theory ConsoleViews
  imports ConsoleDemo
begin

text \<open>
  Rendering in the dashboard: which values make a component throw while it renders, and the lists that
  \<open>App\<close> holds beside the panels they were lifted from: the rows of the audit log always agree, because
  its effect ignores what settles after a clean-up, the entries of the review panels need not.
\<close>

subsection \<open>The overview and the verdict\<close>

text \<open>Counting never makes an own property of \<open>__proto__\<close>, so every key that is shown has a label.\<close>

lemma set_entry_keys: "fst ` set (set_entry k v cs) = insert k (fst ` set cs)"
  by (induction k v cs rule: set_entry.induct) auto

lemma proto_no_method [simp]: "proto_key \<notin> set proto_methods"
  by (simp add: proto_key_def proto_methods_def)

lemma count_key_keys: "proto_key \<notin> fst ` set cs \<Longrightarrow> proto_key \<notin> fst ` set (count_key pf cs k)"
proof (cases "obj_get cs k")
  case (Own c)
  assume new: "proto_key \<notin> fst ` set cs"
  from Own have "k \<in> fst ` set cs" by (force simp: obj_get_def split: option.splits if_splits dest: map_of_SomeD)
  with new Own show ?thesis by (auto simp: count_key_def set_entry_keys)
qed (auto simp: count_key_def set_entry_keys obj_get_def split: option.splits if_splits)

lemma countBy_keys: "proto_key \<notin> fst ` set (countBy pf rows key)"
proof -
  have "proto_key \<notin> fst ` set (foldl (\<lambda>counts v. count_key pf counts (key_of (key v))) cs rows)"
    if "proto_key \<notin> fst ` set cs" for cs
    using that by (induction rows arbitrary: cs) (simp_all add: count_key_keys)
  then show ?thesis by (simp add: countBy_def)
qed

lemma overview_item_total: "fst kc \<noteq> proto_key \<Longrightarrow> overview_item prefix table kc \<noteq> None"
  by (auto simp: overview_item_def label_or_key_def obj_get_def split: option.splits looked_up.splits if_splits)

lemma those_total: "\<forall>x \<in> set xs. x \<noteq> None \<Longrightarrow> those xs \<noteq> None"
  by (induction xs) auto

lemma overview_total: "detections_overview pf rows \<noteq> None"
proof -
  have "overview_item prefix table kc \<noteq> None" if "kc \<in> set (object_entries (countBy pf rows key))"
    for prefix table kc and key :: "audit_row \<Rightarrow> jsstr option"
    using that countBy_keys [of pf rows key] by (intro overview_item_total) (auto simp: object_entries_def image_iff)
  then show ?thesis unfolding detections_overview_def option.map_disc_iff
    by (intro those_total) auto
qed

lemma method_keys: "map_of METHOD k = Some x \<Longrightarrow> \<not> inherited_key k"
  by (auto simp: METHOD_def inherited_key_def proto_methods_def proto_key_def split: if_splits)

lemma verdict_panel_total:
  "verdict_panel v \<noteq> None \<longleftrightarrow> (\<forall>w. v = Some w \<longrightarrow> \<not> inherited_key (detection_method w))"
proof (cases v)
  case (Some w)
  have "method_nodes w \<noteq> None \<longleftrightarrow> \<not> inherited_key (detection_method w)"
    using method_keys [of "detection_method w"]
    by (auto simp: method_nodes_def obj_get_def inherited_key_def split: option.splits)
  with Some show ?thesis by (simp add: verdict_panel_def)
qed (simp add: verdict_panel_def)

lemma app_view_total:
  "app_view pf a \<noteq> None \<longleftrightarrow>
     ((\<exists>u. ap_user a = Signed_in u) \<longrightarrow> (\<forall>v. ap_verdict a = Some v \<longrightarrow> \<not> inherited_key (detection_method v)))"
proof (cases "ap_user a")
  case (Signed_in u)
  have "stats_zone pf a \<noteq> None"
    using overview_total [of pf] by (auto simp: stats_zone_def split: option.splits)
  then show ?thesis using Signed_in verdict_panel_total [of "ap_verdict a"]
    by (auto simp: app_view_def split: option.splits)
qed (simp_all add: app_view_def)

subsection \<open>The audit log\<close>

text \<open>A row without an action is a verdict: it has a confidence, and its source is a plain key.\<close>

definition good_row :: "audit_row \<Rightarrow> bool" where
  "good_row r \<longleftrightarrow> (falsy (row_action r) \<longrightarrow> row_confidence r \<noteq> None \<and> row_source r \<noteq> Some proto_key)"

lemma audit_row_total: "good_row r \<Longrightarrow> audit_row_view pf now r \<noteq> None"
  by (auto simp: good_row_def audit_row_view_def source_cell_def confidence_cell_def label_or_key_def
      obj_get_def Let_def split: option.splits looked_up.splits if_splits)

lemma audit_page_rows_sub: "set (audit_page_rows pf s) \<subseteq> set (as_rows s)"
proof -
  have "set (page_of xs i) \<subseteq> set xs" for xs :: "audit_row list" and i
    by (auto simp: page_of_def slice_range_def dest: in_set_takeD in_set_dropD)
  moreover have "set (audit_filtered pf s) \<subseteq> set (as_rows s)"
    by (auto simp: audit_filtered_def Let_def split: sort_order.splits if_splits)
  ultimately show ?thesis unfolding audit_page_rows_def by blast
qed

lemma audit_view_total: "\<forall>r \<in> set (as_rows s). good_row r \<Longrightarrow> audit_view pf now role s \<noteq> None"
proof -
  assume "\<forall>r \<in> set (as_rows s). good_row r"
  then have "those (map (audit_row_view pf now) (audit_page_rows pf s)) \<noteq> None"
    using audit_page_rows_sub [of pf s] audit_row_total by (intro those_total) fastforce
  then show ?thesis by (auto simp: audit_view_def audit_table_def)
qed

text \<open>The rows of the audit log were loaded, and lifted up to \<open>App\<close>.\<close>

lemma last_rows_from: "r \<in> set (last_rows rows os) \<Longrightarrow> r \<in> set rows \<or> (\<exists>v. Verdicts_change v \<in> set os \<and> r \<in> set v)"
  by (induction rows os rule: last_rows.induct) auto

lemma audit_rows_heard:
  assumes "panel_ran pf digest role os (P_audit s)" and "r \<in> set (as_rows s)"
  shows "\<exists>v. heard os (Callback (On_verdicts_change v)) \<and> r \<in> set v"
proof -
  from assms(1) obtain xs where xs: "reach audit_init (audit_step pf role) xs s"
    "\<forall>x \<in> set (ports audit_port xs). heard os x" by (auto simp: ran_def)
  from audit.reach_inv [OF xs(1)] assms(2) have "r \<in> set (last_rows [] xs)" by (simp add: audit_inv_def)
  from last_rows_from [OF this] obtain v where v: "Verdicts_change v \<in> set xs" "r \<in> set v" by auto
  then have "Callback (On_verdicts_change v) \<in> set (ports audit_port xs)"
    by (force simp: ports_def audit_port_def)
  with xs(2) v(2) show ?thesis by blast
qed

subsection \<open>What \<open>App\<close> holds was handed to it\<close>

lemma app_callback_verdicts:
  "app_callback c a = (a', effs) \<Longrightarrow> ap_verdicts a' = ap_verdicts a \<or>
     (\<exists>rows. c = On_verdicts_change rows \<and> ap_verdicts a' = Some rows)"
  by (cases c) (auto simp: app_callback_def handleUpload_def handleSessionExpired_def set_user_def)

lemma deliver_verdicts:
  "deliver ps a = (a', effs) \<Longrightarrow> ap_verdicts a' = ap_verdicts a \<or>
     (\<exists>rows. Callback (On_verdicts_change rows) \<in> set ps \<and> ap_verdicts a' = Some rows)"
proof (induction ps a arbitrary: a' effs rule: deliver.induct)
  case (2 c ps a)
  obtain a1 out1 where c: "app_callback c a = (a1, out1)" by fastforce
  with 2(2) obtain out2 where d: "deliver ps a1 = (a', out2)" by (auto split: prod.splits)
  from 2(1) [OF c [symmetric] refl d] app_callback_verdicts [OF c] show ?case by auto
next
  case (3 u ps a)
  obtain a1 out1 where c: "app_onLogin u a = (a1, out1)" by fastforce
  with 3(2) obtain out2 where d: "deliver ps a1 = (a', out2)" by (auto split: prod.splits)
  from 3(1) [OF c [symmetric] refl d] c show ?case by (auto simp: app_onLogin_def set_user_def)
qed auto

lemma app_own_verdicts: "app_own a effs a' \<Longrightarrow> ap_verdicts a' = ap_verdicts a"
  by (cases rule: app_own_cases) (auto simp: app_me_settled_def app_monitor_settled_def app_logout_settled_def
      set_user_def handleLogout_def select_tab_def split: sum.splits)

lemma hear_verdicts: "ap_verdicts (foldl hear a out) = ap_verdicts a"
proof (induction out arbitrary: a)
  case (Cons x out)
  have "ap_verdicts (hear a x) = ap_verdicts a"
    by (cases x) (auto simp: hear_def app_message_def shouldUpdateSampleVerdict_def Let_def
        split: live_message.splits live_source.splits)
  with Cons show ?case by simp
qed simp

subsection \<open>The statistics and the audit log\<close>

text \<open>The rows on screen, once there are any, are those that \<open>App\<close> holds; an audit log that was
  unmounted stays cancelled.\<close>

definition rows_lifted :: "app_state \<Rightarrow> panel \<Rightarrow> bool" where
  "rows_lifted a p \<longleftrightarrow> (\<forall>s. p = P_audit s \<longrightarrow> as_rows s = [] \<or> ap_verdicts a = Some (as_rows s))"

definition parted :: "panel \<Rightarrow> bool" where
  "parted p \<longleftrightarrow> (\<forall>s. p = P_audit s \<longrightarrow> as_live s = None)"

definition rows_agree :: "console \<Rightarrow> bool" where
  "rows_agree c \<longleftrightarrow> (\<forall>p \<in> set (co_mounted c). rows_lifted (co_app c) p) \<and> (\<forall>p \<in> set (co_gone c). parted p)"

lemma other_lifted [simp]: "place_of p \<noteq> At_log Tab_audit \<Longrightarrow> rows_lifted a p" "place_of p \<noteq> At_log Tab_audit \<Longrightarrow> parted p"
  by (auto simp: rows_lifted_def parted_def)

lemma mount_lifted: "rows_lifted a (fst (mount b k))"
proof (cases "k = At_log Tab_audit")
  case True
  then show ?thesis by (simp add: rows_lifted_def audit_effect_run_def audit_load_def audit_start_def)
qed (simp add: mount_place)

lemma update_lifted: "rows_lifted a p \<Longrightarrow> rows_lifted a (fst (update b b' p))"
  by (cases p) (auto simp: rows_lifted_def update_def audit_effect_run_def audit_load_def)

lemma unmount_parted: "parted (unmount p)"
  by (cases p) (auto simp: parted_def audit_unmount_def)

lemma finish_rows:
  assumes "finish c a effs ms gs cs ps = (c', os)"
    and "\<forall>p \<in> set ms. rows_lifted a p" and "\<forall>p \<in> set gs. parted p"
  shows "rows_agree c'"
proof -
  have lifted: "rows_lifted a (fst (case find (\<lambda>p. place_of p = k) ms of
      Some p \<Rightarrow> update (co_app c) a p | None \<Rightarrow> mount a k))" for k
  proof (cases "find (\<lambda>p. place_of p = k) ms")
    case (Some p)
    with find_place [OF Some] assms(2) show ?thesis by (simp add: update_lifted)
  qed (simp add: mount_lifted)
  have "rows_lifted a (fst x)" if "x \<in> set (reconcile (co_app c) a ms)" for x
    using that lifted unfolding reconcile_def by auto
  with assms(1,3) show ?thesis by (auto simp: rows_agree_def finish_def Let_def left_over_def unmount_parted)
qed

text \<open>What a move of an instance does to its rows and lifts up.\<close>

definition lifts_rows :: "panel \<Rightarrow> port list \<Rightarrow> panel \<Rightarrow> bool" where
  "lifts_rows p ps p' \<longleftrightarrow> ((\<forall>v. Callback (On_verdicts_change v) \<notin> set ps) \<and> (\<forall>a. rows_lifted a p \<longrightarrow> rows_lifted a p')) \<or>
     (\<exists>s v. p' = P_audit s \<and> as_rows s = v \<and> ps = [Callback (On_verdicts_change v)])"

lemma lifts_other:
  assumes "place_of p \<noteq> At_log Tab_audit" and "place_of p' = place_of p" and "\<forall>x \<in> set ps. port_ok (place_of p) x"
  shows "lifts_rows p ps p'"
proof -
  have "Callback (On_verdicts_change v) \<notin> set ps" for v
    using assms(1,3) by (fastforce simp: callback_tabs_def)
  with assms(1,2) show ?thesis by (simp add: lifts_rows_def)
qed

lemma lifts_user:
  assumes "panel_user pf r p ps p'"
  shows "lifts_rows p ps p'"
  using assms
proof cases
  case (audit now s v a s' out)
  from audit(6) show ?thesis unfolding audit(1-3) by (cases a)
    (auto simp: lifts_rows_def rows_lifted_def audit_handler_defs audit_port_def split: option.splits if_splits)
qed (use panel_user_ports [OF assms] in \<open>auto intro: lifts_other\<close>)

lemma lifts_moved:
  assumes "panel_settle digest p ps p' \<or> panel_tick p ps p'"
  shows "lifts_rows p ps p'"
proof (cases "place_of p = At_log Tab_audit")
  case True
  then obtain s where p: "p = P_audit s" by (cases p) auto
  from assms show ?thesis
  proof
    assume "panel_settle digest p ps p'"
    then show ?thesis
    proof cases
      case (audit t out t')
      from audit(4) show ?thesis unfolding audit(1-3)
        by cases (auto simp: lifts_rows_def rows_lifted_def audit_verdicts_settled_def audit_chain_settled_def
            audit_port_def split: sum.splits if_splits)
    qed (use p in auto)
  next
    assume "panel_tick p ps p'"
    then show ?thesis
      by cases (use p in \<open>auto simp: lifts_rows_def rows_lifted_def audit_load_def audit_port_def\<close>)
  qed
next
  case False
  from moved_frame(1,3) [OF assms] show ?thesis by (intro lifts_other [OF False])
qed

lemma parted_moved:
  assumes "panel_settle digest p ps p' \<or> panel_tick p ps p'" and "parted p"
  shows "parted p' \<and> (\<forall>v. Callback (On_verdicts_change v) \<notin> set ps)"
proof (cases "place_of p = At_log Tab_audit")
  case True
  then obtain s where p: "p = P_audit s" "as_live s = None" using assms(2) by (cases p) (auto simp: parted_def)
  from assms(1) show ?thesis
  proof
    assume "panel_settle digest p ps p'"
    then show ?thesis
    proof cases
      case (audit t out t')
      from audit(4) p show ?thesis unfolding audit(1-3)
        by cases (auto simp: parted_def audit_verdicts_settled_def audit_chain_settled_def audit_cancelled_def
            audit_port_def split: sum.splits if_splits)
    qed (use p in auto)
  next
    assume "panel_tick p ps p'"
    then show ?thesis by cases (use p in auto)
  qed
next
  case False
  have "Callback (On_verdicts_change v) \<notin> set ps" for v
    using moved_frame(3) [OF assms(1)] False by (fastforce simp: callback_tabs_def)
  with False moved_frame(1) [OF assms(1)] show ?thesis by simp
qed

text \<open>One instance moves among the mounted ones; the others are not audit logs if it is.\<close>

lemma moved_rows:
  assumes "\<forall>q \<in> set (xs @ p # ys). rows_lifted a q" and "map place_of (xs @ p # ys) = places a"
    and "place_of p' = place_of p" and "lifts_rows p ps p'" and "deliver ps a = (a', effs)"
  shows "\<forall>q \<in> set (xs @ p' # ys). rows_lifted a' q"
  using assms(4) unfolding lifts_rows_def
proof (elim disjE conjE exE)
  assume quiet: "\<forall>v. Callback (On_verdicts_change v) \<notin> set ps" and kept: "\<forall>a. rows_lifted a p \<longrightarrow> rows_lifted a p'"
  from deliver_verdicts [OF assms(5)] quiet have "ap_verdicts a' = ap_verdicts a" by blast
  then have "rows_lifted a' q = rows_lifted a q" for q by (simp add: rows_lifted_def)
  with assms(1) kept show ?thesis by simp
next
  fix s v assume p': "p' = P_audit s" "as_rows s = v" "ps = [Callback (On_verdicts_change v)]"
  with assms(5) have "ap_verdicts a' = Some v" by (auto simp: app_callback_def)
  with p' have "rows_lifted a' p'" by (simp add: rows_lifted_def)
  moreover have "place_of q \<noteq> At_log Tab_audit" if "q \<in> set (xs @ ys)" for q
  proof -
    have "distinct (map place_of (xs @ p # ys))" unfolding assms(2) by (simp add: places_def split: session.split)
    with that have "place_of q \<noteq> place_of p" by (auto simp: image_iff)
    with p'(1) assms(3) show ?thesis by auto
  qed
  ultimately show ?thesis by auto
qed

lemma rows_lifted_cong: "ap_verdicts a' = ap_verdicts a \<Longrightarrow> rows_lifted a' p = rows_lifted a p"
  by (simp add: rows_lifted_def)

lemma rows_agree_step:
  assumes "fitted c" and "rows_agree c" and "console_step pf digest c os c'"
  shows "rows_agree c'"
  using assms(3)
proof cases
  case (app effs a)
  show ?thesis by (rule finish_rows [OF app(2)])
    (use assms(2) rows_lifted_cong [OF app_own_verdicts [OF app(1)]] in \<open>auto simp: rows_agree_def\<close>)
next
  case (acts xs p ys ps p' a effs)
  have "\<forall>q \<in> set (xs @ p' # ys). rows_lifted a q"
    by (rule moved_rows [OF _ _ panel_user_place [OF acts(2)] lifts_user [OF acts(2)] acts(3)])
       (use assms(1,2) in \<open>simp_all add: rows_agree_def fitted_def acts(1)\<close>)
  with assms(2) show ?thesis by (intro finish_rows [OF acts(4)]) (auto simp: rows_agree_def)
next
  case (moves xs p ys ps p' a effs)
  have "\<forall>q \<in> set (xs @ p' # ys). rows_lifted a q"
    by (rule moved_rows [OF _ _ moved_frame(1) [OF moves(2)] lifts_moved [OF moves(2)] moves(3)])
       (use assms(1,2) in \<open>simp_all add: rows_agree_def fitted_def moves(1)\<close>)
  with assms(2) show ?thesis by (intro finish_rows [OF moves(4)]) (auto simp: rows_agree_def)
next
  case (lingers xs p ys ps p' a effs)
  have "parted p" using assms(2) lingers(1) by (simp add: rows_agree_def)
  note part = parted_moved [OF lingers(2) this]
  then have "ap_verdicts a = ap_verdicts (co_app c)" using deliver_verdicts [OF lingers(3)] by blast
  note same = rows_lifted_cong [OF this]
  from assms(2) part show ?thesis
    by (intro finish_rows [OF lingers(4)]) (auto simp: rows_agree_def lingers(1) same)
next
  case (live k l out l')
  show ?thesis by (rule finish_rows [OF live(4)])
    (use assms(2) rows_lifted_cong [OF hear_verdicts] in \<open>auto simp: rows_agree_def\<close>)
qed

interpretation console_rows: invariant_system console_init "console_step pf digest"
    "\<lambda>os c. fitted c \<and> rows_agree c"
proof unfold_locales
  show "fitted c \<and> rows_agree c" if "console_init c" for c
    using that by (simp add: console_init_def fitted_def rows_agree_def app_mount_def app_start_def places_def)
next
  show "fitted c' \<and> rows_agree c'" if "fitted c \<and> rows_agree c" "console_step pf digest c new c'" for os c new c'
    using that rows_agree_step console_step_finish finish_fitted by metis
qed

subsection \<open>Nothing throws on well-typed data\<close>

lemma console_total:
  assumes "reach console_init (console_step pf digest) os c"
    and "\<forall>rows. heard os (Callback (On_verdicts_change rows)) \<longrightarrow> (\<forall>r \<in> set rows. good_row r)"
    and "\<forall>v. ap_verdict (co_app c) = Some v \<longrightarrow> \<not> inherited_key (detection_method v)"
  shows "app_view pf (co_app c) \<noteq> None \<and>
    (\<forall>s now r. P_audit s \<in> set (co_mounted c) \<longrightarrow> audit_view pf now r s \<noteq> None)"
proof -
  have "\<forall>r \<in> set (as_rows s). good_row r" if "P_audit s \<in> set (co_mounted c)" for s
  proof -
    from that console.reach_inv [OF assms(1)]
    have "panel_ran pf digest (acting_role (co_app c)) os (P_audit s)" by (auto simp: console_inv_def)
    from audit_rows_heard [OF this] assms(2) show ?thesis by blast
  qed
  with audit_view_total have "audit_view pf now r s \<noteq> None" if "P_audit s \<in> set (co_mounted c)" for s now r
    using that by blast
  moreover have "app_view pf (co_app c) \<noteq> None" using assms(3) unfolding app_view_total by blast
  ultimately show ?thesis by blast
qed

subsection \<open>A list of an unmounted panel\<close>

text \<open>An answer to a listing request of an unmounted panel still reaches \<open>App\<close>.\<close>

lemma late_list:
  assumes "P_hashes s \<in> set (co_gone c)" and "HC_refetch \<in> set (hs_inflight s)" and "fitted c"
    and "P_hashes t \<in> set (co_mounted c)"
  shows "\<exists>new c'. console_settle digest c new c' \<and> ap_hashes (co_app c') = Some es \<and>
    P_hashes t \<in> set (co_mounted c')"
proof -
  obtain xs ys where split: "co_gone c = xs @ P_hashes s # ys" using split_list [OF assms(1)] by blast
  obtain ks ls where "hs_inflight s = ks @ HC_refetch # ls" using split_list [OF assms(2)] by blast
  let ?s = "s\<lparr>hs_inflight := ks @ ls, hs_entries := es, hs_error := None, hs_loading := False\<rparr>"
  have "hash_settle s [Entries_change es] ?s"
    by (rule hash_settle.refetched [OF \<open>hs_inflight s = ks @ HC_refetch # ls\<close>, of "Inr es"])
       (simp add: hash_refetched_def)
  from panel_settle.hashes [OF this, of digest]
  have settle: "panel_settle digest (P_hashes s) [Callback (On_hashes_change es)] (P_hashes ?s)"
    by (simp add: review_port_def)
  let ?a = "(co_app c)\<lparr>ap_hashes := Some es\<rparr>"
  let ?fin = "finish c ?a [] (co_mounted c) (xs @ P_hashes ?s # ys) (co_conns c) [Callback (On_hashes_change es)]"
  have "console_settle digest c (snd ?fin) (fst ?fin)"
    by (rule console_settle.lingers [OF split settle, of ?a "[]"]) (simp_all add: app_callback_def)
  moreover have "P_hashes t \<in> set (co_mounted (fst ?fin))"
    by (rule finish_keeps) (use assms(3,4) in \<open>simp_all add: fitted_def places_def split: session.split\<close>)
  moreover have "ap_hashes (co_app (fst ?fin)) = Some es" by (simp add: finish_def Let_def)
  ultimately show ?thesis by blast
qed

subsection \<open>A run with both lists\<close>

text \<open>The admin goes back to the audit log, and its rows arrive.\<close>

lemma demo_run_both:
  "\<exists>os c s. reach console_init (console_step pf digest) os c \<and> P_audit s \<in> set (co_mounted c) \<and>
     as_rows s = [demo_row] \<and> ap_hashes (co_app c) = Some [demo_hash]"
proof -
  let ?c0 = "demo_console demo_app_listed demo_listed"
  let ?a1 = "fst (select_tab Tab_audit demo_app_listed)"
  let ?fin1 = "finish ?c0 ?a1 [] (co_mounted ?c0) (co_gone ?c0) (co_conns ?c0) []"
  let ?c1 = "fst ?fin1"
  have "offers (tabs_view (bottom_tabs (role_of demo_admin) demo_app_listed) (tab_name (ap_bottomTab demo_app_listed)) id)
      (tab_name Tab_audit)"
    unfolding bottom_tabs_offers by simp
  then have "app_own (co_app ?c0) [] ?a1"
    by (intro app_own.tab [of _ demo_admin Tab_audit]) (simp_all add: demo_split demo_app_listed_def select_tab_def)
  then have "console_step pf digest ?c0 (snd ?fin1) ?c1" by (rule console_step.app) simp
  note r1 = reach_step [OF demo_run_listing, OF this]
  have app1: "co_app ?c1 = ?a1" by (simp add: finish_def Let_def)
  have m1: "co_mounted ?c1 = butlast (demo_mounted demo_listed) @ P_audit demo_audit # []"
    by (simp add: finish_def Let_def reconcile_def places_def demo_console_def demo_app_listed_def select_tab_def
        demo_mounted_def update_def demo_audit_def)
  let ?s = "demo_audit\<lparr>as_inflight := [(0, AC_chain)], as_rows := [demo_row], as_error := None, as_loading := False\<rparr>"
  have "audit_settle demo_audit [Verdicts_change [demo_row]] ?s"
    by (rule verdicts [where xs = "[]" and ys = "[(0, AC_chain)]" and k = 0 and ans = "Inr [demo_row]"])
       (simp_all add: demo_audit_def audit_effect_run_def audit_load_def audit_start_def
         audit_verdicts_settled_def audit_cancelled_def)
  from panel_settle.audit [OF this, of digest]
  have settle: "panel_settle digest (P_audit demo_audit) [Callback (On_verdicts_change [demo_row])] (P_audit ?s)"
    by (simp add: audit_port_def)
  let ?a2 = "?a1\<lparr>ap_verdicts := Some [demo_row]\<rparr>"
  let ?ms = "butlast (demo_mounted demo_listed) @ P_audit ?s # []"
  let ?fin2 = "finish ?c1 ?a2 [] ?ms (co_gone ?c1) (co_conns ?c1) [Callback (On_verdicts_change [demo_row])]"
  have "console_step pf digest ?c1 (snd ?fin2) (fst ?fin2)"
    by (rule console_step.moves [OF m1 disjI1 [OF settle], of ?a2 "[]"]) (simp_all add: app1 app_callback_def)
  note r2 = reach_step [OF r1, OF this]
  have "map place_of ?ms = places (co_app ?c1)"
    unfolding app1 by (simp add: demo_mounted_def places_def select_tab_def demo_app_listed_def)
  from finish_keeps [OF this, of "P_audit ?s" ?a2]
  have "P_audit ?s \<in> set (co_mounted (fst ?fin2))"
    unfolding app1 by (simp add: places_def split: session.split)
  moreover have "ap_hashes (co_app (fst ?fin2)) = Some [demo_hash]"
    by (simp add: finish_def Let_def select_tab_def demo_app_listed_def)
  ultimately show ?thesis using r2 by fastforce
qed

lemma finish_mounts:
  assumes "ap_user a = Signed_in u" and "At_log (ap_bottomTab a) \<notin> set (map place_of ms)"
  shows "fst (mount a (At_log (ap_bottomTab a))) \<in> set (co_mounted (fst (finish c a effs ms gs cs ps)))"
proof -
  have "find (\<lambda>p. place_of p = At_log (ap_bottomTab a)) ms = None"
    using assms(2) unfolding find_None_iff set_map by force
  with assms(1) show ?thesis by (simp add: finish_def Let_def reconcile_def places_def)
qed

lemma finish_gone: "p \<in> set gs \<Longrightarrow> p \<in> set (co_gone (fst (finish c a effs ms gs cs ps)))"
  by (simp add: finish_def Let_def)

text \<open>Leaving the tab of the hash approvals and coming back: the old panel's request is still in flight.\<close>

lemma demo_run_back:
  "\<exists>os c s t. reach console_init (console_step pf digest) os c \<and> P_hashes s \<in> set (co_gone c) \<and>
     HC_refetch \<in> set (hs_inflight s) \<and> P_hashes t \<in> set (co_mounted c) \<and> hs_entries t = []"
proof -
  let ?s = "fst (hash_refetch hash_start)"
  let ?c0 = "demo_console demo_app_hashes ?s"
  let ?a1 = "fst (select_tab Tab_audit demo_app_hashes)"
  let ?fin1 = "finish ?c0 ?a1 [] (co_mounted ?c0) (co_gone ?c0) (co_conns ?c0) []"
  let ?c1 = "fst ?fin1"
  let ?a2 = "fst (select_tab Tab_hashes ?a1)"
  let ?fin2 = "finish ?c1 ?a2 [] (co_mounted ?c1) (co_gone ?c1) (co_conns ?c1) []"
  have "app_own (co_app ?c0) [] ?a1"
    by (rule app_own.tab [of _ demo_admin Tab_audit]) (simp_all add: demo_split bottom_tabs_offers select_tab_def)
  then have "console_step pf digest ?c0 (snd ?fin1) ?c1" by (rule console_step.app) simp
  note r1 = reach_step [OF demo_run_tab, OF this]
  have app1: "co_app ?c1 = ?a1" by (simp add: finish_def Let_def)
  have gone1: "P_hashes ?s \<in> set (co_gone ?c1)" and mounted1: "map place_of (co_mounted ?c1) = places ?a1"
    by (simp_all add: finish_def Let_def reconcile_def places_def demo_console_def select_tab_def
        demo_mounted_def update_def left_over_def)
  have "app_own (co_app ?c1) [] ?a2"
    unfolding app1 by (rule app_own.tab [of _ demo_admin Tab_hashes])
      (simp_all add: bottom_tabs_offers select_tab_def)
  then have "console_step pf digest ?c1 (snd ?fin2) (fst ?fin2)" by (rule console_step.app) simp
  note r2 = reach_step [OF r1, OF this]
  have "P_hashes ?s \<in> set (co_gone (fst ?fin2))" using gone1 by (rule finish_gone)
  moreover have "At_log (ap_bottomTab ?a2) \<notin> set (map place_of (co_mounted ?c1))"
    unfolding mounted1 by (simp add: places_def select_tab_def)
  from finish_mounts [OF _ this, of demo_admin ?c1 "[]" "co_gone ?c1" "co_conns ?c1" "[]"]
  have "P_hashes ?s \<in> set (co_mounted (fst ?fin2))" by (simp add: select_tab_def)
  moreover have "HC_refetch \<in> set (hs_inflight ?s)" "hs_entries ?s = []"
    by (simp_all add: hash_refetch_def hash_start_def)
  ultimately show ?thesis using r2 by blast
qed

end
