(* ===== verification/Trees.thy ===== *)
theory Trees
  imports Console
begin

text \<open>
  Which components the rendered trees contain.  \<open>mentions u\<close> says that a tree has an element of tag \<open>u\<close>;
  a component with state of its own stands in the tree of its parent as an element of its name.  No
  tree of the dashboard contains a \<open>ToastHost\<close>.
\<close>

fun mentions :: "string \<Rightarrow> 'a node \<Rightarrow> bool" where
  "mentions u (Text _) = False"
| "mentions u (El t as cs) = (t = u \<or> (\<exists>c \<in> set cs. mentions u c))"

abbreviation bare_of_hosts :: "'a node \<Rightarrow> bool" where
  "bare_of_hosts n \<equiv> \<not> mentions ''ToastHost'' n"

named_theorems trees "trees of the components without a \<open>ToastHost\<close>"

lemma tree_parts [trees]:
  "bare_of_hosts (skeleton k)"
  "bare_of_hosts (copy_hash_ref h l)"
  "mentions ''ToastHost'' (card t act cs) \<longleftrightarrow> (\<exists>n \<in> set act \<union> set cs. mentions ''ToastHost'' n)"
  "mentions ''ToastHost'' (badge tone i cs) \<longleftrightarrow> (\<exists>n \<in> insert i (set cs). mentions ''ToastHost'' n)"
  "mentions ''ToastHost'' (confirm_dialog b ti d la x y) \<longleftrightarrow> (\<exists>n \<in> set d. mentions ''ToastHost'' n)"
  "bare_of_hosts (wordmark k b s)"
  "n \<in> set (error_text e) \<Longrightarrow> bare_of_hosts n"
  by (auto simp: skeleton_def copy_hash_ref_def card_def badge_def confirm_dialog_def wordmark_def error_text_def
      icon_def split: option.splits if_splits)

lemma icon_bare [trees]: "mentions u (icon c k) \<longleftrightarrow> c = u"
  by (auto simp: icon_def)

lemma map_node_mentions [trees]: "mentions u (map_node f n) = mentions u n"
  by (induction n) auto

lemma tab_panel_bare [trees]:
  "\<forall>n \<in> set cs. bare_of_hosts n \<Longrightarrow> \<forall>n \<in> set (tab_panel i a cs). bare_of_hosts n"
  by (simp add: tab_panel_def)

lemma tabs_bare [trees]:
  "\<forall>t \<in> set tabs. \<forall>n \<in> set (tab_badge t). bare_of_hosts n \<Longrightarrow> bare_of_hosts (tabs_view tabs a f)"
  by (auto simp: tabs_view_def tab_button_def dest: set_zip_rightD)

lemma login_bare: "bare_of_hosts (login_page s)"
  by (simp add: login_page_def login_aside_def login_form_def login_password_field_def FEATURES_def trees)

lemma banner_bare: "\<forall>n \<in> set (banner_view r s). bare_of_hosts n"
  by (auto simp: banner_view_def banner_dialog_def trees split: option.splits)

lemma upload_bare: "bare_of_hosts (upload_view s)"
  by (auto simp: upload_view_def upload_file_info_def upload_steps_def trees split: option.splits)

lemma hash_bare: "bare_of_hosts (hash_view r s)"
  by (auto simp: hash_view_def hash_form_def hash_row_def hash_button_def hash_dialog_def trees split: option.splits)

lemma corpus_bare: "bare_of_hosts (corpus_view r s)"
  by (auto simp: corpus_view_def corpus_form_def corpus_row_def corpus_button_def corpus_dialog_def trees split: option.splits)

lemma quarantine_bare: "bare_of_hosts (quarantine_view r s)"
  by (auto simp: quarantine_view_def quarantine_row_def quarantine_button_def quarantine_dialog_def trees split: option.splits)

lemma users_bare: "bare_of_hosts (user_view s)"
  by (auto simp: user_view_def user_form_def user_row_def role_select_def user_dialog_def trees split: option.splits)

lemma list_bare: "bare_of_hosts (list_view pf m s)"
  by (auto simp: list_view_def trace_row_def event_icon_def trees split: option.splits event_type.splits)

lemma feed_bare: "bare_of_hosts (feed_view pf s)"
proof -
  have "\<forall>n \<in> set (tab_panel i a [map_node FA_list (list_view pf m (ef_list s))]). bare_of_hosts n" for i a m
    by (rule tab_panel_bare) (simp add: map_node_mentions list_bare)
  then show ?thesis by (auto simp: feed_view_def tabs_bare trees)
qed

lemma header_bare: "bare_of_hosts (header_view u c b s)"
  by (simp add: header_view_def CONN_COPY_def trees split: conn_state.splits)

lemma source_bare: "source_cell r = Some ns \<Longrightarrow> n \<in> set ns \<Longrightarrow> bare_of_hosts n"
  by (auto simp: source_cell_def label_or_key_def split: if_splits option.splits looked_up.splits)

lemma confidence_bare: "confidence_cell r = Some ns \<Longrightarrow> n \<in> set ns \<Longrightarrow> bare_of_hosts n"
  by (auto simp: confidence_cell_def split: if_splits)

lemma cells_bare [trees]: "bare_of_hosts (outcome_badge r)" "bare_of_hosts (or_dash x)"
  "n \<in> set (child x) \<Longrightarrow> bare_of_hosts n"
  by (auto simp: outcome_badge_def or_dash_def child_def VERDICT_ICON_def trees
      split: option.splits bool.splits verdict_label.splits)

lemma audit_row_bare: "audit_row_view pf now r = Some n \<Longrightarrow> bare_of_hosts n"
  using source_bare [of r] confidence_bare [of r]
  by (auto simp: audit_row_view_def Let_def trees split: option.splits if_splits)

lemma audit_bare: "audit_view pf now r s = Some n \<Longrightarrow> bare_of_hosts n"
proof -
  assume v: "audit_view pf now r s = Some n"
  have "bare_of_hosts t" if "audit_table pf now s = Some t" for t
    using that audit_row_bare by (auto simp: audit_table_def those_map_set trees split: if_splits; blast)
  moreover have "\<forall>m \<in> set (chain_indicator pf now c t). bare_of_hosts m" for c t
    by (auto simp: chain_indicator_def Let_def trees split: option.splits)
  moreover have "bare_of_hosts (audit_controls pf r s)"
    by (auto simp: audit_controls_def trees split: sort_order.splits)
  moreover have "\<forall>m \<in> set (audit_pagination pf s). bare_of_hosts m"
    by (auto simp: audit_pagination_def Let_def)
  ultimately show ?thesis using v by (auto simp: audit_view_def trees)
qed

lemma item_bare: "overview_item prefix table kc = Some n \<Longrightarrow> bare_of_hosts n"
  by (auto simp: overview_item_def label_or_key_def split: option.splits looked_up.splits if_splits)

lemma those_two:
  assumes "those (map f xs @ map g ys) = Some ns" and "m \<in> set ns"
  obtains x where "f x = Some m" | y where "g y = Some m"
proof -
  from assms(1) have e: "map f xs @ map g ys = map Some ns" by (simp add: those_eq_Some)
  have "Some m \<in> set (map f xs @ map g ys)" unfolding e using assms(2) by simp
  then consider x where "Some m = f x" | y where "Some m = g y" by auto
  then show ?thesis by cases (metis that)+
qed

lemma overview_bare: "detections_overview pf rows = Some n \<Longrightarrow> bare_of_hosts n"
proof -
  assume "detections_overview pf rows = Some n"
  then obtain ns where n: "n = El ''div'' [Attr ''className'' ''stat-strip''] ns" and
    ns: "those (map (overview_item ''source-'' OVERVIEW_SOURCE_LABEL) (object_entries (countBy pf rows row_source))
       @ map (overview_item ''method-'' METHOD_LABEL) (object_entries (countBy pf rows row_detection_method))) = Some ns"
    by (auto simp: detections_overview_def)
  have "bare_of_hosts m" if "m \<in> set ns" for m
    by (rule those_two [OF ns that]) (auto dest: item_bare)
  then show ?thesis by (simp add: n)
qed

lemma strip_bare: "bare_of_hosts (stat_strip vs hs i)"
  by (auto simp: stat_strip_def stat_item_def stat_value_def trees split: option.splits bool.splits)

lemma method_bare: "method_nodes w = Some ms \<Longrightarrow> m \<in> set ms \<Longrightarrow> bare_of_hosts m"
  by (auto simp: method_nodes_def METHOD_def obj_get_def trees split: looked_up.splits option.splits if_splits)

lemma body_bare: "\<forall>m \<in> set ms. bare_of_hosts m \<Longrightarrow> bare_of_hosts (verdict_body w ms)"
  by (cases "verdict_label w") (simp_all add: verdict_body_def ICON_def trees split_beta)

lemma verdict_bare: "verdict_panel v = Some n \<Longrightarrow> bare_of_hosts n"
  using method_bare body_bare by (fastforce simp: verdict_panel_def trees split: option.splits)

lemma stats_bare: "stats_zone pf a = Some ns \<Longrightarrow> n \<in> set ns \<Longrightarrow> bare_of_hosts n"
  using overview_bare by (fastforce simp: stats_zone_def strip_bare trees split: option.splits)

lemma component_bare: "mentions u (component c r) \<longleftrightarrow> c = u"
  by (auto simp: component_def)

lemma log_zone_bare: "bare_of_hosts (log_zone r a)"
proof -
  have "bare_of_hosts (tabs_view (bottom_tabs r a) t f)" for t and f :: "string \<Rightarrow> string"
    by (rule tabs_bare) (auto simp: bottom_tabs_def count_badge_def)
  moreover have "\<forall>n \<in> set (tab_panel i t [component (panel_name k) r]). bare_of_hosts n" for i t k
    by (rule tab_panel_bare) (simp add: component_bare panel_name_def split: bottom_tab.split)
  ultimately show ?thesis unfolding log_zone_def by (simp del: tab_panel_def) blast
qed

lemma app_bare: "app_view pf a = Some ns \<Longrightarrow> n \<in> set ns \<Longrightarrow> bare_of_hosts n"
  using stats_bare verdict_bare
  by (auto simp: app_view_def component_bare log_zone_bare trees split: session.splits option.splits; blast)

end
