(* ===== verification/Page.thy ===== *)
theory Page
  imports ConsoleViews Trees
begin

text \<open>
  The page around the dashboard: what is on screen, the header with the theme in the browser's storage,
  the notification queue that the panels and the copy buttons push to, and what React does when a
  component throws while it renders.  There is no error boundary in the program, so the root is
  unmounted: the clean-ups of the effects run, the page stays blank until it is loaded again, and only
  the promises, timers and sockets that are left go on.
\<close>

subsection \<open>What is on screen\<close>

fun panel_mentions :: "platform \<Rightarrow> rat \<Rightarrow> role \<Rightarrow> string \<Rightarrow> panel \<Rightarrow> bool" where
  "panel_mentions pf now r u (P_login s) = mentions u (login_page s)"
| "panel_mentions pf now r u (P_banner s) = (\<exists>n \<in> set (banner_view r s). mentions u n)"
| "panel_mentions pf now r u (P_upload s) = mentions u (upload_view s)"
| "panel_mentions pf now r u (P_feed s) = mentions u (feed_view pf s)"
| "panel_mentions pf now r u (P_audit s) =
     (case audit_view pf now r s of None \<Rightarrow> False | Some n \<Rightarrow> mentions u n)"
| "panel_mentions pf now r u (P_hashes s) = mentions u (hash_view r s)"
| "panel_mentions pf now r u (P_corpus s) = mentions u (corpus_view r s)"
| "panel_mentions pf now r u (P_quarantine s) = mentions u (quarantine_view r s)"
| "panel_mentions pf now r u (P_users s) = mentions u (user_view s)"

text \<open>Rendering throws: in \<open>App\<close> (with the overview and the verdict inside it) or in the audit log.\<close>

definition throws :: "platform \<Rightarrow> rat \<Rightarrow> console \<Rightarrow> bool" where
  "throws pf now c \<longleftrightarrow> app_view pf (co_app c) = None \<or>
     (\<exists>p \<in> set (co_mounted c). case p of
        P_audit s \<Rightarrow> audit_view pf now (acting_role (co_app c)) s = None | _ \<Rightarrow> False)"

lemma throws_iff: "throws pf now c \<longleftrightarrow> app_view pf (co_app c) = None \<or>
    (\<exists>s. P_audit s \<in> set (co_mounted c) \<and> audit_view pf now (acting_role (co_app c)) s = None)"
proof -
  have "(\<exists>p \<in> set ps. case p of P_audit s \<Rightarrow> Q s | _ \<Rightarrow> False) \<longleftrightarrow> (\<exists>s. P_audit s \<in> set ps \<and> Q s)" for ps Q
    by (induction ps) (auto split: panel.splits)
  then show ?thesis by (simp add: throws_def)
qed

subsection \<open>The state\<close>

record page =
  pg_console :: console
  pg_blank :: bool
  pg_header :: "header_state option"
  pg_storage :: local_storage
  pg_bus :: toast_bus
  pg_copies :: nat

definition header_mentions :: "string \<Rightarrow> page \<Rightarrow> bool" where
  "header_mentions u g = (case (ap_user (co_app (pg_console g)), pg_header g) of
     (Signed_in who, Some h) \<Rightarrow> mentions u
       (header_view who (ap_connState (co_app (pg_console g))) (ap_isolated (co_app (pg_console g))) h)
   | _ \<Rightarrow> False)"

definition on_screen :: "platform \<Rightarrow> rat \<Rightarrow> string \<Rightarrow> page \<Rightarrow> bool" where
  "on_screen pf now u g \<longleftrightarrow> \<not> pg_blank g \<and>
     ((\<exists>ns. app_view pf (co_app (pg_console g)) = Some ns \<and> (\<exists>n \<in> set ns. mentions u n)) \<or>
      header_mentions u g \<or>
      (\<exists>p \<in> set (co_mounted (pg_console g)).
         panel_mentions pf now (acting_role (co_app (pg_console g))) u p))"

text \<open>The header is mounted while someone is signed in and the page is not blank.\<close>

definition sync_header :: "page \<Rightarrow> page" where
  "sync_header g = (case (if pg_blank g then Signed_out else ap_user (co_app (pg_console g)), pg_header g) of
     (Signed_in _, None) \<Rightarrow> g\<lparr>pg_header := Some (header_mount (pg_storage g))\<rparr>
   | (Signed_in _, Some _) \<Rightarrow> g
   | (_, None) \<Rightarrow> g
   | (_, Some h) \<Rightarrow> g\<lparr>pg_header := None, pg_storage := hd_storage h\<rparr>)"

subsection \<open>Notifications\<close>

fun pushes :: "port list \<Rightarrow> (jsstr \<times> toast_tone) list" where
  "pushes [] = []"
| "pushes (Toast m t # ps) = (m, t) # pushes ps"
| "pushes (_ # ps) = pushes ps"

definition push_all :: "(jsstr \<times> toast_tone) list \<Rightarrow> toast_bus \<Rightarrow> toast_bus" where
  "push_all ms b = foldl (\<lambda>b (m, t). push m t b) b ms"

definition copy_pushes :: "bool \<Rightarrow> (jsstr \<times> toast_tone) list" where
  "copy_pushes ok = concat (map (\<lambda>x. case x of Copy_push m t \<Rightarrow> [(m, t)] | Write_clipboard _ \<Rightarrow> [])
     (snd (copy_settled ok copy_start)))"

subsection \<open>A turn of the dashboard\<close>

text \<open>The part of a step of the dashboard before the new tree is rendered: the new state of \<open>App\<close> with its
  effects, the instances, the connections, and what the instance or the socket that moved put out.\<close>

inductive console_turn :: "platform \<Rightarrow> (byte list \<Rightarrow> js_exn + byte list) \<Rightarrow> console \<Rightarrow>
    app_state \<Rightarrow> app_effect list \<Rightarrow> panel list \<Rightarrow> panel list \<Rightarrow> (nat \<rightharpoonup> live_conn) \<Rightarrow>
    port list \<Rightarrow> live_out list \<Rightarrow> bool"
  for pf :: platform and digest :: "byte list \<Rightarrow> js_exn + byte list" and c :: console where
  app: "app_own (co_app c) effs a \<Longrightarrow>
     console_turn pf digest c a effs (co_mounted c) (co_gone c) (co_conns c) [] []"
| acts: "co_mounted c = xs @ p # ys \<Longrightarrow> panel_user pf (acting_role (co_app c)) p ps p' \<Longrightarrow>
     deliver ps (co_app c) = (a, effs) \<Longrightarrow>
     console_turn pf digest c a effs (xs @ p' # ys) (co_gone c) (co_conns c) ps []"
| moves: "co_mounted c = xs @ p # ys \<Longrightarrow> panel_settle digest p ps p' \<or> panel_tick p ps p' \<Longrightarrow>
     deliver ps (co_app c) = (a, effs) \<Longrightarrow>
     console_turn pf digest c a effs (xs @ p' # ys) (co_gone c) (co_conns c) ps []"
| lingers: "co_gone c = xs @ p # ys \<Longrightarrow> panel_settle digest p ps p' \<or> panel_tick p ps p' \<Longrightarrow>
     deliver ps (co_app c) = (a, effs) \<Longrightarrow>
     console_turn pf digest c a effs (co_mounted c) (xs @ p' # ys) (co_conns c) ps []"
| live: "co_conns c k = Some l \<Longrightarrow> socket_step l out l' \<Longrightarrow> conn_closed l' = conn_closed l \<Longrightarrow>
     console_turn pf digest c (foldl hear (co_app c) out) [] (co_mounted c) (co_gone c)
       ((co_conns c)(k \<mapsto> l')) [] out"

lemma console_turn_iff: "console_step pf digest c os c' \<longleftrightarrow>
    (\<exists>a effs ms gs cs ps ls. console_turn pf digest c a effs ms gs cs ps ls \<and>
       finish c a effs ms gs cs ps = (c', os))"
proof
  assume "console_step pf digest c os c'"
  then show "\<exists>a effs ms gs cs ps ls. console_turn pf digest c a effs ms gs cs ps ls \<and>
      finish c a effs ms gs cs ps = (c', os)"
    by cases (blast intro: console_turn.intros)+
next
  assume "\<exists>a effs ms gs cs ps ls. console_turn pf digest c a effs ms gs cs ps ls \<and>
      finish c a effs ms gs cs ps = (c', os)"
  then obtain a effs ms gs cs ps ls where "console_turn pf digest c a effs ms gs cs ps ls"
    and fin: "finish c a effs ms gs cs ps = (c', os)" by blast
  then show "console_step pf digest c os c'"
    by cases (use fin in \<open>auto intro: console_step.intros\<close>)
qed

subsection \<open>The steps of the page\<close>

text \<open>\<open>Did\<close>: what the dashboard put out; \<open>Got\<close>: what its socket reported; \<open>Popped\<close>: a notification that
  came up on some screen.\<close>

datatype page_out = Did console_out | Got live_out | Popped toast_item

definition push_step :: "(jsstr \<times> toast_tone) list \<Rightarrow> page \<Rightarrow> page \<times> page_out list" where
  "push_step ms g = (let b' = push_all ms (pg_bus g)
     in (g\<lparr>pg_bus := b'\<rparr>, map Popped (newly_shown (pg_bus g) b')))"

text \<open>The root is unmounted: the instances stop, the session's connection is closed, the header and a
  \<open>ToastHost\<close> go.\<close>

definition blank_out :: "panel list \<Rightarrow> panel list \<Rightarrow> (nat \<rightharpoonup> live_conn) \<Rightarrow> page \<Rightarrow> page" where
  "blank_out ms gs cs g = (let c = pg_console g in sync_header (g\<lparr>pg_blank := True,
     pg_console := c\<lparr>co_mounted := [], co_gone := gs @ map unmount ms,
       co_conns := foldl conn_effect cs (close_live (co_app c))\<rparr>,
     pg_bus := host_unmount 0 (pg_bus g)\<rparr>))"

inductive page_step :: "platform \<Rightarrow> (byte list \<Rightarrow> js_exn + byte list) \<Rightarrow> page \<Rightarrow> page_out list \<Rightarrow> page \<Rightarrow> bool"
  for pf :: platform and digest :: "byte list \<Rightarrow> js_exn + byte list" where
  renders: "\<not> pg_blank g \<Longrightarrow> console_turn pf digest (pg_console g) a effs ms gs cs ps ls \<Longrightarrow>
     finish (pg_console g) a effs ms gs cs ps = (c', os) \<Longrightarrow> \<not> throws pf now c' \<Longrightarrow>
     push_step (pushes ps) (sync_header (g\<lparr>pg_console := c'\<rparr>)) = (g', pops) \<Longrightarrow>
     page_step pf digest g (map Got ls @ map Did os @ pops) g'"
| crashes: "\<not> pg_blank g \<Longrightarrow> console_turn pf digest (pg_console g) a effs ms gs cs ps ls \<Longrightarrow>
     finish (pg_console g) a effs ms gs cs ps = (c', os) \<Longrightarrow> throws pf now c' \<Longrightarrow>
     push_step (pushes ps) (blank_out ms gs cs g) = (g', pops) \<Longrightarrow>
     page_step pf digest g
       (map Got ls @ map (\<lambda>x. Did (Panel_out (ap_user (co_app (pg_console g))) x)) ps @ pops) g'"
| remains: "pg_blank g \<Longrightarrow> co_gone (pg_console g) = xs @ p # ys \<Longrightarrow>
     panel_settle digest p ps p' \<or> panel_tick p ps p' \<Longrightarrow>
     push_step (pushes ps) (g\<lparr>pg_console := (pg_console g)\<lparr>co_gone := xs @ p' # ys\<rparr>\<rparr>) = (g', pops) \<Longrightarrow>
     page_step pf digest g
       (map (\<lambda>x. Did (Panel_out (ap_user (co_app (pg_console g))) x)) ps @ pops) g'"
| dies: "pg_blank g \<Longrightarrow> co_conns (pg_console g) k = Some l \<Longrightarrow> socket_step l out l' \<Longrightarrow>
     conn_closed l' = conn_closed l \<Longrightarrow>
     page_step pf digest g (map Got out)
       (g\<lparr>pg_console := (pg_console g)\<lparr>co_conns := (co_conns (pg_console g))(k \<mapsto> l')\<rparr>\<rparr>)"
| toggles: "pg_header g = Some h \<Longrightarrow> page_step pf digest g [] (g\<lparr>pg_header := Some (toggleTheme h)\<rparr>)"
| copies: "on_screen pf now ''CopyHash'' g \<Longrightarrow> page_step pf digest g [] (g\<lparr>pg_copies := Suc (pg_copies g)\<rparr>)"
| copied: "0 < pg_copies g \<Longrightarrow>
     push_step (copy_pushes ok) (g\<lparr>pg_copies := pg_copies g - 1\<rparr>) = (g', pops) \<Longrightarrow> page_step pf digest g pops g'"
| hosts: "on_screen pf now ''ToastHost'' g \<Longrightarrow>
     page_step pf digest g [] (g\<lparr>pg_bus := host_subscribe 0 (host_render 0 (pg_bus g))\<rparr>)"
| unhosts: "\<not> on_screen pf now ''ToastHost'' g \<Longrightarrow> page_step pf digest g [] (g\<lparr>pg_bus := host_unmount 0 (pg_bus g)\<rparr>)"
| expires: "toast_timers (pg_bus g) = ids @ i # js' \<Longrightarrow>
     page_step pf digest g [] (g\<lparr>pg_bus := dismiss i ((pg_bus g)\<lparr>toast_timers := ids @ js'\<rparr>)\<rparr>)"
| closes: "host_items (pg_bus g) h = Some ts \<Longrightarrow> t \<in> set ts \<Longrightarrow>
     page_step pf digest g [] (g\<lparr>pg_bus := dismiss (ti_id t) (pg_bus g)\<rparr>)"

text \<open>A fresh page, with whatever the storage holds.\<close>

definition page_init :: "page \<Rightarrow> bool" where
  "page_init g \<longleftrightarrow> (\<exists>st b. toast_init b \<and> console_init (pg_console g) \<and>
     g = \<lparr>pg_console = pg_console g, pg_blank = False, pg_header = None, pg_storage = st, pg_bus = b, pg_copies = 0\<rparr>)"

end
