(* ===== verification/PageFacts.thy ===== *)
theory PageFacts
  imports Page
begin

text \<open>
  The invariant of the page: as long as it is not blank the dashboard in it runs as the dashboard does on
  its own, no \<open>ToastHost\<close> ever subscribes to the notifications, the header and the storage agree on the
  theme, and a page goes blank only on odd data (\<open>odd_data\<close>); then nothing is left mounted or connected.
\<close>

subsection \<open>Notifications\<close>

definition unheard :: "toast_bus \<Rightarrow> bool" where
  "unheard b \<longleftrightarrow> toast_inv b \<and> listeners b = [] \<and> (\<forall>h. host_items b h = None)"

lemma unheard_push: "unheard b \<Longrightarrow> unheard (push m t b)"
  using push_inv [of b m t] by (simp add: unheard_def) (simp add: push_def emit_def Let_def)

lemma unheard_push_all: "unheard b \<Longrightarrow> unheard (push_all ms b)"
  by (induction ms arbitrary: b) (simp_all add: push_all_def unheard_push split: prod.splits)

lemma unheard_expires:
  assumes "unheard b" and "toast_timers b = ids @ i # js'"
  shows "unheard (dismiss i (b\<lparr>toast_timers := ids @ js'\<rparr>))"
proof -
  have "toast_inv (dismiss i (b\<lparr>toast_timers := ids @ js'\<rparr>))"
    by (rule dismiss_inv) (use assms in \<open>auto simp: unheard_def\<close>)
  with assms(1) show ?thesis by (simp add: unheard_def) (simp add: dismiss_def emit_def)
qed

lemma unheard_unmount: "unheard b \<Longrightarrow> unheard (host_unmount h b)"
  by (simp add: unheard_def host_unmount_def toast_inv_def)

lemma unheard_shows: "unheard b' \<Longrightarrow> newly_shown b b' = []"
  by (simp add: unheard_def newly_shown_def)

lemma push_step_unheard:
  "unheard (pg_bus g) \<Longrightarrow> push_step ms g = (g', pops) \<Longrightarrow> pops = [] \<and> g' = g\<lparr>pg_bus := push_all ms (pg_bus g)\<rparr>"
  by (auto simp: push_step_def Let_def unheard_shows unheard_push_all)

lemma no_host: "\<not> on_screen pf now ''ToastHost'' g"
proof -
  have "\<not> panel_mentions pf now r ''ToastHost'' p" for r p
    using audit_bare by (cases p) (auto simp: login_bare banner_bare upload_bare feed_bare hash_bare corpus_bare
        quarantine_bare users_bare split: option.splits)
  moreover have "\<not> header_mentions ''ToastHost'' g"
    by (auto simp: header_mentions_def header_bare split: session.splits option.splits)
  ultimately show ?thesis using app_bare unfolding on_screen_def by blast
qed

subsection \<open>A turn\<close>

lemma mount_requests: "x \<in> set (snd (mount a k)) \<Longrightarrow> \<exists>c. x = Request c"
proof (cases k)
  case (At_log t)
  then show "x \<in> set (snd (mount a k)) \<Longrightarrow> ?thesis" by (cases t) (auto simp: audit_effect_run_def audit_load_def
      hash_refetch_def corpus_refetch_def quarantine_refetch_def user_refetch_def audit_port_def review_port_def)
qed simp_all

lemma refresh_requests: "x \<in> set (snd (refresh p)) \<Longrightarrow> \<exists>c. x = Request c"
  by (cases p) (auto simp: audit_effect_run_def audit_load_def hash_refetch_def corpus_refetch_def
      quarantine_refetch_def audit_port_def review_port_def)

lemma reconcile_requests: "x \<in> set (concat (map snd (reconcile a a' ps))) \<Longrightarrow> \<exists>c. x = Request c"
  using refresh_requests mount_requests
  by (fastforce simp: reconcile_def update_def split: option.splits if_splits)

lemma finish_callbacks:
  "finish c a effs ms gs cs ps = (c', os) \<Longrightarrow> heard os (Callback f) \<Longrightarrow> Callback f \<in> set ps"
  using reconcile_requests by (fastforce simp: finish_def Let_def heard_def)

lemma turn_conns:
  assumes "console_turn pf digest c a effs ms gs cs ps ls" and "cs k = Some l"
  shows "\<exists>l0. co_conns c k = Some l0 \<and> conn_closed l = conn_closed l0"
  using assms by cases (auto split: if_splits)

lemma message_verdict: "ap_verdict (app_message m a) = ap_verdict a \<or>
    (\<exists>v. m = Live_verdict Sample v \<and> ap_verdict (app_message m a) = Some v)"
  by (cases m) (auto simp: app_message_def shouldUpdateSampleVerdict_def Let_def split: live_source.splits)

lemma hear_verdict: "ap_verdict (foldl hear a out) = ap_verdict a \<or>
    (\<exists>v. Message (Live_verdict Sample v) \<in> set out \<and> ap_verdict (foldl hear a out) = Some v)"
proof (induction out arbitrary: a)
  case (Cons x out)
  have "ap_verdict (hear a x) = ap_verdict a \<or>
      (\<exists>v. x = Message (Live_verdict Sample v) \<and> ap_verdict (hear a x) = Some v)"
    using message_verdict by (cases x) (auto simp: hear_def)
  with Cons [of "hear a x"] show ?case by auto
qed simp

lemma deliver_verdict:
  "deliver ps a = (a', effs) \<Longrightarrow> ap_verdict a' = ap_verdict a \<or>
     (\<exists>v. Callback (On_verdict v) \<in> set ps \<and> ap_verdict a' = Some v)"
proof (induction ps a arbitrary: a' effs rule: deliver.induct)
  case (2 c ps a)
  obtain a1 out1 where c: "app_callback c a = (a1, out1)" by fastforce
  with 2(2) obtain out2 where d: "deliver ps a1 = (a', out2)" by (auto split: prod.splits)
  have "ap_verdict a1 = ap_verdict a \<or> (\<exists>v. c = On_verdict v \<and> ap_verdict a1 = Some v)"
    using c by (cases c) (auto simp: app_callback_def handleUpload_def handleSessionExpired_def set_user_def)
  with 2(1) [OF c [symmetric] refl d] show ?case by auto
next
  case (3 u ps a)
  obtain a1 out1 where c: "app_onLogin u a = (a1, out1)" by fastforce
  with 3(2) obtain out2 where d: "deliver ps a1 = (a', out2)" by (auto split: prod.splits)
  from 3(1) [OF c [symmetric] refl d] c show ?case by (auto simp: app_onLogin_def set_user_def)
qed auto

lemma app_own_verdict: "app_own a effs a' \<Longrightarrow> ap_verdict a' = ap_verdict a"
  by (cases rule: app_own_cases) (auto simp: app_me_settled_def app_monitor_settled_def app_logout_settled_def
      set_user_def handleLogout_def select_tab_def split: sum.splits)

lemma turn_verdict:
  assumes "console_turn pf digest c a effs ms gs cs ps ls"
  shows "ap_verdict a = ap_verdict (co_app c) \<or> (\<exists>v. ap_verdict a = Some v \<and>
    (Callback (On_verdict v) \<in> set ps \<or> Message (Live_verdict Sample v) \<in> set ls))"
  using assms
proof cases
  case app
  then show ?thesis by (simp add: app_own_verdict)
next
  case acts
  with deliver_verdict [of ps "co_app c" a effs] show ?thesis by auto
next
  case moves
  with deliver_verdict [of ps "co_app c" a effs] show ?thesis by auto
next
  case lingers
  with deliver_verdict [of ps "co_app c" a effs] show ?thesis by auto
next
  case (live k l l')
  with hear_verdict [of "co_app c" ls] show ?thesis by auto
qed

subsection \<open>Odd data\<close>

definition dids :: "page_out list \<Rightarrow> console_out list" where
  "dids os = concat (map (\<lambda>x. case x of Did y \<Rightarrow> [y] | _ \<Rightarrow> []) os)"

lemma dids_simps [simp]:
  "dids [] = []" "dids (xs @ ys) = dids xs @ dids ys" "dids (map Got ls) = []" "dids (map Did os) = os"
  "dids (map (\<lambda>x. Did (f x)) ps) = map f ps"
  by (simp_all add: dids_def comp_def)

text \<open>The verdicts that came in: from an upload, or live for a sample.\<close>

definition came :: "page_out list \<Rightarrow> verdict \<Rightarrow> bool" where
  "came os v \<longleftrightarrow> heard (dids os) (Callback (On_verdict v)) \<or> Got (Message (Live_verdict Sample v)) \<in> set os"

text \<open>A row of a listing that is neither a verdict nor a record of an action, or a verdict whose detection
  method is the name of an inherited property.\<close>

definition odd_data :: "page_out list \<Rightarrow> bool" where
  "odd_data os \<longleftrightarrow>
     (\<exists>rows. heard (dids os) (Callback (On_verdicts_change rows)) \<and> (\<exists>r \<in> set rows. \<not> good_row r)) \<or>
     (\<exists>v. came os v \<and> inherited_key (detection_method v))"

lemma came_more: "came os v \<Longrightarrow> came (os @ out) v"
  by (auto simp: came_def)

lemma odd_more: "odd_data os \<Longrightarrow> odd_data (os @ out)"
  using came_more unfolding odd_data_def by fastforce

lemma throws_odd:
  assumes "reach console_init (console_step pf digest) os c" and "throws pf now c"
  shows "(\<exists>rows. heard os (Callback (On_verdicts_change rows)) \<and> (\<exists>r \<in> set rows. \<not> good_row r)) \<or>
    (\<exists>v. ap_verdict (co_app c) = Some v \<and> inherited_key (detection_method v))"
proof (rule ccontr)
  assume "\<not> ?thesis"
  then have "\<forall>rows. heard os (Callback (On_verdicts_change rows)) \<longrightarrow> (\<forall>r \<in> set rows. good_row r)"
    and "\<forall>v. ap_verdict (co_app c) = Some v \<longrightarrow> \<not> inherited_key (detection_method v)" by auto
  from console_total [OF assms(1) this] assms(2) show False
    unfolding throws_iff by (elim conjE disjE exE) simp_all
qed

subsection \<open>The invariant\<close>

definition theme_ok :: "page \<Rightarrow> bool" where
  "theme_ok g \<longleftrightarrow> (\<forall>h. pg_header g = Some h \<longrightarrow> hd_document h = Some (hd_theme h) \<and>
     (hd_storage h \<noteq> None \<longrightarrow> getStoredTheme (hd_storage h) = hd_theme h))"

definition page_inv :: "platform \<Rightarrow> (byte list \<Rightarrow> js_exn + byte list) \<Rightarrow> page_out list \<Rightarrow> page \<Rightarrow> bool" where
  "page_inv pf digest os g \<longleftrightarrow> unheard (pg_bus g) \<and> (\<forall>t. Popped t \<notin> set os) \<and> theme_ok g \<and>
     (if pg_blank g
      then odd_data os \<and> co_mounted (pg_console g) = [] \<and> pg_header g = None \<and>
        (\<forall>k l. co_conns (pg_console g) k = Some l \<longrightarrow> conn_closed l)
      else reach console_init (console_step pf digest) (dids os) (pg_console g) \<and>
        (\<forall>v. ap_verdict (co_app (pg_console g)) = Some v \<longrightarrow> came os v) \<and>
        (pg_header g \<noteq> None \<longleftrightarrow> (\<exists>u. ap_user (co_app (pg_console g)) = Signed_in u)))"

lemma sync_header_keeps [simp]:
  "pg_console (sync_header g) = pg_console g" "pg_blank (sync_header g) = pg_blank g"
  "pg_bus (sync_header g) = pg_bus g"
  by (auto simp: sync_header_def split: session.split option.split)

lemma sync_header_shown: "pg_header (sync_header g) \<noteq> None \<longleftrightarrow>
    \<not> pg_blank g \<and> (\<exists>u. ap_user (co_app (pg_console g)) = Signed_in u)"
  by (auto simp: sync_header_def split: session.splits option.splits if_splits)

lemma sync_header_theme: "theme_ok g \<Longrightarrow> theme_ok (sync_header g)"
  by (auto simp: sync_header_def theme_ok_def header_mount_def split: session.splits option.splits if_splits)

lemma toggle_theme: "theme_ok g \<Longrightarrow> theme_ok (g\<lparr>pg_header := Some (toggleTheme h)\<rparr>)"
  by (cases "hd_storage h") (auto simp: theme_ok_def toggleTheme_def setStoredTheme_def Let_def)

lemma theme_ok_cong: "pg_header g' = pg_header g \<Longrightarrow> theme_ok g' = theme_ok g"
  by (simp add: theme_ok_def)

lemma page_inv_init: "page_init g \<Longrightarrow> page_inv pf digest [] g"
  by (auto simp: page_init_def page_inv_def unheard_def toast_inv_def toast_init_def theme_ok_def console_init_def
      app_mount_def app_start_def intro!: reach_init)

text \<open>A step that only touches the notifications or the header.\<close>

lemma page_inv_frame:
  assumes "page_inv pf digest os g" and "pg_console g' = pg_console g" and "pg_blank g' = pg_blank g"
    and "unheard (pg_bus g')" and "theme_ok g'" and "pg_header g' \<noteq> None \<longleftrightarrow> pg_header g \<noteq> None"
  shows "page_inv pf digest os g'"
  using assms by (auto simp: page_inv_def split: if_splits)

lemma page_inv_renders:
  assumes "page_inv pf digest os g" and "\<not> pg_blank g" and "console_turn pf digest (pg_console g) a effs ms gs cs ps ls"
    and "finish (pg_console g) a effs ms gs cs ps = (c', out)"
    and "push_step (pushes ps) (sync_header (g\<lparr>pg_console := c'\<rparr>)) = (g', pops)"
  shows "page_inv pf digest (os @ map Got ls @ map Did out @ pops) g'"
proof -
  let ?os = "os @ map Got ls @ map Did out"
  have un: "unheard (pg_bus g)" and run: "reach console_init (console_step pf digest) (dids os) (pg_console g)"
    and v: "\<And>v. ap_verdict (co_app (pg_console g)) = Some v \<Longrightarrow> came os v"
    using assms(1,2) by (auto simp: page_inv_def)
  have "console_step pf digest (pg_console g) out c'" unfolding console_turn_iff using assms(3,4) by blast
  note run' = reach_step [OF run, OF this]
  have a: "co_app c' = a" and ps: "\<And>x. x \<in> set ps \<Longrightarrow> heard out x"
    using assms(4) by (auto simp: finish_def Let_def)
  have "came ?os v" if "ap_verdict a = Some v" for v
    using turn_verdict [OF assms(3)] that came_more [OF v] ps by (fastforce simp: came_def)
  moreover from push_step_unheard [OF _ assms(5)] un
  have "pops = []" "g' = (sync_header (g\<lparr>pg_console := c'\<rparr>))\<lparr>pg_bus := push_all (pushes ps) (pg_bus g)\<rparr>" by auto
  moreover have "theme_ok (sync_header (g\<lparr>pg_console := c'\<rparr>))"
    using assms(1) by (intro sync_header_theme) (simp add: page_inv_def theme_ok_def)
  ultimately show ?thesis using assms(1,2) un run' a sync_header_shown [of "g\<lparr>pg_console := c'\<rparr>"]
    by (auto simp: page_inv_def unheard_push_all theme_ok_def)
qed

lemma closed_left:
  assumes "\<And>k l. cs k = Some l \<Longrightarrow> \<not> conn_closed l \<Longrightarrow> ap_conn a = Some k"
    and "foldl conn_effect cs (close_live a) k = Some l"
  shows "conn_closed l"
  using assms by (auto simp: close_live_def conn_effect_def close_conn_def split: option.splits if_splits)

lemma blank_header: "pg_blank g \<Longrightarrow> pg_header (sync_header g) = None"
  using sync_header_shown [of g] by simp

lemma blank_out_facts:
  "pg_header (blank_out ms gs cs g) = None" "pg_blank (blank_out ms gs cs g)" "theme_ok (blank_out ms gs cs g)"
  "pg_console (blank_out ms gs cs g) = (pg_console g)\<lparr>co_mounted := [], co_gone := gs @ map unmount ms,
     co_conns := foldl conn_effect cs (close_live (co_app (pg_console g)))\<rparr>"
  "pg_bus (blank_out ms gs cs g) = host_unmount 0 (pg_bus g)"
  by (simp_all add: blank_out_def Let_def blank_header theme_ok_def)

lemma page_inv_crashes:
  assumes "page_inv pf digest os g" and "\<not> pg_blank g" and "console_turn pf digest (pg_console g) a effs ms gs cs ps ls"
    and "finish (pg_console g) a effs ms gs cs ps = (c', out)" and "throws pf now c'"
    and "push_step (pushes ps) (blank_out ms gs cs g) = (g', pops)"
  shows "page_inv pf digest
    (os @ map Got ls @ map (\<lambda>x. Did (Panel_out (ap_user (co_app (pg_console g))) x)) ps @ pops) g'"
proof -
  let ?c = "pg_console g"
  let ?os = "os @ map Got ls @ map (\<lambda>x. Did (Panel_out (ap_user (co_app ?c)) x)) ps"
  have un: "unheard (pg_bus g)" and run: "reach console_init (console_step pf digest) (dids os) ?c"
    and v: "\<And>v. ap_verdict (co_app ?c) = Some v \<Longrightarrow> came os v"
    using assms(1,2) by (auto simp: page_inv_def)
  have "console_step pf digest ?c out c'" unfolding console_turn_iff using assms(3,4) by blast
  note run' = reach_step [OF run, OF this]
  have a: "co_app c' = a" using assms(4) by (auto simp: finish_def Let_def)
  have handed: "heard (dids ?os) (Callback f)" if "heard (dids os @ out) (Callback f)" for f
    using that finish_callbacks [OF assms(4)] by auto
  have more: "came ?os w" if "came os w" for w using that by (rule came_more)
  have "came ?os w" if "ap_verdict a = Some w" for w
  proof (cases "ap_verdict a = ap_verdict (co_app ?c)")
    case True
    with that show ?thesis by (intro more v) simp
  next
    case False
    with turn_verdict [OF assms(3)] that show ?thesis by (auto simp: came_def)
  qed
  with throws_odd [OF run' assms(5)] handed a have odd: "odd_data ?os" unfolding odd_data_def by blast
  have "conn_closed l" if "foldl conn_effect cs (close_live (co_app ?c)) k = Some l" for k l
  proof (rule closed_left [OF _ that])
    fix j m
    assume "cs j = Some m" and "\<not> conn_closed m"
    with turn_conns [OF assms(3)] obtain m0 where "co_conns ?c j = Some m0" "\<not> conn_closed m0" by metis
    with console.reach_inv [OF run] show "ap_conn (co_app ?c) = Some j"
      by (auto simp: console_inv_def conns_ok_def)
  qed
  moreover from push_step_unheard [OF _ assms(6)] un
  have "pops = []" "g' = (blank_out ms gs cs g)\<lparr>pg_bus := push_all (pushes ps) (pg_bus (blank_out ms gs cs g))\<rparr>"
    "unheard (pg_bus g')" by (auto simp: blank_out_def Let_def unheard_unmount unheard_push_all)
  ultimately show ?thesis using assms(1) odd by (auto simp: page_inv_def theme_ok_def blank_out_facts)
qed

lemma page_inv_step:
  assumes "page_inv pf digest os g" and "page_step pf digest g out g'"
  shows "page_inv pf digest (os @ out) g'"
proof -
  have un: "unheard (pg_bus g)" and th: "theme_ok g" using assms(1) by (simp_all add: page_inv_def)
  show ?thesis using assms(2)
  proof cases
    case (renders a effs ms gs cs ps ls c' os' now pops)
    from page_inv_renders [OF assms(1) renders(2-4,6)] show ?thesis by (simp add: renders(1))
  next
    case (crashes a effs ms gs cs ps ls c' os' now pops)
    from page_inv_crashes [OF assms(1) crashes(2-6)] show ?thesis by (simp add: crashes(1))
  next
    case (remains xs p ys ps p' pops)
    from push_step_unheard [OF _ remains(5)] un have "pops = []"
      "g' = g\<lparr>pg_console := (pg_console g)\<lparr>co_gone := xs @ p' # ys\<rparr>, pg_bus := push_all (pushes ps) (pg_bus g)\<rparr>"
      by simp_all
    with assms(1) remains(1,2) un odd_more show ?thesis by (auto simp: page_inv_def theme_ok_def unheard_push_all)
  next
    case (dies k l ls l')
    with assms(1) odd_more show ?thesis by (auto simp: page_inv_def theme_ok_def)
  next
    case (copied ok)
    from push_step_unheard [OF _ copied(2)] un have none: "out = []" and
      g': "g' = g\<lparr>pg_copies := pg_copies g - 1, pg_bus := push_all (copy_pushes ok) (pg_bus g)\<rparr>" by simp_all
    have "page_inv pf digest os g'"
      unfolding g' by (rule page_inv_frame [OF assms(1)]) (use un th in \<open>simp_all add: unheard_push_all theme_ok_def\<close>)
    with none show ?thesis by simp
  next
    case (hosts now)
    then show ?thesis by (simp add: no_host)
  next
    case (toggles h)
    have "page_inv pf digest os (g\<lparr>pg_header := Some (toggleTheme h)\<rparr>)"
      by (rule page_inv_frame [OF assms(1)]) (use un th toggles in \<open>simp_all add: toggle_theme\<close>)
    then show ?thesis by (simp add: toggles(1,2))
  next
    case (unhosts now)
    have "page_inv pf digest os (g\<lparr>pg_bus := host_unmount 0 (pg_bus g)\<rparr>)"
      by (rule page_inv_frame [OF assms(1)]) (use un th unhosts in \<open>simp_all add: unheard_unmount theme_ok_def\<close>)
    then show ?thesis by (simp add: unhosts(1,2))
  next
    case (expires ids i js')
    have "page_inv pf digest os (g\<lparr>pg_bus := dismiss i ((pg_bus g)\<lparr>toast_timers := ids @ js'\<rparr>)\<rparr>)"
      by (rule page_inv_frame [OF assms(1)]) (use un th expires in \<open>simp_all add: unheard_expires theme_ok_def\<close>)
    then show ?thesis by (simp add: expires(1,2))
  next
    case (closes h ts t)
    with un show ?thesis by (simp add: unheard_def)
  next
    case (copies now)
    have "page_inv pf digest os (g\<lparr>pg_copies := Suc (pg_copies g)\<rparr>)"
      by (rule page_inv_frame [OF assms(1)]) (use un th copies in \<open>simp_all add: theme_ok_def\<close>)
    then show ?thesis by (simp add: copies(1,2))
  qed
qed

interpretation pages: invariant_system page_init "page_step pf digest" "page_inv pf digest"
  by unfold_locales (use page_inv_init page_inv_step in auto)


subsection \<open>Blank for good\<close>

lemma blank_stays: "page_step pf digest g out g' \<Longrightarrow> pg_blank g \<Longrightarrow> pg_blank g'"
  by (induction rule: page_step.induct) (auto simp: push_step_def Let_def blank_out_facts)

lemma blank_run:
  assumes "reach (\<lambda>x. x = g) (page_step pf digest) after g'" and "reach page_init (page_step pf digest) os g"
    and "pg_blank g"
  shows "reach page_init (page_step pf digest) (os @ after) g' \<and> pg_blank g'"
  using assms
proof (induction rule: reach.induct)
  case (reach_step bs h out h')
  then show ?case using reach.reach_step [of page_init "page_step pf digest" "os @ bs" h out h'] blank_stays by auto
qed auto

lemma blank_empty:
  assumes "reach page_init (page_step pf digest) os g" and "pg_blank g"
  shows "co_mounted (pg_console g) = [] \<and> pg_header g = None \<and>
    (\<forall>k l. co_conns (pg_console g) k = Some l \<longrightarrow> conn_closed l)"
  using pages.reach_inv [OF assms(1)] assms(2) by (simp add: page_inv_def)

text \<open>A sample's verdict arrives on the open socket of the session, with a detection method that is the
  name of an inherited property.\<close>

lemma odd_message:
  assumes "reach page_init (page_step pf digest) os g" and "\<not> pg_blank g"
    and "ap_user (co_app (pg_console g)) = Signed_in u" and "ap_conn (co_app (pg_console g)) = Some k"
    and "co_conns (pg_console g) k = Some l" and "last (socks l) = Open"
    and "inherited_key (detection_method v)"
  shows "\<exists>g'. page_step pf digest g [Got (Message (Live_verdict Sample v))] g' \<and> pg_blank g'"
proof -
  let ?c = "pg_console g" and ?m = "Live_verdict Sample v"
  have inv: "page_inv pf digest os g" using pages.reach_inv [OF assms(1)] .
  with assms(2) have run: "reach console_init (console_step pf digest) (dids os) ?c" and un: "unheard (pg_bus g)"
    by (simp_all add: page_inv_def)
  from console.reach_inv [OF run] have "conns_ok (co_app ?c) (co_conns ?c)" by (simp add: console_inv_def)
  with assms(5) obtain xs where "socket_run xs l" unfolding conns_ok_def by blast
  from socket_run_inv [OF this] have "socks l \<noteq> []" by (simp add: socket_inv_def socket_shape_def)
  with assms(6) have sock: "socket_step l [Message ?m] l"
    by (intro socket_step.received [of "length (socks l) - 1" _ "Some ?m"]) (simp_all add: last_conv_nth onmessage_def)
  let ?a = "foldl hear (co_app ?c) [Message ?m]" and ?cs = "(co_conns ?c)(k \<mapsto> l)"
  have turn: "console_turn pf digest ?c ?a [] (co_mounted ?c) (co_gone ?c) ?cs [] [Message ?m]"
    by (rule console_turn.live [OF assms(5) sock refl])
  obtain c' out where fin: "finish ?c ?a [] (co_mounted ?c) (co_gone ?c) ?cs [] = (c', out)" by fastforce
  then have "co_app c' = ?a" by (auto simp: finish_def Let_def)
  moreover have "ap_user ?a = Signed_in u" "ap_verdict ?a = Some v"
    using assms(3) by (simp_all add: hear_def app_message_def shouldUpdateSampleVerdict_def Let_def)
  ultimately have throws: "throws pf 0 c'" using assms(7) app_view_total [of pf "co_app c'"]
    by (auto simp: throws_iff)
  obtain g' pops where ps: "push_step (pushes []) (blank_out (co_mounted ?c) (co_gone ?c) ?cs g) = (g', pops)" by fastforce
  from push_step_unheard [OF _ ps] un have "pops = []" "pg_blank g'"
    by (simp_all add: blank_out_facts unheard_unmount)
  with page_step.crashes [OF assms(2) turn fin throws ps] show ?thesis by auto
qed

subsection \<open>A page with the dashboard\<close>

definition demo_page :: page where
  "demo_page = \<lparr>pg_console = \<lparr>co_app = fst app_mount, co_mounted = [], co_gone = [], co_conns = Map.empty\<rparr>,
     pg_blank = False, pg_header = None, pg_storage = None,
     pg_bus = \<lparr>toasts = [], nextId = 0, listeners = [], host_items = (\<lambda>_. None), toast_timers = []\<rparr>, pg_copies = 0\<rparr>"


text \<open>A step of the dashboard that renders is a step of the page.\<close>

lemma page_lift:
  assumes "reach page_init (page_step pf digest) os g" and "\<not> pg_blank g"
    and "console_turn pf digest (pg_console g) a effs ms gs cs ps ls"
    and "finish (pg_console g) a effs ms gs cs ps = (c', out)" and "\<not> throws pf 0 c'"
  shows "\<exists>g'. reach page_init (page_step pf digest) (os @ map Got ls @ map Did out) g' \<and> \<not> pg_blank g' \<and>
    pg_console g' = c' \<and> pg_bus g' = push_all (pushes ps) (pg_bus g)"
proof -
  obtain g' pops where ps: "push_step (pushes ps) (sync_header (g\<lparr>pg_console := c'\<rparr>)) = (g', pops)" by fastforce
  have "unheard (pg_bus g)" using pages.reach_inv [OF assms(1)] by (simp add: page_inv_def)
  with push_step_unheard [OF _ ps] have "pops = []" "\<not> pg_blank g'" "pg_console g' = c'"
    "pg_bus g' = push_all (pushes ps) (pg_bus g)" using assms(2) by simp_all
  with reach_step [OF assms(1), OF page_step.renders [OF assms(2-5) ps]] show ?thesis by auto
qed

definition demo_first :: "console_out list" where
  "demo_first = [App_out Unknown (App_call Fetch_monitor_status), App_out Unknown (Connect_live 0),
     Panel_out demo_who (Request Fetch_verdicts), Panel_out demo_who (Request Fetch_chain_status)]"

lemma demo_plain: "ap_verdict (co_app c) = None \<Longrightarrow> (\<And>s. P_audit s \<in> set (co_mounted c) \<Longrightarrow> as_rows s = []) \<Longrightarrow>
    \<not> throws pf now c"
  using audit_view_total app_view_total by (auto simp: throws_iff simp del: not_None_eq)

lemma demo_page_signed_in:
  "\<exists>g. reach page_init (page_step pf digest) (map Did demo_first) g \<and> \<not> pg_blank g \<and>
     pg_console g = demo_signed_in \<and> pg_bus g = pg_bus demo_page"
proof -
  let ?c = "pg_console demo_page"
  have init: "page_init demo_page" by (auto simp: page_init_def demo_page_def console_init_def toast_init_def)
  have "app_own (co_app ?c) [App_call Fetch_monitor_status, Connect_live 0] demo_app"
    by (rule app_own.settled, rule app_settle.me_settled [where xs = "[]" and ys = "[]" and r = "Inr demo_admin"])
       (simp_all add: demo_page_def app_mount_def app_me_settled_def set_user_def close_live_def app_start_def demo_app_def)
  note turn = console_turn.app [OF this, of pf digest]
  have fin: "finish ?c demo_app [App_call Fetch_monitor_status, Connect_live 0] (co_mounted ?c) (co_gone ?c)
      (co_conns ?c) [] = (demo_signed_in, demo_first)"
    by (simp add: finish_def Let_def reconcile_def places_def left_over_def demo_console_defs conn_effect_def
        app_mount_def app_start_def audit_effect_run_def audit_load_def audit_port_def demo_page_def demo_first_def)
  have "\<not> throws pf 0 demo_signed_in"
    by (rule demo_plain) (auto simp: demo_console_defs demo_app_defs audit_effect_run_def audit_load_def audit_start_def)
  from page_lift [OF reach_init [of page_init, OF init] _ turn fin this] show ?thesis
    by (simp add: demo_page_def push_all_def)
qed

text \<open>What a socket reports while no odd data came in leaves the page as it should be.\<close>

lemma dids_Cons [simp]: "dids (Got x # os) = dids os" "dids (Did y # os) = y # dids os"
  by (simp_all add: dids_def)

lemma came_told:
  assumes "\<And>f. \<not> heard new (Callback f)"
  shows "came (os @ map Got out @ map Did new) v \<longleftrightarrow> came (os @ map Got out) v"
  using assms by (auto simp: came_def)

lemma page_hears:
  assumes "reach page_init (page_step pf digest) os g" and "\<not> pg_blank g" and "co_conns (pg_console g) k = Some l"
    and "socket_step l out l'" and "conn_closed l' = conn_closed l" and "\<not> odd_data (os @ map Got out)"
  shows "\<exists>g' new. reach page_init (page_step pf digest) (os @ map Got out @ map Did new) g' \<and> \<not> pg_blank g' \<and>
    co_app (pg_console g') = foldl hear (co_app (pg_console g)) out \<and>
    co_conns (pg_console g') = (co_conns (pg_console g))(k \<mapsto> l') \<and> (\<forall>f. \<not> heard new (Callback f))"
proof -
  let ?c = "pg_console g" and ?a = "foldl hear (co_app (pg_console g)) out"
  let ?cs = "(co_conns ?c)(k \<mapsto> l')"
  have inv: "page_inv pf digest os g" using pages.reach_inv [OF assms(1)] .
  have turn: "console_turn pf digest ?c ?a [] (co_mounted ?c) (co_gone ?c) ?cs [] out"
    by (rule console_turn.live [OF assms(3-5)])
  obtain c' new where fin: "finish ?c ?a [] (co_mounted ?c) (co_gone ?c) ?cs [] = (c', new)" by fastforce
  then have c': "co_app c' = ?a" "co_conns c' = ?cs" by (auto simp: finish_def Let_def)
  have none: "\<not> heard new (Callback f)" for f using finish_callbacks [OF fin] by fastforce
  have "console_step pf digest ?c new c'" unfolding console_turn_iff using turn fin by blast
  moreover have "reach console_init (console_step pf digest) (dids os) ?c" using inv assms(2) by (simp add: page_inv_def)
  ultimately have run: "reach console_init (console_step pf digest) (dids os @ new) c'" by (rule reach_step [rotated])
  have came: "came (os @ map Got out) v" if "ap_verdict ?a = Some v" for v
    using turn_verdict [OF turn] that inv assms(2) came_more by (fastforce simp: page_inv_def came_def)
  have "\<not> throws pf 0 c'"
  proof
    assume "throws pf 0 c'"
    from throws_odd [OF run this] came none c'(1) have "odd_data (os @ map Got out)" unfolding odd_data_def by auto
    with assms(6) show False ..
  qed
  from page_lift [OF assms(1,2) turn fin this] c' none show ?thesis by auto
qed

text \<open>The socket of the session opens, and a message comes.\<close>

definition opened :: live_conn where
  "opened = fst (onopen (set_sock 0 Open (fst connectLive)))"

lemma opened_facts: "socket_step (fst connectLive) [Status Conn_live] opened" "conn_closed opened = conn_closed (fst connectLive)"
    "last (socks opened) = Open" "socket_step opened [Message m] opened"
proof -
  show "socket_step (fst connectLive) [Status Conn_live] opened"
    by (rule socket_step.opened [of 0]) (simp_all add: opened_def connectLive_def connect_def onopen_def set_sock_def)
  show "conn_closed opened = conn_closed (fst connectLive)" "last (socks opened) = Open"
    by (simp_all add: opened_def connectLive_def connect_def onopen_def set_sock_def)
  show "socket_step opened [Message m] opened"
    by (rule socket_step.received [of 0 _ "Some m"]) (simp_all add: opened_def connectLive_def connect_def onopen_def set_sock_def onmessage_def)
qed

lemma odd_quiet:
  assumes "\<not> odd_data os" and "\<And>v. Message (Live_verdict Sample v) \<in> set out \<Longrightarrow> \<not> inherited_key (detection_method v)"
  shows "\<not> odd_data (os @ map Got out)"
  using assms by (auto simp: odd_data_def came_def)

lemma odd_told: "(\<And>f. \<not> heard new (Callback f)) \<Longrightarrow> odd_data (os @ map Got out @ map Did new) \<longleftrightarrow> odd_data (os @ map Got out)"
  by (simp add: odd_data_def came_told)

lemma page_told:
  assumes "reach page_init (page_step pf digest) os g" and "\<not> pg_blank g" and "co_conns (pg_console g) k = Some (fst connectLive)"
    and "\<not> odd_data os" and "\<And>v. m = Live_verdict Sample v \<Longrightarrow> \<not> inherited_key (detection_method v)"
  shows "\<exists>n1 n2 g'. reach page_init (page_step pf digest)
      (os @ [Got (Status Conn_live)] @ map Did n1 @ [Got (Message m)] @ map Did n2) g' \<and> \<not> pg_blank g' \<and>
    co_app (pg_console g') = app_message m ((co_app (pg_console g))\<lparr>ap_connState := Conn_live\<rparr>) \<and>
    (\<forall>f. \<not> heard (n1 @ n2) (Callback f))"
proof -
  have q1: "\<not> odd_data (os @ map Got [Status Conn_live])" by (rule odd_quiet [OF assms(4)]) simp
  from page_hears [OF assms(1-3) opened_facts(1,2) q1] obtain g1 n1 where
    r1: "reach page_init (page_step pf digest) (os @ map Got [Status Conn_live] @ map Did n1) g1" and b1: "\<not> pg_blank g1"
    and a1: "co_app (pg_console g1) = foldl hear (co_app (pg_console g)) [Status Conn_live]"
    and c1: "co_conns (pg_console g1) k = Some opened" and n1: "\<forall>f. \<not> heard n1 (Callback f)" by auto
  have q2: "\<not> odd_data ((os @ map Got [Status Conn_live] @ map Did n1) @ map Got [Message m])"
    by (rule odd_quiet) (use q1 odd_told [of n1 os "[Status Conn_live]"] n1 assms(5) in auto)
  from page_hears [OF r1 b1 c1 opened_facts(4) refl q2] obtain g2 n2 where
    "reach page_init (page_step pf digest) ((os @ map Got [Status Conn_live] @ map Did n1) @ map Got [Message m] @ map Did n2) g2"
    "\<not> pg_blank g2" "co_app (pg_console g2) = foldl hear (co_app (pg_console g1)) [Message m]" "\<forall>f. \<not> heard n2 (Callback f)" by auto
  with a1 n1 show ?thesis by (intro exI [of _ n1] exI [of _ n2] exI [of _ g2]) (simp add: hear_def)
qed

lemma demo_page_live:
  "\<exists>os g u k l. reach page_init (page_step pf digest) os g \<and> \<not> pg_blank g \<and>
     ap_user (co_app (pg_console g)) = Signed_in u \<and> ap_conn (co_app (pg_console g)) = Some k \<and>
     co_conns (pg_console g) k = Some l \<and> last (socks l) = Open"
proof -
  from demo_page_signed_in [of pf digest] obtain g where r: "reach page_init (page_step pf digest) (map Did demo_first) g"
    and b: "\<not> pg_blank g" and c: "pg_console g = demo_signed_in" by blast
  have k: "co_conns (pg_console g) 0 = Some (fst connectLive)" by (simp add: c demo_signed_in_def demo_conns_def)
  have "\<not> odd_data (map Did demo_first @ map Got [Status Conn_live])"
    by (auto simp: odd_data_def came_def demo_first_def heard_def)
  from page_hears [OF r b k opened_facts(1,2) this] obtain g' os' where
    g': "reach page_init (page_step pf digest) os' g'" "\<not> pg_blank g'" "co_conns (pg_console g') 0 = Some opened"
    "co_app (pg_console g') = demo_app\<lparr>ap_connState := Conn_live\<rparr>" by (auto simp: c demo_signed_in_def hear_def)
  then have "ap_user (co_app (pg_console g')) = demo_who" "ap_conn (co_app (pg_console g')) = Some 0"
    by (simp_all add: demo_app_defs)
  with g' opened_facts(3) show ?thesis by metis
qed

text \<open>The server refuses the log to the user: the audit log queues a notification.\<close>

lemma demo_page_toast:
  "\<exists>os g t. reach page_init (page_step pf digest) os g \<and> t \<in> set (toasts (pg_bus g)) \<and>
     ti_message t = js ''Admins only''"
proof -
  from demo_page_signed_in [of pf digest] obtain os g where r: "reach page_init (page_step pf digest) os g"
    and b: "\<not> pg_blank g" and c: "pg_console g = demo_signed_in" and bus: "pg_bus g = pg_bus demo_page" by blast
  let ?s = "demo_audit\<lparr>as_inflight := [(0, AC_chain)], as_loading := False\<rparr>"
  have "audit_settle demo_audit [Audit_push (js ''Admins only'') Tone_error] ?s"
    by (rule audit_settle.verdicts [where xs = "[]" and ys = "[(0, AC_chain)]" and k = 0 and ans = "Inl (Api_error [] 403)"])
       (simp_all add: demo_audit_def audit_effect_run_def audit_load_def audit_start_def
         audit_verdicts_settled_def audit_cancelled_def is_status_def)
  from panel_settle.audit [OF this, of digest]
  have settle: "panel_settle digest (P_audit demo_audit) [Toast (js ''Admins only'') Tone_error] (P_audit ?s)"
    by (simp add: audit_port_def ports_def)
  let ?xs = "[P_banner (mounted_banner False), P_upload upload_start_state, P_feed (feed_mount [] [])]"
  have turn: "console_turn pf digest (pg_console g) demo_app [] (?xs @ P_audit ?s # []) (co_gone (pg_console g))
      (co_conns (pg_console g)) [Toast (js ''Admins only'') Tone_error] []"
    by (rule console_turn.moves [OF _ disjI1 [OF settle]]) (simp_all add: c demo_signed_in_def)
  let ?fin = "finish (pg_console g) demo_app [] (?xs @ P_audit ?s # []) (co_gone (pg_console g))
      (co_conns (pg_console g)) [Toast (js ''Admins only'') Tone_error]"
  have m: "P_audit s \<in> set (co_mounted (fst ?fin)) \<Longrightarrow> as_rows s = []" for s
    by (auto simp: c finish_def Let_def reconcile_def places_def update_def demo_console_defs
        audit_effect_run_def audit_load_def audit_start_def)
  have v: "ap_verdict (co_app (fst ?fin)) = None" by (simp add: finish_def Let_def demo_app_defs)
  from page_lift [OF r b turn surjective_pairing demo_plain [OF v m]] obtain os' g' where
    "reach page_init (page_step pf digest) os' g'"
    "pg_bus g' = push_all [(js ''Admins only'', Tone_error)] (pg_bus g)" by auto
  then show ?thesis
    by (intro exI [of _ os'] exI [of _ g'] exI [of _ "\<lparr>ti_id = 0, ti_message = js ''Admins only'', ti_tone = Tone_error\<rparr>"])
       (simp add: push_all_def push_def Let_def bus demo_page_def)
qed

end
