(* ===== verification/Routes.thy ===== *)
theory Routes
  imports Api Platform
begin

text \<open>
  The way of a request from the dashboard into the backend: the path that \<open>fetch\<close> makes of the one it is
  given, the routes of \<open>newMux\<close> in \<open>main.go\<close> with the guard of each, and what the handlers read from the
  method, the path and the body before they do anything.
\<close>

subsection \<open>Paths\<close>

text \<open>The path of a URL loses its dot segments before it is sent; the segments are those after the leading
  slash.\<close>

definition single_dot :: "jsstr \<Rightarrow> bool" where
  "single_dot s \<longleftrightarrow> ascii_lower s \<in> {js ''.'', js ''%2e''}"

definition double_dot :: "jsstr \<Rightarrow> bool" where
  "double_dot s \<longleftrightarrow> ascii_lower s \<in> {js ''..'', js ''.%2e'', js ''%2e.'', js ''%2e%2e''}"

fun resolve_dots :: "jsstr list \<Rightarrow> jsstr list \<Rightarrow> jsstr list" where
  "resolve_dots path [] = path"
| "resolve_dots path (s # rest) =
     (let end = (if rest = [] then [[]] else [])
      in if double_dot s then resolve_dots (butlast path @ end) rest
         else if single_dot s then resolve_dots (path @ end) rest
         else resolve_dots (path @ [s]) rest)"

definition fetched_path :: "jsstr \<Rightarrow> jsstr list" where
  "fetched_path p = resolve_dots [] (tl (segments p))"

subsection \<open>Bodies\<close>

text \<open>The length of a string in UTF-8, where a lone surrogate has become the replacement character.\<close>

fun byte_len :: "jsstr \<Rightarrow> nat" where
  "byte_len [] = 0"
| "byte_len [c] = (if unat c < 128 then 1 else if unat c < 2048 then 2 else 3)"
| "byte_len (c # d # s) =
     (if high_surrogate c \<and> low_surrogate d then 4 + byte_len s
      else (if unat c < 128 then 1 else if unat c < 2048 then 2 else 3) + byte_len (d # s))"

text \<open>
  A body decoded into a struct of strings: names match without regard to case (under which Go also takes
  the long s and the Kelvin sign for letters), the last member of a name counts, a missing one is empty,
  others are ignored.  Of the bodies that decode, only objects of strings are read; the dashboard sends
  no others.
\<close>

definition go_fold :: "jsstr \<Rightarrow> jsstr" where
  "go_fold s = map (\<lambda>c. if c = 0x17F then 115 else if c = 0x212A then 107 else c) (ascii_lower s)"

definition go_field :: "string \<Rightarrow> (jsstr \<times> jsstr) list \<Rightarrow> jsstr" where
  "go_field k kvs = (case find (\<lambda>kv. go_fold (fst kv) = js k) (rev kvs) of None \<Rightarrow> [] | Some kv \<Rightarrow> snd kv)"

definition body_members :: "body option \<Rightarrow> (jsstr \<times> jsstr) list option" where
  "body_members b = (case b of Some (Text_body t) \<Rightarrow> read_object t | _ \<Rightarrow> None)"

text \<open>The file in the field \<open>sample\<close> of a form; a part with an empty file name is no file.\<close>

definition form_file :: "body option \<Rightarrow> js_file option" where
  "form_file b = (case b of
     Some (Form_body fs) \<Rightarrow> map_of (filter (\<lambda>part. file_name (snd part) \<noteq> []) fs) (js ''sample'') | _ \<Rightarrow> None)"

text \<open>\<open>strconv.ParseInt(s, 10, 64)\<close>.\<close>

definition digits_int :: "jsstr \<Rightarrow> int option" where
  "digits_int s = (if s \<noteq> [] \<and> list_all is_digit s then Some (int (digits_value s)) else None)"

definition parse_int64 :: "jsstr \<Rightarrow> int option" where
  "parse_int64 s =
     (let i = (case s of
                 c # t \<Rightarrow> if c = 45 then map_option uminus (digits_int t) else if c = 43 then digits_int t else digits_int s
               | [] \<Rightarrow> None)
      in case i of None \<Rightarrow> None | Some n \<Rightarrow> if - (2 ^ 63) \<le> n \<and> n < 2 ^ 63 then Some n else None)"

subsection \<open>Calls\<close>

text \<open>What a handler is asked to do, with \<open>None\<close> for a body that does not decode or a form without its file.\<close>

datatype bk_call =
    B_health
  | B_login "(jsstr \<times> jsstr) option"
  | B_logout
  | B_me
  | B_upload "js_file option"
  | B_verdicts
  | B_verdict jsstr
  | B_verify
  | B_live
  | B_monitor_status
  | B_reconnect
  | B_hashes
  | B_submit_hash "body option"
  | B_decide_hash review_status jsstr
  | B_corpus
  | B_submit_corpus "body option"
  | B_decide_corpus review_status jsstr
  | B_users
  | B_create_user "(jsstr \<times> jsstr \<times> jsstr) option"
  | B_remove_user jsstr
  | B_set_role jsstr "jsstr option"
  | B_intercept "body option"
  | B_quarantined
  | B_decide_file review_status jsstr
  | B_file_status jsstr

datatype guard = Anyone | Session | Admin_session | Bearer

datatype handler =
    H_health | H_login | H_logout | H_me | H_samples | H_verdicts | H_verdict | H_verify | H_live
  | H_monitor_status | H_reconnect | H_hashes | H_hash_decision | H_corpus | H_corpus_decision
  | H_users | H_user | H_user_role | H_intercept | H_quarantined | H_file_decision review_status | H_file_status

datatype seg_pat = Lit_seg jsstr | Wild_seg

fun seg_match :: "seg_pat list \<Rightarrow> jsstr list \<Rightarrow> jsstr list option" where
  "seg_match [] [] = Some []"
| "seg_match (Lit_seg l # ps) (s # ss) = (if s = l then seg_match ps ss else None)"
| "seg_match (Wild_seg # ps) (s # ss) = (if s = [] then None else map_option ((#) s) (seg_match ps ss))"
| "seg_match _ _ = None"

text \<open>A pattern that ends in a slash matches everything below it.\<close>

fun subtree_match :: "seg_pat list \<Rightarrow> jsstr list \<Rightarrow> jsstr list option" where
  "subtree_match [] (s # ss) = Some (s # ss)"
| "subtree_match (Lit_seg l # ps) (s # ss) = (if s = l then subtree_match ps ss else None)"
| "subtree_match _ _ = None"

definition ROUTES :: "((jsstr list \<Rightarrow> jsstr list option) \<times> guard \<times> handler) list" where
  "ROUTES = map (\<lambda>(sub, ps, g, h). ((if sub then subtree_match else seg_match) (Lit_seg (js ''api'') # ps), g, h))
     [(False, [Lit_seg (js ''health'')], Anyone, H_health),
      (False, [Lit_seg (js ''login'')], Anyone, H_login),
      (False, [Lit_seg (js ''logout'')], Session, H_logout),
      (False, [Lit_seg (js ''me'')], Session, H_me),
      (False, [Lit_seg (js ''samples'')], Session, H_samples),
      (False, [Lit_seg (js ''verdicts'')], Session, H_verdicts),
      (True, [Lit_seg (js ''verdicts'')], Session, H_verdict),
      (False, [Lit_seg (js ''audit''), Lit_seg (js ''verify'')], Session, H_verify),
      (False, [Lit_seg (js ''live'')], Session, H_live),
      (False, [Lit_seg (js ''monitor''), Lit_seg (js ''status'')], Session, H_monitor_status),
      (False, [Lit_seg (js ''monitor''), Lit_seg (js ''reconnect'')], Admin_session, H_reconnect),
      (False, [Lit_seg (js ''hashes'')], Session, H_hashes),
      (True, [Lit_seg (js ''hashes'')], Admin_session, H_hash_decision),
      (False, [Lit_seg (js ''corpus'')], Session, H_corpus),
      (True, [Lit_seg (js ''corpus'')], Admin_session, H_corpus_decision),
      (False, [Lit_seg (js ''users'')], Admin_session, H_users),
      (False, [Lit_seg (js ''users''), Wild_seg], Admin_session, H_user),
      (False, [Lit_seg (js ''users''), Wild_seg, Lit_seg (js ''role'')], Admin_session, H_user_role),
      (False, [Lit_seg (js ''intercept'')], Bearer, H_intercept),
      (False, [Lit_seg (js ''intercept''), Lit_seg (js ''pending'')], Admin_session, H_quarantined),
      (False, [Lit_seg (js ''intercept''), Wild_seg, Lit_seg (js ''approve'')], Admin_session, H_file_decision Approved),
      (False, [Lit_seg (js ''intercept''), Wild_seg, Lit_seg (js ''reject'')], Admin_session, H_file_decision Rejected),
      (False, [Lit_seg (js ''intercept''), Wild_seg, Lit_seg (js ''status'')], Bearer, H_file_status)]"

fun first_route :: "((jsstr list \<Rightarrow> jsstr list option) \<times> guard \<times> handler) list \<Rightarrow> jsstr list \<Rightarrow>
    (guard \<times> handler \<times> jsstr list) option" where
  "first_route [] segs = None"
| "first_route ((m, g, h) # rs) segs = (case m segs of Some vs \<Rightarrow> Some (g, h, vs) | None \<Rightarrow> first_route rs segs)"

text \<open>The segments of the two decision routes that are parsed by hand.\<close>

definition decision_parts :: "jsstr list \<Rightarrow> (jsstr \<times> review_status) option" where
  "decision_parts rest = (case segments (join [47] rest) of
     [h, verb] \<Rightarrow> if verb = js ''approve'' then Some (h, Approved)
                 else if verb = js ''reject'' then Some (h, Rejected) else None
   | _ \<Rightarrow> None)"

text \<open>What a handler reads; \<open>Inl\<close> is the status it answers with at once.  The login handler asks its limiter
  before it reads the body.\<close>

fun call_of :: "handler \<Rightarrow> http_method \<Rightarrow> jsstr list \<Rightarrow> body option \<Rightarrow> nat + bk_call" where
  "call_of H_health m vs b = Inr B_health"
| "call_of H_login m vs b = (if m \<noteq> POST then Inl 405 else Inr (B_login
     (case b of
        Some (Text_body t) \<Rightarrow>
          if byte_len t \<le> 4096
          then map_option (\<lambda>kvs. (go_field ''username'' kvs, go_field ''password'' kvs)) (body_members b) else None
      | _ \<Rightarrow> None)))"
| "call_of H_logout m vs b = (if m \<noteq> POST then Inl 405 else Inr B_logout)"
| "call_of H_me m vs b = Inr B_me"
| "call_of H_samples m vs b = (if m \<noteq> POST then Inl 405 else Inr (B_upload (form_file b)))"
| "call_of H_verdicts m vs b = Inr B_verdicts"
| "call_of H_verdict m vs b = Inr (B_verdict (join [47] vs))"
| "call_of H_verify m vs b = Inr B_verify"
| "call_of H_live m vs b = Inr B_live"
| "call_of H_monitor_status m vs b = Inr B_monitor_status"
| "call_of H_reconnect m vs b = (if m \<noteq> POST then Inl 405 else Inr B_reconnect)"
| "call_of H_hashes m vs b =
     (case m of GET \<Rightarrow> Inr B_hashes | POST \<Rightarrow> Inr (B_submit_hash b) | _ \<Rightarrow> Inl 405)"
| "call_of H_hash_decision m vs b = (if m \<noteq> POST then Inl 405
     else (case decision_parts vs of None \<Rightarrow> Inl 404 | Some (h, st) \<Rightarrow> Inr (B_decide_hash st h)))"
| "call_of H_corpus m vs b =
     (case m of GET \<Rightarrow> Inr B_corpus | POST \<Rightarrow> Inr (B_submit_corpus b) | _ \<Rightarrow> Inl 405)"
| "call_of H_corpus_decision m vs b = (if m \<noteq> POST then Inl 405
     else (case decision_parts vs of None \<Rightarrow> Inl 404 | Some (h, st) \<Rightarrow> Inr (B_decide_corpus st h)))"
| "call_of H_users m vs b =
     (case m of
        GET \<Rightarrow> Inr B_users
      | POST \<Rightarrow> Inr (B_create_user
          (map_option (\<lambda>kvs. (go_field ''username'' kvs, go_field ''password'' kvs, go_field ''role'' kvs)) (body_members b)))
      | _ \<Rightarrow> Inl 405)"
| "call_of H_user m vs b = (if m \<noteq> DELETE then Inl 405 else Inr (B_remove_user (hd vs)))"
| "call_of H_user_role m vs b = (if m \<noteq> PATCH then Inl 405
     else Inr (B_set_role (hd vs) (map_option (go_field ''role'') (body_members b))))"
| "call_of H_intercept m vs b = (if m \<noteq> POST then Inl 405 else Inr (B_intercept b))"
| "call_of H_quarantined m vs b = (if m \<noteq> GET then Inl 405 else Inr B_quarantined)"
| "call_of (H_file_decision st) m vs b = (if m \<noteq> POST then Inl 405 else Inr (B_decide_file st (hd vs)))"
| "call_of H_file_status m vs b = (if m \<noteq> GET then Inl 405 else Inr (B_file_status (hd vs)))"

text \<open>The router matches the segments after decoding them; a path that does not decode is refused with 400, as
  is taken to hold of escapes that are not valid UTF-8, which Go would decode to bytes.  The redirects with which the router cleans a path
  are not modelled: a browser has resolved dot segments by then.\<close>

definition mux :: "http_method \<Rightarrow> jsstr list \<Rightarrow> body option \<Rightarrow> guard \<times> (nat + bk_call)" where
  "mux m segs b = (case those (map decodeURIComponent segs) of
     None \<Rightarrow> (Anyone, Inl 400)
   | Some ss \<Rightarrow> (case first_route ROUTES ss of
       None \<Rightarrow> (Anyone, Inl 404)
     | Some (g, h, vs) \<Rightarrow> (g, call_of h m vs b)))"

definition received :: "http_request \<Rightarrow> guard \<times> (nat + bk_call)" where
  "received rq = mux (rq_method rq) (fetched_path (rq_path rq)) (rq_body rq)"

subsection \<open>What arrives\<close>

lemma decode_plain: "\<forall>c \<in> set s. unat c < 128 \<and> c \<noteq> 37 \<Longrightarrow> decodeURIComponent s = Some s"
proof -
  assume s: "\<forall>c \<in> set s. unat c < 128 \<and> c \<noteq> 37"
  then have "unpercent s = Some (map unat s)" by (induction s) auto
  moreover from s have "utf8_decode (map unat s) = Some (map unat s)" by (induction s) auto
  moreover from s have "concat (map utf16 (map unat s)) = s" by (induction s) (auto simp: utf16_def)
  ultimately show ?thesis by (simp add: decodeURIComponent_def)
qed

lemma lower_Nil [simp]: "ascii_lower s = [] \<longleftrightarrow> s = []"
  by (simp add: ascii_lower_def)

lemma lower_Cons: "ascii_lower s = d # t \<longleftrightarrow>
    (\<exists>c u. s = c # u \<and> (if 65 \<le> unat c \<and> unat c < 91 then c + 32 else c) = d \<and> ascii_lower u = t)"
  by (cases s) (auto simp: ascii_lower_def)

lemma lower_units:
  fixes c :: code_unit
  shows "(if 65 \<le> unat c \<and> unat c < 91 then c + 32 else c) = 46 \<longleftrightarrow> c = 46"
    and "(if 65 \<le> unat c \<and> unat c < 91 then c + 32 else c) = 37 \<longleftrightarrow> c = 37"
    and "(if 65 \<le> unat c \<and> unat c < 91 then c + 32 else c) = 50 \<longleftrightarrow> c = 50"
    and "(if 65 \<le> unat c \<and> unat c < 91 then c + 32 else c) = 101 \<longleftrightarrow> c = 69 \<or> c = 101"
proof -
  have "c + 32 = d \<longleftrightarrow> c = d - 32" for d by (auto simp: eq_diff_eq)
  then show "(if 65 \<le> unat c \<and> unat c < 91 then c + 32 else c) = 46 \<longleftrightarrow> c = 46"
    "(if 65 \<le> unat c \<and> unat c < 91 then c + 32 else c) = 37 \<longleftrightarrow> c = 37"
    "(if 65 \<le> unat c \<and> unat c < 91 then c + 32 else c) = 50 \<longleftrightarrow> c = 50"
    "(if 65 \<le> unat c \<and> unat c < 91 then c + 32 else c) = 101 \<longleftrightarrow> c = 69 \<or> c = 101" by auto
qed

lemma dot_spellings:
  "single_dot s \<longleftrightarrow> s \<in> {[46], [37, 50, 69], [37, 50, 101]}"
  "double_dot s \<longleftrightarrow> s \<in> {[46, 46], [46, 37, 50, 69], [46, 37, 50, 101], [37, 50, 69, 46], [37, 50, 101, 46],
     [37, 50, 69, 37, 50, 69], [37, 50, 69, 37, 50, 101], [37, 50, 101, 37, 50, 69], [37, 50, 101, 37, 50, 101]}"
  by (auto simp: single_dot_def double_dot_def js_def lower_Cons lower_units)

text \<open>An encoded name is a dot segment only if the name is.\<close>

lemma encoded_dots:
  assumes "encodeURIComponent u = Some e"
  shows "single_dot e \<or> double_dot e \<longleftrightarrow> u = js ''.'' \<or> u = js ''..''"
proof
  have d: "decodeURIComponent e = Some u" using uri.decode_enc assms by simp
  assume "single_dot e \<or> double_dot e"
  with d show "u = js ''.'' \<or> u = js ''..''"
    by (auto simp: dot_spellings decodeURIComponent_def upper_val_def Let_def utf16_def js_def)
next
  assume "u = js ''.'' \<or> u = js ''..''"
  with assms show "single_dot e \<or> double_dot e"
    by (auto simp: dot_spellings encodeURIComponent_def js_def high_surrogate_def low_surrogate_def uri_point_def
        uri_unreserved_def)
qed

lemma parse_dec_int: "- (2 ^ 63) \<le> i \<Longrightarrow> i < 2 ^ 63 \<Longrightarrow> parse_int64 (dec_int i) = Some i"
proof -
  assume i: "- (2 ^ 63) \<le> i" "i < 2 ^ 63"
  have d: "digits_int (dec n) = Some (int n)" for n
  proof -
    have "dec n \<noteq> []" by (simp add: dec_def)
    then show ?thesis using dec_digits by (auto simp: digits_int_def list_all_iff)
  qed
  obtain c t where c: "dec (nat i) = c # t" by (metis to_base_ne dec_def neq_Nil_conv)
  have "is_digit c" using dec_digits [of c "nat i"] c by simp
  then have "c \<noteq> 45" "c \<noteq> 43" by (auto simp: is_digit_def)
  with i c d [of "nat i"] d [of "nat (- i)"] show ?thesis
    by (auto simp: parse_int64_def dec_int_def Let_def)
qed

subsection \<open>What the client means\<close>

text \<open>What each function of \<open>api.ts\<close> asks the backend to do, and the guard it has to pass.\<close>

fun meant :: "api_call \<Rightarrow> guard \<times> bk_call" where
  "meant (Login u p) = (Anyone, B_login (Some (u, p)))"
| "meant Logout = (Session, B_logout)"
| "meant Me = (Session, B_me)"
| "meant (Upload_sample f) = (Session, B_upload (Some f))"
| "meant Fetch_verdicts = (Session, B_verdicts)"
| "meant Fetch_monitor_status = (Session, B_monitor_status)"
| "meant Fetch_chain_status = (Session, B_verify)"
| "meant Reconnect_monitor = (Admin_session, B_reconnect)"
| "meant Fetch_hashes = (Session, B_hashes)"
| "meant (Submit_hash h l) = (Session, B_submit_hash (Some (Text_body (json_object [(js ''hash'', h), (js ''label'', l)]))))"
| "meant (Approve_hash h) = (Admin_session, B_decide_hash Approved h)"
| "meant (Reject_hash h) = (Admin_session, B_decide_hash Rejected h)"
| "meant Fetch_corpus_pending = (Session, B_corpus)"
| "meant (Submit_corpus_sample f l) = (Session, B_submit_corpus
     (case submitCorpusSample f l of Inl _ \<Rightarrow> None | Inr i \<Rightarrow> ri_body i))"
| "meant (Approve_corpus_entry h) = (Admin_session, B_decide_corpus Approved h)"
| "meant (Reject_corpus_entry h) = (Admin_session, B_decide_corpus Rejected h)"
| "meant Fetch_users = (Admin_session, B_users)"
| "meant (Create_user u p r) = (Admin_session, B_create_user (Some (u, p, role_str r)))"
| "meant (Delete_user u) = (Admin_session, B_remove_user u)"
| "meant (Update_user_role u r) = (Admin_session, B_set_role u (Some (role_str r)))"
| "meant Fetch_quarantine_pending = (Admin_session, B_quarantined)"
| "meant (Approve_quarantine i) = (Admin_session, B_decide_file Approved (dec_int i))"
| "meant (Reject_quarantine i) = (Admin_session, B_decide_file Rejected (dec_int i))"

text \<open>The calls whose request gets through: the name of a user is neither empty nor \<open>.\<close> nor \<open>..\<close>, a hash is
  one, the body of a sign-in is not longer than the server reads, and a file has a name.\<close>

fun sendable :: "api_call \<Rightarrow> bool" where
  "sendable (Login u p) \<longleftrightarrow> byte_len (json_object [(js ''username'', u), (js ''password'', p)]) \<le> 4096"
| "sendable (Approve_hash h) \<longleftrightarrow> isValidSha256 h"
| "sendable (Reject_hash h) \<longleftrightarrow> isValidSha256 h"
| "sendable (Approve_corpus_entry h) \<longleftrightarrow> isValidSha256 h"
| "sendable (Reject_corpus_entry h) \<longleftrightarrow> isValidSha256 h"
| "sendable (Delete_user u) \<longleftrightarrow> u \<notin> {[], js ''.'', js ''..''}"
| "sendable (Update_user_role u r) \<longleftrightarrow> u \<notin> {[], js ''.'', js ''..''}"
| "sendable (Upload_sample f) \<longleftrightarrow> file_name f \<noteq> []"
| "sendable _ \<longleftrightarrow> True"

lemma literal_paths:
  "segments (js ''/api/login'') = [[], js ''api'', js ''login'']"
  "segments (js ''/api/logout'') = [[], js ''api'', js ''logout'']"
  "segments (js ''/api/me'') = [[], js ''api'', js ''me'']"
  "segments (js ''/api/samples'') = [[], js ''api'', js ''samples'']"
  "segments (js ''/api/verdicts'') = [[], js ''api'', js ''verdicts'']"
  "segments (js ''/api/monitor/status'') = [[], js ''api'', js ''monitor'', js ''status'']"
  "segments (js ''/api/monitor/reconnect'') = [[], js ''api'', js ''monitor'', js ''reconnect'']"
  "segments (js ''/api/audit/verify'') = [[], js ''api'', js ''audit'', js ''verify'']"
  "segments (js ''/api/hashes'') = [[], js ''api'', js ''hashes'']"
  "segments (js ''/api/corpus'') = [[], js ''api'', js ''corpus'']"
  "segments (js ''/api/users'') = [[], js ''api'', js ''users'']"
  "segments (js ''/api/intercept/pending'') = [[], js ''api'', js ''intercept'', js ''pending'']"
  by (simp_all add: js_def)

lemma route_words:
  "decodeURIComponent (js ''api'') = Some (js ''api'')"
  "decodeURIComponent (js ''login'') = Some (js ''login'')"
  "decodeURIComponent (js ''logout'') = Some (js ''logout'')"
  "decodeURIComponent (js ''me'') = Some (js ''me'')"
  "decodeURIComponent (js ''samples'') = Some (js ''samples'')"
  "decodeURIComponent (js ''verdicts'') = Some (js ''verdicts'')"
  "decodeURIComponent (js ''monitor'') = Some (js ''monitor'')"
  "decodeURIComponent (js ''status'') = Some (js ''status'')"
  "decodeURIComponent (js ''reconnect'') = Some (js ''reconnect'')"
  "decodeURIComponent (js ''audit'') = Some (js ''audit'')"
  "decodeURIComponent (js ''verify'') = Some (js ''verify'')"
  "decodeURIComponent (js ''hashes'') = Some (js ''hashes'')"
  "decodeURIComponent (js ''corpus'') = Some (js ''corpus'')"
  "decodeURIComponent (js ''users'') = Some (js ''users'')"
  "decodeURIComponent (js ''intercept'') = Some (js ''intercept'')"
  "decodeURIComponent (js ''pending'') = Some (js ''pending'')"
  "decodeURIComponent (js ''approve'') = Some (js ''approve'')"
  "decodeURIComponent (js ''reject'') = Some (js ''reject'')"
  "decodeURIComponent (js ''role'') = Some (js ''role'')"
  by (rule decode_plain, simp add: js_def)+

lemma no_dots:
  "\<not> single_dot (js ''api'')" "\<not> double_dot (js ''api'')"
  "\<not> single_dot (js ''login'')" "\<not> double_dot (js ''login'')"
  "\<not> single_dot (js ''logout'')" "\<not> double_dot (js ''logout'')"
  "\<not> single_dot (js ''me'')" "\<not> double_dot (js ''me'')"
  "\<not> single_dot (js ''samples'')" "\<not> double_dot (js ''samples'')"
  "\<not> single_dot (js ''verdicts'')" "\<not> double_dot (js ''verdicts'')"
  "\<not> single_dot (js ''monitor'')" "\<not> double_dot (js ''monitor'')"
  "\<not> single_dot (js ''status'')" "\<not> double_dot (js ''status'')"
  "\<not> single_dot (js ''reconnect'')" "\<not> double_dot (js ''reconnect'')"
  "\<not> single_dot (js ''audit'')" "\<not> double_dot (js ''audit'')"
  "\<not> single_dot (js ''verify'')" "\<not> double_dot (js ''verify'')"
  "\<not> single_dot (js ''hashes'')" "\<not> double_dot (js ''hashes'')"
  "\<not> single_dot (js ''corpus'')" "\<not> double_dot (js ''corpus'')"
  "\<not> single_dot (js ''users'')" "\<not> double_dot (js ''users'')"
  "\<not> single_dot (js ''intercept'')" "\<not> double_dot (js ''intercept'')"
  "\<not> single_dot (js ''pending'')" "\<not> double_dot (js ''pending'')"
  "\<not> single_dot (js ''approve'')" "\<not> double_dot (js ''approve'')"
  "\<not> single_dot (js ''reject'')" "\<not> double_dot (js ''reject'')"
  "\<not> single_dot (js ''role'')" "\<not> double_dot (js ''role'')"
  by (simp_all add: dot_spellings js_def)

lemma plain_hash:
  assumes "isValidSha256 h"
  shows "decodeURIComponent h = Some h" and "\<not> single_dot h" and "\<not> double_dot h"
    and "segments (join [47] [h, v]) = h # segments v"
proof -
  have c: "unat c < 128 \<and> c \<noteq> 37 \<and> c \<noteq> 47" if "c \<in> set h" for c
    using assms that sha_not_slash [OF assms that] by (auto simp: isValidSha256_def list_all_iff sha_char_hex_val hex_val_def Let_def split: if_splits)
  then show "decodeURIComponent h = Some h" by (intro decode_plain) blast
  have "length h = 64" using assms by (simp add: isValidSha256_def)
  then show "\<not> single_dot h" "\<not> double_dot h" by (auto simp: dot_spellings)
  show "segments (join [47] [h, v]) = h # segments v" using c segments_slash [of h v] by simp
qed

lemma plain_int:
  "decodeURIComponent (dec_int i) = Some (dec_int i)" "\<not> single_dot (dec_int i)" "\<not> double_dot (dec_int i)"
  "\<forall>c \<in> set (dec_int i). c \<noteq> 47" "dec_int i \<noteq> []"
proof -
  have c: "c = 45 \<or> is_digit c" if "c \<in> set (dec_int i)" for c
    using that by (auto simp: dec_int_def dest: dec_digits split: if_splits)
  then have u: "unat c < 128 \<and> c \<noteq> 37 \<and> c \<noteq> 47 \<and> c \<noteq> 46" if "c \<in> set (dec_int i)" for c
    using that by (fastforce simp: is_digit_def)
  then show "decodeURIComponent (dec_int i) = Some (dec_int i)" by (intro decode_plain) blast
  show "\<forall>c \<in> set (dec_int i). c \<noteq> 47" using u by blast
  show ne: "dec_int i \<noteq> []" by (simp add: dec_int_def dec_def)
  with u show "\<not> single_dot (dec_int i)" "\<not> double_dot (dec_int i)"
    unfolding dot_spellings by (metis insert_iff list.set_intros(1) emptyE)+
qed

lemma segments_ids:
  assumes "\<forall>c \<in> set a. c \<noteq> 47"
  shows "segments (js ''/api/hashes/'' @ a @ js ''/approve'') = [[], js ''api'', js ''hashes'', a, js ''approve'']"
    and "segments (js ''/api/hashes/'' @ a @ js ''/reject'') = [[], js ''api'', js ''hashes'', a, js ''reject'']"
    and "segments (js ''/api/corpus/'' @ a @ js ''/approve'') = [[], js ''api'', js ''corpus'', a, js ''approve'']"
    and "segments (js ''/api/corpus/'' @ a @ js ''/reject'') = [[], js ''api'', js ''corpus'', a, js ''reject'']"
    and "segments (js ''/api/intercept/'' @ a @ js ''/approve'') = [[], js ''api'', js ''intercept'', a, js ''approve'']"
    and "segments (js ''/api/intercept/'' @ a @ js ''/reject'') = [[], js ''api'', js ''intercept'', a, js ''reject'']"
    and "segments (js ''/api/users/'' @ a) = [[], js ''api'', js ''users'', a]"
    and "segments (js ''/api/users/'' @ a @ js ''/role'') = [[], js ''api'', js ''users'', a, js ''role'']"
  using assms by (simp_all add: js_def segments_slash segments_plain)

lemma go_fields:
  "go_field ''username'' [(js ''username'', u), (js ''password'', p)] = u"
  "go_field ''password'' [(js ''username'', u), (js ''password'', p)] = p"
  "go_field ''username'' [(js ''username'', u), (js ''password'', p), (js ''role'', r)] = u"
  "go_field ''password'' [(js ''username'', u), (js ''password'', p), (js ''role'', r)] = p"
  "go_field ''role'' [(js ''username'', u), (js ''password'', p), (js ''role'', r)] = r"
  "go_field ''role'' [(js ''role'', r)] = r"
  by (simp_all add: go_field_def go_fold_def ascii_lower_def js_def)

lemmas served = request_send_def bare_def no_init_def json_init_def received_def mux_def fetched_path_def Let_def
  literal_paths route_words no_dots ROUTES_def body_members_def form_file_def

lemma segments_word: "segments (js ''approve'') = [js ''approve'']" "segments (js ''reject'') = [js ''reject'']"
  by (simp_all add: js_def)

lemma submit_post: "submitCorpusSample f l = Inr i \<Longrightarrow> ri_method i = Some POST"
  by (auto simp: submitCorpusSample_def json_init_def split: sum.splits option.splits)

lemma sendable_served:
  assumes "send_of c = Inr rq" and "sendable c"
  shows "received rq = (fst (meant c), Inr (snd (meant c)))"
proof -
  have hash: "\<forall>c \<in> set h. c \<noteq> 47" if "isValidSha256 h" for h using sha_not_slash [OF that] by blast
  have decision: "decision_parts [h, js ''approve''] = Some (h, Approved)" "decision_parts [h, js ''reject''] = Some (h, Rejected)"
    if "isValidSha256 h" for h
    using plain_hash(4) [OF that] by (simp_all add: decision_parts_def segments_word)
  show ?thesis
  proof (cases c)
    case (Delete_user u)
    with assms obtain e where e: "encodeURIComponent u = Some e" "rq = request_send (js ''/api/users/'' @ e) (bare DELETE)"
      by (auto simp: user_path_def split: option.splits)
    have "\<not> single_dot e" "\<not> double_dot e" using encoded_dots [OF e(1)] Delete_user assms(2) by auto
    moreover have "u \<noteq> []" using Delete_user assms(2) by simp
    ultimately show ?thesis using Delete_user uri.decode_enc [OF e(1)]
      by (simp add: e(2) segments_ids [OF encoded_not_slash [OF e(1)]] served)
  next
    case (Update_user_role u r)
    with assms obtain e where e: "encodeURIComponent u = Some e"
      "rq = request_send (js ''/api/users/'' @ e @ js ''/role'') (json_init PATCH [(js ''role'', role_str r)])"
      by (auto simp: user_path_def split: option.splits)
    have "\<not> single_dot e" "\<not> double_dot e" using encoded_dots [OF e(1)] Update_user_role assms(2) by auto
    moreover have "u \<noteq> []" using Update_user_role assms(2) by simp
    ultimately show ?thesis using Update_user_role uri.decode_enc [OF e(1)]
      by (simp add: e(2) segments_ids [OF encoded_not_slash [OF e(1)]] served read_json_object go_fields)
  qed (use assms in \<open>auto simp: served read_json_object go_fields segments_ids [OF hash] plain_hash decision
      segments_ids [OF plain_int(4)] plain_int submit_post split: sum.splits\<close>)
qed

lemma dot_names_lost:
  assumes "send_of c = Inr rq" and "c = Delete_user u \<or> c = Update_user_role u r" and "u = js ''.'' \<or> u = js ''..''"
  shows "\<exists>n. snd (received rq) = Inl n"
proof -
  have e: "encodeURIComponent (js ''.'') = Some (js ''.'')" "encodeURIComponent (js ''..'') = Some (js ''..'')"
    by (simp_all add: encodeURIComponent_def js_def high_surrogate_def low_surrogate_def uri_point_def uri_unreserved_def)
  have d: "single_dot (js ''.'')" "\<not> double_dot (js ''.'')" "double_dot (js ''..'')"
    by (simp_all add: dot_spellings js_def)
  have s: "\<forall>c \<in> set (js ''.''). c \<noteq> 47" "\<forall>c \<in> set (js ''..''). c \<noteq> 47" by (simp_all add: js_def)
  have "decodeURIComponent [] = Some []" by (rule decode_plain) simp
  with assms show ?thesis
    by (auto simp: user_path_def e d served segments_ids [OF s(1)] segments_ids [OF s(2)])
qed

subsection \<open>Properties\<close>



end
