(* ===== verification/EngineLog.thy ===== *)
theory EngineLog
  imports Types "HOL-Library.List_Lexorder"
begin

text \<open>
  \<open>audit_log.py\<close> of the verdict engine: the hash chain whose state the audit log of the dashboard shows.
  The table \<open>audit_log\<close> is the list of its rows in the order of their ids; appends are serialised by the
  advisory lock, so each is one step.  The data of a row is a Python dictionary of JSON values: the list
  of its items.  PostgreSQL keeps the items of a \<open>JSONB\<close> value but not their order, which nothing here
  depends on.
\<close>

subsection \<open>json.dumps\<close>

text \<open>\<open>json.dumps(value, sort_keys=True)\<close> writes ASCII on one line, with the keys in order (of
  their code units, which is Python's order on the records of the engine, whose keys are ASCII).\<close>

definition py_unit :: "code_unit \<Rightarrow> jsstr" where
  "py_unit c = (case map_of json_short c of
     Some e \<Rightarrow> [92, e]
   | None \<Rightarrow> if 32 \<le> unat c \<and> unat c \<le> 126 then [c] else json_u c)"

definition py_string :: "jsstr \<Rightarrow> jsstr" where
  "py_string s = 34 # concat (map py_unit s) @ [34]"

definition inline_layout :: "nat \<Rightarrow> jsstr \<times> jsstr \<times> jsstr" where
  "inline_layout n = ([], [32], [])"

definition key_order :: "jsstr \<times> 'a \<Rightarrow> nat list" where
  "key_order kv = map unat (fst kv)"

fun sort_keys :: "json_value \<Rightarrow> json_value" where
  "sort_keys (J_arr vs) = J_arr (map sort_keys vs)"
| "sort_keys (J_obj kvs) = J_obj (sort_key key_order (map (\<lambda>(k, v). (k, sort_keys v)) kvs))"
| "sort_keys v = v"

definition py_dumps :: "(rat \<Rightarrow> jsstr) \<Rightarrow> json_value \<Rightarrow> jsstr" where
  "py_dumps num v = json_print py_string inline_layout num 0 (sort_keys v)"

lemma py_unit_reads: "read_chars (py_unit c @ s) = map_option (apfst ((#) c)) (read_chars s)"
proof (cases "map_of json_short c")
  case None
  then have "c \<noteq> 34" "c \<noteq> 92" by (auto simp: json_short_def)
  with None show ?thesis by (simp add: py_unit_def read_chars_u read_chars_plain)
next
  case (Some e)
  then have "json_unit c = py_unit c" by (simp add: py_unit_def json_unit_def)
  with read_chars_unit [of c s] show ?thesis by simp
qed

lemma str_reads_py: "str_reads py_string"
proof -
  have "read_chars (concat (map py_unit s) @ 34 # t) = Some (s, t)" for s t
    by (induction s) (simp_all add: py_unit_reads)
  then show ?thesis by (simp add: str_reads_def py_string_def)
qed

interpretation py_writer: json_writer py_string inline_layout
  by unfold_locales (simp_all add: str_reads_py inline_layout_def json_space_def)

lemma sort_keys_numbers: "set (json_numbers (sort_keys v)) = set (json_numbers v)"
  by (induction v) (auto simp: case_prod_unfold)

lemma map_of_stable: "map_of (sort_key key_order kvs) k = map_of kvs k"
proof -
  have own: "map_of xs k = map_of (filter (\<lambda>kv. key_order kv = map unat k) xs) k" for xs :: "(jsstr \<times> 'a) list"
    by (induction xs) (auto simp: key_order_def inj_eq [OF inj_mapI [OF inj_onI]])
  show ?thesis by (subst (1 2) own) (simp add: sort_key_stable)
qed

lemma sort_keys_field: "map_of kvs k = Some v \<Longrightarrow> sort_keys (J_obj kvs) = sort_keys (J_obj kvs') \<Longrightarrow>
    map_option sort_keys (map_of kvs' k) = Some (sort_keys v)"
proof -
  assume v: "map_of kvs k = Some v" and eq: "sort_keys (J_obj kvs) = sort_keys (J_obj kvs')"
  have m: "map_of (map (\<lambda>(k, v). (k, sort_keys v)) xs) k = map_option sort_keys (map_of xs k)" for xs
    by (induction xs) auto
  from eq have "map_of (map (\<lambda>(k, v). (k, sort_keys v)) kvs) k = map_of (map (\<lambda>(k, v). (k, sort_keys v)) kvs') k"
    using map_of_stable [of "map (\<lambda>(k, v). (k, sort_keys v)) kvs" k]
      map_of_stable [of "map (\<lambda>(k, v). (k, sort_keys v)) kvs'" k] by simp
  with v show ?thesis by (simp add: m)
qed

text \<open>The text determines the value, up to the order of its keys.\<close>

lemma py_dumps_inj:
  assumes "py_dumps num v = py_dumps num w"
    and "\<forall>q \<in> set (json_numbers v) \<union> set (json_numbers w). num_ok num rd q"
  shows "sort_keys v = sort_keys w"
proof -
  have "read_json rd (py_dumps num x) = Some (sort_keys x)" if "\<forall>q \<in> set (json_numbers x). num_ok num rd q" for x
    unfolding py_dumps_def using that by (intro py_writer.read_json_print) (simp add: sort_keys_numbers)
  with assms show ?thesis by (metis UnCI option.inject)
qed

subsection \<open>AuditLog\<close>

text \<open>What the engine takes from its surroundings: SHA-256 in hexadecimal, the text of a float, a time as
  \<open>isoformat()\<close> writes it.\<close>

record engine_platform =
  ep_digest :: "jsstr \<Rightarrow> jsstr"
  ep_num :: "rat \<Rightarrow> jsstr"
  ep_iso :: "rat \<Rightarrow> jsstr"

type_synonym py_dict = "(jsstr \<times> json_value) list"

record log_row =
  lr_entry_hash :: jsstr
  lr_prev_log_hash :: jsstr
  lr_data :: py_dict

definition GENESIS_HASH :: jsstr where
  "GENESIS_HASH = replicate 64 48"

text \<open>\<open>{**d, k: v}\<close>.\<close>

fun dict_set :: "jsstr \<Rightarrow> json_value \<Rightarrow> py_dict \<Rightarrow> py_dict" where
  "dict_set k v [] = [(k, v)]"
| "dict_set k v ((l, w) # d) = (if k = l then (l, v) # d else (l, w) # dict_set k v d)"

definition entry_digest :: "engine_platform \<Rightarrow> py_dict \<Rightarrow> jsstr" where
  "entry_digest pf d = ep_digest pf (py_dumps (ep_num pf) (J_obj d))"

definition last_hash :: "log_row list \<Rightarrow> jsstr" where
  "last_hash rows = (if rows = [] then GENESIS_HASH else lr_entry_hash (last rows))"

text \<open>\<open>append\<close>: the new table, and the record with its hash.\<close>

definition log_append :: "engine_platform \<Rightarrow> py_dict \<Rightarrow> log_row list \<Rightarrow> log_row list \<times> py_dict" where
  "log_append pf verdict rows =
     (let prev_hash = last_hash rows;
          entry = dict_set (js ''prev_log_hash'') (J_str prev_hash) verdict;
          h = entry_digest pf entry
      in (rows @ [\<lparr>lr_entry_hash = h, lr_prev_log_hash = prev_hash, lr_data = entry\<rparr>],
          dict_set (js ''entry_hash'') (J_str h) entry))"

definition log_all :: "log_row list \<Rightarrow> py_dict list" where
  "log_all rows = map (\<lambda>r. dict_set (js ''entry_hash'') (J_str (lr_entry_hash r)) (lr_data r)) rows"

definition log_get :: "jsstr \<Rightarrow> log_row list \<Rightarrow> py_dict option" where
  "log_get vid rows = find (\<lambda>d. map_of d (js ''verdict_id'') = Some (J_str vid)) (log_all rows)"

text \<open>The loop of \<open>verify_chain_detail\<close> from row \<open>i\<close> on: the number of the first row that does not fit.\<close>

fun verify_rows :: "engine_platform \<Rightarrow> jsstr \<Rightarrow> nat \<Rightarrow> log_row list \<Rightarrow> nat option" where
  "verify_rows pf prev i [] = None"
| "verify_rows pf prev i (r # rs) =
     (if map_of (lr_data r) (js ''prev_log_hash'') \<noteq> Some (J_str prev) then Some (i + 1)
      else if entry_digest pf (lr_data r) \<noteq> lr_entry_hash r then Some (i + 1)
      else verify_rows pf (lr_entry_hash r) (i + 1) rs)"

definition verify_chain_detail :: "engine_platform \<Rightarrow> log_row list \<Rightarrow> chain_status" where
  "verify_chain_detail pf rows =
     (let broken = verify_rows pf GENESIS_HASH 0 rows
      in \<lparr>intact = (broken = None), chain_entries = length rows, broken_at = broken\<rparr>)"

subsection \<open>The chain\<close>

lemma map_of_dict_set [simp]: "map_of (dict_set k v d) = (map_of d)(k \<mapsto> v)"
  by (induction d) auto

lemma verify_rows_append:
  "verify_rows pf prev i (xs @ ys) = (case verify_rows pf prev i xs of
     Some k \<Rightarrow> Some k
   | None \<Rightarrow> verify_rows pf (if xs = [] then prev else lr_entry_hash (last xs)) (i + length xs) ys)"
  by (induction xs arbitrary: prev i) (auto split: option.splits)

lemma intact_snoc:
  "intact (verify_chain_detail pf (rows @ [r])) \<longleftrightarrow> intact (verify_chain_detail pf rows) \<and>
     map_of (lr_data r) (js ''prev_log_hash'') = Some (J_str (last_hash rows)) \<and> entry_digest pf (lr_data r) = lr_entry_hash r"
  by (auto simp: verify_chain_detail_def Let_def verify_rows_append last_hash_def split: option.splits)

lemma append_intact:
  "intact (verify_chain_detail pf rows) \<Longrightarrow> intact (verify_chain_detail pf (fst (log_append pf d rows)))"
  by (simp add: log_append_def Let_def intact_snoc)

lemma intact_take: "intact (verify_chain_detail pf rows) \<Longrightarrow> intact (verify_chain_detail pf (take n rows))"
  using verify_rows_append [of pf GENESIS_HASH 0 "take n rows" "drop n rows"]
  by (auto simp: verify_chain_detail_def Let_def split: option.splits)

text \<open>The records up to the order of their items.\<close>

definition log_values :: "log_row list \<Rightarrow> json_value list" where
  "log_values rows = map (\<lambda>r. sort_keys (J_obj (lr_data r))) rows"

definition log_texts :: "engine_platform \<Rightarrow> log_row list \<Rightarrow> jsstr set" where
  "log_texts pf rows = (\<lambda>r. py_dumps (ep_num pf) (J_obj (lr_data r))) ` set rows"

definition log_numbers :: "log_row list \<Rightarrow> rat set" where
  "log_numbers rows = (\<Union>r \<in> set rows. set (json_numbers (J_obj (lr_data r))))"

lemma log_numbers_snoc: "log_numbers (xs @ [r]) = log_numbers xs \<union> set (json_numbers (J_obj (lr_data r)))"
  by (auto simp: log_numbers_def)

lemma chain_determined:
  assumes "intact (verify_chain_detail pf xs)" and "intact (verify_chain_detail pf ys)"
    and "last_hash xs = last_hash ys"
    and "inj_on (ep_digest pf) T" and "GENESIS_HASH \<notin> ep_digest pf ` T"
    and "log_texts pf xs \<union> log_texts pf ys \<subseteq> T"
    and "\<forall>q \<in> log_numbers xs \<union> log_numbers ys. num_ok (ep_num pf) rd q"
  shows "log_values xs = log_values ys"
  using assms(1-3,6-7)
proof (induction xs arbitrary: ys rule: rev_induct)
  case Nil
  have "ys = []"
  proof (rule ccontr)
    assume "ys \<noteq> []"
    then obtain zs r where ys: "ys = zs @ [r]" by (metis rev_exhaust)
    with Nil.prems(2,3) have "entry_digest pf (lr_data r) = GENESIS_HASH" by (simp add: intact_snoc last_hash_def)
    moreover have "py_dumps (ep_num pf) (J_obj (lr_data r)) \<in> T" using Nil.prems(4) by (auto simp: log_texts_def ys)
    ultimately show False using assms(5) by (auto simp: entry_digest_def image_iff)
  qed
  then show ?case by (simp add: log_values_def)
next
  case (snoc x xs)
  let ?t = "\<lambda>r. py_dumps (ep_num pf) (J_obj (lr_data r))"
  have x: "entry_digest pf (lr_data x) = lr_entry_hash x" "intact (verify_chain_detail pf xs)"
    "map_of (lr_data x) (js ''prev_log_hash'') = Some (J_str (last_hash xs))" "?t x \<in> T"
    using snoc.prems(1,4) by (simp_all add: intact_snoc log_texts_def)
  have "ys \<noteq> []"
  proof
    assume "ys = []"
    with snoc.prems(3) x(1) have "entry_digest pf (lr_data x) = GENESIS_HASH" by (simp add: last_hash_def)
    with x(4) assms(5) show False by (auto simp: entry_digest_def image_iff)
  qed
  then obtain zs y where ys: "ys = zs @ [y]" by (metis rev_exhaust)
  have y: "entry_digest pf (lr_data y) = lr_entry_hash y" "intact (verify_chain_detail pf zs)"
    "map_of (lr_data y) (js ''prev_log_hash'') = Some (J_str (last_hash zs))" "?t y \<in> T"
    using snoc.prems(2,4) by (simp_all add: intact_snoc log_texts_def ys)
  have "ep_digest pf (?t x) = ep_digest pf (?t y)"
    using snoc.prems(3) x(1) y(1) by (simp add: last_hash_def ys entry_digest_def)
  with assms(4) x(4) y(4) have "?t x = ?t y" by (simp add: inj_on_eq_iff)
  then have same: "sort_keys (J_obj (lr_data x)) = sort_keys (J_obj (lr_data y))"
    by (rule py_dumps_inj [where rd = rd]) (use snoc.prems(5) in \<open>unfold ys log_numbers_snoc, blast\<close>)
  from sort_keys_field [OF x(3) this] y(3) have "last_hash xs = last_hash zs" by simp
  moreover have "log_texts pf xs \<union> log_texts pf zs \<subseteq> T" using snoc.prems(4) by (simp add: log_texts_def ys)
  moreover have "\<forall>q \<in> log_numbers xs \<union> log_numbers zs. num_ok (ep_num pf) rd q"
    using snoc.prems(5) unfolding ys log_numbers_snoc by blast
  ultimately have "log_values xs = log_values zs" by (rule snoc.IH [OF x(2) y(2)])
  with same show ?case by (simp add: log_values_def ys)
qed

subsection \<open>Properties\<close>

text \<open>A table whose row is kept with its items in another order: the text, and so the digest, is the same.\<close>

definition demo_engine :: engine_platform where
  "demo_engine = \<lparr>ep_digest = (#) 120, ep_num = toFixed 2, ep_iso = (\<lambda>t. toFixed 0 t)\<rparr>"

definition demo_log :: "log_row list" where
  "demo_log = fst (log_append demo_engine [(js ''action'', J_str (js ''isolated''))] [])"

definition demo_stored :: "log_row list" where
  "demo_stored = map (\<lambda>r. r\<lparr>lr_data := rev (lr_data r)\<rparr>) demo_log"

lemma demo_same_text:
  "sort_keys (J_obj [(js ''action'', v), (js ''prev_log_hash'', w)]) = sort_keys (J_obj [(js ''prev_log_hash'', w), (js ''action'', v)])"
  by (simp add: key_order_def js_def)

lemma demo_log_data: "demo_log = [\<lparr>lr_entry_hash = entry_digest demo_engine [(js ''action'', J_str (js ''isolated'')),
    (js ''prev_log_hash'', J_str GENESIS_HASH)], lr_prev_log_hash = GENESIS_HASH,
    lr_data = [(js ''action'', J_str (js ''isolated'')), (js ''prev_log_hash'', J_str GENESIS_HASH)]\<rparr>]"
  by (simp add: demo_log_def log_append_def Let_def last_hash_def js_def)

text \<open>C26: The chain gives every change away to a reader who remembers its last hash: two tables that both
  verify and end in the same entry hash hold, row by row, the same records up to the order of their
  items, unless two of their texts collide under SHA-256 or one has the hash of the genesis entry.
  Nothing in the table itself tells that its last rows are missing: every beginning of a table that
  verifies does so too.\<close>

theorem log_tamper_evident:
  assumes "intact (verify_chain_detail pf xs)" and "intact (verify_chain_detail pf ys)"
    and "last_hash xs = last_hash ys"
    and "inj_on (ep_digest pf) (log_texts pf xs \<union> log_texts pf ys)"
    and "GENESIS_HASH \<notin> ep_digest pf ` (log_texts pf xs \<union> log_texts pf ys)"
    and "\<forall>q \<in> log_numbers xs \<union> log_numbers ys. num_ok (ep_num pf) rd q"
  shows "log_values xs = log_values ys \<and> (\<forall>n. intact (verify_chain_detail pf (take n xs)))"
  using chain_determined [OF assms(1-5) subset_refl assms(6)] intact_take [OF assms(1)] by blast

theorem log_tamper_evident_witness: "log_values demo_log = log_values demo_stored"
proof -
  have digest: "entry_digest demo_engine [(js ''prev_log_hash'', w), (js ''action'', v)] =
      entry_digest demo_engine [(js ''action'', v), (js ''prev_log_hash'', w)]" for v w
    using demo_same_text [of v w] by (simp add: entry_digest_def py_dumps_def)
  have neq: "js ''action'' \<noteq> js ''prev_log_hash''" by (simp add: js_def)
  have "intact (verify_chain_detail demo_engine demo_log)" "intact (verify_chain_detail demo_engine demo_stored)"
    "last_hash demo_log = last_hash demo_stored"
    by (simp_all add: verify_chain_detail_def Let_def demo_log_data demo_stored_def digest last_hash_def neq neq [symmetric])
  moreover have "inj_on (ep_digest demo_engine) (log_texts demo_engine demo_log \<union> log_texts demo_engine demo_stored)"
    by (simp add: demo_engine_def)
  moreover have "GENESIS_HASH \<notin> ep_digest demo_engine ` (log_texts demo_engine demo_log \<union> log_texts demo_engine demo_stored)"
  proof -
    have "hd GENESIS_HASH \<noteq> 120" by (simp add: GENESIS_HASH_def hd_replicate)
    then have "GENESIS_HASH \<noteq> 120 # t" for t by (metis list.sel(1))
    then show ?thesis by (auto simp: demo_engine_def)
  qed
  moreover have "\<forall>q \<in> log_numbers demo_log \<union> log_numbers demo_stored. num_ok (ep_num demo_engine) (\<lambda>_. None) q"
    by (simp add: log_numbers_def demo_log_data demo_stored_def)
  ultimately show ?thesis by (rule log_tamper_evident [THEN conjunct1])
qed

end
