(* ===== verification/VerdictEngine.thy ===== *)
theory VerdictEngine
  imports EngineLog RuleScorer
begin

text \<open>
  The part of the verdict engine that decides and records: \<open>hash_lookup.py\<close>, and of \<open>app.py\<close> the routes
  that score a sample, record an action, and propose, approve and reject known-bad hashes.  The state is
  its two tables; a request is one step, since the rows it decides on are locked and the appends are
  serialised.  The YARA rules behind \<open>/triage\<close>, the corpus of samples and the archive of events are left
  out.
\<close>

subsection \<open>hash_lookup.py\<close>

record kb_row =
  kb_hash :: jsstr
  kb_label :: jsstr
  kb_status :: review_status
  kb_source :: proposal_source
  kb_proposed_at :: rat
  kb_reviewed_at :: "rat option"

datatype hash_error = Value_error | Hash_exists | Hash_not_found | Hash_not_pending

definition is_valid_hash :: "jsstr \<Rightarrow> bool" where
  "is_valid_hash v \<longleftrightarrow> length v = 64 \<and> list_all (\<lambda>c. 48 \<le> c \<and> c \<le> 57 \<or> 97 \<le> c \<and> c \<le> 102) v"

definition check_hash :: "jsstr \<Rightarrow> kb_row list \<Rightarrow> jsstr option" where
  "check_hash h t = map_option kb_label (find (\<lambda>r. kb_hash r = h \<and> kb_status r = Approved) t)"

definition kb_entry :: "engine_platform \<Rightarrow> kb_row \<Rightarrow> hash_entry" where
  "kb_entry pf r = \<lparr>he_hash = kb_hash r, he_label = kb_label r, he_status = kb_status r, he_source = kb_source r,
     he_proposed_at = ep_iso pf (kb_proposed_at r), he_reviewed_at = map_option (ep_iso pf) (kb_reviewed_at r)\<rparr>"

definition list_hashes :: "engine_platform \<Rightarrow> kb_row list \<Rightarrow> hash_entry list" where
  "list_hashes pf t = map (kb_entry pf) (sort_key kb_proposed_at t)"

definition propose_hash :: "jsstr \<Rightarrow> jsstr \<Rightarrow> proposal_source \<Rightarrow> rat \<Rightarrow> kb_row list \<Rightarrow> hash_error + kb_row list" where
  "propose_hash h label src now t =
     (if \<not> is_valid_hash h then Inl Value_error
      else if h \<in> kb_hash ` set t then Inl Hash_exists
      else Inr (t @ [\<lparr>kb_hash = h, kb_label = label, kb_status = Pending, kb_source = src, kb_proposed_at = now,
                      kb_reviewed_at = None\<rparr>]))"

text \<open>\<open>_decide\<close>: the new table and the label of the entry.\<close>

definition decide_hash :: "review_status \<Rightarrow> jsstr \<Rightarrow> rat \<Rightarrow> kb_row list \<Rightarrow> hash_error + kb_row list \<times> jsstr" where
  "decide_hash st h now t = (case find (\<lambda>r. kb_hash r = h) t of
     None \<Rightarrow> Inl Hash_not_found
   | Some r \<Rightarrow>
       if kb_status r \<noteq> Pending then Inl Hash_not_pending
       else Inr (map (\<lambda>r. if kb_hash r = h then r\<lparr>kb_status := st, kb_reviewed_at := Some now\<rparr> else r) t,
                 kb_label r))"

subsection \<open>Requests\<close>

record score_request =
  sr_sample_hash :: jsstr
  sr_sample_filename :: jsstr
  sr_timed_out :: bool
  sr_actor :: jsstr
  sr_events :: "mirra_event list"
  sr_source :: jsstr
  sr_static_matches :: "jsstr list"

datatype engine_request =
    Score score_request
  | Log_action jsstr jsstr jsstr
  | Propose_hash jsstr jsstr
  | Decide_hash review_status jsstr jsstr

record engine =
  en_log :: "log_row list"
  en_hashes :: "kb_row list"

datatype engine_out =
    Asked engine_request
  | Scored verdict
  | Recorded py_dict
  | Hash_proposed jsstr
  | Hash_decided review_status jsstr
  | Refused nat

text \<open>What happens around a request: the time, the fresh identifier, and whether the writes of the two
  transactions succeed.\<close>

record engine_env =
  ev_now :: rat
  ev_uuid :: jsstr
  ev_hashes_ok :: bool
  ev_log_ok :: bool

subsection \<open>Scoring\<close>

text \<open>\<open>if known_bad_label:\<close> takes the empty string for no label.\<close>

definition truthy :: "jsstr option \<Rightarrow> jsstr option" where
  "truthy x = (if x = Some [] then None else x)"

text \<open>The detection method, the verdict, the confidence and the reasons.\<close>

definition score_verdict :: "engine \<Rightarrow> score_request \<Rightarrow> jsstr \<times> verdict_label \<times> rat \<times> jsstr list" where
  "score_verdict e req = (case truthy (check_hash (sr_sample_hash req) (en_hashes e)) of
     Some label \<Rightarrow> (js ''known_bad_hash'', Compromised, 1, [js ''sample hash matches known-bad entry '' @ [39] @ label @ [39]])
   | None \<Rightarrow>
       if sr_static_matches req \<noteq> [] then (js ''static_triage'', Compromised, 1, sr_static_matches req)
       else if sr_timed_out req
         then (js ''dynamic'', Inconclusive, 0, [js ''sample detonation aborted: sensor exceeded its execution timeout''])
       else (let (score, chain) = score_events (sr_events req)
             in (js ''dynamic'', verdict_from_score score chain (sr_events req \<noteq> []), score, chain)))"

text \<open>Only a detonated sample can be dynamic and compromised; its hash is proposed, and a failure to do so is
  swallowed.\<close>

definition auto_propose :: "engine_env \<Rightarrow> engine \<Rightarrow> score_request \<Rightarrow> kb_row list" where
  "auto_propose ev e req = (case score_verdict e req of (method, label, _, _) \<Rightarrow>
     if method = js ''dynamic'' \<and> label = Compromised \<and> sr_source req = js ''sample'' \<and> ev_hashes_ok ev
     then (case propose_hash (sr_sample_hash req) (js ''auto-proposed from verdict '' @ ev_uuid ev) Auto (ev_now ev) (en_hashes e) of
             Inl _ \<Rightarrow> en_hashes e | Inr t \<Rightarrow> t)
     else en_hashes e)"

definition score_record :: "engine_platform \<Rightarrow> engine_env \<Rightarrow> engine \<Rightarrow> score_request \<Rightarrow> py_dict" where
  "score_record pf ev e req = (case score_verdict e req of (method, label, score, chain) \<Rightarrow>
     [(js ''verdict_id'', J_str (ev_uuid ev)), (js ''sample_hash'', J_str (sr_sample_hash req)),
      (js ''sample_filename'', J_str (sr_sample_filename req)), (js ''actor'', J_str (sr_actor req)),
      (js ''verdict'', J_str (label_str label)), (js ''confidence'', J_num score),
      (js ''causal_chain'', J_arr (map J_str chain)), (js ''detection_method'', J_str method),
      (js ''source'', J_str (sr_source req)), (js ''timestamp'', J_str (ep_iso pf (ev_now ev)))])"

text \<open>The response, as the model \<open>Verdict\<close>.\<close>

definition score_response :: "engine_platform \<Rightarrow> engine_env \<Rightarrow> engine \<Rightarrow> score_request \<Rightarrow> verdict" where
  "score_response pf ev e req = (case score_verdict e req of (method, label, score, chain) \<Rightarrow>
     \<lparr>verdict_id = ev_uuid ev, sample_hash = sr_sample_hash req, sample_filename = sr_sample_filename req,
      verdict_label = label, confidence = score, causal_chain = chain,
      verdict_timestamp = ep_iso pf (ev_now ev), prev_log_hash = last_hash (en_log e), detection_method = method,
      verdict_source = sr_source req\<rparr>)"

definition score_route :: "engine_platform \<Rightarrow> engine_env \<Rightarrow> score_request \<Rightarrow> engine \<Rightarrow> engine \<times> engine_out list" where
  "score_route pf ev req e =
     (let e1 = e\<lparr>en_hashes := auto_propose ev e req\<rparr>
      in if ev_log_ok ev
         then (e1\<lparr>en_log := fst (log_append pf (score_record pf ev e req) (en_log e))\<rparr>, [Scored (score_response pf ev e req)])
         else (e1, [Refused 500]))"

subsection \<open>The other routes\<close>

definition strip_entry_hash :: "py_dict \<Rightarrow> py_dict" where
  "strip_entry_hash d = filter (\<lambda>(k, v). k \<noteq> js ''entry_hash'') d"

definition list_verdicts :: "engine \<Rightarrow> py_dict list" where
  "list_verdicts e = map strip_entry_hash (log_all (en_log e))"

definition get_verdict :: "jsstr \<Rightarrow> engine \<Rightarrow> py_dict option" where
  "get_verdict vid e = map_option strip_entry_hash (log_get vid (en_log e))"

definition log_action :: "engine_platform \<Rightarrow> engine_env \<Rightarrow> jsstr \<Rightarrow> jsstr \<Rightarrow> jsstr \<Rightarrow> engine \<Rightarrow> engine \<times> engine_out list" where
  "log_action pf ev action device actor e =
     (let d = [(js ''record_id'', J_str (ev_uuid ev)), (js ''device_id'', J_str device), (js ''action'', J_str action),
               (js ''actor'', J_str actor), (js ''timestamp'', J_str (ep_iso pf (ev_now ev)))];
          (rows, stored) = log_append pf d (en_log e)
      in if ev_log_ok ev then (e\<lparr>en_log := rows\<rparr>, [Recorded (strip_entry_hash stored)]) else (e, [Refused 500]))"

definition submit_hash_route :: "engine_env \<Rightarrow> jsstr \<Rightarrow> jsstr \<Rightarrow> engine \<Rightarrow> engine \<times> engine_out list" where
  "submit_hash_route ev h label e =
     (if \<not> is_valid_hash h then (e, [Refused 400])
      else if \<not> ev_hashes_ok ev then (e, [Refused 500])
      else (case propose_hash h label Manual (ev_now ev) (en_hashes e) of
          Inl err \<Rightarrow> (e, [Refused (if err = Hash_exists then 409 else 500)])
        | Inr t \<Rightarrow> (e\<lparr>en_hashes := t\<rparr>, [Hash_proposed h])))"

text \<open>Approving and rejecting: the decision and its record are two transactions.\<close>

definition decision_action :: "review_status \<Rightarrow> jsstr" where
  "decision_action st = (if st = Approved then js ''hash_approved'' else js ''hash_rejected'')"

definition decide_hash_route ::
  "engine_platform \<Rightarrow> engine_env \<Rightarrow> review_status \<Rightarrow> jsstr \<Rightarrow> jsstr \<Rightarrow> engine \<Rightarrow> engine \<times> engine_out list" where
  "decide_hash_route pf ev st h actor e =
     (if \<not> ev_hashes_ok ev then (e, [Refused 500])
      else (case decide_hash st h (ev_now ev) (en_hashes e) of
          Inl err \<Rightarrow> (e, [Refused (if err = Hash_not_found then 404 else 409)])
        | Inr (t, label) \<Rightarrow>
            let d = [(js ''record_id'', J_str (ev_uuid ev)), (js ''action'', J_str (decision_action st)),
                     (js ''hash'', J_str h), (js ''label'', J_str label), (js ''actor'', J_str actor),
                     (js ''timestamp'', J_str (ep_iso pf (ev_now ev)))]
            in if ev_log_ok ev
               then (e\<lparr>en_hashes := t, en_log := fst (log_append pf d (en_log e))\<rparr>, [Hash_decided st h])
               else (e\<lparr>en_hashes := t\<rparr>, [Refused 500])))"

fun engine_handle :: "engine_platform \<Rightarrow> engine_env \<Rightarrow> engine_request \<Rightarrow> engine \<Rightarrow> engine \<times> engine_out list" where
  "engine_handle pf ev (Score req) e = score_route pf ev req e"
| "engine_handle pf ev (Log_action action device actor) e = log_action pf ev action device actor e"
| "engine_handle pf ev (Propose_hash h label) e = submit_hash_route ev h label e"
| "engine_handle pf ev (Decide_hash st h actor) e =
     (if st = Pending then (e, [Refused 404]) else decide_hash_route pf ev st h actor e)"

text \<open>A request that finds the database down, before it has read anything, changes nothing.\<close>

inductive engine_step :: "engine_platform \<Rightarrow> engine \<Rightarrow> engine_out list \<Rightarrow> engine \<Rightarrow> bool"
  for pf :: engine_platform where
  handled: "engine_handle pf ev req e = (e', out) \<Longrightarrow> engine_step pf e (Asked req # out) e'"
| down: "engine_step pf e [Asked req, Refused 500] e"

text \<open>A fresh installation: an empty log, and the approved entries of the migrations.\<close>

definition engine_init :: "engine \<Rightarrow> bool" where
  "engine_init e \<longleftrightarrow> en_log e = [] \<and> distinct (map kb_hash (en_hashes e)) \<and> (\<forall>r \<in> set (en_hashes e). kb_status r = Approved)"

subsection \<open>The invariant\<close>

definition decision_records :: "jsstr \<Rightarrow> log_row list \<Rightarrow> log_row list" where
  "decision_records h rows = filter (\<lambda>r. map_of (lr_data r) (js ''hash'') = Some (J_str h) \<and>
     map_of (lr_data r) (js ''action'') \<in> {Some (J_str (decision_action Approved)), Some (J_str (decision_action Rejected))}) rows"

text \<open>A record is one of an action or one of a verdict.\<close>

definition record_ok :: "engine_out list \<Rightarrow> py_dict \<Rightarrow> bool" where
  "record_ok os d \<longleftrightarrow>
     (\<exists>a. map_of d (js ''action'') = Some (J_str a) \<and>
        (a = js ''hash_approved'' \<or> a = js ''hash_rejected'' \<or> (\<exists>dev who. Asked (Log_action a dev who) \<in> set os))) \<or>
     (map_of d (js ''action'') = None \<and> (\<exists>q. map_of d (js ''confidence'') = Some (J_num q)) \<and>
        (\<exists>req. Asked (Score req) \<in> set os \<and> map_of d (js ''source'') = Some (J_str (sr_source req))))"

definition METHODS :: "jsstr set" where
  "METHODS = {js ''known_bad_hash'', js ''static_triage'', js ''dynamic''}"

text \<open>A record has every field of the verdict that was answered.\<close>

definition recorded :: "verdict \<Rightarrow> py_dict \<Rightarrow> bool" where
  "recorded v d \<longleftrightarrow> (case verdict_json v of
     J_obj kvs \<Rightarrow> list_all (\<lambda>(k, w). map_of d k = Some w) kvs
   | _ \<Rightarrow> False)"

definition decisions_ok :: "engine \<Rightarrow> bool" where
  "decisions_ok e \<longleftrightarrow> distinct (map kb_hash (en_hashes e)) \<and>
     (\<forall>h. length (decision_records h (en_log e)) \<le> 1 \<and>
        (\<forall>r \<in> set (decision_records h (en_log e)). \<exists>k \<in> set (en_hashes e). kb_hash k = h \<and> kb_status k \<noteq> Pending \<and>
           map_of (lr_data r) (js ''action'') = Some (J_str (decision_action (kb_status k)))))"

definition engine_inv :: "engine_platform \<Rightarrow> engine_out list \<Rightarrow> engine \<Rightarrow> bool" where
  "engine_inv pf os e \<longleftrightarrow> intact (verify_chain_detail pf (en_log e)) \<and> decisions_ok e \<and>
     (\<forall>r \<in> set (en_log e). record_ok os (lr_data r)) \<and>
     (\<forall>v. Scored v \<in> set os \<longrightarrow> detection_method v \<in> METHODS \<and> (\<exists>r \<in> set (en_log e). recorded v (lr_data r)))"

lemma record_ok_more: "record_ok os d \<Longrightarrow> record_ok (os @ new) d"
  by (auto simp: record_ok_def)

lemma log_append_rows: "fst (log_append pf d rows) = rows @ [\<lparr>lr_entry_hash = entry_digest pf (dict_set (js ''prev_log_hash'')
    (J_str (last_hash rows)) d), lr_prev_log_hash = last_hash rows, lr_data = dict_set (js ''prev_log_hash'') (J_str (last_hash rows)) d\<rparr>]"
  by (simp add: log_append_def Let_def)

text \<open>One more record.\<close>

lemma engine_inv_append:
  assumes "engine_inv pf os e" and "record_ok (os @ new) d" and "map_of d (js ''prev_log_hash'') = None"
    and "decisions_ok (e\<lparr>en_log := fst (log_append pf d (en_log e)), en_hashes := t\<rparr>)"
    and "\<forall>v. Scored v \<in> set new \<longrightarrow> detection_method v \<in> METHODS \<and>
      recorded v (dict_set (js ''prev_log_hash'') (J_str (last_hash (en_log e))) d)"
  shows "engine_inv pf (os @ new) (e\<lparr>en_log := fst (log_append pf d (en_log e)), en_hashes := t\<rparr>)"
proof -
  have "record_ok (os @ new) (dict_set (js ''prev_log_hash'') v d)" for v
    using assms(2) by (simp add: record_ok_def)
  with assms record_ok_more [of os] show ?thesis
    by (simp add: engine_inv_def append_intact) (auto simp: log_append_rows)
qed

text \<open>No new record.\<close>

lemma engine_inv_more:
  assumes "engine_inv pf os e" and "decisions_ok (e\<lparr>en_hashes := t\<rparr>)" and "\<forall>v. Scored v \<notin> set new"
  shows "engine_inv pf (os @ new) (e\<lparr>en_hashes := t\<rparr>)"
  using assms record_ok_more [of os] by (simp add: engine_inv_def)

lemma decision_records_append: "decision_records h (rows @ [r]) = decision_records h rows @ decision_records h [r]"
  by (simp add: decision_records_def)

lemma plain_record:
  assumes "map_of d (js ''hash'') = None"
  shows "decision_records h (fst (log_append pf d rows)) = decision_records h rows"
  using assms by (simp add: log_append_rows decision_records_append) (simp add: decision_records_def)

lemma decisions_ok_plain:
  "decisions_ok (e\<lparr>en_hashes := t\<rparr>) \<Longrightarrow> map_of d (js ''hash'') = None \<Longrightarrow>
    decisions_ok (e\<lparr>en_log := fst (log_append pf d (en_log e)), en_hashes := t\<rparr>)"
  by (simp add: decisions_ok_def plain_record)

lemma decisions_ok_new: "decisions_ok e \<Longrightarrow> kb_hash k \<notin> kb_hash ` set (en_hashes e) \<Longrightarrow> decisions_ok (e\<lparr>en_hashes := en_hashes e @ [k]\<rparr>)"
  by (fastforce simp: decisions_ok_def)

lemma proposed_ok:
  assumes "decisions_ok e" and "propose_hash h label src now (en_hashes e) = Inr t"
  shows "decisions_ok (e\<lparr>en_hashes := t\<rparr>)"
  using assms by (auto simp: propose_hash_def split: if_splits intro!: decisions_ok_new)

lemma auto_propose_ok: "decisions_ok e \<Longrightarrow> decisions_ok (e\<lparr>en_hashes := auto_propose ev e req\<rparr>)"
  by (auto simp: auto_propose_def intro: proposed_ok split: prod.split sum.split)

lemma score_methods: "score_verdict e req = (m, l, s, c) \<Longrightarrow> m \<in> METHODS"
  by (auto simp: score_verdict_def METHODS_def Let_def split: option.splits if_splits prod.splits)

lemma engine_inv_score:
  assumes "engine_inv pf os e" and "score_route pf ev req e = (e', out)"
  shows "engine_inv pf (os @ Asked (Score req) # out) e'"
proof -
  obtain m l s c where v: "score_verdict e req = (m, l, s, c)" by (metis prod_cases4)
  have ok: "decisions_ok (e\<lparr>en_hashes := auto_propose ev e req\<rparr>)"
    using assms(1) by (intro auto_propose_ok) (simp add: engine_inv_def)
  have none: "map_of (score_record pf ev e req) (js ''hash'') = None" "map_of (score_record pf ev e req) (js ''prev_log_hash'') = None"
    by (simp_all add: score_record_def v js_eq_iff)
  have rec: "record_ok (os @ [Asked (Score req), Scored (score_response pf ev e req)]) (score_record pf ev e req)"
    by (auto simp: record_ok_def score_record_def v js_eq_iff)
  have log: "decisions_ok (e\<lparr>en_log := fst (log_append pf (score_record pf ev e req) (en_log e)), en_hashes := auto_propose ev e req\<rparr>)"
    using decisions_ok_plain [OF ok none(1)] .
  have meth: "detection_method (score_response pf ev e req) \<in> METHODS"
    using score_methods [OF v] by (simp add: score_response_def v)
  have kept: "recorded (score_response pf ev e req)
      (dict_set (js ''prev_log_hash'') (J_str (last_hash (en_log e))) (score_record pf ev e req))"
    by (simp add: recorded_def verdict_json_def score_response_def score_record_def v js_eq_iff)
  show ?thesis
  proof (cases "ev_log_ok ev")
    case True
    with assms(2) have "e' = e\<lparr>en_log := fst (log_append pf (score_record pf ev e req) (en_log e)), en_hashes := auto_propose ev e req\<rparr>"
      "out = [Scored (score_response pf ev e req)]" by (auto simp: score_route_def Let_def)
    with engine_inv_append [OF assms(1) rec none(2) log] meth kept show ?thesis by simp
  next
    case False
    with assms(2) have "e' = e\<lparr>en_hashes := auto_propose ev e req\<rparr>" "out = [Refused 500]" by (auto simp: score_route_def Let_def)
    with engine_inv_more [OF assms(1) ok, of "[Asked (Score req), Refused 500]"] show ?thesis by simp
  qed
qed

lemma engine_inv_action:
  assumes "engine_inv pf os e" and "log_action pf ev action device actor e = (e', out)"
  shows "engine_inv pf (os @ Asked (Log_action action device actor) # out) e'"
proof -
  let ?d = "[(js ''record_id'', J_str (ev_uuid ev)), (js ''device_id'', J_str device), (js ''action'', J_str action),
    (js ''actor'', J_str actor), (js ''timestamp'', J_str (ep_iso pf (ev_now ev)))]"
  have none: "map_of ?d (js ''hash'') = None" "map_of ?d (js ''prev_log_hash'') = None" by simp_all
  have rec: "record_ok (os @ Asked (Log_action action device actor) # out) ?d" by (auto simp: record_ok_def)
  have ok: "decisions_ok e" using assms(1) by (simp add: engine_inv_def)
  then have log: "decisions_ok (e\<lparr>en_log := fst (log_append pf ?d (en_log e)), en_hashes := en_hashes e\<rparr>)"
    by (intro decisions_ok_plain none(1)) simp
  have out: "\<forall>v. Scored v \<notin> set (Asked (Log_action action device actor) # out)"
    using assms(2) by (auto simp: log_action_def Let_def split: if_splits prod.splits)
  show ?thesis
  proof (cases "ev_log_ok ev")
    case True
    with assms(2) have "e' = e\<lparr>en_log := fst (log_append pf ?d (en_log e)), en_hashes := en_hashes e\<rparr>"
      by (auto simp: log_action_def Let_def split: prod.splits)
    with engine_inv_append [OF assms(1) rec none(2) log] out show ?thesis by blast
  next
    case False
    with assms(2) have "e' = e\<lparr>en_hashes := en_hashes e\<rparr>" by (auto simp: log_action_def Let_def split: prod.splits)
    with engine_inv_more [OF assms(1) _ out, of "en_hashes e"] ok show ?thesis by simp
  qed
qed

lemma engine_inv_submit:
  assumes "engine_inv pf os e" and "submit_hash_route ev h label e = (e', out)"
  shows "engine_inv pf (os @ Asked (Propose_hash h label) # out) e'"
proof -
  have ok: "decisions_ok e" using assms(1) by (simp add: engine_inv_def)
  have out: "\<forall>v. Scored v \<notin> set (Asked (Propose_hash h label) # out)"
    using assms(2) by (auto simp: submit_hash_route_def split: if_splits sum.splits)
  have "\<exists>t. e' = e\<lparr>en_hashes := t\<rparr> \<and> decisions_ok (e\<lparr>en_hashes := t\<rparr>)"
    using assms(2) ok proposed_ok [OF ok] by (auto simp: submit_hash_route_def split: if_splits sum.splits intro: exI [of _ "en_hashes e"])
  with engine_inv_more [OF assms(1) _ out] show ?thesis by blast
qed

lemma find_row: "find (\<lambda>r. kb_hash r = h) t = Some r \<Longrightarrow> r \<in> set t \<and> kb_hash r = h"
  by (auto simp: find_Some_iff in_set_conv_nth)

lemma decided_ok:
  assumes "decisions_ok e" and "decide_hash st h now (en_hashes e) = Inr (t, label)" and "st \<noteq> Pending"
  shows "decisions_ok (e\<lparr>en_hashes := t\<rparr>)" and "decision_records h (en_log e) = []"
    and "\<exists>k \<in> set t. kb_hash k = h \<and> kb_status k = st"
proof -
  obtain r where r: "r \<in> set (en_hashes e)" "kb_hash r = h" "kb_status r = Pending"
    and t: "t = map (\<lambda>r. if kb_hash r = h then r\<lparr>kb_status := st, kb_reviewed_at := Some now\<rparr> else r) (en_hashes e)"
    using assms(2) by (auto simp: decide_hash_def dest: find_row split: option.splits if_splits)
  have d: "distinct (map kb_hash (en_hashes e))" using assms(1) by (simp add: decisions_ok_def)
  show none: "decision_records h (en_log e) = []"
  proof (rule ccontr)
    assume "decision_records h (en_log e) \<noteq> []"
    then obtain x where "x \<in> set (decision_records h (en_log e))" by (cases "decision_records h (en_log e)") auto
    with assms(1) obtain k where k: "k \<in> set (en_hashes e)" "kb_hash k = h" "kb_status k \<noteq> Pending"
      unfolding decisions_ok_def by blast
    with r d have "k = r" by (auto simp: distinct_map inj_on_def)
    with k r show False by simp
  qed
  have "r\<lparr>kb_status := st, kb_reviewed_at := Some now\<rparr> \<in> set t" using r(1,2) by (force simp: t)
  with r(2) show "\<exists>k \<in> set t. kb_hash k = h \<and> kb_status k = st" by (intro bexI) simp_all
  have m: "map kb_hash t = map kb_hash (en_hashes e)" by (simp add: t)
  have keeps: "\<exists>k \<in> set t. kb_hash k = g \<and> kb_status k \<noteq> Pending \<and>
      map_of (lr_data x) (js ''action'') = Some (J_str (decision_action (kb_status k)))"
    if x: "x \<in> set (decision_records g (en_log e))" for g x
  proof -
    from x assms(1) obtain k where k: "k \<in> set (en_hashes e)" "kb_hash k = g" "kb_status k \<noteq> Pending"
      "map_of (lr_data x) (js ''action'') = Some (J_str (decision_action (kb_status k)))"
      unfolding decisions_ok_def by blast
    have "g \<noteq> h" using none x by auto
    then have "k \<in> set t" using k(1,2) by (force simp: t)
    with k show ?thesis by blast
  qed
  with assms(1) m show "decisions_ok (e\<lparr>en_hashes := t\<rparr>)" by (simp add: decisions_ok_def)
qed

lemma engine_inv_decide:
  assumes "engine_inv pf os e" and "decide_hash_route pf ev st h actor e = (e', out)" and st: "st \<noteq> Pending"
  shows "engine_inv pf (os @ Asked (Decide_hash st h actor) # out) e'"
proof -
  have ok: "decisions_ok e" using assms(1) by (simp add: engine_inv_def)
  have out: "\<forall>v. Scored v \<notin> set (Asked (Decide_hash st h actor) # out)"
    using assms(2) by (auto simp: decide_hash_route_def Let_def split: if_splits sum.splits prod.splits)
  show ?thesis
  proof (cases "ev_hashes_ok ev \<and> (\<exists>t label. decide_hash st h (ev_now ev) (en_hashes e) = Inr (t, label))")
    case False
    then have "e' = e\<lparr>en_hashes := en_hashes e\<rparr>"
      using assms(2) by (auto simp: decide_hash_route_def split: if_splits sum.splits)
    with engine_inv_more [OF assms(1) _ out, of "en_hashes e"] ok show ?thesis by simp
  next
    case True
    then obtain t label where dec: "decide_hash st h (ev_now ev) (en_hashes e) = Inr (t, label)" by blast
    note kept = decided_ok [OF ok dec st]
    let ?d = "[(js ''record_id'', J_str (ev_uuid ev)), (js ''action'', J_str (decision_action st)),
      (js ''hash'', J_str h), (js ''label'', J_str label), (js ''actor'', J_str actor),
      (js ''timestamp'', J_str (ep_iso pf (ev_now ev)))]"
    show ?thesis
    proof (cases "ev_log_ok ev")
      case False
      with True dec assms(2) have "e' = e\<lparr>en_hashes := t\<rparr>" by (auto simp: decide_hash_route_def Let_def)
      with engine_inv_more [OF assms(1) kept(1) out] show ?thesis by simp
    next
      case ev: True
      have e': "e' = e\<lparr>en_log := fst (log_append pf ?d (en_log e)), en_hashes := t\<rparr>"
        using True dec assms(2) ev by (auto simp: decide_hash_route_def Let_def)
      let ?r = "last (fst (log_append pf ?d (en_log e)))"
      have r: "map_of (lr_data ?r) (js ''hash'') = Some (J_str h)"
        "map_of (lr_data ?r) (js ''action'') = Some (J_str (decision_action st))"
        by (simp_all add: log_append_rows)
      have rows: "decision_records g (fst (log_append pf ?d (en_log e))) =
          decision_records g (en_log e) @ (if g = h then [?r] else [])" for g
        unfolding log_append_rows decision_records_append
        by (cases st) (use st in \<open>simp_all add: decision_records_def decision_action_def\<close>)
      have "length (decision_records g (fst (log_append pf ?d (en_log e)))) \<le> 1 \<and>
          (\<forall>x \<in> set (decision_records g (fst (log_append pf ?d (en_log e)))). \<exists>k \<in> set t. kb_hash k = g \<and>
             kb_status k \<noteq> Pending \<and> map_of (lr_data x) (js ''action'') = Some (J_str (decision_action (kb_status k))))" for g
      proof (cases "g = h")
        case True
        with kept(2,3) r(2) st show ?thesis unfolding rows by auto
      next
        case False
        with kept(1) show ?thesis unfolding rows by (simp add: decisions_ok_def)
      qed
      moreover have "distinct (map kb_hash t)" using kept(1) by (simp add: decisions_ok_def)
      ultimately have log: "decisions_ok (e\<lparr>en_log := fst (log_append pf ?d (en_log e)), en_hashes := t\<rparr>)"
        by (simp add: decisions_ok_def)
      have "record_ok (os @ Asked (Decide_hash st h actor) # out) ?d"
        by (simp add: record_ok_def decision_action_def)
      from engine_inv_append [OF assms(1) this _ log] out show ?thesis unfolding e' by simp
    qed
  qed
qed

lemma engine_inv_step:
  assumes "engine_inv pf os e" and "engine_step pf e out e'"
  shows "engine_inv pf (os @ out) e'"
  using assms(2)
proof cases
  case (handled ev req out')
  show ?thesis
  proof (cases req)
    case (Decide_hash st h actor)
    have "decisions_ok (e\<lparr>en_hashes := en_hashes e\<rparr>)" using assms(1) by (simp add: engine_inv_def)
    from engine_inv_more [OF assms(1) this, of "[Asked req, Refused 404]"] handled Decide_hash show ?thesis
      by (cases "st = Pending") (auto intro: engine_inv_decide [OF assms(1)])
  qed (use handled assms(1) in \<open>auto intro: engine_inv_score engine_inv_action engine_inv_submit\<close>)
next
  case (down req)
  have "decisions_ok (e\<lparr>en_hashes := en_hashes e\<rparr>)" using assms(1) by (simp add: engine_inv_def)
  from engine_inv_more [OF assms(1) this, of "[Asked req, Refused 500]"] down show ?thesis by simp
qed

interpretation engines: invariant_system engine_init "engine_step pf" "engine_inv pf"
proof unfold_locales
  show "engine_inv pf [] e" if "engine_init e" for e
    using that by (simp add: engine_init_def engine_inv_def decisions_ok_def decision_records_def
        verify_chain_detail_def Let_def)
qed (rule engine_inv_step)

subsection \<open>What the dashboard gets\<close>

lemma map_of_strip: "map_of (strip_entry_hash d) k = (if k = js ''entry_hash'' then None else map_of d k)"
  by (induction d) (auto simp: strip_entry_hash_def)

lemma list_verdicts_record:
  assumes "d \<in> set (list_verdicts e)"
  obtains r where "r \<in> set (en_log e)" and "\<And>k. k \<noteq> js ''entry_hash'' \<Longrightarrow> map_of d k = map_of (lr_data r) k"
  using assms by (auto simp: list_verdicts_def log_all_def map_of_strip)

lemma recorded_found:
  assumes "r \<in> set (en_log e)" and "recorded v (lr_data r)"
  shows "get_verdict (verdict_id v) e \<noteq> None"
proof -
  have "map_of (lr_data r) (js ''verdict_id'') = Some (J_str (verdict_id v))"
    using assms(2) by (simp add: recorded_def verdict_json_def)
  with assms(1) have "find (\<lambda>d. map_of d (js ''verdict_id'') = Some (J_str (verdict_id v))) (log_all (en_log e)) \<noteq> None"
    by (auto simp: find_None_iff log_all_def)
  then show ?thesis by (simp add: get_verdict_def log_get_def)
qed

text \<open>The requests that the backend makes: of samples, intercepted downloads and the monitored endpoint, and of
  actions that have a name.\<close>

definition SOURCES :: "jsstr set" where
  "SOURCES = {js ''sample'', js ''interceptor'', js ''monitor''}"

definition from_backend :: "engine_request \<Rightarrow> bool" where
  "from_backend req = (case req of
     Score r \<Rightarrow> sr_source r \<in> SOURCES
   | Log_action a _ _ \<Rightarrow> a \<noteq> []
   | _ \<Rightarrow> True)"

lemma record_row:
  assumes "record_ok os (lr_data r)" and "\<forall>req. Asked req \<in> set os \<longrightarrow> from_backend req"
    and "\<And>k. k \<noteq> js ''entry_hash'' \<Longrightarrow> map_of d k = map_of (lr_data r) k"
  shows "row_action (audit_row_of (J_obj d)) \<noteq> None \<and> row_action (audit_row_of (J_obj d)) \<noteq> Some [] \<or>
    row_action (audit_row_of (J_obj d)) = None \<and> row_confidence (audit_row_of (J_obj d)) \<noteq> None \<and>
    (\<exists>s \<in> SOURCES. row_source (audit_row_of (J_obj d)) = Some s)"
proof -
  have field: "json_field (js k) (J_obj d) = map_of (lr_data r) (js k)" if "k \<noteq> ''entry_hash''" for k
    using assms(3) that by (simp add: json_field_def)
  have named: "a \<noteq> []" if "Asked (Log_action a dev who) \<in> set os" for a dev who
    using assms(2) that by (auto simp: from_backend_def)
  have source: "sr_source q \<in> SOURCES" if "Asked (Score q) \<in> set os" for q
    using assms(2) that by (auto simp: from_backend_def)
  from assms(1) show ?thesis unfolding record_ok_def
    using source by (auto simp: audit_row_of_def str_prop_def num_prop_def field js_empty_iff dest: named)
qed

subsection \<open>Known-bad hashes\<close>

lemma check_none: "check_hash h [] = None"
  by (simp add: check_hash_def)

lemma check_approved:
  assumes "decisions_ok e" and "r \<in> set (en_hashes e)" and "kb_status r = Approved"
  shows "check_hash (kb_hash r) (en_hashes e) = Some (kb_label r)"
proof -
  have "\<exists>q. find (\<lambda>q. kb_hash q = kb_hash r \<and> kb_status q = Approved) (en_hashes e) = Some q"
    using assms(2,3) by (auto simp: find_None_iff simp flip: not_None_eq)
  then obtain q where q: "find (\<lambda>q. kb_hash q = kb_hash r \<and> kb_status q = Approved) (en_hashes e) = Some q" by blast
  then have "q \<in> set (en_hashes e)" "kb_hash q = kb_hash r" by (auto simp: find_Some_iff in_set_conv_nth)
  with assms(1,2) have "q = r" by (auto simp: decisions_ok_def distinct_map inj_on_def)
  with q show ?thesis by (simp add: check_hash_def)
qed

text \<open>An entry with an empty label is proposed and approved.\<close>

definition engine_up :: engine_env where
  "engine_up = \<lparr>ev_now = 0, ev_uuid = js ''u'', ev_hashes_ok = True, ev_log_ok = True\<rparr>"

lemma find_snoc: "find P xs = None \<Longrightarrow> find P (xs @ [x]) = (if P x then Some x else None)"
  by (induction xs) (auto split: if_splits)

lemma approved_run:
  assumes "is_valid_hash h" and "reach init (engine_step pf) os e" and "h \<notin> kb_hash ` set (en_hashes e)"
  shows "\<exists>e' k. reach init (engine_step pf) (os @ [Asked (Propose_hash h l), Hash_proposed h, Asked (Decide_hash Approved h who),
      Hash_decided Approved h]) e' \<and>
    k \<in> set (en_hashes e') \<and> kb_hash k = h \<and> kb_status k = Approved \<and> kb_label k = l"
proof -
  let ?k = "\<lparr>kb_hash = h, kb_label = l, kb_status = Pending, kb_source = Manual, kb_proposed_at = 0, kb_reviewed_at = None\<rparr>"
  let ?e1 = "e\<lparr>en_hashes := en_hashes e @ [?k]\<rparr>"
  let ?t = "map (\<lambda>r. if kb_hash r = h then r\<lparr>kb_status := Approved, kb_reviewed_at := Some 0\<rparr> else r) (en_hashes e @ [?k])"
  have propose: "engine_handle pf engine_up (Propose_hash h l) e = (?e1, [Hash_proposed h])"
    using assms(1,3) by (simp add: submit_hash_route_def propose_hash_def engine_up_def)
  have "find (\<lambda>r. kb_hash r = h) (en_hashes e) = None" using assms(3) by (auto simp: find_None_iff)
  then have "decide_hash Approved h 0 (en_hashes ?e1) = Inr (?t, l)"
    by (simp add: decide_hash_def find_snoc)
  then obtain e' where decide: "engine_handle pf engine_up (Decide_hash Approved h who) ?e1 = (e', [Hash_decided Approved h])"
      "en_hashes e' = ?t"
    by (simp add: decide_hash_route_def engine_up_def Let_def)
  from reach_step [OF reach_step [OF assms(2), OF handled [OF propose]], OF handled [OF decide(1)]]
  have "reach init (engine_step pf) (os @ [Asked (Propose_hash h l), Hash_proposed h, Asked (Decide_hash Approved h who),
      Hash_decided Approved h]) e'" by simp
  moreover have "?k\<lparr>kb_status := Approved, kb_reviewed_at := Some 0\<rparr> \<in> set (en_hashes e')" by (simp add: decide(2))
  ultimately show ?thesis by (intro exI [of _ e']) auto
qed

subsection \<open>Properties\<close>

text \<open>C25: The engine keeps its records: in every reachable state, whatever was requested and whichever writes
  failed, the audit log verifies, with the number of its entries and no break; each hash has at most
  one record of a decision, and it says what the table of known-bad hashes says; and every verdict
  that was ever answered is on record with all its fields and found under its identifier.\<close>

theorem engine_records:
  assumes "reach engine_init (engine_step pf) os e"
  shows "verify_chain_detail pf (en_log e) = \<lparr>intact = True, chain_entries = length (en_log e), broken_at = None\<rparr> \<and>
    (\<forall>h. length (decision_records h (en_log e)) \<le> 1 \<and>
       (\<forall>r \<in> set (decision_records h (en_log e)). \<exists>k \<in> set (en_hashes e). kb_hash k = h \<and> kb_status k \<noteq> Pending \<and>
          map_of (lr_data r) (js ''action'') = Some (J_str (decision_action (kb_status k))))) \<and>
    (\<forall>v. Scored v \<in> set os \<longrightarrow>
       (\<exists>r \<in> set (en_log e). recorded v (lr_data r)) \<and> get_verdict (verdict_id v) e \<noteq> None)"
proof -
  have inv: "engine_inv pf os e" using engines.reach_inv [OF assms] .
  then have verdicts: "\<forall>v. Scored v \<in> set os \<longrightarrow>
      (\<exists>r \<in> set (en_log e). recorded v (lr_data r)) \<and> get_verdict (verdict_id v) e \<noteq> None"
    unfolding engine_inv_def using recorded_found by blast
  from inv have "intact (verify_chain_detail pf (en_log e))" and "decisions_ok e" by (simp_all add: engine_inv_def)
  with verdicts show ?thesis by (simp add: verify_chain_detail_def Let_def decisions_ok_def)
qed

text \<open>C27: An approved hash convicts its sample, unless its label is empty: in every reachable state, a sample
  whose hash is approved with a label is compromised with confidence 1, whatever its detonation
  showed; one whose hash is approved with the empty label is scored as if the table were empty.\<close>

theorem known_hash_scored:
  assumes "reach engine_init (engine_step pf) os e" and "r \<in> set (en_hashes e)" and "kb_status r = Approved"
    and "sr_sample_hash req = kb_hash r"
  shows "score_verdict e req =
    (if kb_label r \<noteq> []
     then (js ''known_bad_hash'', Compromised, 1, [js ''sample hash matches known-bad entry '' @ [39] @ kb_label r @ [39]])
     else score_verdict (e\<lparr>en_hashes := []\<rparr>) req)"
proof -
  have "decisions_ok e" using engines.reach_inv [OF assms(1)] by (simp add: engine_inv_def)
  from check_approved [OF this assms(2,3)] show ?thesis
    by (simp add: score_verdict_def assms(4) truthy_def check_none)
qed

text \<open>The entry of the migrations.\<close>

definition demo_seeded :: engine where
  "demo_seeded = \<lparr>en_log = [], en_hashes = [\<lparr>kb_hash = replicate 64 97, kb_label = js ''EICAR-Test-File'',
     kb_status = Approved, kb_source = Manual, kb_proposed_at = 0, kb_reviewed_at = Some 0\<rparr>]\<rparr>"

lemma demo_run_seeded: "reach engine_init (engine_step pf) [] demo_seeded"
  by (rule reach_init) (simp add: engine_init_def demo_seeded_def)

definition demo_request :: score_request where
  "demo_request = \<lparr>sr_sample_hash = replicate 64 97, sr_sample_filename = js ''a'', sr_timed_out = False,
     sr_actor = js ''ada'', sr_events = [], sr_source = js ''sample'', sr_static_matches = []\<rparr>"

theorem known_hash_scored_witness:
  "fst (snd (score_verdict demo_seeded demo_request)) = Compromised"
  using known_hash_scored [OF demo_run_seeded, of "hd (en_hashes demo_seeded)" demo_request]
  by (simp add: demo_seeded_def demo_request_def)

text \<open>The endpoint was isolated.\<close>

definition demo_isolated :: engine where
  "demo_isolated = fst (log_action demo_engine engine_up (js ''isolated'') (js ''monitored-endpoint'') [] demo_seeded)"

lemma demo_run_isolated:
  "\<exists>os. reach engine_init (engine_step demo_engine) os demo_isolated \<and>
     (\<forall>req. Asked req \<in> set os \<longrightarrow> req = Log_action (js ''isolated'') (js ''monitored-endpoint'') [])"
proof -
  have "engine_handle demo_engine engine_up (Log_action (js ''isolated'') (js ''monitored-endpoint'') []) demo_seeded =
      (demo_isolated, snd (log_action demo_engine engine_up (js ''isolated'') (js ''monitored-endpoint'') [] demo_seeded))"
    by (simp add: demo_isolated_def)
  from reach_step [OF demo_run_seeded, OF handled [OF this]] show ?thesis
    by (intro exI conjI) (auto simp: log_action_def engine_up_def log_append_def Let_def)
qed

theorem engine_records_witness:
  "verify_chain_detail demo_engine (en_log demo_isolated) = \<lparr>intact = True, chain_entries = 1, broken_at = None\<rparr>"
proof -
  from demo_run_isolated obtain os where "reach engine_init (engine_step demo_engine) os demo_isolated" by blast
  from conjunct1 [OF engine_records [OF this]] show ?thesis
    by (simp add: demo_isolated_def log_action_def engine_up_def demo_seeded_def log_append_def Let_def)
qed

end
