(* ===== verification/Backend.thy ===== *)
theory Backend
  imports Routes VerdictEngine
begin

text \<open>
  The backend between the dashboard and the verdict engine: sessions, users, the limiter of sign-ins, the
  monitored endpoint and the held files.  Requests are served concurrently, so a handler is cut where it
  waits for the database, the engine, Docker or a lock: what is left of it is a task, each step runs one
  task of those in flight, and the statement it waits for takes effect in that step.  Whether the
  statement succeeds and what comes back is up to the environment.
\<close>

subsection \<open>State\<close>

record bk_user =
  ur_username :: jsstr
  ur_password_hash :: jsstr
  ur_role :: role

record session_row =
  se_token :: jsstr
  se_username :: jsstr
  se_role :: role
  se_expires_at :: rat

text \<open>\<open>Session\<close>: what a request carries once it is authenticated.\<close>

record bk_session =
  bs_username :: jsstr
  bs_role :: role

record held_file =
  hf_id :: int
  hf_sample_hash :: jsstr
  hf_filename :: jsstr
  hf_original_path :: jsstr
  hf_label :: verdict_label
  hf_confidence :: rat
  hf_status :: review_status

datatype account_change = Remove_user jsstr | Set_role jsstr role

fun changed_name :: "account_change \<Rightarrow> jsstr" where
  "changed_name (Remove_user u) = u"
| "changed_name (Set_role u r) = u"

text \<open>Who is waiting for a verdict: the upload, the interceptor with its file, or the monitor.\<close>

datatype waiting = For_upload | For_interceptor jsstr jsstr | For_monitor

datatype task =
    Login_start jsstr "(jsstr \<times> jsstr) option"
  | Find_login jsstr jsstr jsstr
  | Record_failure jsstr
  | Make_session bk_user
  | Authenticate "jsstr option" guard "nat + bk_call"
  | Drop_session jsstr
  | List_users
  | Insert_user bk_session jsstr jsstr role
  | Find_target bk_session account_change
  | Count_admins bk_session account_change
  | Change_account bk_session account_change
  | Purge_sessions bk_session account_change
  | Record_action jsstr jsstr jsstr "nat option"
  | Ask_engine engine_request
  | Relay bk_session bk_call
  | Detonate live_source jsstr jsstr "byte list" waiting
  | Get_verdict live_source score_request waiting
  | Hold_file jsstr jsstr verdict
  | List_held
  | Decide_held bk_session review_status int
  | Held_status int
  | Tick
  | Isolate
  | Tell_isolated
  | Read_isolated
  | Reconnect_check bk_session
  | Reconnect_docker bk_session
  | Clear_isolated bk_session
  | Tell_reconnected bk_session

record backend =
  bk_users :: "bk_user list"
  bk_sessions :: "session_row list"
  bk_failures :: "jsstr \<Rightarrow> rat list"
  bk_held :: "held_file list"
  bk_next_file :: int
  bk_isolated :: bool
  bk_attached :: bool
  bk_clock :: rat
  bk_tasks :: "(nat \<times> task) list"
  bk_next :: nat

datatype backend_out =
    Arrived nat "nat + bk_call"
  | Answered nat nat
  | Session_made jsstr jsstr role
  | Login_failed jsstr rat
  | User_created bk_session jsstr role
  | Account_changed bk_session account_change
  | Purge_failed jsstr
  | To_engine engine_request
  | Relayed bk_session bk_call
  | Sent live_message
  | File_held int
  | File_decided bk_session review_status int
  | Docker_isolated
  | Isolation_failed
  | Docker_reconnected bk_session

text \<open>What the code takes from third parties and from the configuration: bcrypt, SHA-256 in hexadecimal, the
  hash of a batch of events, and the token of the interceptor.\<close>

record backend_platform =
  bp_match :: "jsstr \<Rightarrow> jsstr \<Rightarrow> bool"
  bp_hashable :: "jsstr \<Rightarrow> bool"
  bp_sha :: "byte list \<Rightarrow> jsstr"
  bp_batch :: "mirra_event list \<Rightarrow> jsstr"
  bp_token :: jsstr

text \<open>The outcome of a step: whether the statement or the call succeeds, and a second one on the same row; a random or computed text (a token, a
  bcrypt hash); the status another service answers with; and what a detonation, a poll or the engine give.\<close>

record turn =
  tn_ok :: bool
  tn_second_ok :: bool
  tn_text :: jsstr
  tn_status :: nat
  tn_matches :: "jsstr list"
  tn_events :: "mirra_event list"
  tn_timed_out :: bool
  tn_verdict :: verdict

subsection \<open>session.go, ratelimit.go, users.go\<close>

text \<open>Times are in seconds.\<close>

definition sessionTTL :: rat where
  "sessionTTL = 8 * 3600"

definition loginMaxFailures :: nat where
  "loginMaxFailures = 5"

definition loginWindow :: rat where
  "loginWindow = 15 * 60"

definition recentFailures :: "rat \<Rightarrow> rat list \<Rightarrow> rat list" where
  "recentFailures now ts = filter (\<lambda>t. now - loginWindow < t) ts"

definition find_user :: "jsstr \<Rightarrow> bk_user list \<Rightarrow> bk_user option" where
  "find_user u us = find (\<lambda>r. ur_username r = u) us"

definition count_admins :: "bk_user list \<Rightarrow> nat" where
  "count_admins us = length (filter (\<lambda>r. ur_role r = Admin) us)"

fun apply_change :: "account_change \<Rightarrow> bk_user list \<Rightarrow> bk_user list" where
  "apply_change (Remove_user u) us = filter (\<lambda>r. ur_username r \<noteq> u) us"
| "apply_change (Set_role u ro) us = map (\<lambda>r. if ur_username r = u then r\<lparr>ur_role := ro\<rparr> else r) us"

text \<open>The changes that are refused when only one admin is left.\<close>

fun takes_admin :: "account_change \<Rightarrow> bk_user \<Rightarrow> bool" where
  "takes_admin (Remove_user u) r \<longleftrightarrow> ur_role r = Admin"
| "takes_admin (Set_role u ro) r \<longleftrightarrow> ur_role r = Admin \<and> ro = Analyst"

fun change_action :: "account_change \<Rightarrow> jsstr" where
  "change_action (Remove_user u) = js ''user_removed''"
| "change_action (Set_role u r) = js ''user_role_changed''"

definition parse_role :: "jsstr \<Rightarrow> role option" where
  "parse_role s = find (\<lambda>r. role_str r = s) [Admin, Analyst]"

text \<open>\<open>strings.TrimSpace(s) == ""\<close>.\<close>

definition go_blank :: "jsstr \<Rightarrow> bool" where
  "go_blank s \<longleftrightarrow> list_all (\<lambda>c. js_space c \<and> c \<noteq> 0xFEFF \<or> c = 0x85) s"

text \<open>\<open>filepath.Base\<close>.\<close>

definition go_base :: "jsstr \<Rightarrow> jsstr" where
  "go_base s = (if s = [] then [46]
     else let t = rev (dropWhile ((=) 47) (rev s)) in if t = [] then [47] else last (segments t))"

subsection \<open>The handlers\<close>

definition live_str :: "live_source \<Rightarrow> jsstr" where
  "live_str s = (case s of Sample \<Rightarrow> js ''sample'' | Monitor \<Rightarrow> js ''monitor'' | Interceptor \<Rightarrow> js ''interceptor'')"

text \<open>\<open>decisionForVerdict\<close>: whether the file is held for a human.\<close>

definition held_label :: "verdict_label \<Rightarrow> bool" where
  "held_label l \<longleftrightarrow> l \<noteq> Normal \<and> l \<noteq> Compromised"

text \<open>The engine reads a submission with the exact names of its fields; where one is missing it answers 422 and
  changes nothing.\<close>

definition engine_submission :: "body option \<Rightarrow> engine_request option" where
  "engine_submission b = (case body_members b of
     None \<Rightarrow> None
   | Some kvs \<Rightarrow> (case (map_of (rev kvs) (js ''hash''), map_of (rev kvs) (js ''label'')) of
       (Some h, Some l) \<Rightarrow> Some (Propose_hash h l)
     | _ \<Rightarrow> None))"

text \<open>The hash that the engine finds in the path of a decision, into which \<open>hashDecisionHandler\<close> puts it as it is:
  where it holds a character that ends the path or does not decode, the request reaches no decision.\<close>

definition engine_hash :: "jsstr \<Rightarrow> jsstr option" where
  "engine_hash h = (if 63 \<in> set h \<or> 35 \<in> set h then None
     else (case decodeURIComponent h of None \<Rightarrow> None | Some h' \<Rightarrow> if 47 \<in> set h' then None else Some h'))"

text \<open>A handler behind \<open>requireAuth\<close> up to where it first waits; \<open>Inl\<close> is its answer.  \<open>cookie\<close> is the token
  that the request came with.\<close>

fun session_call :: "backend_platform \<Rightarrow> jsstr \<Rightarrow> bk_session \<Rightarrow> bk_call \<Rightarrow> nat + task" where
  "session_call bp cookie s B_logout = Inr (Drop_session cookie)"
| "session_call bp cookie s B_me = Inl 200"
| "session_call bp cookie s (B_upload f) = (case f of
     None \<Rightarrow> Inl 400
   | Some f \<Rightarrow> (case file_bytes f of
       Inl _ \<Rightarrow> Inl 500
     | Inr bytes \<Rightarrow> Inr (Detonate Sample (bs_username s) (go_base (file_name f)) bytes For_upload)))"
| "session_call bp cookie s B_monitor_status = Inr Read_isolated"
| "session_call bp cookie s B_reconnect = Inr (Reconnect_check s)"
| "session_call bp cookie s (B_submit_hash b) = (case engine_submission b of
     None \<Rightarrow> Inr (Relay s (B_submit_hash b)) | Some req \<Rightarrow> Inr (Ask_engine req))"
| "session_call bp cookie s (B_decide_hash st h) = (case engine_hash h of
     None \<Rightarrow> Inr (Relay s (B_decide_hash st h)) | Some h' \<Rightarrow> Inr (Ask_engine (Decide_hash st h' (bs_username s))))"
| "session_call bp cookie s B_users = Inr List_users"
| "session_call bp cookie s (B_create_user req) = (case req of
     None \<Rightarrow> Inl 400
   | Some (u, p, ro) \<Rightarrow>
       if go_blank u then Inl 400
       else (case parse_role ro of
           None \<Rightarrow> Inl 400
         | Some r \<Rightarrow>
             if byte_len p < 12 then Inl 400
             else if \<not> bp_hashable bp p then Inl 500
             else Inr (Insert_user s u p r)))"
| "session_call bp cookie s (B_remove_user u) = Inr (Find_target s (Remove_user u))"
| "session_call bp cookie s (B_set_role u ro) = (case Option.bind ro parse_role of
     None \<Rightarrow> Inl 400 | Some r \<Rightarrow> Inr (Find_target s (Set_role u r)))"
| "session_call bp cookie s B_quarantined = Inr List_held"
| "session_call bp cookie s (B_decide_file st i) = (case parse_int64 i of
     None \<Rightarrow> Inl 400 | Some n \<Rightarrow> Inr (Decide_held s st n))"
| "session_call bp cookie s c = Inr (Relay s c)"

text \<open>The handlers of the interceptor, behind \<open>requireToken\<close>; the path of the file is a text field of the form,
  which stands before the file.\<close>

fun bearer_call :: "jsstr \<Rightarrow> bk_call \<Rightarrow> nat + task" where
  "bearer_call path (B_intercept b) = (case form_file b of
     None \<Rightarrow> Inl 400
   | Some f \<Rightarrow>
       if path = [] then Inl 400
       else (case file_bytes f of
           Inl _ \<Rightarrow> Inl 500
         | Inr bytes \<Rightarrow> Inr (Detonate Interceptor (js ''interceptor'') (go_base (file_name f)) bytes (For_interceptor (go_base (file_name f)) path))))"
| "bearer_call path (B_file_status i) = (case parse_int64 i of None \<Rightarrow> Inl 400 | Some n \<Rightarrow> Inr (Held_status n))"
| "bearer_call path _ = Inl 404"

text \<open>How a request comes in: from where, with which cookie and which bearer token, and the text field.\<close>

record sender =
  sd_ip :: jsstr
  sd_cookie :: "jsstr option"
  sd_bearer :: jsstr
  sd_path :: jsstr

definition entry :: "backend_platform \<Rightarrow> sender \<Rightarrow> guard \<times> (nat + bk_call) \<Rightarrow> nat + task" where
  "entry bp sd gc = (case fst gc of
     Anyone \<Rightarrow> (case snd gc of
         Inl st \<Rightarrow> Inl st
       | Inr (B_login cred) \<Rightarrow> Inr (Login_start (sd_ip sd) cred)
       | Inr _ \<Rightarrow> Inl 200)
   | Bearer \<Rightarrow>
       if bp_token bp = [] \<or> sd_bearer sd \<noteq> bp_token bp then Inl 401
       else (case snd gc of Inl st \<Rightarrow> Inl st | Inr c \<Rightarrow> bearer_call (sd_path sd) c)
   | g \<Rightarrow> Inr (Authenticate (sd_cookie sd) g (snd gc)))"

subsection \<open>Tasks\<close>

text \<open>One step of task \<open>i\<close>: the state, what is seen of it, and what is left to do.\<close>

definition reply :: "nat \<Rightarrow> nat \<Rightarrow> backend \<Rightarrow> backend \<times> backend_out list \<times> task option" where
  "reply i status b = (b, [Answered i status], None)"

definition next_task :: "nat \<Rightarrow> nat + task \<Rightarrow> backend \<Rightarrow> backend \<times> backend_out list \<times> task option" where
  "next_task i r b = (case r of Inl st \<Rightarrow> reply i st b | Inr t \<Rightarrow> (b, [], Some t))"

text \<open>\<open>loginHandler\<close>: the limiter, the body, the user, the password.  A user that is not found is treated as
  one whose password does not match.\<close>

definition run_login_start :: "nat \<Rightarrow> jsstr \<Rightarrow> (jsstr \<times> jsstr) option \<Rightarrow> backend \<Rightarrow> backend \<times> backend_out list \<times> task option" where
  "run_login_start i ip cred b =
     (let recent = recentFailures (bk_clock b) (bk_failures b ip);
          b' = b\<lparr>bk_failures := (bk_failures b)(ip := recent)\<rparr>
      in if \<not> length recent < loginMaxFailures then reply i 429 b'
         else (case cred of None \<Rightarrow> reply i 400 b' | Some (u, p) \<Rightarrow> (b', [], Some (Find_login ip u p))))"

definition run_find_login :: "backend_platform \<Rightarrow> turn \<Rightarrow> jsstr \<Rightarrow> jsstr \<Rightarrow> jsstr \<Rightarrow> backend \<Rightarrow>
    backend \<times> backend_out list \<times> task option" where
  "run_find_login bp tn ip u p b = (case if tn_ok tn then find_user u (bk_users b) else None of
     Some r \<Rightarrow> (b, [], Some (if bp_match bp (ur_password_hash r) p then Make_session r else Record_failure ip))
   | None \<Rightarrow> (b, [], Some (Record_failure ip)))"

definition run_record_failure :: "nat \<Rightarrow> jsstr \<Rightarrow> backend \<Rightarrow> backend \<times> backend_out list \<times> task option" where
  "run_record_failure i ip b =
     (b\<lparr>bk_failures := (bk_failures b)(ip := recentFailures (bk_clock b) (bk_failures b ip) @ [bk_clock b])\<rparr>,
      [Login_failed ip (bk_clock b), Answered i 401], None)"

text \<open>\<open>SessionStore.Create\<close>; the token is the primary key.\<close>

definition run_make_session :: "nat \<Rightarrow> turn \<Rightarrow> bk_user \<Rightarrow> backend \<Rightarrow> backend \<times> backend_out list \<times> task option" where
  "run_make_session i tn r b =
     (if \<not> tn_ok tn \<or> tn_text tn \<in> se_token ` set (bk_sessions b) then reply i 500 b
      else (b\<lparr>bk_sessions := bk_sessions b @ [\<lparr>se_token = tn_text tn, se_username = ur_username r, se_role = ur_role r,
                se_expires_at = bk_clock b + sessionTTL\<rparr>]\<rparr>,
            [Session_made (tn_text tn) (ur_username r) (ur_role r), Answered i 200], None))"

text \<open>\<open>requireAuth\<close> and \<open>requireRole\<close>.  \<open>SessionStore.Get\<close> reads the row and renews it, or deletes it when it has
  expired; the second statement is on that row alone and its failure is ignored.  The two are one step:
  what comes between can only renew the row or delete it, and then they have the effect of that order.\<close>

definition run_authenticate :: "backend_platform \<Rightarrow> nat \<Rightarrow> turn \<Rightarrow> jsstr option \<Rightarrow> guard \<Rightarrow> nat + bk_call \<Rightarrow> backend \<Rightarrow>
    backend \<times> backend_out list \<times> task option" where
  "run_authenticate bp i tn cookie g c b = (case cookie of
     None \<Rightarrow> reply i 401 b
   | Some tok \<Rightarrow> (case if tn_ok tn then find (\<lambda>r. se_token r = tok) (bk_sessions b) else None of
       None \<Rightarrow> reply i 401 b
     | Some r \<Rightarrow>
         if se_expires_at r < bk_clock b
         then reply i 401 (if tn_second_ok tn then b\<lparr>bk_sessions := filter (\<lambda>r. se_token r \<noteq> tok) (bk_sessions b)\<rparr> else b)
         else (let b' = (if tn_second_ok tn
                       then b\<lparr>bk_sessions := map (\<lambda>r. if se_token r = tok then r\<lparr>se_expires_at := bk_clock b + sessionTTL\<rparr> else r)
                              (bk_sessions b)\<rparr>
                       else b)
               in if g = Admin_session \<and> se_role r \<noteq> Admin then reply i 403 b'
                  else (case c of
                      Inl st \<Rightarrow> reply i st b'
                    | Inr call \<Rightarrow> next_task i (session_call bp tok \<lparr>bs_username = se_username r, bs_role = se_role r\<rparr> call) b'))))"

definition run_drop_session :: "nat \<Rightarrow> turn \<Rightarrow> jsstr \<Rightarrow> backend \<Rightarrow> backend \<times> backend_out list \<times> task option" where
  "run_drop_session i tn tok b =
     reply i 204 (if tn_ok tn then b\<lparr>bk_sessions := filter (\<lambda>r. se_token r \<noteq> tok) (bk_sessions b)\<rparr> else b)"

text \<open>\<open>createUserHandler\<close>: every failure of the insertion is taken for a conflict.\<close>

definition run_insert_user :: "nat \<Rightarrow> turn \<Rightarrow> bk_session \<Rightarrow> jsstr \<Rightarrow> role \<Rightarrow> backend \<Rightarrow> backend \<times> backend_out list \<times> task option" where
  "run_insert_user i tn s u r b =
     (if \<not> tn_ok tn \<or> u \<in> ur_username ` set (bk_users b) then reply i 409 b
      else (b\<lparr>bk_users := bk_users b @ [\<lparr>ur_username = u, ur_password_hash = tn_text tn, ur_role = r\<rparr>]\<rparr>,
            [User_created s u r], Some (Record_action (js ''user_created'') u (bs_username s) (Some 204))))"

text \<open>\<open>deleteUserHandler\<close> and \<open>updateUserRoleHandler\<close>: \<open>GetUser\<close>, \<open>countAdmins\<close>, the change, \<open>DeleteByUsername\<close>,
  whose failure is only logged, and the record.\<close>

definition run_find_target :: "nat \<Rightarrow> turn \<Rightarrow> bk_session \<Rightarrow> account_change \<Rightarrow> backend \<Rightarrow> backend \<times> backend_out list \<times> task option" where
  "run_find_target i tn s ch b = (case if tn_ok tn then find_user (changed_name ch) (bk_users b) else None of
     None \<Rightarrow> reply i 404 b
   | Some r \<Rightarrow> (b, [], Some (if takes_admin ch r then Count_admins s ch else Change_account s ch)))"

definition run_count_admins :: "nat \<Rightarrow> turn \<Rightarrow> bk_session \<Rightarrow> account_change \<Rightarrow> backend \<Rightarrow> backend \<times> backend_out list \<times> task option" where
  "run_count_admins i tn s ch b =
     (if \<not> tn_ok tn then reply i 500 b
      else if count_admins (bk_users b) \<le> 1 then reply i 409 b
      else (b, [], Some (Change_account s ch)))"

definition run_change_account :: "nat \<Rightarrow> turn \<Rightarrow> bk_session \<Rightarrow> account_change \<Rightarrow> backend \<Rightarrow> backend \<times> backend_out list \<times> task option" where
  "run_change_account i tn s ch b =
     (if \<not> tn_ok tn then reply i 500 b
      else (b\<lparr>bk_users := apply_change ch (bk_users b)\<rparr>, [Account_changed s ch], Some (Purge_sessions s ch)))"

definition run_purge :: "turn \<Rightarrow> bk_session \<Rightarrow> account_change \<Rightarrow> backend \<Rightarrow> backend \<times> backend_out list \<times> task option" where
  "run_purge tn s ch b =
     (let log = Some (Record_action (change_action ch) (changed_name ch) (bs_username s) (Some 204))
      in if tn_ok tn
         then (b\<lparr>bk_sessions := filter (\<lambda>r. se_username r \<noteq> changed_name ch) (bk_sessions b)\<rparr>, [], log)
         else (b, [Purge_failed (changed_name ch)], log))"

text \<open>A call to the engine whose answer is passed on, and any other route that only passes a request on or
  reads.\<close>

definition run_ask_engine :: "nat \<Rightarrow> turn \<Rightarrow> engine_request \<Rightarrow> backend \<Rightarrow> backend \<times> backend_out list \<times> task option" where
  "run_ask_engine i tn req b = (b, [To_engine req, Answered i (if tn_ok tn then tn_status tn else 502)], None)"

definition run_relay :: "nat \<Rightarrow> turn \<Rightarrow> bk_session \<Rightarrow> bk_call \<Rightarrow> backend \<Rightarrow> backend \<times> backend_out list \<times> task option" where
  "run_relay i tn s c b = (b, [Relayed s c, Answered i (if tn_ok tn then tn_status tn else 502)], None)"

text \<open>\<open>logAction\<close>, whose failure is only logged.\<close>

definition run_record_action :: "nat \<Rightarrow> jsstr \<Rightarrow> jsstr \<Rightarrow> jsstr \<Rightarrow> nat option \<Rightarrow> backend \<Rightarrow>
    backend \<times> backend_out list \<times> task option" where
  "run_record_action i action target actor status b =
     (b, To_engine (Log_action action target actor) # (case status of None \<Rightarrow> [] | Some st \<Rightarrow> [Answered i st]), None)"

text \<open>\<open>detonateAndScore\<close>: static triage, where a failure counts as no match, then the detonation, whose events are
  broadcast as they come; then the score, and the verdict is broadcast and goes to who waits for it.\<close>

definition run_detonate :: "backend_platform \<Rightarrow> nat \<Rightarrow> turn \<Rightarrow> live_source \<Rightarrow> jsstr \<Rightarrow> jsstr \<Rightarrow> byte list \<Rightarrow> waiting \<Rightarrow> backend \<Rightarrow>
    backend \<times> backend_out list \<times> task option" where
  "run_detonate bp i tn src actor name bytes w b =
     (let req = \<lparr>sr_sample_hash = bp_sha bp bytes, sr_sample_filename = name, sr_timed_out = False, sr_actor = actor,
                 sr_events = [], sr_source = live_str src, sr_static_matches = []\<rparr>
      in if tn_matches tn \<noteq> [] then (b, [], Some (Get_verdict src (req\<lparr>sr_static_matches := tn_matches tn\<rparr>) w))
         else if \<not> tn_ok tn then reply i 500 b
         else (b, map (\<lambda>ev. Sent (Live_event src ev)) (tn_events tn),
               Some (Get_verdict src (req\<lparr>sr_events := tn_events tn, sr_timed_out := tn_timed_out tn\<rparr>) w)))"

definition run_get_verdict :: "nat \<Rightarrow> turn \<Rightarrow> live_source \<Rightarrow> score_request \<Rightarrow> waiting \<Rightarrow> backend \<Rightarrow>
    backend \<times> backend_out list \<times> task option" where
  "run_get_verdict i tn src req w b =
     (let v = tn_verdict tn
      in if \<not> tn_ok tn then (b, To_engine (Score req) # (if w = For_monitor then [] else [Answered i 500]), None)
         else case w of
             For_upload \<Rightarrow> (b, [To_engine (Score req), Sent (Live_verdict src v), Answered i 200], None)
           | For_interceptor name path \<Rightarrow>
               if held_label (verdict_label v)
               then (b, [To_engine (Score req), Sent (Live_verdict src v)], Some (Hold_file name path v))
               else (b, [To_engine (Score req), Sent (Live_verdict src v), Answered i 200], None)
           | For_monitor \<Rightarrow> (b, [To_engine (Score req), Sent (Live_verdict src v)],
               if verdict_label v = Compromised then Some Isolate else None))"

text \<open>\<open>quarantine.go\<close> and \<open>intercept_handlers.go\<close>; the table numbers its rows.\<close>

definition run_hold_file :: "nat \<Rightarrow> turn \<Rightarrow> jsstr \<Rightarrow> jsstr \<Rightarrow> verdict \<Rightarrow> backend \<Rightarrow> backend \<times> backend_out list \<times> task option" where
  "run_hold_file i tn name path v b =
     (if \<not> tn_ok tn then reply i 500 b
      else (b\<lparr>bk_held := bk_held b @ [\<lparr>hf_id = bk_next_file b, hf_sample_hash = sample_hash v, hf_filename = name,
                hf_original_path = path, hf_label = verdict_label v, hf_confidence = confidence v, hf_status = Pending\<rparr>],
              bk_next_file := bk_next_file b + 1\<rparr>,
            [File_held (bk_next_file b), Answered i 200], None))"

definition held_pending :: "backend \<Rightarrow> held_file list" where
  "held_pending b = filter (\<lambda>f. hf_status f = Pending) (bk_held b)"

definition file_action :: "review_status \<Rightarrow> jsstr" where
  "file_action st = (if st = Approved then js ''quarantine_approved'' else js ''quarantine_rejected'')"

definition run_decide_held :: "nat \<Rightarrow> turn \<Rightarrow> bk_session \<Rightarrow> review_status \<Rightarrow> int \<Rightarrow> backend \<Rightarrow>
    backend \<times> backend_out list \<times> task option" where
  "run_decide_held i tn s st n b =
     (if \<not> tn_ok tn then reply i 500 b
      else case find (\<lambda>f. hf_id f = n) (held_pending b) of
          None \<Rightarrow> reply i 404 b
        | Some f \<Rightarrow>
            (b\<lparr>bk_held := map (\<lambda>f. if hf_id f = n \<and> hf_status f = Pending then f\<lparr>hf_status := st\<rparr> else f) (bk_held b)\<rparr>,
             [File_decided s st n], Some (Record_action (file_action st) (hf_filename f) (bs_username s) (Some 204))))"

definition run_held_status :: "nat \<Rightarrow> turn \<Rightarrow> int \<Rightarrow> backend \<Rightarrow> backend \<times> backend_out list \<times> task option" where
  "run_held_status i tn n b = reply i (if tn_ok tn \<and> n \<in> hf_id ` set (bk_held b) then 200 else 404) b"

text \<open>\<open>monitor.go\<close>: the poll of the endpoint, and the isolation, which holds the lock while Docker works; the
  reconnection gives the lock back before it.  Docker refuses to attach a container that is attached; a call
  to Docker that fails is taken to have had no effect, and an isolation that fails is only logged.\<close>

definition monitorDeviceID :: jsstr where
  "monitorDeviceID = js ''monitored-endpoint''"

definition run_tick :: "backend_platform \<Rightarrow> turn \<Rightarrow> backend \<Rightarrow> backend \<times> backend_out list \<times> task option" where
  "run_tick bp tn b =
     (if \<not> tn_ok tn \<or> tn_events tn = [] then (b, [], None)
      else (b, map (\<lambda>ev. Sent (Live_event Monitor ev)) (tn_events tn),
            Some (Get_verdict Monitor \<lparr>sr_sample_hash = bp_batch bp (tn_events tn), sr_sample_filename = [], sr_timed_out = False,
              sr_actor = [], sr_events = tn_events tn, sr_source = live_str Monitor, sr_static_matches = []\<rparr> For_monitor)))"

definition run_isolate :: "turn \<Rightarrow> backend \<Rightarrow> backend \<times> backend_out list \<times> task option" where
  "run_isolate tn b =
     (if bk_isolated b then (b, [], None)
      else if \<not> tn_ok tn then (b, [Isolation_failed], None)
      else (b\<lparr>bk_isolated := True, bk_attached := False\<rparr>, [Docker_isolated], Some Tell_isolated))"

definition run_reconnect_check :: "nat \<Rightarrow> bk_session \<Rightarrow> backend \<Rightarrow> backend \<times> backend_out list \<times> task option" where
  "run_reconnect_check i s b = (if \<not> bk_isolated b then reply i 400 b else (b, [], Some (Reconnect_docker s)))"

definition run_reconnect_docker :: "nat \<Rightarrow> turn \<Rightarrow> bk_session \<Rightarrow> backend \<Rightarrow> backend \<times> backend_out list \<times> task option" where
  "run_reconnect_docker i tn s b =
     (if \<not> tn_ok tn \<or> bk_attached b then reply i 500 b
      else (b\<lparr>bk_attached := True\<rparr>, [Docker_reconnected s], Some (Clear_isolated s)))"

fun run_task :: "backend_platform \<Rightarrow> turn \<Rightarrow> nat \<Rightarrow> task \<Rightarrow> backend \<Rightarrow> backend \<times> backend_out list \<times> task option" where
  "run_task bp tn i (Login_start ip cred) b = run_login_start i ip cred b"
| "run_task bp tn i (Find_login ip u p) b = run_find_login bp tn ip u p b"
| "run_task bp tn i (Record_failure ip) b = run_record_failure i ip b"
| "run_task bp tn i (Make_session r) b = run_make_session i tn r b"
| "run_task bp tn i (Authenticate cookie g c) b = run_authenticate bp i tn cookie g c b"
| "run_task bp tn i (Drop_session tok) b = run_drop_session i tn tok b"
| "run_task bp tn i List_users b = reply i (if tn_ok tn then 200 else 500) b"
| "run_task bp tn i (Insert_user s u p r) b = run_insert_user i tn s u r b"
| "run_task bp tn i (Find_target s ch) b = run_find_target i tn s ch b"
| "run_task bp tn i (Count_admins s ch) b = run_count_admins i tn s ch b"
| "run_task bp tn i (Change_account s ch) b = run_change_account i tn s ch b"
| "run_task bp tn i (Purge_sessions s ch) b = run_purge tn s ch b"
| "run_task bp tn i (Record_action action target actor st) b = run_record_action i action target actor st b"
| "run_task bp tn i (Ask_engine req) b = run_ask_engine i tn req b"
| "run_task bp tn i (Relay s c) b = run_relay i tn s c b"
| "run_task bp tn i (Detonate src actor name bytes w) b = run_detonate bp i tn src actor name bytes w b"
| "run_task bp tn i (Get_verdict src req w) b = run_get_verdict i tn src req w b"
| "run_task bp tn i (Hold_file name path v) b = run_hold_file i tn name path v b"
| "run_task bp tn i List_held b = reply i (if tn_ok tn then 200 else 500) b"
| "run_task bp tn i (Decide_held s st n) b = run_decide_held i tn s st n b"
| "run_task bp tn i (Held_status n) b = run_held_status i tn n b"
| "run_task bp tn i Tick b = run_tick bp tn b"
| "run_task bp tn i Isolate b = run_isolate tn b"
| "run_task bp tn i Tell_isolated b =
     (b, [Sent Live_isolated], Some (Record_action (js ''isolated'') monitorDeviceID [] None))"
| "run_task bp tn i Read_isolated b = reply i 200 b"
| "run_task bp tn i (Reconnect_check s) b = run_reconnect_check i s b"
| "run_task bp tn i (Reconnect_docker s) b = run_reconnect_docker i tn s b"
| "run_task bp tn i (Clear_isolated s) b = (b\<lparr>bk_isolated := False\<rparr>, [], Some (Tell_reconnected s))"
| "run_task bp tn i (Tell_reconnected s) b =
     (b, [Sent Live_reconnected], Some (Record_action (js ''reconnected'') monitorDeviceID (bs_username s) (Some 200)))"

subsection \<open>Runs\<close>

text \<open>A request arrives, or the monitor's ticker fires; a task runs; time passes; \<open>CleanupExpired\<close> deletes the
  sessions that have expired.\<close>

definition start_task :: "nat + task \<Rightarrow> backend \<Rightarrow> backend" where
  "start_task r b = b\<lparr>bk_next := bk_next b + 1, bk_tasks := bk_tasks b @ (case r of Inl _ \<Rightarrow> [] | Inr t \<Rightarrow> [(bk_next b, t)])\<rparr>"

definition answer_now :: "nat \<Rightarrow> nat + task \<Rightarrow> backend_out list" where
  "answer_now i r = (case r of Inl st \<Rightarrow> [Answered i st] | Inr _ \<Rightarrow> [])"

definition left_tasks :: "nat \<Rightarrow> task option \<Rightarrow> (nat \<times> task) list" where
  "left_tasks i t = (case t of None \<Rightarrow> [] | Some t \<Rightarrow> [(i, t)])"

text \<open>The ticker waits for the tick before.\<close>

definition of_monitor :: "task \<Rightarrow> bool" where
  "of_monitor t \<longleftrightarrow> (case t of
     Tick \<Rightarrow> True | Get_verdict _ _ w \<Rightarrow> w = For_monitor | Isolate \<Rightarrow> True | Tell_isolated \<Rightarrow> True
   | Record_action _ _ _ st \<Rightarrow> st = None | _ \<Rightarrow> False)"

inductive backend_step :: "backend_platform \<Rightarrow> backend \<Rightarrow> backend_out list \<Rightarrow> backend \<Rightarrow> bool"
  for bp :: backend_platform where
  arrives: "gc = mux m segs body \<Longrightarrow> r = entry bp sd gc \<Longrightarrow>
     backend_step bp b (Arrived (bk_next b) (snd gc) # answer_now (bk_next b) r) (start_task r b)"
| ticks: "\<forall>(i, t) \<in> set (bk_tasks b). \<not> of_monitor t \<Longrightarrow> backend_step bp b [] (start_task (Inr Tick) b)"
| runs: "bk_tasks b = xs @ (i, t) # ys \<Longrightarrow> run_task bp tn i t b = (b', out, t') \<Longrightarrow>
     backend_step bp b out (b'\<lparr>bk_tasks := xs @ left_tasks i t' @ ys\<rparr>)"
| passes: "bk_clock b \<le> now \<Longrightarrow> backend_step bp b [] (b\<lparr>bk_clock := now\<rparr>)"
| cleans: "backend_step bp b [] (b\<lparr>bk_sessions := filter (\<lambda>r. bk_clock b \<le> se_expires_at r) (bk_sessions b)\<rparr>)"

text \<open>\<open>SeedUsers\<close> has made an admin; \<open>InitIsolatedState\<close> has read the state of the container.\<close>

definition backend_init :: "backend \<Rightarrow> bool" where
  "backend_init b \<longleftrightarrow> distinct (map ur_username (bk_users b)) \<and> count_admins (bk_users b) > 0 \<and> bk_sessions b = [] \<and>
     bk_failures b = (\<lambda>_. []) \<and> bk_held b = [] \<and> bk_isolated b = (\<not> bk_attached b) \<and> bk_tasks b = []"

end
