(* ===== verification/BackendFacts.thy ===== *)
theory BackendFacts
  imports Backend
begin

text \<open>
  What the backend keeps: who may do what, what goes to the engine, the accounts and the sessions, the
  limiter of sign-ins, the held files, and the isolation of the endpoint.
\<close>

lemmas task_defs = run_login_start_def run_find_login_def run_record_failure_def run_make_session_def
  run_authenticate_def run_drop_session_def run_insert_user_def run_find_target_def run_count_admins_def
  run_change_account_def run_purge_def run_ask_engine_def run_relay_def run_record_action_def run_detonate_def
  run_get_verdict_def run_hold_file_def run_decide_held_def run_held_status_def run_tick_def run_isolate_def
  run_reconnect_check_def run_reconnect_docker_def reply_def next_task_def Let_def

lemmas task_splits = if_splits option.splits prod.splits sum.splits waiting.splits

subsection \<open>Who may do what\<close>

fun admin_call :: "bk_call \<Rightarrow> bool" where
  "admin_call B_reconnect \<longleftrightarrow> True"
| "admin_call (B_decide_hash st h) \<longleftrightarrow> True"
| "admin_call (B_decide_corpus st h) \<longleftrightarrow> True"
| "admin_call B_users \<longleftrightarrow> True"
| "admin_call (B_create_user req) \<longleftrightarrow> True"
| "admin_call (B_remove_user u) \<longleftrightarrow> True"
| "admin_call (B_set_role u r) \<longleftrightarrow> True"
| "admin_call B_quarantined \<longleftrightarrow> True"
| "admin_call (B_decide_file st i) \<longleftrightarrow> True"
| "admin_call _ \<longleftrightarrow> False"

lemma first_route_mem: "first_route rs segs = Some (g, h, vs) \<Longrightarrow> (g, h) \<in> snd ` set rs"
  by (induction rs segs rule: first_route.induct) (auto split: option.splits)

lemma mux_admin: "mux m segs b = (g, Inr c) \<Longrightarrow> admin_call c \<Longrightarrow> g = Admin_session"
proof -
  assume m: "mux m segs b = (g, Inr c)" and c: "admin_call c"
  then obtain h ss vs where r: "first_route ROUTES ss = Some (g, h, vs)" and h: "call_of h m vs b = Inr c"
    by (auto simp: mux_def split: option.splits)
  have "h \<in> {H_reconnect, H_hash_decision, H_corpus_decision, H_users, H_user, H_user_role, H_quarantined,
      H_file_decision Approved, H_file_decision Rejected} \<or> (\<exists>st. h = H_file_decision st)"
    using h c by (cases h) (auto split: if_splits option.splits http_method.splits)
  then show ?thesis using first_route_mem [OF r] by (auto simp: ROUTES_def)
qed

definition admin_of :: "backend_out list \<Rightarrow> bk_session \<Rightarrow> bool" where
  "admin_of os s \<longleftrightarrow> bs_role s = Admin \<and> (\<exists>tok. Session_made tok (bs_username s) Admin \<in> set os)"

lemma admin_of_more: "admin_of os s \<Longrightarrow> admin_of (os @ new) s"
  by (auto simp: admin_of_def)

definition request_ok :: "backend_out list \<Rightarrow> engine_request \<Rightarrow> bool" where
  "request_ok os req \<longleftrightarrow> from_backend req \<and>
     (\<forall>st h a. req = Decide_hash st h a \<longrightarrow> (\<exists>s. admin_of os s \<and> bs_username s = a))"

fun task_ok :: "backend_out list \<Rightarrow> task \<Rightarrow> bool" where
  "task_ok os (Authenticate cookie g c) \<longleftrightarrow> (\<forall>call. c = Inr call \<longrightarrow> admin_call call \<longrightarrow> g = Admin_session)"
| "task_ok os (Insert_user s u p r) \<longleftrightarrow> admin_of os s"
| "task_ok os (Find_target s ch) \<longleftrightarrow> admin_of os s"
| "task_ok os (Count_admins s ch) \<longleftrightarrow> admin_of os s"
| "task_ok os (Change_account s ch) \<longleftrightarrow> admin_of os s"
| "task_ok os (Decide_held s st n) \<longleftrightarrow> admin_of os s"
| "task_ok os (Reconnect_check s) \<longleftrightarrow> admin_of os s"
| "task_ok os (Reconnect_docker s) \<longleftrightarrow> admin_of os s"
| "task_ok os (Relay s c) \<longleftrightarrow> (admin_call c \<longrightarrow> admin_of os s)"
| "task_ok os (Ask_engine req) \<longleftrightarrow> request_ok os req"
| "task_ok os (Record_action a t who st) \<longleftrightarrow> a \<noteq> []"
| "task_ok os (Get_verdict src req w) \<longleftrightarrow> sr_source req = live_str src"
| "task_ok os _ \<longleftrightarrow> True"

fun out_ok :: "backend_out list \<Rightarrow> backend_out \<Rightarrow> bool" where
  "out_ok os (User_created s u r) \<longleftrightarrow> admin_of os s"
| "out_ok os (Account_changed s ch) \<longleftrightarrow> admin_of os s"
| "out_ok os (File_decided s st n) \<longleftrightarrow> admin_of os s"
| "out_ok os (Docker_reconnected s) \<longleftrightarrow> admin_of os s"
| "out_ok os (Relayed s c) \<longleftrightarrow> (admin_call c \<longrightarrow> admin_of os s)"
| "out_ok os (To_engine req) \<longleftrightarrow> request_ok os req"
| "out_ok os _ \<longleftrightarrow> True"

lemma request_ok_more: "request_ok os req \<Longrightarrow> request_ok (os @ new) req"
  using admin_of_more by (fastforce simp: request_ok_def)

lemma task_ok_more: "task_ok os t \<Longrightarrow> task_ok (os @ new) t"
  by (induction os t rule: task_ok.induct) (auto intro: admin_of_more request_ok_more)

lemma out_ok_more: "out_ok os x \<Longrightarrow> out_ok (os @ new) x"
  by (induction os x rule: out_ok.induct) (auto intro: admin_of_more request_ok_more)

definition made_of :: "session_row \<Rightarrow> backend_out" where
  "made_of r = Session_made (se_token r) (se_username r) (se_role r)"

definition rights_inv :: "backend_out list \<Rightarrow> backend \<Rightarrow> bool" where
  "rights_inv os b \<longleftrightarrow> (\<forall>r \<in> set (bk_sessions b). made_of r \<in> set os) \<and> (\<forall>it \<in> set (bk_tasks b). task_ok os (snd it)) \<and>
     (\<forall>x \<in> set os. out_ok os x)"

lemma live_str_source: "live_str src \<in> SOURCES"
  by (cases src) (simp_all add: live_str_def SOURCES_def)

lemma plain_requests: "a \<noteq> [] \<Longrightarrow> request_ok os (Log_action a t who)"
    "sr_source req = live_str src \<Longrightarrow> request_ok os (Score req)"
  by (auto simp: request_ok_def from_backend_def live_str_source)

lemma session_call_ok:
  assumes "session_call bp tok s c = Inr t" and "admin_call c \<Longrightarrow> admin_of os s"
  shows "task_ok os t"
  using assms by (cases c) (auto simp: request_ok_def from_backend_def engine_submission_def split: option.splits sum.splits if_splits)

lemma entry_ok: "entry bp sd (mux m segs body) = Inr t \<Longrightarrow> task_ok os t"
  by (cases "mux m segs body")
     (auto simp: entry_def dest: mux_admin split: guard.splits sum.splits bk_call.splits if_splits option.splits elim!: bearer_call.elims)

lemma found_session:
  assumes "find (\<lambda>r. se_token r = tok) ss = Some r"
  shows "r \<in> set ss" and "se_token r = tok"
  using assms by (auto simp: find_Some_iff in_set_conv_nth)

text \<open>Renewing and deleting rows keeps what is known of them.\<close>

lemma sessions_kept:
  assumes "\<forall>r \<in> set ss. made_of r \<in> X"
  shows "\<forall>r \<in> set (filter P ss). made_of r \<in> X"
    and "\<forall>r \<in> set (map (\<lambda>r. if Q r then r\<lparr>se_expires_at := e\<rparr> else r) ss). made_of r \<in> X"
  using assms by (auto simp: made_of_def)

lemma authenticate_ok:
  assumes "run_authenticate bp i tn cookie g c b = (b', out, t')" and "task_ok os (Authenticate cookie g c)"
    and "(\<forall>r \<in> set (bk_sessions b). made_of r \<in> set os)"
  shows "(\<forall>u. t' = Some u \<longrightarrow> task_ok (os @ out) u) \<and> (\<forall>x \<in> set out. out_ok (os @ out) x) \<and>
    (\<forall>r \<in> set (bk_sessions b'). made_of r \<in> set (os @ out))"
proof -
  have out: "\<forall>x \<in> set out. out_ok (os @ out) x"
    using assms(1) by (auto simp: task_defs split: task_splits)
  have "(\<forall>r \<in> set (bk_sessions b'). made_of r \<in> set os)"
    using assms(1) sessions_kept [OF assms(3)] assms(3)
    by (auto simp: run_authenticate_def reply_def next_task_def Let_def split: task_splits)
  moreover have "task_ok (os @ out) u" if u: "t' = Some u" for u
  proof -
    from assms(1) u obtain tok r call where r: "find (\<lambda>r. se_token r = tok) (bk_sessions b) = Some r"
      and c: "c = Inr call" and g: "g = Admin_session \<longrightarrow> se_role r = Admin"
      and s: "session_call bp tok \<lparr>bs_username = se_username r, bs_role = se_role r\<rparr> call = Inr u"
      by (auto simp: task_defs split: task_splits)
    have "made_of r \<in> set os" using found_session [OF r] assms(3) by blast
    then have "admin_of os \<lparr>bs_username = se_username r, bs_role = se_role r\<rparr>" if "admin_call call"
      using assms(2) c g that by (auto simp: admin_of_def made_of_def)
    from session_call_ok [OF s this] show ?thesis by (rule task_ok_more)
  qed
  ultimately show ?thesis using out by auto
qed

lemma run_task_ok:
  assumes "run_task bp tn i t b = (b', out, t')" and "task_ok os t" and "(\<forall>r \<in> set (bk_sessions b). made_of r \<in> set os)"
  shows "(\<forall>u. t' = Some u \<longrightarrow> task_ok (os @ out) u) \<and> (\<forall>x \<in> set out. out_ok (os @ out) x) \<and>
    (\<forall>r \<in> set (bk_sessions b'). made_of r \<in> set (os @ out))"
proof (cases t)
  case (Authenticate cookie g c)
  with assms show ?thesis by (intro authenticate_ok) auto
next
  case (Make_session r)
  with assms show ?thesis by (auto simp: task_defs made_of_def split: task_splits)
next
  case (Drop_session tok)
  with assms sessions_kept(1) [OF assms(3)] show ?thesis by (auto simp: task_defs split: task_splits)
next
  case (Purge_sessions s ch)
  with assms sessions_kept(1) [OF assms(3)] show ?thesis
    by (cases ch) (auto simp: task_defs split: task_splits)
qed (use assms in \<open>auto simp: task_defs plain_requests file_action_def admin_of_more request_ok_more
    split: task_splits\<close>)

lemma rights_step:
  assumes "rights_inv os b" and "backend_step bp b out b'"
  shows "rights_inv (os @ out) b'"
  using assms(2)
proof cases
  case (arrives gc m segs body r sd)
  have "task_ok (os @ out) t" if "r = Inr t" for t
    using entry_ok that arrives(3,4) task_ok_more by fastforce
  with assms(1) arrives show ?thesis
    by (auto simp: rights_inv_def start_task_def answer_now_def split: sum.splits intro: task_ok_more out_ok_more)
next
  case (runs xs i t ys tn b2 t')
  have "task_ok os t" "(\<forall>r \<in> set (bk_sessions b). made_of r \<in> set os)"
    using assms(1) runs(2) by (auto simp: rights_inv_def)
  from run_task_ok [OF runs(3) this] assms(1) runs(1,2) show ?thesis
    by (auto simp: rights_inv_def left_tasks_def split: option.splits intro: task_ok_more out_ok_more)
qed (use assms(1) in \<open>auto simp: rights_inv_def start_task_def split: sum.splits\<close>)

interpretation rights: invariant_system backend_init "backend_step bp" rights_inv
  by unfold_locales (simp add: rights_inv_def backend_init_def, rule rights_step)

end
