(* ===== verification/Accounts.thy ===== *)
theory Accounts
  imports BackendFacts
begin

text \<open>
  The accounts of the backend and the sessions made for them: what holds while no two requests change
  accounts at once, and what two such requests can do to each other.
\<close>

subsection \<open>Accounts\<close>

text \<open>The tasks that change accounts or make sessions, and the runs in which no two of them are in flight at once.\<close>

fun changing :: "task \<Rightarrow> bool" where
  "changing (Login_start ip cred) \<longleftrightarrow> True"
| "changing (Find_login ip u p) \<longleftrightarrow> True"
| "changing (Record_failure ip) \<longleftrightarrow> True"
| "changing (Make_session r) \<longleftrightarrow> True"
| "changing (Insert_user s u p r) \<longleftrightarrow> True"
| "changing (Find_target s ch) \<longleftrightarrow> True"
| "changing (Count_admins s ch) \<longleftrightarrow> True"
| "changing (Change_account s ch) \<longleftrightarrow> True"
| "changing (Purge_sessions s ch) \<longleftrightarrow> True"
| "changing _ \<longleftrightarrow> False"

definition busy :: "(nat \<times> task) list \<Rightarrow> nat" where
  "busy ts = length (filter (\<lambda>it. changing (snd it)) ts)"

definition calm_step :: "backend_platform \<Rightarrow> backend \<Rightarrow> backend_out list \<Rightarrow> backend \<Rightarrow> bool" where
  "calm_step bp b out b' \<longleftrightarrow> backend_step bp b out b' \<and> busy (bk_tasks b') \<le> 1"

lemma busy_append [simp]: "busy (xs @ ys) = busy xs + busy ys"
  and busy_Cons [simp]: "busy (it # ys) = (if changing (snd it) then 1 else 0) + busy ys"
  and busy_Nil [simp]: "busy [] = 0"
  by (simp_all add: busy_def)

lemma busy_0: "busy ts = 0 \<longleftrightarrow> (\<forall>it \<in> set ts. \<not> changing (snd it))"
  by (simp add: busy_def filter_empty_conv)

definition purging :: "jsstr \<Rightarrow> task \<Rightarrow> bool" where
  "purging n t \<longleftrightarrow> (\<exists>s ch. t = Purge_sessions s ch \<and> changed_name ch = n)"

fun account_ok :: "bk_user list \<Rightarrow> task \<Rightarrow> bool" where
  "account_ok us (Make_session r) \<longleftrightarrow> r \<in> set us"
| "account_ok us (Change_account s ch) \<longleftrightarrow> 0 < count_admins (apply_change ch us)"
| "account_ok us _ \<longleftrightarrow> True"

text \<open>The holders of sessions, by name and role; a holder is true if it is a user with that role, or will be
  purged, or would have been if the database had obeyed.\<close>

definition holders :: "session_row list \<Rightarrow> (jsstr \<times> role) set" where
  "holders ss = (\<lambda>r. (se_username r, se_role r)) ` set ss"

definition accounts_of :: "bk_user list \<Rightarrow> (jsstr \<times> role) set" where
  "accounts_of us = (\<lambda>u. (ur_username u, ur_role u)) ` set us"

definition holder_true :: "backend_out list \<Rightarrow> bk_user list \<Rightarrow> (nat \<times> task) list \<Rightarrow> jsstr \<times> role \<Rightarrow> bool" where
  "holder_true os us ts h \<longleftrightarrow> h \<in> accounts_of us \<or> Purge_failed (fst h) \<in> set os \<or>
     (\<exists>it \<in> set ts. purging (fst h) (snd it))"

definition accounts_inv :: "backend_out list \<Rightarrow> backend \<Rightarrow> bool" where
  "accounts_inv os b \<longleftrightarrow> distinct (map ur_username (bk_users b)) \<and> 0 < count_admins (bk_users b) \<and>
     (\<forall>it \<in> set (bk_tasks b). account_ok (bk_users b) (snd it)) \<and>
     (\<forall>h \<in> holders (bk_sessions b). holder_true os (bk_users b) (bk_tasks b) h) \<and> busy (bk_tasks b) \<le> 1"

lemma quiet_ok: "\<not> changing t \<Longrightarrow> account_ok us t \<and> \<not> purging n t"
  by (cases t) (auto simp: purging_def)

text \<open>Changing one account takes at most one admin away, and none if it is not an admin's.\<close>

lemma find_user_mem: "find_user u us = Some r \<Longrightarrow> r \<in> set us \<and> ur_username r = u"
  by (auto simp: find_user_def find_Some_iff in_set_conv_nth)

lemma accounts_of_mem: "r \<in> set us \<Longrightarrow> (ur_username r, ur_role r) \<in> accounts_of us"
  and accounts_of_snoc: "accounts_of (us @ [r]) = insert (ur_username r, ur_role r) (accounts_of us)"
  by (auto simp: accounts_of_def)

lemma not_admin: "r \<noteq> Admin \<longleftrightarrow> r = Analyst"
  by (cases r) simp_all

lemma change_admins:
  assumes "distinct (map ur_username us)"
  shows "count_admins us \<le> Suc (count_admins (apply_change ch us))"
    and "r \<in> set us \<Longrightarrow> ur_username r = changed_name ch \<Longrightarrow> \<not> takes_admin ch r \<Longrightarrow>
      count_admins us \<le> count_admins (apply_change ch us)"
proof -
  have other: "apply_change ch vs = vs" if "changed_name ch \<notin> ur_username ` set vs" for vs
    using that by (cases ch) (auto simp: filter_id_conv intro!: map_idI)
  have "count_admins us \<le> Suc (count_admins (apply_change ch us)) \<and>
      (\<forall>r \<in> set us. ur_username r = changed_name ch \<longrightarrow> \<not> takes_admin ch r \<longrightarrow> count_admins us \<le> count_admins (apply_change ch us))"
    using assms
  proof (induction us)
    case Nil
    show ?case by (simp add: count_admins_def)
  next
    case (Cons u us)
    show ?case
    proof (cases "ur_username u = changed_name ch")
      case True
      with Cons.prems have "apply_change ch us = us" by (intro other) auto
      moreover have "\<forall>v \<in> set us. ur_username v \<noteq> ur_username u" using Cons.prems by (auto simp: image_iff)
      ultimately show ?thesis using True by (cases ch) (auto simp: count_admins_def not_admin)
    next
      case False
      with Cons show ?thesis by (cases ch) (auto simp: count_admins_def)
    qed
  qed
  then show "count_admins us \<le> Suc (count_admins (apply_change ch us))"
    and "r \<in> set us \<Longrightarrow> ur_username r = changed_name ch \<Longrightarrow> \<not> takes_admin ch r \<Longrightarrow>
      count_admins us \<le> count_admins (apply_change ch us)" by blast+
qed

lemma change_names: "distinct (map ur_username us) \<Longrightarrow> distinct (map ur_username (apply_change ch us))"
proof (cases ch)
  case (Remove_user u)
  assume "distinct (map ur_username us)"
  with Remove_user show ?thesis by (simp add: distinct_map_filter)
next
  case (Set_role u r)
  have "map ur_username (apply_change ch us) = map ur_username us" using Set_role by simp
  moreover assume "distinct (map ur_username us)"
  ultimately show ?thesis by metis
qed

lemma change_others: "h \<in> accounts_of us \<Longrightarrow> fst h \<noteq> changed_name ch \<Longrightarrow> h \<in> accounts_of (apply_change ch us)"
  by (cases ch) (force simp: accounts_of_def)+

text \<open>A task that changes nothing leaves the users alone and can only renew or delete sessions.\<close>

lemma holders_filter: "holders (filter P ss) \<subseteq> holders ss"
  by (auto simp: holders_def)

lemma holders_snoc: "holders (ss @ [r]) = insert (se_username r, se_role r) (holders ss)"
  by (auto simp: holders_def)

lemma holders_renew: "holders (map (\<lambda>r. if Q r then r\<lparr>se_expires_at := e\<rparr> else r) ss) = holders ss"
  unfolding holders_def set_map image_image by (rule image_cong) auto

lemma call_quiet: "session_call bp tok s call = Inr u \<Longrightarrow> account_ok us u \<and> \<not> purging n u"
  by (cases call) (auto simp: purging_def split: option.splits sum.splits if_splits)

lemma authenticate_quiet:
  assumes "run_authenticate bp i tn cookie g c b = (b', out, t')"
  shows "bk_users b' = bk_users b \<and> holders (bk_sessions b') \<subseteq> holders (bk_sessions b) \<and>
    (\<forall>u us n. t' = Some u \<longrightarrow> account_ok us u \<and> \<not> purging n u)"
proof -
  have "bk_users b' = bk_users b \<and> holders (bk_sessions b') \<subseteq> holders (bk_sessions b)"
    using assms holders_filter holders_renew
    by (fastforce simp: run_authenticate_def reply_def next_task_def Let_def split: task_splits)
  moreover have "\<forall>u us n. t' = Some u \<longrightarrow> account_ok us u \<and> \<not> purging n u"
    using assms call_quiet
    by (fastforce simp: run_authenticate_def reply_def next_task_def Let_def split: task_splits)
  ultimately show ?thesis by blast
qed

lemma quiet_run:
  assumes "run_task bp tn i t b = (b', out, t')" and "\<not> changing t"
  shows "bk_users b' = bk_users b \<and> holders (bk_sessions b') \<subseteq> holders (bk_sessions b) \<and>
    (\<forall>u us n. t' = Some u \<longrightarrow> account_ok us u \<and> \<not> purging n u)"
proof (cases t)
  case (Authenticate cookie g c)
  with assms authenticate_quiet show ?thesis by simp
next
  case (Drop_session tok)
  with assms show ?thesis by (auto simp: task_defs split: task_splits dest: subsetD [OF holders_filter])
qed (use assms in \<open>auto simp: task_defs purging_def split: task_splits\<close>)

lemma holder_true_more: "holder_true os us ts h \<Longrightarrow> set ts \<subseteq> set ts' \<Longrightarrow> holder_true (os @ new) us ts' h"
  by (auto simp: holder_true_def)

lemma entry_quiet: "entry bp sd gc = Inr t \<Longrightarrow> account_ok us t"
  by (auto simp: entry_def split: guard.splits sum.splits bk_call.splits if_splits option.splits elim!: bearer_call.elims)

lemma tasks_split:
  assumes "accounts_inv os b" and "bk_tasks b = xs @ (i, t) # ys"
  shows "account_ok (bk_users b) t"
    and "changing t \<Longrightarrow> it \<in> set xs \<union> set ys \<Longrightarrow> account_ok us (snd it) \<and> \<not> purging n (snd it)"
proof -
  show "account_ok (bk_users b) t" using assms by (simp add: accounts_inv_def)
  assume "changing t" "it \<in> set xs \<union> set ys"
  then have "\<not> changing (snd it)" using assms by (auto simp: accounts_inv_def busy_0)
  then show "account_ok us (snd it) \<and> \<not> purging n (snd it)" by (rule quiet_ok)
qed

text \<open>What a task that changes accounts leaves behind, the others being quiet.\<close>

definition change_ok :: "backend_out list \<Rightarrow> backend \<Rightarrow> backend \<Rightarrow> task option \<Rightarrow> bool" where
  "change_ok os b b' t' \<longleftrightarrow> distinct (map ur_username (bk_users b')) \<and> 0 < count_admins (bk_users b') \<and>
     (\<forall>u. t' = Some u \<longrightarrow> account_ok (bk_users b') u) \<and>
     (\<forall>h \<in> holders (bk_sessions b'). holder_true os (bk_users b') (left_tasks 0 t') h)"

lemma changing_run:
  assumes "accounts_inv os b" and "bk_tasks b = xs @ (i, t) # ys" and "run_task bp tn i t b = (b', out, t')" and "changing t"
  shows "change_ok (os @ out) b b' t'"
proof -
  have us: "distinct (map ur_username (bk_users b))" "0 < count_admins (bk_users b)" using assms(1) by (simp_all add: accounts_inv_def)
  have hs: "\<forall>h \<in> holders (bk_sessions b). holder_true os (bk_users b) [(i, t)] h"
    using assms(1) tasks_split(2) [OF assms(1,2,4)]
    by (fastforce simp: accounts_inv_def holder_true_def assms(2))
  show ?thesis
  proof (cases t)
    case (Make_session r)
    then have "r \<in> set (bk_users b)" using tasks_split(1) [OF assms(1,2)] by simp
    then show ?thesis using assms(3) us hs Make_session accounts_of_mem
      by (auto simp: change_ok_def task_defs holders_snoc holder_true_def purging_def left_tasks_def split: task_splits)
  next
    case (Find_login ip u p)
    then show ?thesis using assms(3) us hs
      by (auto simp: change_ok_def task_defs holder_true_def purging_def left_tasks_def split: task_splits dest: find_user_mem)
  next
    case (Insert_user s u p r)
    then show ?thesis using assms(3) us hs
      by (auto simp: change_ok_def task_defs accounts_of_snoc holder_true_def purging_def left_tasks_def count_admins_def split: task_splits)
  next
    case (Find_target s ch)
    have "0 < count_admins (apply_change ch (bk_users b))" if "find_user (changed_name ch) (bk_users b) = Some r" "\<not> takes_admin ch r" for r
      using change_admins(2) [OF us(1)] find_user_mem [OF that(1)] that(2) us(2) by fastforce
    then show ?thesis using assms(3) us hs Find_target
      by (auto simp: change_ok_def task_defs holder_true_def purging_def left_tasks_def split: task_splits)
  next
    case (Count_admins s ch)
    then show ?thesis using assms(3) us hs change_admins(1) [OF us(1), of ch]
      by (auto simp: change_ok_def task_defs holder_true_def purging_def left_tasks_def split: task_splits)
  next
    case (Change_account s ch)
    then have "0 < count_admins (apply_change ch (bk_users b))" using tasks_split(1) [OF assms(1,2)] by simp
    moreover have "\<forall>h \<in> holders (bk_sessions b). holder_true (os @ out) (apply_change ch (bk_users b)) [(0, Purge_sessions s ch)] h"
      using hs change_others Change_account by (fastforce simp: holder_true_def purging_def)
    moreover have "\<forall>h \<in> holders (bk_sessions b). holder_true (os @ out) (bk_users b) [] h"
      using hs Change_account by (auto simp: holder_true_def purging_def)
    ultimately show ?thesis using assms(3) us Change_account change_names [OF us(1), of ch]
      by (auto simp: change_ok_def task_defs left_tasks_def split: task_splits)
  next
    case (Purge_sessions s ch)
    then show ?thesis using assms(3) us hs
      by (fastforce simp: change_ok_def task_defs holder_true_def holders_def purging_def left_tasks_def split: task_splits)
  qed (use assms(3,4) us hs in \<open>auto simp: change_ok_def task_defs holder_true_def purging_def left_tasks_def split: task_splits\<close>)
qed

lemma runs_ok:
  assumes "accounts_inv os b" and "bk_tasks b = xs @ (i, t) # ys" and "run_task bp tn i t b = (b', out, t')"
  shows "distinct (map ur_username (bk_users b')) \<and> 0 < count_admins (bk_users b') \<and>
     (\<forall>it \<in> set (xs @ left_tasks i t' @ ys). account_ok (bk_users b') (snd it)) \<and>
     (\<forall>h \<in> holders (bk_sessions b'). holder_true (os @ out) (bk_users b') (xs @ left_tasks i t' @ ys) h)"
proof (cases "changing t")
  case True
  from changing_run [OF assms True] have c: "change_ok (os @ out) b b' t'" .
  have "holder_true (os @ out) us (xs @ left_tasks i t' @ ys) h" if "holder_true (os @ out) us (left_tasks 0 t') h" for us h
    using that by (auto simp: holder_true_def left_tasks_def split: option.splits)
  moreover have "account_ok us (snd it)" if "it \<in> set xs \<union> set ys" for us it
    using tasks_split(2) [OF assms(1,2) True that] by blast
  ultimately show ?thesis using c by (auto simp: change_ok_def left_tasks_def split: option.splits)
next
  case False
  from quiet_run [OF assms(3) False] have q: "bk_users b' = bk_users b" "holders (bk_sessions b') \<subseteq> holders (bk_sessions b)"
    "\<forall>u us n. t' = Some u \<longrightarrow> account_ok us u \<and> \<not> purging n u" by auto
  have "holder_true (os @ out) (bk_users b) (xs @ left_tasks i t' @ ys) h" if "h \<in> holders (bk_sessions b)" for h
    using assms(1) that quiet_ok [OF False] by (fastforce simp: accounts_inv_def holder_true_def assms(2))
  with q assms(1,2) show ?thesis by (auto simp: accounts_inv_def left_tasks_def split: option.splits)
qed

lemma start_accounts:
  assumes "accounts_inv os b" and "\<And>t. r = Inr t \<Longrightarrow> account_ok (bk_users b) t" and "busy (bk_tasks (start_task r b)) \<le> 1"
  shows "accounts_inv (os @ out) (start_task r b)"
proof -
  have "holder_true (os @ out) (bk_users b) (bk_tasks (start_task r b)) h" if "h \<in> holders (bk_sessions b)" for h
  proof (rule holder_true_more)
    show "holder_true os (bk_users b) (bk_tasks b) h" using assms(1) that by (simp add: accounts_inv_def)
  qed (auto simp: start_task_def)
  then show ?thesis using assms by (auto simp: accounts_inv_def start_task_def split: sum.splits)
qed

lemma accounts_step:
  assumes "accounts_inv os b" and "calm_step bp b out b'"
  shows "accounts_inv (os @ out) b'"
proof -
  have calm: "busy (bk_tasks b') \<le> 1" and "backend_step bp b out b'" using assms(2) by (simp_all add: calm_step_def)
  from this(2) show ?thesis
  proof cases
    case (arrives gc m segs body r sd)
    then show ?thesis using start_accounts [OF assms(1), of r] entry_quiet calm by auto
  next
    case ticks
    then show ?thesis using start_accounts [OF assms(1), of "Inr Tick" "[]"] calm by auto
  next
    case (runs xs i t ys tn b2 t')
    with runs_ok [OF assms(1) runs(2,3)] calm show ?thesis by (simp add: accounts_inv_def)
  next
    case cleans
    with assms(1) calm show ?thesis by (auto simp: accounts_inv_def dest: subsetD [OF holders_filter])
  qed (use assms(1) calm in \<open>simp add: accounts_inv_def\<close>)
qed

interpretation accounts: invariant_system backend_init "calm_step bp" accounts_inv
  by unfold_locales (simp add: accounts_inv_def backend_init_def holders_def, rule accounts_step)

subsection \<open>Requests that cross\<close>

lemma reach_run:
  assumes "reach init (backend_step bp) os b" and "bk_tasks b = xs @ (i, t) # ys" and "run_task bp tn i t b = (b', out, t')"
  shows "reach init (backend_step bp) (os @ out) (b'\<lparr>bk_tasks := xs @ left_tasks i t' @ ys\<rparr>)"
  using reach_step [OF assms(1) backend_step.runs [OF assms(2,3)]] .

lemma reach_last:
  assumes "reach init (backend_step bp) os (b\<lparr>bk_tasks := ts @ [(i, t)]\<rparr>)"
    and "run_task bp tn i t (b\<lparr>bk_tasks := ts @ [(i, t)]\<rparr>) = (b', out, t')"
  shows "reach init (backend_step bp) (os @ out) (b'\<lparr>bk_tasks := ts @ left_tasks i t'\<rparr>)"
  using reach_run [OF assms(1) _ assms(2), of ts "[]"] by simp

text \<open>A turn in which every statement succeeds but the renewal of the session.\<close>

definition fine_turn :: "jsstr \<Rightarrow> turn" where
  "fine_turn x = \<lparr>tn_ok = True, tn_second_ok = False, tn_text = x, tn_status = 200, tn_matches = [], tn_events = [],
     tn_timed_out = False, tn_verdict = \<lparr>verdict_id = [], sample_hash = [], sample_filename = [], verdict_label = Normal,
       confidence = 0, causal_chain = [], verdict_timestamp = [], prev_log_hash = [], detection_method = [], verdict_source = []\<rparr>\<rparr>"

text \<open>A session that is in force.\<close>

definition in_force :: "backend \<Rightarrow> session_row \<Rightarrow> bool" where
  "in_force b r \<longleftrightarrow> find (\<lambda>q. se_token q = se_token r) (bk_sessions b) = Some r \<and> bk_clock b \<le> se_expires_at r"

definition of_row :: "session_row \<Rightarrow> bk_session" where
  "of_row r = \<lparr>bs_username = se_username r, bs_role = se_role r\<rparr>"

text \<open>The request that asks for a change, as the dashboard sends it.\<close>

fun change_call :: "account_change \<Rightarrow> api_call" where
  "change_call (Remove_user u) = Delete_user u"
| "change_call (Set_role u r) = Update_user_role u r"

text \<open>A sign-in with the right password gets as far as the session.\<close>

lemma login_matched:
  assumes "reach init (backend_step bp) os b" and "bk_tasks b = []"
    and "find_user n (bk_users b) = Some v" and "bp_match bp (ur_password_hash v) p"
    and "length (recentFailures (bk_clock b) (bk_failures b ip)) < loginMaxFailures" and "sendable (Login n p)"
  shows "reach init (backend_step bp) (os @ [Arrived (bk_next b) (Inr (B_login (Some (n, p))))])
    (b\<lparr>bk_next := bk_next b + 1, bk_failures := (bk_failures b)(ip := recentFailures (bk_clock b) (bk_failures b ip)),
       bk_tasks := [(bk_next b, Make_session v)]\<rparr>)"
proof -
  let ?sd = "\<lparr>sd_ip = ip, sd_cookie = None, sd_bearer = [], sd_path = []\<rparr>"
  obtain lq where lq: "send_of (Login n p) = Inr lq" by simp
  from sendable_served [OF lq assms(6)]
  have gc: "mux (rq_method lq) (fetched_path (rq_path lq)) (rq_body lq) = (Anyone, Inr (B_login (Some (n, p))))"
    by (simp add: received_def)
  have e: "entry bp ?sd (Anyone, Inr (B_login (Some (n, p)))) = Inr (Login_start ip (Some (n, p)))" by (simp add: entry_def)
  let ?n1 = "[Arrived (bk_next b) (Inr (B_login (Some (n, p))))]"
  have "reach init (backend_step bp) (os @ ?n1) (b\<lparr>bk_next := bk_next b + 1, bk_tasks := [] @ [(bk_next b, Login_start ip (Some (n, p)))]\<rparr>)"
    using reach_step [OF assms(1) backend_step.arrives [OF gc [symmetric] e [symmetric]]]
    by (simp add: answer_now_def start_task_def assms(2))
  note r1 = reach_last [OF this, of "fine_turn []"]
  let ?f = "(bk_failures b)(ip := recentFailures (bk_clock b) (bk_failures b ip))"
  have "reach init (backend_step bp) (os @ ?n1)
      (b\<lparr>bk_next := bk_next b + 1, bk_failures := ?f, bk_tasks := [] @ [(bk_next b, Find_login ip n p)]\<rparr>)"
    using r1 assms(5) by (simp add: run_login_start_def left_tasks_def Let_def)
  from reach_last [OF this, of "fine_turn []"] show ?thesis
    using assms(3,4) by (simp add: run_find_login_def left_tasks_def fine_turn_def)
qed

lemma session_made:
  assumes "reach init (backend_step bp) os b" and "bk_tasks b = [(i, Make_session v)]" and "tok \<notin> se_token ` set (bk_sessions b)"
  shows "reach init (backend_step bp) (os @ [Session_made tok (ur_username v) (ur_role v), Answered i 200])
    (b\<lparr>bk_sessions := bk_sessions b @ [\<lparr>se_token = tok, se_username = ur_username v, se_role = ur_role v,
         se_expires_at = bk_clock b + sessionTTL\<rparr>], bk_tasks := []\<rparr>)"
  using reach_run [OF assms(1), of "[]" i "Make_session v" "[]" "fine_turn tok"] assms(2,3)
  by (simp add: run_make_session_def fine_turn_def left_tasks_def)

lemma parse_role_str [simp]: "parse_role (role_str r) = Some r"
  by (cases r) (simp_all add: parse_role_def role_str_def)

text \<open>An admin's request gets as far as the handler's first wait.\<close>

lemma admin_asked:
  assumes "reach init (backend_step bp) os b" and "in_force b r" and "se_role r = Admin"
    and "received rq = (g, Inr call)" and "session_call bp (se_token r) (of_row r) call = Inr t"
    and "g = Session \<or> g = Admin_session"
  shows "reach init (backend_step bp) (os @ [Arrived (bk_next b) (Inr call)])
    (b\<lparr>bk_next := bk_next b + 1, bk_tasks := bk_tasks b @ [(bk_next b, t)]\<rparr>)"
proof -
  let ?sd = "\<lparr>sd_ip = [], sd_cookie = Some (se_token r), sd_bearer = [], sd_path = []\<rparr>"
    and ?auth = "Authenticate (Some (se_token r)) g (Inr call)"
  from assms(4) have gc: "mux (rq_method rq) (fetched_path (rq_path rq)) (rq_body rq) = (g, Inr call)" by (simp add: received_def)
  have e: "entry bp ?sd (g, Inr call) = Inr ?auth" using assms(6) by (auto simp: entry_def)
  have "reach init (backend_step bp) (os @ [Arrived (bk_next b) (Inr call)])
      (b\<lparr>bk_next := bk_next b + 1, bk_tasks := bk_tasks b @ [(bk_next b, ?auth)]\<rparr>)"
    using reach_step [OF assms(1), OF backend_step.arrives [OF gc [symmetric] e [symmetric]]] by (simp add: answer_now_def start_task_def)
  from reach_last [OF this, of "fine_turn []"] show ?thesis
    using assms(2,3,5) by (simp add: run_authenticate_def fine_turn_def in_force_def next_task_def left_tasks_def of_row_def Let_def)
qed

text \<open>A request to change an account gets as far as the change, if the count of admins allows it.\<close>

lemma change_asked:
  assumes "reach init (backend_step bp) os b" and "in_force b r" and "se_role r = Admin"
    and "send_of (change_call ch) = Inr rq" and "sendable (change_call ch)"
    and "find_user (changed_name ch) (bk_users b) = Some v" and "1 < count_admins (bk_users b)"
  shows "\<exists>new. reach init (backend_step bp) (os @ new)
      (b\<lparr>bk_next := bk_next b + 1, bk_tasks := bk_tasks b @ [(bk_next b, Change_account (of_row r) ch)]\<rparr>) \<and>
    (\<forall>n. Purge_failed n \<notin> set new)"
proof -
  let ?b = "\<lambda>t. b\<lparr>bk_next := bk_next b + 1, bk_tasks := bk_tasks b @ [(bk_next b, t)]\<rparr>"
  define call where "call = snd (meant (change_call ch))"
  have "received rq = (Admin_session, Inr call)"
    using sendable_served [OF assms(4,5)] by (cases ch) (simp_all add: call_def)
  moreover have "session_call bp (se_token r) (of_row r) call = Inr (Find_target (of_row r) ch)"
    by (cases ch) (simp_all add: call_def)
  ultimately have "reach init (backend_step bp) (os @ [Arrived (bk_next b) (Inr call)]) (?b (Find_target (of_row r) ch))"
    by (rule admin_asked [OF assms(1-3)]) simp
  note r2 = reach_last [OF this, of "fine_turn []"]
  have "reach init (backend_step bp) (os @ [Arrived (bk_next b) (Inr call)]) (?b (Change_account (of_row r) ch))"
  proof (cases "takes_admin ch v")
    case True
    then have "reach init (backend_step bp) (os @ [Arrived (bk_next b) (Inr call)]) (?b (Count_admins (of_row r) ch))"
      using r2 assms(6) by (simp add: run_find_target_def fine_turn_def left_tasks_def)
    from reach_last [OF this, of "fine_turn []"] show ?thesis
      using assms(7) by (simp add: run_count_admins_def fine_turn_def left_tasks_def)
  next
    case False
    then show ?thesis using r2 assms(6) by (simp add: run_find_target_def fine_turn_def left_tasks_def)
  qed
  then show ?thesis by (intro exI [of _ "[Arrived (bk_next b) (Inr call)]"]) simp
qed

text \<open>From there it goes through.\<close>

lemma change_goes_through:
  assumes "reach init (backend_step bp) os b" and "bk_tasks b = xs @ (i, Change_account s ch) # ys"
  shows "\<exists>new. reach init (backend_step bp) (os @ new) (b\<lparr>bk_users := apply_change ch (bk_users b),
      bk_sessions := filter (\<lambda>r. se_username r \<noteq> changed_name ch) (bk_sessions b), bk_tasks := xs @ ys\<rparr>) \<and>
    Account_changed s ch \<in> set new \<and> Answered i 204 \<in> set new \<and> (\<forall>n. Purge_failed n \<notin> set new)"
proof -
  let ?t = "fine_turn []"
  have "run_task bp ?t i (Change_account s ch) b =
      (b\<lparr>bk_users := apply_change ch (bk_users b)\<rparr>, [Account_changed s ch], Some (Purge_sessions s ch))"
    by (simp add: run_change_account_def fine_turn_def)
  note r1 = reach_run [OF assms this]
  let ?b1 = "b\<lparr>bk_users := apply_change ch (bk_users b), bk_tasks := xs @ (i, Purge_sessions s ch) # ys\<rparr>"
  let ?log = "Record_action (change_action ch) (changed_name ch) (bs_username s) (Some 204)"
  have "run_task bp ?t i (Purge_sessions s ch) ?b1 =
      (?b1\<lparr>bk_sessions := filter (\<lambda>r. se_username r \<noteq> changed_name ch) (bk_sessions b)\<rparr>, [], Some ?log)"
    by (simp add: run_purge_def fine_turn_def)
  from reach_run [OF _ _ this, of init "os @ [Account_changed s ch]" xs ys] r1
  have r2: "reach init (backend_step bp) (os @ [Account_changed s ch]) (b\<lparr>bk_users := apply_change ch (bk_users b),
      bk_sessions := filter (\<lambda>r. se_username r \<noteq> changed_name ch) (bk_sessions b), bk_tasks := xs @ (i, ?log) # ys\<rparr>)"
    by (simp add: left_tasks_def)
  from reach_run [OF r2, of xs i ?log ys ?t] show ?thesis
    by (intro exI [of _ "[Account_changed s ch, To_engine (Log_action (change_action ch) (changed_name ch) (bs_username s)), Answered i 204]"])
       (simp add: run_record_action_def left_tasks_def)
qed

text \<open>No two users have the same name, in any run.\<close>

lemma names_run:
  assumes "run_task bp tn i t b = (b', out, t')" and "distinct (map ur_username (bk_users b))"
  shows "distinct (map ur_username (bk_users b'))"
proof (cases "changing t")
  case False
  with quiet_run [OF assms(1)] assms(2) show ?thesis by simp
next
  case True
  then show ?thesis using assms change_names by (cases t) (auto simp: task_defs split: task_splits)
qed

interpretation names: invariant_system backend_init "backend_step bp" "\<lambda>os b. distinct (map ur_username (bk_users b))"
proof unfold_locales
  show "distinct (map ur_username (bk_users b'))" if "distinct (map ur_username (bk_users b))" "backend_step bp b out b'" for b out b'
    using that(2) by cases (use that(1) names_run in \<open>auto simp: start_task_def\<close>)
qed (simp add: backend_init_def)

lemma found_by_name: "distinct (map ur_username us) \<Longrightarrow> u \<in> set us \<Longrightarrow> find_user (ur_username u) us = Some u"
  by (induction us) (auto simp: find_user_def image_iff)

lemma found_after_change: "find_user n (apply_change (Set_role n r) us) = map_option (\<lambda>v. v\<lparr>ur_role := r\<rparr>) (find_user n us)"
  by (induction us) (auto simp: find_user_def)

definition nameable :: "jsstr \<Rightarrow> bool" where
  "nameable u \<longleftrightarrow> u \<notin> {[], js ''.'', js ''..''} \<and> encodeURIComponent u \<noteq> None"

lemma change_sendable: "nameable (changed_name ch) \<Longrightarrow> (\<exists>rq. send_of (change_call ch) = Inr rq) \<and> sendable (change_call ch)"
  by (cases ch) (auto simp: nameable_def user_path_def)

subsection \<open>Properties\<close>

text \<open>C12: While no two requests that sign in or change accounts are in flight at once, the accounts are sound:
  user names are distinct, there is an admin, and every session belongs to a user who still has the
  role that it grants, unless the sessions of that user are about to be deleted or the database
  refused to delete them.\<close>

theorem accounts_calm:
  assumes "reach backend_init (calm_step bp) os b"
  shows "distinct (map ur_username (bk_users b)) \<and> (\<exists>u \<in> set (bk_users b). ur_role u = Admin) \<and>
    (\<forall>r \<in> set (bk_sessions b).
       (\<exists>u \<in> set (bk_users b). ur_username u = se_username r \<and> ur_role u = se_role r) \<or>
       Purge_failed (se_username r) \<in> set os \<or>
       (\<exists>i s ch. (i, Purge_sessions s ch) \<in> set (bk_tasks b) \<and> changed_name ch = se_username r))"
proof -
  have inv: "accounts_inv os b" using accounts.reach_inv [OF assms] .
  then have "\<exists>u \<in> set (bk_users b). ur_role u = Admin" by (auto simp: accounts_inv_def count_admins_def filter_empty_conv)
  moreover have "holder_true os (bk_users b) (bk_tasks b) (se_username r, se_role r)" if "r \<in> set (bk_sessions b)" for r
    using inv that by (auto simp: accounts_inv_def holders_def)
  ultimately show ?thesis using inv
    by (fastforce simp: accounts_inv_def holder_true_def accounts_of_def purging_def)
qed

text \<open>C10: Whatever requests arrive and however they are served at once, accounts are made and changed, held files
  decided, the endpoint reconnected and the admins' other routes passed on only for a session that was made
  for an admin; each decision on a hash reaches the engine under the name of such an admin, and every
  request to the engine is of the form the backend makes.\<close>

theorem server_privileges:
  assumes "reach backend_init (backend_step bp) os b"
  shows "(\<forall>s u r. User_created s u r \<in> set os \<longrightarrow> admin_of os s) \<and> (\<forall>s ch. Account_changed s ch \<in> set os \<longrightarrow> admin_of os s) \<and>
    (\<forall>s st n. File_decided s st n \<in> set os \<longrightarrow> admin_of os s) \<and> (\<forall>s. Docker_reconnected s \<in> set os \<longrightarrow> admin_of os s) \<and>
    (\<forall>s c. Relayed s c \<in> set os \<longrightarrow> admin_call c \<longrightarrow> admin_of os s) \<and>
    (\<forall>st h a. To_engine (Decide_hash st h a) \<in> set os \<longrightarrow> (\<exists>s. admin_of os s \<and> bs_username s = a)) \<and>
    (\<forall>req. To_engine req \<in> set os \<longrightarrow> from_backend req)"
proof -
  have ok: "out_ok os x" if "x \<in> set os" for x using rights.reach_inv [OF assms] that by (simp add: rights_inv_def)
  have "\<forall>req. To_engine req \<in> set os \<longrightarrow> request_ok os req" using ok by fastforce
  moreover have "(\<forall>s u r. User_created s u r \<in> set os \<longrightarrow> admin_of os s) \<and> (\<forall>s ch. Account_changed s ch \<in> set os \<longrightarrow> admin_of os s) \<and>
    (\<forall>s st n. File_decided s st n \<in> set os \<longrightarrow> admin_of os s) \<and> (\<forall>s. Docker_reconnected s \<in> set os \<longrightarrow> admin_of os s) \<and>
    (\<forall>s c. Relayed s c \<in> set os \<longrightarrow> admin_call c \<longrightarrow> admin_of os s)"
    by (auto dest: ok)
  ultimately show ?thesis by (auto simp: request_ok_def)
qed

text \<open>C31: Two admins who remove each other at the same moment leave no admin behind: although each of the
  two requests counts the admins before it removes one, both are answered with success, from every
  reachable state in which they are the only admins and are signed in.\<close>

theorem last_admins_lost:
  assumes "reach backend_init (backend_step bp) os b" and "bk_tasks b = []"
    and "filter (\<lambda>u. ur_role u = Admin) (bk_users b) = [u, v]" and "nameable (ur_username u)" and "nameable (ur_username v)"
    and "in_force b r" and "se_username r = ur_username u" and "se_role r = Admin"
    and "in_force b q" and "se_username q = ur_username v" and "se_role q = Admin"
  shows "\<exists>new b'. reach backend_init (backend_step bp) (os @ new) b' \<and> count_admins (bk_users b') = 0 \<and> bk_tasks b' = [] \<and>
    Account_changed (of_row r) (Remove_user (ur_username v)) \<in> set new \<and>
    Account_changed (of_row q) (Remove_user (ur_username u)) \<in> set new \<and> (\<forall>n. Purge_failed n \<notin> set new)"
proof -
  have d: "distinct (map ur_username (bk_users b))" using names.reach_inv [OF assms(1)] .
  have admins: "{w \<in> set (bk_users b). ur_role w = Admin} = {u, v}" using arg_cong [OF assms(3), of set] by simp
  then have uv: "u \<in> set (bk_users b)" "v \<in> set (bk_users b)" by blast+
  have n: "1 < count_admins (bk_users b)" by (simp add: count_admins_def assms(3))
  let ?ru = "Remove_user (ur_username u)" and ?rv = "Remove_user (ur_username v)"
  obtain rq rq' where rq: "send_of (change_call ?rv) = Inr rq" "send_of (change_call ?ru) = Inr rq'"
    using change_sendable [of ?rv] change_sendable [of ?ru] assms(4,5) by auto
  let ?b1 = "b\<lparr>bk_next := bk_next b + 1, bk_tasks := [(bk_next b, Change_account (of_row r) ?rv)]\<rparr>"
  from change_asked [OF assms(1,6,8) rq(1) _ _ n, of v] change_sendable [of ?rv] found_by_name [OF d uv(2)] assms(2,5)
  obtain n1 where r1: "reach backend_init (backend_step bp) (os @ n1) ?b1" "\<forall>n. Purge_failed n \<notin> set n1" by auto
  have f1: "in_force ?b1 q" "1 < count_admins (bk_users ?b1)" using assms(9) n by (simp_all add: in_force_def)
  from change_asked [OF r1(1) f1(1) assms(11) rq(2) _ _ f1(2), of u] change_sendable [of ?ru] found_by_name [OF d uv(1)] assms(4)
  obtain n2 where r2: "reach backend_init (backend_step bp) ((os @ n1) @ n2) (?b1\<lparr>bk_next := bk_next ?b1 + 1,
      bk_tasks := bk_tasks ?b1 @ [(bk_next ?b1, Change_account (of_row q) ?ru)]\<rparr>)" "\<forall>n. Purge_failed n \<notin> set n2" by auto
  from change_goes_through [OF r2(1), of "[]"] obtain n3 b3 where
    r3: "reach backend_init (backend_step bp) (((os @ n1) @ n2) @ n3) b3" and
    b3: "bk_tasks b3 = [(bk_next b + 1, Change_account (of_row q) ?ru)]" "bk_users b3 = apply_change ?rv (bk_users b)" and
    n3: "Account_changed (of_row r) ?rv \<in> set n3" "\<forall>n. Purge_failed n \<notin> set n3"
    by auto
  from change_goes_through [OF r3, of "[]"] b3 obtain n4 b4 where
    r4: "reach backend_init (backend_step bp) ((((os @ n1) @ n2) @ n3) @ n4) b4" and
    b4: "bk_tasks b4 = []" "bk_users b4 = apply_change ?ru (apply_change ?rv (bk_users b))" and
    n4: "Account_changed (of_row q) ?ru \<in> set n4" "\<forall>n. Purge_failed n \<notin> set n4"
    by auto
  have "ur_role w = Admin \<Longrightarrow> w \<in> set (bk_users b) \<Longrightarrow> w = u \<or> w = v" for w using admins by blast
  then have "count_admins (bk_users b4) = 0" by (auto simp: b4(2) count_admins_def filter_empty_conv)
  with r4 b4(1) n3 n4 r1(2) r2(2) show ?thesis
    by (intro exI [of _ "n1 @ n2 @ n3 @ n4"] exI [of _ b4]) auto
qed

text \<open>C32: A role that is taken away can come back: when the sign-in of an admin is being served while another
  admin demotes them, the session is made after the sessions of the user were deleted, with the role
  that was read before; from then on a user who is an analyst holds a session of an admin, which each
  request renews, and nothing failed.\<close>

theorem demoted_admin_signs_in:
  assumes "reach backend_init (backend_step bp) os b" and "bk_tasks b = []"
    and "find_user n (bk_users b) = Some v" and "ur_role v = Admin" and "bp_match bp (ur_password_hash v) p"
    and "length (recentFailures (bk_clock b) (bk_failures b ip)) < loginMaxFailures"
    and "sendable (Login n p)" and "nameable n"
    and "in_force b r" and "se_role r = Admin" and "1 < count_admins (bk_users b)"
  shows "\<exists>new b' s. reach backend_init (backend_step bp) (os @ new) b' \<and>
    find_user n (bk_users b') = Some (v\<lparr>ur_role := Analyst\<rparr>) \<and>
    in_force b' s \<and> se_username s = n \<and> se_role s = Admin \<and> bk_tasks b' = [] \<and> (\<forall>m. Purge_failed m \<notin> set new)"
proof -
  let ?ch = "Set_role n Analyst" and ?i = "bk_next b" and ?n1 = "[Arrived (bk_next b) (Inr (B_login (Some (n, p))))]"
  have v: "ur_username v = n" using find_user_mem [OF assms(3)] by simp
  note r3 = login_matched [OF assms(1,2,3,5,6,7)]
  let ?b1 = "b\<lparr>bk_next := bk_next b + 1, bk_failures := (bk_failures b)(ip := recentFailures (bk_clock b) (bk_failures b ip)),
       bk_tasks := [(bk_next b, Make_session v)]\<rparr>"
  obtain rq where rq: "send_of (change_call ?ch) = Inr rq" and sd: "sendable (change_call ?ch)"
    using change_sendable [of ?ch] assms(8) by auto
  have "in_force ?b1 r" using assms(9) by (simp add: in_force_def)
  from change_asked [OF r3 this assms(10) rq sd, of v] assms(3,11)
  obtain n2 b2 where r4: "reach backend_init (backend_step bp) ((os @ ?n1) @ n2) b2" and
    b2: "bk_tasks b2 = [(?i, Make_session v)] @ (bk_next b + 1, Change_account (of_row r) ?ch) # []"
      "bk_users b2 = bk_users b" "bk_sessions b2 = bk_sessions b" and n2: "\<forall>m. Purge_failed m \<notin> set n2"
    by auto
  from change_goes_through [OF r4 b2(1)] obtain n3 b3 where
    r5: "reach backend_init (backend_step bp) (((os @ ?n1) @ n2) @ n3) b3" and
    b3: "bk_tasks b3 = [] @ (?i, Make_session v) # []" "bk_users b3 = apply_change ?ch (bk_users b)" and
    n3: "\<forall>m. Purge_failed m \<notin> set n3"
    by (auto simp: b2)
  obtain tok where tok: "tok \<notin> se_token ` set (bk_sessions b3)"
    using ex_new_if_finite [OF infinite_UNIV_listI, of "se_token ` set (bk_sessions b3)"] by blast
  let ?s = "\<lparr>se_token = tok, se_username = n, se_role = Admin, se_expires_at = bk_clock b3 + sessionTTL\<rparr>"
  let ?b4 = "b3\<lparr>bk_sessions := bk_sessions b3 @ [?s]\<rparr>"
  from session_made [OF r5 _ tok, of ?i v] b3(1)
  have r6: "reach backend_init (backend_step bp) ((((os @ ?n1) @ n2) @ n3) @ [Session_made tok n Admin, Answered ?i 200])
      (?b4\<lparr>bk_tasks := []\<rparr>)" by (simp add: v assms(4))
  have "find (\<lambda>q. se_token q = tok) (bk_sessions b3) = None" using tok by (auto simp: find_None_iff)
  then have "in_force (?b4\<lparr>bk_tasks := []\<rparr>) ?s" by (simp add: in_force_def find_snoc sessionTTL_def)
  with r6 n2 n3 b3(2) found_after_change [of n Analyst "bk_users b"] assms(3) show ?thesis
    by (intro exI [of _ "?n1 @ n2 @ n3 @ [Session_made tok n Admin, Answered ?i 200]"] exI [of _ "?b4\<lparr>bk_tasks := []\<rparr>"] exI [of _ ?s])
       simp
qed

subsection \<open>Witnesses\<close>

definition demo_bp :: backend_platform where
  "demo_bp = \<lparr>bp_match = (=), bp_hashable = (\<lambda>p. byte_len p \<le> 72), bp_sha = (\<lambda>_. replicate 64 97), bp_batch = (\<lambda>_. replicate 64 98),
     bp_token = js ''secret''\<rparr>"

definition demo_ada :: bk_user where
  "demo_ada = \<lparr>ur_username = js ''ada'', ur_password_hash = js ''pw'', ur_role = Admin\<rparr>"

definition demo_bob :: bk_user where
  "demo_bob = \<lparr>ur_username = js ''bob'', ur_password_hash = js ''pw'', ur_role = Admin\<rparr>"

definition demo_backend :: backend where
  "demo_backend = \<lparr>bk_users = [demo_ada, demo_bob], bk_sessions = [], bk_failures = (\<lambda>_. []), bk_held = [], bk_next_file = 1,
     bk_isolated = False, bk_attached = True, bk_clock = 0, bk_tasks = [], bk_next = 0\<rparr>"

lemma demo_backend_init: "backend_init demo_backend"
  by (simp add: backend_init_def demo_backend_def demo_ada_def demo_bob_def count_admins_def)

lemma demo_sendable: "sendable (Login (js ''ada'') (js ''pw''))" "sendable (Login (js ''bob'') (js ''pw''))"
  by (simp_all add: json_object_def json_member_def json_string_def json_unit_def json_short_def js_def
      high_surrogate_def low_surrogate_def)

lemma demo_nameable: "nameable (js ''ada'')" "nameable (js ''bob'')"
  by (simp_all add: nameable_def encodeURIComponent_def js_def high_surrogate_def low_surrogate_def)

definition demo_session :: "jsstr \<Rightarrow> jsstr \<Rightarrow> session_row" where
  "demo_session tok n = \<lparr>se_token = tok, se_username = n, se_role = Admin, se_expires_at = sessionTTL\<rparr>"

text \<open>Signing in.\<close>

lemma signed_in:
  assumes "reach init (backend_step bp) os b" and "bk_tasks b = []" and "bk_failures b = (\<lambda>_. [])"
    and "find_user n (bk_users b) = Some v" and "bp_match bp (ur_password_hash v) p" and "sendable (Login n p)"
    and "tok \<notin> se_token ` set (bk_sessions b)"
  shows "\<exists>new. reach init (backend_step bp) (os @ new) (b\<lparr>bk_next := bk_next b + 1, bk_sessions := bk_sessions b @
    [\<lparr>se_token = tok, se_username = ur_username v, se_role = ur_role v, se_expires_at = bk_clock b + sessionTTL\<rparr>], bk_tasks := []\<rparr>)"
proof -
  have none: "length (recentFailures t []) < loginMaxFailures" "(\<lambda>_. [])(ip := recentFailures t []) = (\<lambda>_. [])" for t and ip :: jsstr
    by (auto simp: recentFailures_def loginMaxFailures_def)
  have same: "b\<lparr>bk_next := x, bk_failures := \<lambda>_. [], bk_tasks := y\<rparr> = b\<lparr>bk_next := x, bk_tasks := y\<rparr>" for x y
    using assms(3) by (cases b) simp
  from login_matched [OF assms(1,2,4,5), of "[]"] assms(3,6)
  have "reach init (backend_step bp) (os @ [Arrived (bk_next b) (Inr (B_login (Some (n, p))))])
      (b\<lparr>bk_next := bk_next b + 1, bk_tasks := [(bk_next b, Make_session v)]\<rparr>)"
    by (simp add: none same)
  from session_made [OF this, of "bk_next b" v tok] assms(7) show ?thesis by force
qed

text \<open>Bob is signed in, and then Ada too.\<close>

lemma bob_signed_in:
  assumes "backend_init b0" and "bk_users b0 = [demo_ada, demo_bob]"
  shows "\<exists>os. reach backend_init (backend_step demo_bp) os (b0\<lparr>bk_next := bk_next b0 + 1,
    bk_sessions := [(demo_session [1] (js ''bob''))\<lparr>se_expires_at := bk_clock b0 + sessionTTL\<rparr>], bk_tasks := []\<rparr>)"
proof -
  have "find_user (js ''bob'') (bk_users b0) = Some demo_bob" "bp_match demo_bp (ur_password_hash demo_bob) (js ''pw'')"
    by (simp_all add: find_user_def assms(2) demo_ada_def demo_bob_def demo_bp_def)
  from signed_in [OF reach_init [of backend_init, OF assms(1)] _ _ this demo_sendable(2), of "[1]"] assms(1)
  show ?thesis by (simp add: backend_init_def demo_session_def demo_bob_def)
qed

lemma demo_signed:
  "\<exists>os b. reach backend_init (backend_step demo_bp) os b \<and> bk_users b = [demo_ada, demo_bob] \<and> bk_tasks b = [] \<and>
     bk_failures b = (\<lambda>_. []) \<and> bk_clock b = 0 \<and> bk_sessions b = [demo_session [1] (js ''bob'')] \<and> \<not> bk_isolated b"
  "\<exists>os b. reach backend_init (backend_step demo_bp) os b \<and> bk_users b = [demo_ada, demo_bob] \<and> bk_tasks b = [] \<and>
     bk_sessions b = [demo_session [1] (js ''bob''), demo_session [2] (js ''ada'')] \<and> bk_clock b = 0"
proof -
  from bob_signed_in [OF demo_backend_init] obtain os b where b: "reach backend_init (backend_step demo_bp) os b"
    "bk_users b = [demo_ada, demo_bob]" "bk_tasks b = []" "bk_failures b = (\<lambda>_. [])" "bk_clock b = 0"
    "bk_sessions b = [demo_session [1] (js ''bob'')]" "\<not> bk_isolated b"
    by (force simp: demo_backend_def demo_session_def)
  then show "\<exists>os b. reach backend_init (backend_step demo_bp) os b \<and> bk_users b = [demo_ada, demo_bob] \<and> bk_tasks b = [] \<and>
     bk_failures b = (\<lambda>_. []) \<and> bk_clock b = 0 \<and> bk_sessions b = [demo_session [1] (js ''bob'')] \<and> \<not> bk_isolated b" by blast
  have "find_user (js ''ada'') (bk_users b) = Some demo_ada" "bp_match demo_bp (ur_password_hash demo_ada) (js ''pw'')"
    "[2] \<notin> se_token ` set (bk_sessions b)"
    by (simp_all add: find_user_def b demo_ada_def demo_bp_def demo_session_def)
  from signed_in [OF b(1,3,4) this(1,2) demo_sendable(1) this(3)] b
  show "\<exists>os b. reach backend_init (backend_step demo_bp) os b \<and> bk_users b = [demo_ada, demo_bob] \<and> bk_tasks b = [] \<and>
     bk_sessions b = [demo_session [1] (js ''bob''), demo_session [2] (js ''ada'')] \<and> bk_clock b = 0"
    by (force simp: demo_session_def demo_ada_def)
qed

text \<open>Runs that serve one request after the other: the task in flight is run, turn by turn.\<close>

fun serve :: "backend_platform \<Rightarrow> turn list \<Rightarrow> backend \<Rightarrow> backend \<times> backend_out list" where
  "serve bp [] b = (b, [])"
| "serve bp (tn # tns) b = (case bk_tasks b of
     [(i, t)] \<Rightarrow>
       (case run_task bp tn i t b of (b', out, t') \<Rightarrow>
         (case serve bp tns (b'\<lparr>bk_tasks := left_tasks i t'\<rparr>) of (b2, out') \<Rightarrow> (b2, out @ out')))
   | _ \<Rightarrow> (b, []))"

lemma left_busy: "busy (left_tasks i t) \<le> 1"
  by (cases t) (simp_all add: left_tasks_def)

lemma served_calm:
  assumes "reach init (calm_step bp) os b" and "serve bp tns b = (b', out)"
  shows "reach init (calm_step bp) (os @ out) b'"
  using assms
proof (induction tns arbitrary: os b out)
  case (Cons tn tns)
  show ?case
  proof (cases "\<exists>i t. bk_tasks b = [(i, t)]")
    case True
    then obtain i t where ts: "bk_tasks b = [] @ (i, t) # []" by auto
    obtain b1 o1 t' where r: "run_task bp tn i t b = (b1, o1, t')" by (cases "run_task bp tn i t b") auto
    from backend_step.runs [OF ts r] have "calm_step bp b o1 (b1\<lparr>bk_tasks := left_tasks i t'\<rparr>)"
      using left_busy by (simp add: calm_step_def)
    from Cons.IH [OF reach_step [OF Cons.prems(1) this]] Cons.prems(2) ts r show ?thesis by (auto split: prod.splits)
  next
    case False
    with Cons.prems show ?thesis by (auto split: list.splits)
  qed
qed simp

lemma asked_calm:
  assumes "reach init (calm_step bp) os b" and "bk_tasks b = []" and "received rq = (g, c)" and "entry bp sd (g, c) = Inr t"
    and "serve bp tns (b\<lparr>bk_next := bk_next b + 1, bk_tasks := [(bk_next b, t)]\<rparr>) = (b', out)"
  shows "reach init (calm_step bp) (os @ Arrived (bk_next b) c # out) b'"
proof -
  from assms(3) have gc: "mux (rq_method rq) (fetched_path (rq_path rq)) (rq_body rq) = (g, c)" by (simp add: received_def)
  from backend_step.arrives [OF gc [symmetric] assms(4) [symmetric], of b]
  have "calm_step bp b [Arrived (bk_next b) c] (b\<lparr>bk_next := bk_next b + 1, bk_tasks := [(bk_next b, t)]\<rparr>)"
    by (simp add: calm_step_def answer_now_def start_task_def assms(2))
  from served_calm [OF reach_step [OF assms(1) this] assms(5)] show ?thesis by simp
qed

lemma login_calm:
  assumes "reach init (calm_step bp) os b" and "bk_tasks b = []" and "sendable (Login n p)"
    and "serve bp tns (b\<lparr>bk_next := bk_next b + 1, bk_tasks := [(bk_next b, Login_start ip (Some (n, p)))]\<rparr>) = (b', out)"
  shows "reach init (calm_step bp) (os @ Arrived (bk_next b) (Inr (B_login (Some (n, p)))) # out) b'"
proof -
  let ?sd = "\<lparr>sd_ip = ip, sd_cookie = None, sd_bearer = [], sd_path = []\<rparr>"
  obtain lq where lq: "send_of (Login n p) = Inr lq" by simp
  from sendable_served [OF lq assms(3)] have "received lq = (Anyone, Inr (B_login (Some (n, p))))" by simp
  moreover have "entry bp ?sd (Anyone, Inr (B_login (Some (n, p)))) = Inr (Login_start ip (Some (n, p)))" by (simp add: entry_def)
  ultimately show ?thesis using asked_calm [OF assms(1,2)] assms(4) by blast
qed

text \<open>Bob and Ada sign in, and then Bob takes Ada's role away; her sessions are not deleted yet.\<close>

lemma demo_demoting:
  "\<exists>os b. reach backend_init (calm_step demo_bp) os b \<and> bk_users b = [demo_ada\<lparr>ur_role := Analyst\<rparr>, demo_bob] \<and>
     bk_sessions b = [demo_session [1] (js ''bob''), demo_session [2] (js ''ada'')] \<and> (\<forall>n. Purge_failed n \<notin> set os) \<and>
     bk_tasks b = [(2, Purge_sessions (of_row (demo_session [1] (js ''bob''))) (Set_role (js ''ada'') Analyst))]"
proof -
  let ?bob = "demo_session [1] (js ''bob'')" and ?ada = "demo_session [2] (js ''ada'')" and ?ch = "Set_role (js ''ada'') Analyst"
  let ?b1 = "demo_backend\<lparr>bk_next := 1, bk_sessions := [?bob]\<rparr>"
  let ?b2 = "demo_backend\<lparr>bk_next := 2, bk_sessions := [?bob, ?ada]\<rparr>"
  note evals = demo_backend_def demo_ada_def demo_bob_def demo_bp_def demo_session_def fine_turn_def left_tasks_def
    run_login_start_def run_find_login_def run_make_session_def find_user_def recentFailures_def loginMaxFailures_def Let_def
  have "serve demo_bp [fine_turn [], fine_turn [], fine_turn [1]]
      (demo_backend\<lparr>bk_next := bk_next demo_backend + 1, bk_tasks := [(bk_next demo_backend, Login_start [] (Some (js ''bob'', js ''pw'')))]\<rparr>) =
      (?b1, [Session_made [1] (js ''bob'') Admin, Answered 0 200])"
    by (simp add: evals fun_upd_idem)
  from login_calm [OF reach_init [of backend_init, OF demo_backend_init] _ demo_sendable(2) this]
  have r1: "reach backend_init (calm_step demo_bp)
      [Arrived 0 (Inr (B_login (Some (js ''bob'', js ''pw'')))), Session_made [1] (js ''bob'') Admin, Answered 0 200] ?b1"
    by (simp add: demo_backend_def)
  have "serve demo_bp [fine_turn [], fine_turn [], fine_turn [2]]
      (?b1\<lparr>bk_next := bk_next ?b1 + 1, bk_tasks := [(bk_next ?b1, Login_start [] (Some (js ''ada'', js ''pw'')))]\<rparr>) =
      (?b2, [Session_made [2] (js ''ada'') Admin, Answered 1 200])"
    by (simp add: evals fun_upd_idem)
  from login_calm [OF r1 _ demo_sendable(1) this] obtain os where
    r2: "reach backend_init (calm_step demo_bp) os ?b2" and os: "\<forall>n. Purge_failed n \<notin> set os"
    by (fastforce simp: demo_backend_def)
  obtain rq where rq: "send_of (change_call ?ch) = Inr rq" and sd: "sendable (change_call ?ch)"
    using change_sendable [of ?ch] demo_nameable by auto
  from sendable_served [OF rq sd] have g: "received rq = (Admin_session, Inr (B_set_role (js ''ada'') (Some (role_str Analyst))))" by simp
  let ?auth = "Authenticate (Some [1]) Admin_session (Inr (B_set_role (js ''ada'') (Some (role_str Analyst))))"
  let ?sd = "\<lparr>sd_ip = [], sd_cookie = Some [1], sd_bearer = [], sd_path = []\<rparr>"
  have e: "entry demo_bp ?sd (Admin_session, Inr (B_set_role (js ''ada'') (Some (role_str Analyst)))) = Inr ?auth" by (simp add: entry_def)
  have "serve demo_bp (replicate 4 (fine_turn [])) (?b2\<lparr>bk_next := bk_next ?b2 + 1, bk_tasks := [(bk_next ?b2, ?auth)]\<rparr>) =
      (?b2\<lparr>bk_next := 3, bk_users := [demo_ada\<lparr>ur_role := Analyst\<rparr>, demo_bob], bk_tasks := [(2, Purge_sessions (of_row ?bob) ?ch)]\<rparr>,
       [Account_changed (of_row ?bob) ?ch])"
    by (simp add: evals numeral_eq_Suc run_authenticate_def next_task_def run_find_target_def run_count_admins_def
        run_change_account_def count_admins_def of_row_def sessionTTL_def)
  from asked_calm [OF r2 _ g e this] os show ?thesis by (fastforce simp: demo_backend_def)
qed

text \<open>Ada's session is about to be deleted, and Bob's is an admin's.\<close>

theorem accounts_calm_witness:
  "\<exists>os b. reach backend_init (calm_step demo_bp) os b \<and>
     set (bk_sessions b) = {demo_session [1] (js ''bob''), demo_session [2] (js ''ada'')} \<and>
     (\<exists>u \<in> set (bk_users b). ur_username u = js ''bob'' \<and> ur_role u = Admin) \<and>
     (\<nexists>u. u \<in> set (bk_users b) \<and> ur_username u = js ''ada'' \<and> ur_role u = Admin) \<and>
     (\<exists>i s ch. (i, Purge_sessions s ch) \<in> set (bk_tasks b) \<and> changed_name ch = js ''ada'')"
proof -
  from demo_demoting obtain os b where r: "reach backend_init (calm_step demo_bp) os b"
    and us: "bk_users b = [demo_ada\<lparr>ur_role := Analyst\<rparr>, demo_bob]"
    and ss: "bk_sessions b = [demo_session [1] (js ''bob''), demo_session [2] (js ''ada'')]"
    and os: "\<forall>n. Purge_failed n \<notin> set os"
    and ts: "bk_tasks b = [(2, Purge_sessions (of_row (demo_session [1] (js ''bob''))) (Set_role (js ''ada'') Analyst))]" by blast
  have names: "js ''ada'' \<noteq> js ''bob''" by (simp add: js_def)
  have no_ada: "\<nexists>u. u \<in> set (bk_users b) \<and> ur_username u = js ''ada'' \<and> ur_role u = Admin"
    by (auto simp: us demo_ada_def demo_bob_def js_def)
  from accounts_calm [OF r] have c: "(\<exists>u \<in> set (bk_users b). ur_username u = se_username q \<and> ur_role u = se_role q) \<or>
       (\<exists>i s ch. (i, Purge_sessions s ch) \<in> set (bk_tasks b) \<and> changed_name ch = se_username q)" if "q \<in> set (bk_sessions b)" for q
    using that os by blast
  from c [of "demo_session [2] (js ''ada'')"] no_ada
  have "\<exists>i s ch. (i, Purge_sessions s ch) \<in> set (bk_tasks b) \<and> changed_name ch = js ''ada''" by (auto simp: ss demo_session_def)
  moreover from c [of "demo_session [1] (js ''bob'')"] names ts
  have "\<exists>u \<in> set (bk_users b). ur_username u = js ''bob'' \<and> ur_role u = Admin" by (auto simp: ss demo_session_def)
  ultimately show ?thesis using r no_ada ss by fastforce
qed

theorem last_admins_lost_witness:
  "\<exists>os b. reach backend_init (backend_step demo_bp) os b \<and> count_admins (bk_users b) = 0 \<and>
     (\<exists>s. Account_changed s (Remove_user (js ''bob'')) \<in> set os)"
proof -
  from demo_signed(2) obtain os b where r: "reach backend_init (backend_step demo_bp) os b" and t: "bk_tasks b = []"
    and b: "bk_users b = [demo_ada, demo_bob]" "bk_sessions b = [demo_session [1] (js ''bob''), demo_session [2] (js ''ada'')]" "bk_clock b = 0"
    by blast
  have a: "filter (\<lambda>u. ur_role u = Admin) (bk_users b) = [demo_ada, demo_bob]" by (simp add: b demo_ada_def demo_bob_def)
  have i: "in_force b (demo_session [2] (js ''ada''))" "in_force b (demo_session [1] (js ''bob''))"
    by (simp_all add: in_force_def b demo_session_def sessionTTL_def)
  from last_admins_lost [OF r t a _ _ i(1) _ _ i(2)] demo_nameable obtain new b' where
    "reach backend_init (backend_step demo_bp) (os @ new) b'" "count_admins (bk_users b') = 0"
    "Account_changed (of_row (demo_session [2] (js ''ada''))) (Remove_user (js ''bob'')) \<in> set new"
    by (auto simp: demo_ada_def demo_bob_def demo_session_def)
  then show ?thesis by (intro exI [of _ "os @ new"] exI [of _ b']) auto
qed

theorem demoted_admin_signs_in_witness:
  "\<exists>os b s. reach backend_init (backend_step demo_bp) os b \<and> find_user (js ''ada'') (bk_users b) = Some (demo_ada\<lparr>ur_role := Analyst\<rparr>) \<and>
     in_force b s \<and> se_username s = js ''ada'' \<and> se_role s = Admin"
proof -
  from demo_signed(1) obtain os b where r: "reach backend_init (backend_step demo_bp) os b" and t: "bk_tasks b = []"
    and b: "bk_users b = [demo_ada, demo_bob]" "bk_sessions b = [demo_session [1] (js ''bob'')]" "bk_clock b = 0" "bk_failures b = (\<lambda>_. [])"
    by blast
  have f: "find_user (js ''ada'') (bk_users b) = Some demo_ada" "ur_role demo_ada = Admin"
    "bp_match demo_bp (ur_password_hash demo_ada) (js ''pw'')"
    by (simp_all add: find_user_def b demo_ada_def demo_bp_def)
  have l: "length (recentFailures (bk_clock b) (bk_failures b [])) < loginMaxFailures"
    by (simp add: b recentFailures_def loginMaxFailures_def)
  have i: "in_force b (demo_session [1] (js ''bob''))" "se_role (demo_session [1] (js ''bob'')) = Admin" "1 < count_admins (bk_users b)"
    by (simp_all add: in_force_def b demo_session_def sessionTTL_def count_admins_def demo_ada_def demo_bob_def)
  from demoted_admin_signs_in [OF r t f l demo_sendable(1) demo_nameable(1) i] show ?thesis by blast
qed

theorem server_privileges_witness:
  "\<exists>os s. Account_changed s (Remove_user (js ''ada'')) \<in> set os \<and> admin_of os s"
proof -
  let ?ch = "Remove_user (js ''ada'')"
  from demo_signed(1) obtain os b where r: "reach backend_init (backend_step demo_bp) os b"
    and b: "bk_users b = [demo_ada, demo_bob]" "bk_sessions b = [demo_session [1] (js ''bob'')]" "bk_clock b = 0" by blast
  obtain rq where rq: "send_of (change_call ?ch) = Inr rq" "sendable (change_call ?ch)"
    using change_sendable [of ?ch] demo_nameable by auto
  have i: "in_force b (demo_session [1] (js ''bob''))" "se_role (demo_session [1] (js ''bob'')) = Admin"
    "find_user (changed_name ?ch) (bk_users b) = Some demo_ada" "1 < count_admins (bk_users b)"
    by (simp_all add: in_force_def b demo_session_def sessionTTL_def find_user_def count_admins_def demo_ada_def demo_bob_def)
  from change_asked [OF r i(1,2) rq i(3,4)] obtain n1 where r1: "reach backend_init (backend_step demo_bp) (os @ n1)
      (b\<lparr>bk_next := bk_next b + 1, bk_tasks := bk_tasks b @ [(bk_next b, Change_account (of_row (demo_session [1] (js ''bob''))) ?ch)]\<rparr>)"
    by auto
  from change_goes_through [OF r1, of "bk_tasks b"] obtain n2 b' where
    "reach backend_init (backend_step demo_bp) ((os @ n1) @ n2) b'"
    "Account_changed (of_row (demo_session [1] (js ''bob''))) ?ch \<in> set n2" by auto
  with server_privileges [OF this(1)] show ?thesis by (intro exI [of _ "(os @ n1) @ n2"]) auto
qed

end
