(* ===== verification/LoginLimit.thy ===== *)
theory LoginLimit
  imports Accounts
begin

text \<open>
  The limiter of sign-ins: what it bounds while sign-ins do not overlap, and that it bounds nothing when
  they do.
\<close>

subsection \<open>The limiter\<close>

fun failure_of :: "jsstr \<Rightarrow> backend_out \<Rightarrow> rat list" where
  "failure_of ip (Login_failed a t) = (if a = ip then [t] else [])"
| "failure_of ip _ = []"

definition failures_of :: "jsstr \<Rightarrow> backend_out list \<Rightarrow> rat list" where
  "failures_of ip os = concat (map (failure_of ip) os)"

lemma failures_of_append [simp]: "failures_of ip (xs @ ys) = failures_of ip xs @ failures_of ip ys"
  and failures_of_Nil [simp]: "failures_of ip [] = []"
  and failures_of_Cons [simp]: "failures_of ip (x # xs) = failure_of ip x @ failures_of ip xs"
  by (simp_all add: failures_of_def)

text \<open>The sign-ins that have passed the limiter and may still fail.\<close>

fun login_of :: "task \<Rightarrow> jsstr option" where
  "login_of (Find_login ip u p) = Some ip"
| "login_of (Record_failure ip) = Some ip"
| "login_of _ = None"

definition open_logins :: "jsstr \<Rightarrow> (nat \<times> task) list \<Rightarrow> nat" where
  "open_logins ip ts = length (filter (\<lambda>it. login_of (snd it) = Some ip) ts)"

lemma open_logins_simps [simp]: "open_logins ip [] = 0" "open_logins ip (xs @ ys) = open_logins ip xs + open_logins ip ys"
  "open_logins ip (it # ys) = (if login_of (snd it) = Some ip then 1 else 0) + open_logins ip ys"
  by (simp_all add: open_logins_def)

lemma login_changes: "login_of t = Some ip \<Longrightarrow> changing t"
  by (cases t) simp_all

lemma no_logins: "busy ts = 0 \<Longrightarrow> open_logins ip ts = 0"
  using login_changes by (fastforce simp: open_logins_def busy_0 filter_empty_conv)

lemma recent_simps [simp]: "recentFailures now (xs @ ys) = recentFailures now xs @ recentFailures now ys"
  "recentFailures now [] = []" "recentFailures now [now] = [now]" "recentFailures now (recentFailures now xs) = recentFailures now xs"
  by (simp_all add: recentFailures_def loginWindow_def)

lemma recent_later: "now \<le> later \<Longrightarrow> recentFailures later (recentFailures now xs) = recentFailures later xs"
  by (auto simp: recentFailures_def intro: filter_cong)

lemma recent_shorter: "now \<le> later \<Longrightarrow> length (recentFailures later xs) \<le> length (recentFailures now xs)"
  by (metis recent_later recentFailures_def length_filter_le)

definition limit_inv :: "backend_out list \<Rightarrow> backend \<Rightarrow> bool" where
  "limit_inv os b \<longleftrightarrow> busy (bk_tasks b) \<le> 1 \<and>
     (\<forall>ip. recentFailures (bk_clock b) (bk_failures b ip) = recentFailures (bk_clock b) (failures_of ip os) \<and>
        length (recentFailures (bk_clock b) (failures_of ip os)) + open_logins ip (bk_tasks b) \<le> loginMaxFailures)"

text \<open>Other tasks leave the limiter alone and are no sign-ins.\<close>

lemma call_no_login: "session_call bp tok s c = Inr t \<Longrightarrow> login_of t = None"
  by (cases c) (auto split: option.splits sum.splits if_splits)

lemma other_run:
  assumes "run_task bp tn i t b = (b', out, t')" and "login_of t = None" and "\<forall>ip cred. t \<noteq> Login_start ip cred"
  shows "bk_failures b' = bk_failures b \<and> bk_clock b' = bk_clock b \<and> failures_of ip out = [] \<and> open_logins ip (left_tasks i t') = 0"
  using assms by (cases t) (auto simp: task_defs left_tasks_def failures_of_def o_def call_no_login split: task_splits)

lemma limit_run:
  assumes "limit_inv os b" and "bk_tasks b = xs @ (i, t) # ys" and "run_task bp tn i t b = (b', out, t')"
  shows "bk_clock b' = bk_clock b \<and>
    (\<forall>ip. recentFailures (bk_clock b) (bk_failures b' ip) = recentFailures (bk_clock b) (failures_of ip (os @ out)) \<and>
       length (recentFailures (bk_clock b) (failures_of ip (os @ out))) + open_logins ip (xs @ left_tasks i t' @ ys) \<le> loginMaxFailures)"
proof -
  have inv: "\<forall>ip. recentFailures (bk_clock b) (bk_failures b ip) = recentFailures (bk_clock b) (failures_of ip os)"
    "\<forall>ip. length (recentFailures (bk_clock b) (failures_of ip os)) + open_logins ip (xs @ (i, t) # ys) \<le> loginMaxFailures"
    using assms(1,2) by (simp_all add: limit_inv_def)
  show ?thesis
  proof (cases t)
    case (Login_start a cred)
    have "busy xs = 0" "busy ys = 0" using assms(1,2) Login_start by (simp_all add: limit_inv_def)
    then have "open_logins ip xs = 0" "open_logins ip ys = 0" for ip by (simp_all add: no_logins)
    then show ?thesis using inv assms(3) Login_start
      by (auto simp: run_login_start_def reply_def Let_def left_tasks_def split: task_splits)
  next
    case (Find_login a u p)
    moreover have "\<forall>ip. length (recentFailures (bk_clock b) (failures_of ip os)) + (open_logins ip xs + open_logins ip ys) \<le> loginMaxFailures"
    proof
      fix ip
      show "length (recentFailures (bk_clock b) (failures_of ip os)) + (open_logins ip xs + open_logins ip ys) \<le> loginMaxFailures"
        using inv(2) [THEN spec, of ip] by (auto split: if_splits)
    qed
    ultimately show ?thesis using inv assms(3) by (auto simp: run_find_login_def left_tasks_def split: task_splits)
  next
    case (Record_failure a)
    then show ?thesis using inv assms(3) by (auto simp: run_record_failure_def left_tasks_def split: task_splits)
  qed (use other_run [OF assms(3)] inv in simp_all)
qed

lemma entry_no_login: "entry bp sd gc = Inr t \<Longrightarrow> login_of t = None"
  by (auto simp: entry_def split: guard.splits sum.splits bk_call.splits if_splits option.splits elim!: bearer_call.elims)

lemma limit_step:
  assumes "limit_inv os b" and "calm_step bp b out b'"
  shows "limit_inv (os @ out) b'"
proof -
  have calm: "busy (bk_tasks b') \<le> 1" and "backend_step bp b out b'" using assms(2) by (simp_all add: calm_step_def)
  from this(2) show ?thesis
  proof cases
    case (arrives gc m segs body r sd)
    have "\<forall>t. r = Inr t \<longrightarrow> login_of t = None" using entry_no_login [of bp sd gc] arrives by simp
    then show ?thesis using assms(1) calm arrives
      by (auto simp: limit_inv_def start_task_def answer_now_def split: sum.splits)
  next
    case (runs xs i t ys tn b2 t')
    with limit_run [OF assms(1) runs(2,3)] calm show ?thesis by (simp add: limit_inv_def)
  next
    case (passes now)
    have "recentFailures now (bk_failures b ip) = recentFailures now (failures_of ip os)" for ip
      using assms(1) recent_later [OF passes(3)] by (metis limit_inv_def)
    moreover have "length (recentFailures now (failures_of ip os)) + open_logins ip (bk_tasks b) \<le> loginMaxFailures" for ip
      using assms(1) recent_shorter [OF passes(3), of "failures_of ip os"] unfolding limit_inv_def
      by (meson add_le_mono1 le_trans)
    ultimately show ?thesis using passes calm by (simp add: limit_inv_def)
  qed (use assms(1) calm in \<open>simp_all add: limit_inv_def start_task_def\<close>)
qed

interpretation limiter: invariant_system backend_init "calm_step bp" limit_inv
  by unfold_locales (simp add: limit_inv_def backend_init_def loginMaxFailures_def, rule limit_step)

text \<open>Sign-ins that are started before any of them has failed all pass the limiter.\<close>

lemma logins_start:
  assumes "reach init (backend_step bp) os b" and "bk_tasks b = []" and "bk_failures b ip = []" and "sendable (Login n p)"
  shows "\<exists>new ts. reach init (backend_step bp) (os @ new) (b\<lparr>bk_next := bk_next b + k, bk_tasks := ts\<rparr>) \<and> failures_of ip new = [] \<and>
    map snd ts = replicate k (Find_login ip n p)"
proof (induction k)
  case 0
  show ?case using assms(1,2) by (intro exI [of _ "[]"], cases b) simp
next
  case (Suc k)
  then obtain new ts where r: "reach init (backend_step bp) (os @ new) (b\<lparr>bk_next := bk_next b + k, bk_tasks := ts\<rparr>)"
    and new: "failures_of ip new = []" and ts: "map snd ts = replicate k (Find_login ip n p)" by blast
  let ?sd = "\<lparr>sd_ip = ip, sd_cookie = None, sd_bearer = [], sd_path = []\<rparr>" and ?i = "bk_next b + k"
  obtain lq where lq: "send_of (Login n p) = Inr lq" by simp
  from sendable_served [OF lq assms(4)]
  have gc: "mux (rq_method lq) (fetched_path (rq_path lq)) (rq_body lq) = (Anyone, Inr (B_login (Some (n, p))))"
    by (simp add: received_def)
  have e: "entry bp ?sd (Anyone, Inr (B_login (Some (n, p)))) = Inr (Login_start ip (Some (n, p)))" by (simp add: entry_def)
  let ?new = "new @ [Arrived ?i (Inr (B_login (Some (n, p))))]"
  have "reach init (backend_step bp) (os @ ?new)
      (b\<lparr>bk_next := bk_next b + Suc k, bk_tasks := ts @ [(?i, Login_start ip (Some (n, p)))]\<rparr>)"
    using reach_step [OF r backend_step.arrives [OF gc [symmetric] e [symmetric]]] by (simp add: answer_now_def start_task_def)
  moreover have "(bk_failures b)(ip := []) = bk_failures b" using assms(3) by auto
  moreover have "b\<lparr>bk_next := x, bk_failures := bk_failures b, bk_tasks := y\<rparr> = b\<lparr>bk_next := x, bk_tasks := y\<rparr>" for x y by simp
  ultimately have "reach init (backend_step bp) (os @ ?new)
      (b\<lparr>bk_next := bk_next b + Suc k, bk_tasks := ts @ [(?i, Find_login ip n p)]\<rparr>)"
    using reach_last [of init bp "os @ ?new" ts ?i "Login_start ip (Some (n, p))" "b\<lparr>bk_next := bk_next b + Suc k\<rparr>"] assms(3)
    by (simp add: run_login_start_def Let_def left_tasks_def loginMaxFailures_def)
  moreover have "failures_of ip ?new = []" using new by simp
  ultimately show ?case using ts by (intro exI [of _ ?new] exI [of _ "ts @ [(?i, Find_login ip n p)]"]) (simp add: replicate_append_same)
qed

lemma logins_fail:
  assumes "\<forall>v \<in> set (bk_users b). ur_username v = n \<longrightarrow> \<not> bp_match bp (ur_password_hash v) p"
    and "reach init (backend_step bp) os b" and "map snd (bk_tasks b) = replicate k (Find_login ip n p)"
  shows "\<exists>new b'. reach init (backend_step bp) (os @ new) b' \<and> failures_of ip new = replicate k (bk_clock b) \<and>
    bk_clock b' = bk_clock b \<and> bk_tasks b' = []"
  using assms
proof (induction k arbitrary: os b)
  case 0
  then show ?case by (intro exI [of _ "[]"]) auto
next
  case (Suc k)
  then obtain i ts where ts: "bk_tasks b = [] @ (i, Find_login ip n p) # ts" "map snd ts = replicate k (Find_login ip n p)"
    by (auto simp: map_eq_Cons_conv)
  have "run_task bp (fine_turn []) i (Find_login ip n p) b = (b, [], Some (Record_failure ip))"
    using Suc.prems(1) by (auto simp: run_find_login_def fine_turn_def split: option.splits dest: find_user_mem)
  from reach_run [OF Suc.prems(2) ts(1) this]
  have r: "reach init (backend_step bp) os (b\<lparr>bk_tasks := [] @ (i, Record_failure ip) # ts\<rparr>)" by (simp add: left_tasks_def)
  from reach_run [OF r, of "[]" i "Record_failure ip" ts "fine_turn []"]
  have r2: "reach init (backend_step bp) (os @ [Login_failed ip (bk_clock b), Answered i 401])
      (b\<lparr>bk_failures := (bk_failures b)(ip := recentFailures (bk_clock b) (bk_failures b ip) @ [bk_clock b]), bk_tasks := ts\<rparr>)"
    by (simp add: run_record_failure_def left_tasks_def)
  from Suc.IH [OF _ r2] Suc.prems(1) ts(2) obtain new b' where
    "reach init (backend_step bp) (os @ ([Login_failed ip (bk_clock b), Answered i 401] @ new)) b'"
    "failures_of ip new = replicate k (bk_clock b)" "bk_clock b' = bk_clock b" "bk_tasks b' = []"
    by auto
  then show ?case by (intro exI [of _ "[Login_failed ip (bk_clock b), Answered i 401] @ new"] exI [of _ b']) simp
qed

subsection \<open>Properties of the limiter\<close>


text \<open>C33: Sign-ins that overlap are not limited: from an address that has not failed yet any number of wrong
  passwords can be tried at one instant, each of them compared and answered, because an attempt is
  counted only after its password was.\<close>

theorem overlapping_logins_unlimited:
  assumes "reach backend_init (backend_step bp) os b" and "bk_tasks b = []" and "bk_failures b ip = []" and "sendable (Login n p)"
    and "\<forall>v \<in> set (bk_users b). ur_username v = n \<longrightarrow> \<not> bp_match bp (ur_password_hash v) p"
  shows "\<exists>new b'. reach backend_init (backend_step bp) (os @ new) b' \<and> bk_clock b' = bk_clock b \<and>
    failures_of ip new = replicate k (bk_clock b)"
proof -
  from logins_start [OF assms(1-4), of k] obtain new ts where
    r: "reach backend_init (backend_step bp) (os @ new) (b\<lparr>bk_next := bk_next b + k, bk_tasks := ts\<rparr>)" and
    new: "failures_of ip new = []" "map snd ts = replicate k (Find_login ip n p)" by blast
  from logins_fail [OF _ r, of n p k ip] assms(5) new obtain more b' where
    "reach backend_init (backend_step bp) (os @ (new @ more)) b'" "failures_of ip more = replicate k (bk_clock b)" "bk_clock b' = bk_clock b"
    by auto
  with new show ?thesis by (intro exI [of _ "new @ more"] exI [of _ b']) simp
qed

text \<open>A wrong password is compared and counted, one request after the other, and the sixth is refused.\<close>

lemma demo_wrong:
  "sendable (Login (js ''ada'') (js ''pwd''))"
  "\<forall>v \<in> set (bk_users demo_backend). ur_username v = js ''ada'' \<longrightarrow> \<not> bp_match demo_bp (ur_password_hash v) (js ''pwd'')"
  by (simp_all add: json_object_def json_member_def json_string_def json_unit_def json_short_def js_def
      high_surrogate_def low_surrogate_def demo_backend_def demo_ada_def demo_bob_def demo_bp_def)

lemma demo_failures:
  assumes "k \<le> 5"
  shows "\<exists>os. reach backend_init (calm_step demo_bp) os
      (demo_backend\<lparr>bk_next := k, bk_failures := (\<lambda>_. [])([49] := replicate k 0)\<rparr>) \<and> failures_of [49] os = replicate k 0"
  using assms
proof (induction k)
  case 0
  have "demo_backend\<lparr>bk_next := 0, bk_failures := \<lambda>_. []\<rparr> = demo_backend" by (simp add: demo_backend_def)
  then show ?case using reach_init [of backend_init, OF demo_backend_init] by (intro exI [of _ "[]"]) simp
next
  case (Suc k)
  let ?f = "\<lambda>k. (\<lambda>_. [])([49] := replicate k 0)"
  let ?b = "\<lambda>k. demo_backend\<lparr>bk_next := k, bk_failures := ?f k\<rparr>"
  from Suc.prems have "k \<le> 5" by simp
  from Suc.IH [OF this] obtain os where
    r: "reach backend_init (calm_step demo_bp) os (?b k)" and os: "failures_of [49] os = replicate k 0" by blast
  have rec: "recentFailures 0 (replicate k 0) = replicate k 0" by (simp add: recentFailures_def loginWindow_def)
  have "serve demo_bp (replicate 3 (fine_turn [])) (?b k\<lparr>bk_next := bk_next (?b k) + 1,
      bk_tasks := [(bk_next (?b k), Login_start [49] (Some (js ''ada'', js ''pwd'')))]\<rparr>) = (?b (Suc k), [Login_failed [49] 0, Answered k 401])"
    using Suc.prems rec
    by (simp add: numeral_eq_Suc run_login_start_def run_find_login_def run_record_failure_def demo_backend_def demo_ada_def demo_bob_def
        demo_bp_def fine_turn_def left_tasks_def find_user_def loginMaxFailures_def js_def Let_def fun_upd_idem replicate_append_same)
  from login_calm [OF r _ demo_wrong(1) this] os
  have "reach backend_init (calm_step demo_bp) (os @ [Arrived k (Inr (B_login (Some (js ''ada'', js ''pwd'')))), Login_failed [49] 0, Answered k 401]) (?b (Suc k))"
    by (simp add: demo_backend_def)
  then show ?case using os by (intro exI conjI) (assumption, simp add: replicate_append_same)
qed

lemma demo_sixth:
  "\<exists>os b. reach backend_init (calm_step demo_bp) os b \<and> bk_clock b = 0 \<and> failures_of [49] os = replicate 5 0 \<and> Answered 5 429 \<in> set os"
proof -
  let ?b = "demo_backend\<lparr>bk_next := 5, bk_failures := (\<lambda>_. [])([49] := replicate 5 0)\<rparr>"
  obtain os where r: "reach backend_init (calm_step demo_bp) os ?b" and os: "failures_of [49] os = replicate 5 0"
    using demo_failures [of 5] by blast
  have rec: "recentFailures 0 (replicate 5 0) = replicate 5 0" by (simp add: recentFailures_def loginWindow_def)
  have "serve demo_bp [fine_turn []] (?b\<lparr>bk_next := bk_next ?b + 1,
      bk_tasks := [(bk_next ?b, Login_start [49] (Some (js ''ada'', js ''pwd'')))]\<rparr>) = (?b\<lparr>bk_next := 6\<rparr>, [Answered 5 429])"
    using rec by (simp add: run_login_start_def reply_def demo_backend_def left_tasks_def loginMaxFailures_def Let_def)
  from login_calm [OF r _ demo_wrong(1) this] os show ?thesis
    by (intro exI [of _ "os @ [Arrived 5 (Inr (B_login (Some (js ''ada'', js ''pwd'')))), Answered 5 429]"] exI [of _ "?b\<lparr>bk_next := 6\<rparr>"])
       (simp add: demo_backend_def)
qed


theorem overlapping_logins_unlimited_witness:
  "\<exists>new b'. reach backend_init (backend_step demo_bp) new b' \<and> failures_of [49] new = replicate 1000 0"
proof -
  have "bk_tasks demo_backend = []" "bk_failures demo_backend [49] = []" "bk_clock demo_backend = 0" by (simp_all add: demo_backend_def)
  with overlapping_logins_unlimited [OF reach_init [of backend_init, OF demo_backend_init] _ _ demo_wrong, of "[49]" 1000] show ?thesis by auto
qed

end
