(* ===== verification/HeldFiles.thy ===== *)
theory HeldFiles
  imports Accounts
begin

text \<open>
  The files that the interceptor submits and that wait for a decision.
\<close>

subsection \<open>Held files\<close>

fun decision_on :: "int \<Rightarrow> backend_out \<Rightarrow> review_status list" where
  "decision_on n (File_decided s st m) = (if m = n then [st] else [])"
| "decision_on n _ = []"

definition decisions_on :: "int \<Rightarrow> backend_out list \<Rightarrow> review_status list" where
  "decisions_on n os = concat (map (decision_on n) os)"

lemma decisions_on_append [simp]: "decisions_on n (xs @ ys) = decisions_on n xs @ decisions_on n ys"
  and decisions_on_Nil [simp]: "decisions_on n [] = []"
  and decisions_on_Cons [simp]: "decisions_on n (x # xs) = decision_on n x @ decisions_on n xs"
  by (simp_all add: decisions_on_def)

fun file_ok :: "task \<Rightarrow> bool" where
  "file_ok (Hold_file name path v) \<longleftrightarrow> held_label (verdict_label v)"
| "file_ok (Decide_held s st n) \<longleftrightarrow> st \<noteq> Pending"
| "file_ok (Authenticate cookie g c) \<longleftrightarrow> (\<forall>i. c \<noteq> Inr (B_decide_file Pending i))"
| "file_ok _ \<longleftrightarrow> True"

definition rows_ok :: "backend_out list \<Rightarrow> held_file list \<Rightarrow> int \<Rightarrow> bool" where
  "rows_ok os fs next \<longleftrightarrow> distinct (map hf_id fs) \<and> (\<forall>f \<in> set fs. hf_id f < next \<and> held_label (hf_label f)) \<and>
     (\<forall>f \<in> set fs. decisions_on (hf_id f) os = (if hf_status f = Pending then [] else [hf_status f])) \<and>
     (\<forall>n. n \<notin> hf_id ` set fs \<longrightarrow> decisions_on n os = [])"

definition files_inv :: "backend_out list \<Rightarrow> backend \<Rightarrow> bool" where
  "files_inv os b \<longleftrightarrow> rows_ok os (bk_held b) (bk_next_file b) \<and> (\<forall>it \<in> set (bk_tasks b). file_ok (snd it))"

lemma rows_more: "rows_ok os fs next \<Longrightarrow> (\<forall>n. decisions_on n out = []) \<Longrightarrow> rows_ok (os @ out) fs next"
  by (simp add: rows_ok_def)

text \<open>No route decides a file to be pending.\<close>

lemma mux_decides: "mux m segs b = (g, Inr (B_decide_file st i)) \<Longrightarrow> st \<noteq> Pending"
proof -
  assume "mux m segs b = (g, Inr (B_decide_file st i))"
  then obtain h ss vs where r: "first_route ROUTES ss = Some (g, h, vs)" and h: "call_of h m vs b = Inr (B_decide_file st i)"
    by (auto simp: mux_def split: option.splits)
  then have "h = H_file_decision st" by (cases h) (auto split: if_splits option.splits http_method.splits)
  then show ?thesis using first_route_mem [OF r] by (auto simp: ROUTES_def)
qed

lemma entry_file_ok: "entry bp sd (mux m segs body) = Inr t \<Longrightarrow> file_ok t"
  by (cases "mux m segs body")
     (auto simp: entry_def dest: mux_decides split: guard.splits sum.splits bk_call.splits if_splits option.splits elim!: bearer_call.elims)

lemma call_file_ok: "session_call bp tok s c = Inr t \<Longrightarrow> \<forall>i. c \<noteq> B_decide_file Pending i \<Longrightarrow> file_ok t"
  by (cases c) (auto split: option.splits sum.splits if_splits)

lemma hold_rows:
  assumes "rows_ok os (bk_held b) (bk_next_file b)" and "held_label (verdict_label v)" and "run_hold_file i tn name path v b = (b', out, t')"
  shows "rows_ok (os @ out) (bk_held b') (bk_next_file b') \<and> t' = None"
proof (cases "tn_ok tn")
  case True
  have "bk_next_file b \<notin> hf_id ` set (bk_held b)" using assms(1) by (auto simp: rows_ok_def)
  moreover from this have "decisions_on (bk_next_file b) os = []" using assms(1) by (simp add: rows_ok_def)
  moreover have "\<forall>f \<in> set (bk_held b). hf_id f \<le> bk_next_file b" using assms(1) by (force simp: rows_ok_def)
  ultimately show ?thesis using assms True by (auto simp: rows_ok_def run_hold_file_def)
qed (use assms in \<open>auto simp: run_hold_file_def reply_def intro!: rows_more\<close>)

lemma decide_rows:
  assumes "rows_ok os (bk_held b) (bk_next_file b)" and "st \<noteq> Pending" and "run_decide_held i tn s st n b = (b', out, t')"
  shows "rows_ok (os @ out) (bk_held b') (bk_next_file b') \<and> (\<forall>u. t' = Some u \<longrightarrow> file_ok u)"
proof (cases "tn_ok tn \<and> find (\<lambda>f. hf_id f = n) (held_pending b) \<noteq> None")
  case False
  with assms show ?thesis by (auto simp: run_decide_held_def reply_def intro!: rows_more split: if_splits)
next
  case True
  then obtain f where f: "find (\<lambda>f. hf_id f = n) (held_pending b) = Some f" by auto
  then have fs: "f \<in> set (bk_held b)" "hf_id f = n" "hf_status f = Pending"
    by (auto simp: held_pending_def find_Some_iff in_set_conv_nth dest: nth_mem)
  define g :: "held_file \<Rightarrow> held_file" where "g = (\<lambda>f. if hf_id f = n \<and> hf_status f = Pending then f\<lparr>hf_status := st\<rparr> else f)"
  have none: "decisions_on n os = []" using assms(1) fs by (auto simp: rows_ok_def)
  have g: "hf_id (g f) = hf_id f" "hf_label (g f) = hf_label f" for f by (simp_all add: g_def)
  have ids: "map hf_id (map g (bk_held b)) = map hf_id (bk_held b)" "hf_id ` set (map g (bk_held b)) = hf_id ` set (bk_held b)"
    by (simp_all add: g image_image)
  have "\<forall>f \<in> set (map g (bk_held b)). decisions_on (hf_id f) (os @ [File_decided s st n]) =
      (if hf_status f = Pending then [] else [hf_status f])"
  proof
    fix x assume "x \<in> set (map g (bk_held b))"
    then obtain f where "f \<in> set (bk_held b)" "x = g f" by auto
    then show "decisions_on (hf_id x) (os @ [File_decided s st n]) = (if hf_status x = Pending then [] else [hf_status x])"
      using assms(1,2) none by (auto simp: rows_ok_def g_def)
  qed
  moreover have "\<forall>f \<in> set (map g (bk_held b)). hf_id f < bk_next_file b \<and> held_label (hf_label f)"
    using assms(1) by (simp add: rows_ok_def g)
  moreover have "n \<in> hf_id ` set (bk_held b)" using fs by blast
  then have "\<forall>m. m \<notin> hf_id ` set (bk_held b) \<longrightarrow> decisions_on m (os @ [File_decided s st n]) = []"
    using assms(1) by (auto simp: rows_ok_def)
  ultimately have "rows_ok (os @ [File_decided s st n]) (map g (bk_held b)) (bk_next_file b)"
    using assms(1) unfolding rows_ok_def ids by blast
  with assms(3) True f show ?thesis by (auto simp: run_decide_held_def g_def)
qed

lemma other_file_run:
  assumes "run_task bp tn i t b = (b', out, t')" and "file_ok t" and "\<forall>name path v. t \<noteq> Hold_file name path v"
    and "\<forall>s st n. t \<noteq> Decide_held s st n"
  shows "bk_held b' = bk_held b \<and> bk_next_file b' = bk_next_file b \<and> (\<forall>n. decisions_on n out = []) \<and>
    (\<forall>u. t' = Some u \<longrightarrow> file_ok u)"
  using assms by (cases t) (auto simp: task_defs decisions_on_def o_def call_file_ok split: task_splits)

lemma files_step:
  assumes "files_inv os b" and "backend_step bp b out b'"
  shows "files_inv (os @ out) b'"
  using assms(2)
proof cases
  case (arrives gc m segs body r sd)
  have "\<forall>t. r = Inr t \<longrightarrow> file_ok t" using entry_file_ok [of bp sd m segs body] arrives by simp
  with assms(1) arrives rows_more show ?thesis
    by (auto simp: files_inv_def start_task_def answer_now_def split: sum.splits)
next
  case (runs xs i t ys tn b2 t')
  have ok: "file_ok t" "rows_ok os (bk_held b) (bk_next_file b)" using assms(1) runs(2) by (simp_all add: files_inv_def)
  have "rows_ok (os @ out) (bk_held b2) (bk_next_file b2) \<and> (\<forall>u. t' = Some u \<longrightarrow> file_ok u)"
  proof (cases "(\<exists>name path v. t = Hold_file name path v) \<or> (\<exists>s st n. t = Decide_held s st n)")
    case True
    with runs(3) ok hold_rows [OF ok(2)] decide_rows [OF ok(2)] show ?thesis by fastforce
  next
    case False
    with other_file_run [OF runs(3) ok(1)] rows_more [OF ok(2)] show ?thesis by simp
  qed
  with assms(1) runs(1,2) show ?thesis by (auto simp: files_inv_def left_tasks_def split: option.splits)
qed (use assms(1) in \<open>auto simp: files_inv_def start_task_def\<close>)

interpretation files: invariant_system backend_init "backend_step bp" files_inv
  by unfold_locales (simp add: files_inv_def rows_ok_def backend_init_def, rule files_step)

text \<open>C18: Every held file got a verdict that is neither Normal nor Compromised; it is decided at most once,
  however many admins decide it at the same time, each decision is an admin's, and the table holds the
  decision that was made, or the file is pending and none was.\<close>

theorem files_decided_once:
  assumes "reach backend_init (backend_step bp) os b"
  shows "distinct (map hf_id (bk_held b)) \<and>
    (\<forall>f \<in> set (bk_held b). hf_label f \<notin> {Normal, Compromised} \<and>
      decisions_on (hf_id f) os = (if hf_status f = Pending then [] else [hf_status f])) \<and>
    (\<forall>n. n \<notin> hf_id ` set (bk_held b) \<longrightarrow> decisions_on n os = []) \<and>
    (\<forall>s st n. File_decided s st n \<in> set os \<longrightarrow> admin_of os s)"
proof -
  have "rows_ok os (bk_held b) (bk_next_file b)" using files.reach_inv [OF assms] by (simp add: files_inv_def)
  moreover have "\<forall>s st n. File_decided s st n \<in> set os \<longrightarrow> admin_of os s"
    using rights.reach_inv [OF assms] by (fastforce simp: rights_inv_def)
  ultimately show ?thesis by (simp add: rows_ok_def held_label_def)
qed

subsection \<open>Witnesses\<close>

text \<open>A file of the interceptor that matches statically, and is suspicious, is held.\<close>

lemma file_gets_held:
  fixes path :: jsstr and v :: verdict
  assumes "reach init (backend_step bp) os b" and "bk_tasks b = []" and "bp_token bp \<noteq> []" and "path \<noteq> []"
    and "form_file body = Some f" and "file_bytes f = Inr bytes" and "held_label (verdict_label v)"
  shows "\<exists>new row. reach init (backend_step bp) (os @ new) (b\<lparr>bk_next := bk_next b + 1, bk_held := bk_held b @ [row],
    bk_next_file := bk_next_file b + 1, bk_tasks := []\<rparr>) \<and> hf_id row = bk_next_file b \<and> hf_status row = Pending"
proof -
  let ?sd = "\<lparr>sd_ip = [], sd_cookie = None, sd_bearer = bp_token bp, sd_path = path\<rparr>" and ?i = "bk_next b"
  let ?tn = "(fine_turn [])\<lparr>tn_matches := [[]], tn_verdict := v\<rparr>" and ?name = "go_base (file_name f)"
  let ?w = "For_interceptor ?name path"
  let ?det = "Detonate Interceptor (js ''interceptor'') ?name bytes ?w"
  have gc: "mux POST [js ''api'', js ''intercept''] body = (Bearer, Inr (B_intercept body))"
    by (simp add: mux_def decode_plain js_def ROUTES_def)
  have e: "entry bp ?sd (Bearer, Inr (B_intercept body)) = Inr ?det" by (simp add: entry_def assms(3-6))
  let ?n1 = "[Arrived ?i (Inr (B_intercept body))]" and ?b = "\<lambda>t. b\<lparr>bk_next := ?i + 1, bk_tasks := [] @ [(?i, t)]\<rparr>"
  have r1: "reach init (backend_step bp) (os @ ?n1) (?b ?det)"
    using reach_step [OF assms(1), OF backend_step.arrives [OF gc [symmetric] e [symmetric]]] assms(2) by (simp add: answer_now_def start_task_def)
  have "\<exists>req. \<forall>b. run_task bp ?tn ?i ?det b = (b, [], Some (Get_verdict Interceptor req ?w))"
    by (simp add: run_detonate_def Let_def)
  then obtain req where t1: "\<And>b. run_task bp ?tn ?i ?det b = (b, [], Some (Get_verdict Interceptor req ?w))" by blast
  from reach_last [OF r1 t1] have r2: "reach init (backend_step bp) (os @ ?n1) (?b (Get_verdict Interceptor req ?w))"
    by (simp add: left_tasks_def)
  let ?n2 = "?n1 @ [To_engine (Score req), Sent (Live_verdict Interceptor v)]"
  have "reach init (backend_step bp) (os @ ?n2) (?b (Hold_file ?name path v))"
    using reach_last [OF r2, of ?tn] assms(7) by (simp add: run_get_verdict_def Let_def left_tasks_def fine_turn_def)
  from reach_last [OF this, of ?tn] have "reach init (backend_step bp) (os @ ?n2 @ [File_held (bk_next_file b), Answered ?i 200])
      (b\<lparr>bk_next := ?i + 1, bk_held := bk_held b @ [\<lparr>hf_id = bk_next_file b, hf_sample_hash = sample_hash v, hf_filename = ?name,
        hf_original_path = path, hf_label = verdict_label v, hf_confidence = confidence v, hf_status = Pending\<rparr>],
        bk_next_file := bk_next_file b + 1, bk_tasks := []\<rparr>)"
    by (simp add: run_hold_file_def left_tasks_def fine_turn_def)
  then show ?thesis by (intro exI conjI) (assumption, simp_all)
qed

text \<open>The interceptor submits a file, which is held, and Bob approves it.\<close>

lemma held_approved:
  "\<exists>os b. reach backend_init (backend_step demo_bp) os b \<and> map hf_id (bk_held b) = [1 :: int] \<and> map hf_status (bk_held b) = [Approved]"
proof -
  let ?f = "\<lparr>file_name = [97], file_size = 0, file_bytes = Inr []\<rparr>" and ?tn = "fine_turn []"
    and ?v = "(tn_verdict (fine_turn []))\<lparr>verdict_label := Suspicious\<rparr>"
  from bob_signed_in [OF demo_backend_init] obtain os where r: "reach backend_init (backend_step demo_bp) os
      (demo_backend\<lparr>bk_next := 1, bk_sessions := [demo_session [1] (js ''bob'')], bk_tasks := []\<rparr>)" (is "reach _ _ os ?b")
    by (auto simp: demo_backend_def demo_session_def)
  have d: "bp_token demo_bp \<noteq> []" "form_file (Some (Form_body [(js ''sample'', ?f)])) = Some ?f" "file_bytes ?f = Inr []"
    "held_label (verdict_label ?v)" "bk_tasks ?b = []" "[47] \<noteq> []"
    by (simp_all add: demo_bp_def js_def form_file_def held_label_def)
  from file_gets_held [OF r d(5,1,6,2,3,4)] obtain n3 fl where
    r3: "reach backend_init (backend_step demo_bp) (os @ n3) (?b\<lparr>bk_next := bk_next ?b + 1, bk_held := bk_held ?b @ [fl],
      bk_next_file := bk_next_file ?b + 1, bk_tasks := []\<rparr>)" (is "reach _ _ _ ?b3")
    and fl: "hf_id fl = 1" "hf_status fl = Pending" by (auto simp: demo_backend_def)
  have b3: "bk_tasks ?b3 = []" "bk_held ?b3 = [fl]" "bk_sessions ?b3 = [demo_session [1] (js ''bob'')]" "bk_clock ?b3 = 0"
    by (simp_all add: demo_backend_def)
  define b3 where "b3 = ?b3"
  note r3 = r3 [folded b3_def] and b3 = b3 [folded b3_def]
  have "received rq = (Admin_session, Inr (B_decide_file Approved (dec_int 1)))" if "send_of (Approve_quarantine 1) = Inr rq" for rq
    using sendable_served [OF that] by simp
  then obtain rq where rq: "received rq = (Admin_session, Inr (B_decide_file Approved (dec_int 1)))" by fastforce
  let ?r = "demo_session [1] (js ''bob'')"
  have f: "in_force b3 ?r" "se_role ?r = Admin" by (simp_all add: in_force_def b3 demo_session_def sessionTTL_def)
  from admin_asked [OF r3 f rq, of "Decide_held (of_row ?r) Approved 1"]
  have "reach backend_init (backend_step demo_bp) ((os @ n3) @ [Arrived (bk_next b3) (Inr (B_decide_file Approved (dec_int 1)))])
      (b3\<lparr>bk_next := bk_next b3 + 1, bk_tasks := [] @ [(bk_next b3, Decide_held (of_row ?r) Approved 1)]\<rparr>)"
    by (simp add: b3 parse_dec_int)
  note r4 = reach_last [OF this, of ?tn]
  have "run_task demo_bp ?tn i (Decide_held (of_row ?r) Approved 1) b =
      (b\<lparr>bk_held := [fl\<lparr>hf_status := Approved\<rparr>]\<rparr>, [File_decided (of_row ?r) Approved 1],
       Some (Record_action (file_action Approved) (hf_filename fl) (bs_username (of_row ?r)) (Some 204)))" if "bk_held b = [fl]" for i b
    using that by (simp add: run_decide_held_def held_pending_def fl fine_turn_def)
  with b3(2) have "reach backend_init (backend_step demo_bp) (((os @ n3) @ [Arrived (bk_next b3) (Inr (B_decide_file Approved (dec_int 1)))]) @
      [File_decided (of_row ?r) Approved 1]) (b3\<lparr>bk_next := bk_next b3 + 1,
        bk_tasks := [] @ [(bk_next b3, Decide_held (of_row ?r) Approved 1)], bk_held := [fl\<lparr>hf_status := Approved\<rparr>],
        bk_tasks := [] @ left_tasks (bk_next b3) (Some (Record_action (file_action Approved) (hf_filename fl)
          (bs_username (of_row ?r)) (Some 204)))\<rparr>)"
    by (intro r4) simp
  then show ?thesis by (intro exI conjI) (assumption, simp_all add: fl)
qed

theorem files_decided_once_witness: "\<exists>os b. reach backend_init (backend_step demo_bp) os b \<and> decisions_on 1 os = [Approved]"
proof -
  from held_approved obtain os b where r: "reach backend_init (backend_step demo_bp) os b"
    and b: "map hf_id (bk_held b) = [1]" "map hf_status (bk_held b) = [Approved]" by metis
  then obtain f where "bk_held b = [f]" "hf_id f = 1" "hf_status f = Approved" by (cases "bk_held b") auto
  with files_decided_once [OF r] r show ?thesis by (intro exI [of _ os] exI [of _ b]) auto
qed

end
