(* ===== verification/Isolation.thy ===== *)
theory Isolation
  imports Accounts
begin

text \<open>
  The isolation of the monitored endpoint: what the flag says of the network, and what the lock that is
  given back early lets happen.
\<close>

subsection \<open>Isolation\<close>

text \<open>A reconnection that Docker has made and the flag does not show yet.\<close>

fun clearing :: "task \<Rightarrow> bool" where
  "clearing (Clear_isolated s) \<longleftrightarrow> True"
| "clearing _ \<longleftrightarrow> False"

definition clearings :: "(nat \<times> task) list \<Rightarrow> nat" where
  "clearings ts = length (filter (\<lambda>it. clearing (snd it)) ts)"

lemma clearings_simps [simp]: "clearings [] = 0" "clearings (xs @ ys) = clearings xs + clearings ys"
  "clearings (it # ys) = (if clearing (snd it) then 1 else 0) + clearings ys"
  by (simp_all add: clearings_def)

definition isolation_inv :: "backend_out list \<Rightarrow> backend \<Rightarrow> bool" where
  "isolation_inv os b \<longleftrightarrow> clearings (bk_tasks b) = (if bk_attached b \<and> bk_isolated b then 1 else 0) \<and>
     (bk_attached b \<or> bk_isolated b)"

lemma entry_not_clearing: "entry bp sd gc = Inr t \<Longrightarrow> \<not> clearing t"
  by (auto simp: entry_def split: guard.splits sum.splits bk_call.splits if_splits option.splits elim!: bearer_call.elims)

lemma call_not_clearing: "session_call bp tok s c = Inr t \<Longrightarrow> \<not> clearing t"
  by (cases c) (auto split: option.splits sum.splits if_splits)

lemma isolation_run:
  assumes "run_task bp tn i t b = (b', out, t')" and "bk_attached b \<or> bk_isolated b"
    and "(if clearing t then 1 else 0) + k = (if bk_attached b \<and> bk_isolated b then 1 else 0)"
  shows "clearings (left_tasks i t') + k = (if bk_attached b' \<and> bk_isolated b' then 1 else 0) \<and> (bk_attached b' \<or> bk_isolated b')"
  using assms by (cases t) (auto simp: task_defs left_tasks_def call_not_clearing split: task_splits)

lemma isolation_step:
  assumes "isolation_inv os b" and "backend_step bp b out b'"
  shows "isolation_inv (os @ out) b'"
  using assms(2)
proof cases
  case (arrives gc m segs body r sd)
  have "\<forall>t. r = Inr t \<longrightarrow> \<not> clearing t" using entry_not_clearing [of bp sd gc] arrives by simp
  with assms(1) arrives show ?thesis by (auto simp: isolation_inv_def start_task_def split: sum.splits)
next
  case (runs xs i t ys tn b2 t')
  have "(if clearing t then 1 else 0) + (clearings xs + clearings ys) = (if bk_attached b \<and> bk_isolated b then 1 else 0)"
    using assms(1) runs(2) by (simp add: isolation_inv_def)
  from isolation_run [OF runs(3) _ this] assms(1) runs(1) show ?thesis by (simp add: isolation_inv_def)
qed (use assms(1) in \<open>auto simp: isolation_inv_def start_task_def\<close>)

interpretation isolation: invariant_system backend_init "backend_step bp" isolation_inv
  by unfold_locales (simp add: isolation_inv_def backend_init_def, rule isolation_step)

text \<open>An admin's reconnection, until Docker has done it.\<close>

lemma reconnect_asked:
  assumes "reach init (backend_step bp) os b" and "bk_isolated b" and "\<not> bk_attached b" and "in_force b r" and "se_role r = Admin"
  shows "reach init (backend_step bp) (os @ [Arrived (bk_next b) (Inr B_reconnect), Docker_reconnected (of_row r)])
    (b\<lparr>bk_next := bk_next b + 1, bk_attached := True, bk_tasks := bk_tasks b @ [(bk_next b, Clear_isolated (of_row r))]\<rparr>)"
proof -
  obtain rq where rq: "send_of Reconnect_monitor = Inr rq" by simp
  from sendable_served [OF rq] have "received rq = (Admin_session, Inr B_reconnect)" by simp
  note r1 = reach_last [OF admin_asked [OF assms(1,4,5) this, of "Reconnect_check (of_row r)"], of "fine_turn []"]
  have "reach init (backend_step bp) (os @ [Arrived (bk_next b) (Inr B_reconnect)])
      (b\<lparr>bk_next := bk_next b + 1, bk_tasks := bk_tasks b @ [(bk_next b, Reconnect_docker (of_row r))]\<rparr>)"
    using r1 assms(2) by (simp add: run_reconnect_check_def left_tasks_def)
  from reach_last [OF this, of "fine_turn []"] show ?thesis
    using assms(3) by (simp add: run_reconnect_docker_def left_tasks_def fine_turn_def)
qed

text \<open>From there it goes through.\<close>

lemma reconnect_goes_through:
  assumes "reach init (backend_step bp) os b" and "bk_tasks b = xs @ (i, Clear_isolated s) # ys"
  shows "\<exists>log. reach init (backend_step bp) (os @ [Sent Live_reconnected, To_engine log, Answered i 200])
    (b\<lparr>bk_isolated := False, bk_tasks := xs @ ys\<rparr>)"
proof -
  have "run_task bp (fine_turn []) i (Clear_isolated s) b = (b\<lparr>bk_isolated := False\<rparr>, [], Some (Tell_reconnected s))" by simp
  from reach_run [OF assms this] have
    r1: "reach init (backend_step bp) os (b\<lparr>bk_isolated := False, bk_tasks := xs @ (i, Tell_reconnected s) # ys\<rparr>)"
    by (simp add: left_tasks_def)
  from reach_run [OF r1, of xs i "Tell_reconnected s" ys "fine_turn []"]
  have r2: "reach init (backend_step bp) (os @ [Sent Live_reconnected]) (b\<lparr>bk_isolated := False,
      bk_tasks := xs @ (i, Record_action (js ''reconnected'') monitorDeviceID (bs_username s) (Some 200)) # ys\<rparr>)"
    by (simp add: left_tasks_def)
  from reach_run [OF r2, of xs i "Record_action (js ''reconnected'') monitorDeviceID (bs_username s) (Some 200)" ys "fine_turn []"]
  show ?thesis by (auto simp: run_record_action_def left_tasks_def)
qed

text \<open>A poll whose events are scored as compromised gets as far as the isolation.\<close>

lemma tick_compromised:
  assumes "reach init (backend_step bp) os b" and "\<forall>(i, t) \<in> set (bk_tasks b). \<not> of_monitor t" and "verdict_label v = Compromised"
  shows "\<exists>new. reach init (backend_step bp) (os @ new @ [Sent (Live_verdict Monitor v)])
    (b\<lparr>bk_next := bk_next b + 1, bk_tasks := bk_tasks b @ [(bk_next b, Isolate)]\<rparr>) \<and>
    Sent (Live_event Monitor e) \<in> set new \<and> Sent Live_reconnected \<notin> set new \<and> {Docker_isolated, Isolation_failed} \<inter> set new = {}"
proof -
  let ?tn = "(fine_turn [])\<lparr>tn_events := [e], tn_verdict := v\<rparr>" and ?n1 = "[Sent (Live_event Monitor e)]"
  have tn: "tn_ok ?tn" "tn_events ?tn = [e]" "tn_verdict ?tn = v" by (simp_all add: fine_turn_def)
  have "reach init (backend_step bp) os (b\<lparr>bk_next := bk_next b + 1, bk_tasks := bk_tasks b @ [(bk_next b, Tick)]\<rparr>)"
    using reach_step [OF assms(1) backend_step.ticks [OF assms(2)]] by (simp add: start_task_def)
  note r1 = reach_last [OF this, of ?tn]
  let ?req = "\<lparr>sr_sample_hash = bp_batch bp [e], sr_sample_filename = [], sr_timed_out = False,
      sr_actor = [], sr_events = [e], sr_source = live_str Monitor, sr_static_matches = []\<rparr>"
  have "reach init (backend_step bp) (os @ ?n1)
      (b\<lparr>bk_next := bk_next b + 1, bk_tasks := bk_tasks b @ [(bk_next b, Get_verdict Monitor ?req For_monitor)]\<rparr>)"
    using r1 by (simp add: run_tick_def left_tasks_def tn)
  from reach_last [OF this, of ?tn] assms(3) show ?thesis
    by (intro exI [of _ "?n1 @ [To_engine (Score ?req)]"]) (auto simp: run_get_verdict_def left_tasks_def tn Let_def)
qed

lemma isolate_run:
  assumes "reach init (backend_step bp) os b" and "bk_tasks b = []" and "\<not> bk_isolated b"
  shows "\<exists>new. reach init (backend_step bp) (os @ new)
    (b\<lparr>bk_next := bk_next b + 1, bk_isolated := True, bk_attached := False, bk_tasks := [(bk_next b, Tell_isolated)]\<rparr>)"
proof -
  let ?v = "(tn_verdict (fine_turn []))\<lparr>verdict_label := Compromised\<rparr>" and ?i = "bk_next b"
  obtain n1 where "reach init (backend_step bp) (os @ n1) (b\<lparr>bk_next := ?i + 1, bk_tasks := [] @ [(?i, Isolate)]\<rparr>)"
    using tick_compromised [OF assms(1), of ?v] assms(2) by auto
  from reach_last [OF this, of "fine_turn []"] assms(3) show ?thesis
    by (intro exI [of _ "n1 @ [Docker_isolated]"]) (simp add: run_isolate_def left_tasks_def fine_turn_def)
qed

lemma isolation_told:
  assumes "reach init (backend_step bp) os b" and "bk_tasks b = ts @ [(i, Tell_isolated)]"
  shows "reach init (backend_step bp) (os @ [Sent Live_isolated, To_engine (Log_action (js ''isolated'') monitorDeviceID [])])
    (b\<lparr>bk_tasks := ts\<rparr>)"
proof -
  have "reach init (backend_step bp) (os @ [Sent Live_isolated])
      (b\<lparr>bk_tasks := ts @ [(i, Record_action (js ''isolated'') monitorDeviceID [] None)]\<rparr>)"
    using reach_run [OF assms(1), of ts i Tell_isolated "[]" "fine_turn []"] assms(2) by (simp add: left_tasks_def)
  from reach_last [OF this, of "fine_turn []"] show ?thesis by (simp add: run_record_action_def left_tasks_def)
qed

subsection \<open>Properties of the isolation\<close>


text \<open>C34: A reconnection can hide a verdict: from every reachable state in which the endpoint is isolated, no
  task is in flight and an admin is signed in there is a run in which Docker attaches the endpoint again
  for the admin, the monitor's events are then broadcast and scored as compromised, and only after this
  verdict the reconnection is broadcast, which follows the clearing of the flag; from Docker's
  reconnection on no isolation is made and none fails, so nothing but the flag stood in the way of one, and
  the endpoint ends up attached and not isolated with no task left.\<close>

theorem reconnect_hides_verdict:
  assumes "reach backend_init (backend_step bp) os b" and "bk_tasks b = []" and "bk_isolated b" and "in_force b r"
    and "se_role r = Admin" and "verdict_label v = Compromised"
  shows "\<exists>xs us vs b'. reach backend_init (backend_step bp)
      (os @ xs @ Docker_reconnected (of_row r) # us @ Sent (Live_verdict Monitor v) # vs) b' \<and>
    Sent (Live_event Monitor e) \<in> set us \<and> Sent Live_reconnected \<in> set vs \<and> Sent Live_reconnected \<notin> set us \<and>
    {Docker_isolated, Isolation_failed} \<inter> (set us \<union> set vs) = {} \<and>
    bk_tasks b' = [] \<and> bk_attached b' \<and> \<not> bk_isolated b'"
proof -
  have "\<not> bk_attached b" using isolation.reach_inv [OF assms(1)] assms(2,3) by (simp add: isolation_inv_def split: if_splits)
  note r1 = reconnect_asked [OF assms(1,3) this assms(4,5)]
  from tick_compromised [OF r1 _ assms(6), of e] assms(2) obtain n2 where
    r2: "reach backend_init (backend_step bp) ((os @ [Arrived (bk_next b) (Inr B_reconnect), Docker_reconnected (of_row r)]) @ n2 @
        [Sent (Live_verdict Monitor v)])
      (b\<lparr>bk_attached := True, bk_next := bk_next b + 2,
        bk_tasks := [(bk_next b, Clear_isolated (of_row r))] @ [(bk_next b + 1, Isolate)]\<rparr>)"
    and n2: "Sent (Live_event Monitor e) \<in> set n2" "Sent Live_reconnected \<notin> set n2" "{Docker_isolated, Isolation_failed} \<inter> set n2 = {}"
    by (auto simp: of_monitor_def)
  note r3 = reach_last [OF r2, of "fine_turn []"]
  have "reach backend_init (backend_step bp) ((os @ [Arrived (bk_next b) (Inr B_reconnect), Docker_reconnected (of_row r)]) @ n2 @
        [Sent (Live_verdict Monitor v)])
      (b\<lparr>bk_attached := True, bk_next := bk_next b + 2, bk_tasks := [] @ (bk_next b, Clear_isolated (of_row r)) # []\<rparr>)"
    using r3 assms(3) by (simp add: run_isolate_def left_tasks_def)
  from reconnect_goes_through [OF this, of "[]" "bk_next b" "of_row r" "[]"] obtain log where
    "reach backend_init (backend_step bp) (((os @ [Arrived (bk_next b) (Inr B_reconnect), Docker_reconnected (of_row r)]) @ n2 @
        [Sent (Live_verdict Monitor v)]) @ [Sent Live_reconnected, To_engine log, Answered (bk_next b) 200])
      (b\<lparr>bk_attached := True, bk_next := bk_next b + 2, bk_isolated := False, bk_tasks := []\<rparr>)" by auto
  then have "reach backend_init (backend_step bp) (os @ [Arrived (bk_next b) (Inr B_reconnect)] @ Docker_reconnected (of_row r) #
        n2 @ Sent (Live_verdict Monitor v) # [Sent Live_reconnected, To_engine log, Answered (bk_next b) 200])
      (b\<lparr>bk_attached := True, bk_next := bk_next b + 2, bk_isolated := False, bk_tasks := []\<rparr>)" by simp
  with n2 show ?thesis by (intro exI [of _ "[Arrived (bk_next b) (Inr B_reconnect)]"] exI [of _ n2]
      exI [of _ "[Sent Live_reconnected, To_engine log, Answered (bk_next b) 200]"] exI [of _ "b\<lparr>bk_attached := True,
        bk_next := bk_next b + 2, bk_isolated := False, bk_tasks := []\<rparr>"]) simp
qed

text \<open>C35: The dashboards can be told the wrong order: the isolation and the reconnection are broadcast after the
  lock is released, so when an admin reconnects the endpoint at once the last message of the two can be
  that it is isolated, while it is attached and the flag says so.\<close>

theorem isolation_told_late:
  assumes "reach backend_init (backend_step bp) os b" and "bk_tasks b = []" and "\<not> bk_isolated b" and "in_force b r"
    and "se_role r = Admin"
  shows "\<exists>new log b'. reach backend_init (backend_step bp) (os @ new @ [Sent Live_isolated, To_engine log]) b' \<and>
    Docker_reconnected (of_row r) \<in> set new \<and> Sent Live_reconnected \<in> set new \<and>
    bk_tasks b' = [] \<and> bk_attached b' \<and> \<not> bk_isolated b'"
proof -
  let ?i = "bk_next b"
  from isolate_run [OF assms(1-3)] obtain n1 where r1: "reach backend_init (backend_step bp) (os @ n1)
      (b\<lparr>bk_next := ?i + 1, bk_isolated := True, bk_attached := False, bk_tasks := [(?i, Tell_isolated)]\<rparr>)" by blast
  from reconnect_asked [OF r1, of r] assms(4,5) obtain n2 where
    "reach backend_init (backend_step bp) (os @ n2) (b\<lparr>bk_isolated := True, bk_next := ?i + 2, bk_attached := True,
       bk_tasks := [(?i, Tell_isolated)] @ (?i + 1, Clear_isolated (of_row r)) # []\<rparr>)" and n2: "Docker_reconnected (of_row r) \<in> set n2"
    by (force simp: in_force_def)
  from reconnect_goes_through [OF this(1), of "[(?i, Tell_isolated)]" "?i + 1" "of_row r" "[]"] obtain n3 where
    r3: "reach backend_init (backend_step bp) (os @ n2 @ n3) (b\<lparr>bk_next := ?i + 2, bk_attached := True,
       bk_isolated := False, bk_tasks := [(?i, Tell_isolated)]\<rparr>)" and n3: "Sent Live_reconnected \<in> set n3" by force
  from isolation_told [OF r3, of "[]" ?i]
  have "reach backend_init (backend_step bp) (os @ (n2 @ n3) @ [Sent Live_isolated, To_engine (Log_action (js ''isolated'') monitorDeviceID [])])
      (b\<lparr>bk_next := ?i + 2, bk_attached := True, bk_isolated := False, bk_tasks := []\<rparr>)" by simp
  with n2 n3 show ?thesis by fastforce
qed

subsection \<open>Witnesses\<close>

text \<open>The endpoint is isolated when the backend starts.\<close>

lemma demo_isolated_signed:
  "\<exists>os b. reach backend_init (backend_step demo_bp) os b \<and> bk_tasks b = [] \<and> bk_isolated b \<and> in_force b (demo_session [1] (js ''bob''))"
proof -
  have "backend_init (demo_backend\<lparr>bk_isolated := True, bk_attached := False\<rparr>)" using demo_backend_init by (simp add: backend_init_def)
  from bob_signed_in [OF this] obtain os where "reach backend_init (backend_step demo_bp) os
      (demo_backend\<lparr>bk_isolated := True, bk_attached := False, bk_next := 1, bk_sessions := [demo_session [1] (js ''bob'')], bk_tasks := []\<rparr>)"
    by (auto simp: demo_backend_def demo_session_def)
  then show ?thesis by (force simp: in_force_def demo_backend_def demo_session_def sessionTTL_def)
qed


theorem reconnect_hides_verdict_witness:
  "\<exists>xs ys b. reach backend_init (backend_step demo_bp)
      (xs @ Sent (Live_verdict Monitor ((tn_verdict (fine_turn []))\<lparr>verdict_label := Compromised\<rparr>)) # ys) b \<and>
    Sent Live_reconnected \<in> set ys \<and> {Docker_isolated, Isolation_failed} \<inter> set ys = {} \<and>
    bk_tasks b = [] \<and> bk_attached b \<and> \<not> bk_isolated b"
proof -
  let ?v = "(tn_verdict (fine_turn []))\<lparr>verdict_label := Compromised\<rparr>"
  from demo_isolated_signed obtain os b where r: "reach backend_init (backend_step demo_bp) os b" "bk_tasks b = []" "bk_isolated b"
    "in_force b (demo_session [1] (js ''bob''))" by blast
  have "se_role (demo_session [1] (js ''bob'')) = Admin" by (simp add: demo_session_def)
  from reconnect_hides_verdict [OF r this, of ?v] obtain xs us vs b' where
    c: "reach backend_init (backend_step demo_bp)
      (os @ xs @ Docker_reconnected (of_row (demo_session [1] (js ''bob''))) # us @ Sent (Live_verdict Monitor ?v) # vs) b'"
    "Sent Live_reconnected \<in> set vs" "{Docker_isolated, Isolation_failed} \<inter> (set us \<union> set vs) = {}"
    "bk_tasks b' = [] \<and> bk_attached b' \<and> \<not> bk_isolated b'" by fastforce
  from c show ?thesis
    by (intro exI [of _ "os @ xs @ Docker_reconnected (of_row (demo_session [1] (js ''bob''))) # us"] exI [of _ vs] exI [of _ b']) simp
qed

theorem isolation_told_late_witness:
  "\<exists>os log b. reach backend_init (backend_step demo_bp) (os @ [Sent Live_isolated, To_engine log]) b \<and> bk_attached b \<and> \<not> bk_isolated b"
proof -
  from bob_signed_in [OF demo_backend_init] obtain os where r: "reach backend_init (backend_step demo_bp) os
      (demo_backend\<lparr>bk_next := 1, bk_sessions := [demo_session [1] (js ''bob'')], bk_tasks := []\<rparr>)" (is "reach _ _ os ?b")
    by (auto simp: demo_backend_def demo_session_def)
  have "bk_tasks ?b = []" "\<not> bk_isolated ?b" "in_force ?b (demo_session [1] (js ''bob''))" "se_role (demo_session [1] (js ''bob'')) = Admin"
    by (simp_all add: demo_backend_def in_force_def demo_session_def sessionTTL_def)
  from isolation_told_late [OF r this] show ?thesis by (metis append.assoc)
qed

end
