(* ===== verification/WholeSystem.thy ===== *)
theory WholeSystem
  imports PageFacts LoginLimit HeldFiles Isolation
begin

text \<open>
  The dashboard, the backend and the verdict engine together: an engine that is asked only what the
  backend sends records and answers what the page expects, and knows the hashes that admins approved;
  and a hash that the hash approvals panel lets through without a label.
\<close>

subsection \<open>The engine behind the backend\<close>

text \<open>Each request to the engine is one that the backend sends in one of its runs.\<close>

definition asked_by_backend :: "backend_platform \<Rightarrow> engine_out list \<Rightarrow> bool" where
  "asked_by_backend bp xs \<longleftrightarrow> (\<exists>bs b. reach backend_init (backend_step bp) bs b \<and>
     (\<forall>req. Asked req \<in> set xs \<longrightarrow> To_engine req \<in> set bs))"

lemma backend_request_ok: "reach backend_init (backend_step bp) bs b \<Longrightarrow> To_engine req \<in> set bs \<Longrightarrow> request_ok bs req"
  using rights.reach_inv by (fastforce simp: rights_inv_def)

lemma asked_from_backend: "asked_by_backend bp xs \<Longrightarrow> Asked req \<in> set xs \<Longrightarrow> from_backend req"
  using backend_request_ok by (fastforce simp: asked_by_backend_def request_ok_def)

text \<open>Where the approved hashes come from, other than those the engine starts with.\<close>

definition approvals_known :: "kb_row list \<Rightarrow> engine_out list \<Rightarrow> engine \<Rightarrow> bool" where
  "approvals_known seeds os e \<longleftrightarrow> (\<forall>r \<in> set (en_hashes e). kb_status r = Approved \<longrightarrow>
     kb_hash r \<in> kb_hash ` set seeds \<or> (\<exists>who. Asked (Decide_hash Approved (kb_hash r) who) \<in> set os))"

lemma proposals_pending:
  "propose_hash h l src now t = Inr t' \<Longrightarrow> r \<in> set t' \<Longrightarrow> r \<in> set t \<or> kb_status r = Pending"
  "r \<in> set (auto_propose ev e req) \<Longrightarrow> r \<in> set (en_hashes e) \<or> kb_status r = Pending"
  by (auto simp: propose_hash_def auto_propose_def split: if_splits prod.splits sum.splits)

lemma handled_approvals:
  assumes "engine_handle pf ev req e = (e', out)" and "r \<in> set (en_hashes e')" and "kb_status r = Approved"
  shows "r \<in> set (en_hashes e) \<or> (\<exists>who. req = Decide_hash Approved (kb_hash r) who)"
proof (cases req)
  case (Score q)
  with assms proposals_pending(2) show ?thesis by (fastforce simp: score_route_def Let_def split: if_splits)
next
  case (Propose_hash h l)
  with assms proposals_pending(1) show ?thesis by (fastforce simp: submit_hash_route_def split: if_splits sum.splits)
next
  case (Decide_hash st h who)
  have "r \<in> set (en_hashes e) \<or> st = Approved \<and> kb_hash r = h" if "decide_hash st h now (en_hashes e) = Inr (t, l)" "r \<in> set t" for now t l
    using that assms(3) by (auto simp: decide_hash_def split: option.splits if_splits)
  with assms Decide_hash show ?thesis
    by (fastforce simp: decide_hash_route_def Let_def split: if_splits sum.splits prod.splits)
qed (use assms in \<open>auto simp: log_action_def Let_def split: if_splits prod.splits\<close>)

lemma approvals_step:
  assumes "approvals_known seeds os e" and "engine_step pf e out e'"
  shows "approvals_known seeds (os @ out) e'"
  using assms(2)
proof cases
  case (handled ev req out)
  with handled_approvals [OF handled(2)] assms(1) show ?thesis by (fastforce simp: approvals_known_def)
qed (use assms(1) in \<open>auto simp: approvals_known_def\<close>)

interpretation approvals: invariant_system "\<lambda>e. engine_init e \<and> en_hashes e = seeds" "engine_step pf" "approvals_known seeds"
  by unfold_locales (simp add: approvals_known_def, rule approvals_step)

lemma checked_approved: "check_hash h t = Some l \<Longrightarrow> \<exists>r \<in> set t. kb_hash r = h \<and> kb_status r = Approved"
  by (auto simp: check_hash_def find_Some_iff split: option.splits)

text \<open>What an admin who is signed in asks the engine through the backend.\<close>

lemma engine_asked:
  assumes "reach init (backend_step bp) os b" and "in_force b r" and "se_role r = Admin"
    and "send_of c = Inr rq" and "sendable c" and "session_call bp (se_token r) (of_row r) (snd (meant c)) = Inr (Ask_engine req)"
    and "fst (meant c) = Session \<or> fst (meant c) = Admin_session"
  shows "\<exists>new. reach init (backend_step bp) (os @ new) (b\<lparr>bk_next := bk_next b + 1, bk_tasks := bk_tasks b\<rparr>) \<and> To_engine req \<in> set new"
proof -
  from reach_last [OF admin_asked [OF assms(1-3) sendable_served [OF assms(4,5)] assms(6,7)], of "fine_turn []"] show ?thesis
    by (intro exI [of _ "[Arrived (bk_next b) (Inr (snd (meant c))), To_engine req, Answered (bk_next b) 200]"])
       (simp add: run_ask_engine_def left_tasks_def fine_turn_def)
qed

lemma engine_hash_plain: "isValidSha256 h \<Longrightarrow> engine_hash h = Some h"
proof -
  assume h: "isValidSha256 h"
  have "c \<noteq> 63 \<and> c \<noteq> 35 \<and> c \<noteq> 47" if "c \<in> set h" for c
    using h that by (auto simp: isValidSha256_def list_all_iff sha_char_def)
  with plain_hash(1) [OF h] show ?thesis by (auto simp: engine_hash_def)
qed

text \<open>Bob proposes a hash and approves it.\<close>

lemma bob_asked:
  assumes "isValidSha256 h"
  shows "\<exists>bs b. reach backend_init (backend_step demo_bp) bs b \<and> To_engine (Propose_hash h l) \<in> set bs \<and>
    To_engine (Decide_hash Approved h (js ''bob'')) \<in> set bs"
proof -
  let ?r = "demo_session [1] (js ''bob'')"
  from demo_signed(1) obtain os b where r: "reach backend_init (backend_step demo_bp) os b"
    and b: "bk_sessions b = [?r]" "bk_clock b = 0" by blast
  have f: "in_force b ?r" "se_role ?r = Admin" by (simp_all add: in_force_def b demo_session_def sessionTTL_def)
  obtain rq where rq: "send_of (Submit_hash h l) = Inr rq" by simp
  from engine_asked [OF r f rq, of "Propose_hash h l"] obtain n1 where r1: "reach backend_init (backend_step demo_bp) (os @ n1)
      (b\<lparr>bk_next := bk_next b + 1, bk_tasks := bk_tasks b\<rparr>)" and n1: "To_engine (Propose_hash h l) \<in> set n1"
    by (auto simp: engine_submission_def body_members_def read_json_object)
  have f2: "in_force (b\<lparr>bk_next := bk_next b + 1, bk_tasks := bk_tasks b\<rparr>) ?r" using f(1) by (simp add: in_force_def)
  obtain rq2 where rq2: "send_of (Approve_hash h) = Inr rq2" by simp
  from engine_asked [OF r1 f2 f(2) rq2, of "Decide_hash Approved h (js ''bob'')"] assms obtain n2 b2 where
    "reach backend_init (backend_step demo_bp) ((os @ n1) @ n2) b2" "To_engine (Decide_hash Approved h (js ''bob'')) \<in> set n2"
    by (auto simp: of_row_def demo_session_def engine_hash_plain)
  with n1 show ?thesis by (intro exI [of _ "(os @ n1) @ n2"] exI [of _ b2]) simp
qed

text \<open>The endpoint is isolated, and the backend says so to the engine.\<close>

lemma demo_isolation_asked:
  assumes "\<forall>req. Asked req \<in> set xs \<longrightarrow> req = Log_action (js ''isolated'') (js ''monitored-endpoint'') []"
  shows "asked_by_backend demo_bp xs"
proof -
  from demo_signed(1) obtain os b where r: "reach backend_init (backend_step demo_bp) os b" and b: "bk_tasks b = []" "\<not> bk_isolated b"
    by blast
  from isolate_run [OF r b] obtain n1 where r1: "reach backend_init (backend_step demo_bp) (os @ n1)
      (b\<lparr>bk_next := bk_next b + 1, bk_isolated := True, bk_attached := False, bk_tasks := [(bk_next b, Tell_isolated)]\<rparr>)" by blast
  from isolation_told [OF r1, of "[]" "bk_next b"] obtain b' where
    "reach backend_init (backend_step demo_bp) ((os @ n1) @ [Sent Live_isolated, To_engine (Log_action (js ''isolated'') monitorDeviceID [])]) b'"
    by auto
  with assms show ?thesis unfolding asked_by_backend_def
    by (intro exI [of _ "(os @ n1) @ [Sent Live_isolated, To_engine (Log_action (js ''isolated'') monitorDeviceID [])]"] exI [of _ b'])
       (auto simp: monitorDeviceID_def)
qed

subsection \<open>The rows of the engine\<close>

lemma methods_plain: "m \<in> METHODS \<Longrightarrow> \<not> inherited_key m"
  by (auto simp: METHODS_def inherited_key_def proto_methods_def proto_key_def)

lemma sources_plain: "proto_key \<notin> SOURCES"
  by (auto simp: SOURCES_def proto_key_def)

definition engine_rows :: "engine \<Rightarrow> audit_row list" where
  "engine_rows e = map (\<lambda>d. audit_row_of (J_obj d)) (list_verdicts e)"

lemma engine_rows_good:
  assumes "reach engine_init (engine_step pf) os e" and "asked_by_backend bp os"
    and "x \<in> set (engine_rows e)"
  shows "good_row x"
proof -
  from assms(3) obtain d where d: "d \<in> set (list_verdicts e)" "x = audit_row_of (J_obj d)" by (auto simp: engine_rows_def)
  from list_verdicts_record [OF d(1)] obtain r where r: "r \<in> set (en_log e)"
    "\<And>k. k \<noteq> js ''entry_hash'' \<Longrightarrow> map_of d k = map_of (lr_data r) k" by blast
  have "record_ok os (lr_data r)" using engines.reach_inv [OF assms(1)] r(1) by (simp add: engine_inv_def)
  from record_row [OF this _ r(2)] asked_from_backend [OF assms(2)] show ?thesis
    using sources_plain by (auto simp: good_row_def falsy_def d(2))
qed

lemma engine_methods:
  assumes "reach engine_init (engine_step pf) os e" and "Scored v \<in> set os"
  shows "\<not> inherited_key (detection_method v)"
  using engines.reach_inv [OF assms(1)] assms(2) methods_plain by (auto simp: engine_inv_def)

subsection \<open>A page that lists them\<close>

lemma demo_page_listed:
  assumes "\<forall>r \<in> set rows. good_row r"
  shows "\<exists>os g s. reach page_init (page_step pf digest) os g \<and>
    (\<forall>f. heard (dids os) (Callback f) \<longrightarrow> f = On_verdicts_change rows) \<and> (\<forall>v. \<not> came os v) \<and>
    P_audit s \<in> set (co_mounted (pg_console g)) \<and> as_rows s = rows \<and>
    heard (dids os) (Callback (On_verdicts_change rows)) \<and> \<not> pg_blank g \<and>
    co_conns (pg_console g) 0 = Some (fst connectLive)"
proof -
  from demo_page_signed_in [of pf digest] obtain g where r: "reach page_init (page_step pf digest) (map Did demo_first) g"
    and b: "\<not> pg_blank g" and c: "pg_console g = demo_signed_in" by blast
  let ?s = "demo_audit\<lparr>as_inflight := [(0, AC_chain)], as_rows := rows, as_error := None, as_loading := False\<rparr>"
  have "audit_settle demo_audit [Verdicts_change rows] ?s"
    by (rule audit_settle.verdicts [where xs = "[]" and ys = "[(0, AC_chain)]" and k = 0 and ans = "Inr rows"])
       (simp_all add: demo_audit_def audit_effect_run_def audit_load_def audit_start_def
         audit_verdicts_settled_def audit_cancelled_def)
  from panel_settle.audit [OF this, of digest]
  have settle: "panel_settle digest (P_audit demo_audit) [Callback (On_verdicts_change rows)] (P_audit ?s)"
    by (simp add: audit_port_def ports_def)
  let ?xs = "[P_banner (mounted_banner False), P_upload upload_start_state, P_feed (feed_mount [] [])]"
  let ?a = "demo_app\<lparr>ap_verdicts := Some rows\<rparr>" and ?ps = "[Callback (On_verdicts_change rows)]"
  have turn: "console_turn pf digest (pg_console g) ?a [] (?xs @ P_audit ?s # []) (co_gone (pg_console g))
      (co_conns (pg_console g)) ?ps []"
    by (rule console_turn.moves [OF _ disjI1 [OF settle]]) (simp_all add: c demo_signed_in_def app_callback_def)
  let ?fin = "finish (pg_console g) ?a [] (?xs @ P_audit ?s # []) (co_gone (pg_console g)) (co_conns (pg_console g)) ?ps"
  have m: "co_mounted (fst ?fin) = ?xs @ P_audit ?s # []"
    by (simp add: c finish_def Let_def reconcile_def places_def update_def demo_signed_in_def)
  have v: "co_app (fst ?fin) = ?a" by (simp add: finish_def Let_def)
  have "\<not> throws pf 0 (fst ?fin)"
    using assms audit_view_total [of ?s] app_view_total [of pf ?a] unfolding throws_iff m v
    by (auto simp: demo_app_defs simp del: not_None_eq)
  from page_lift [OF r b turn surjective_pairing this] obtain g' where
    g': "reach page_init (page_step pf digest) (map Did demo_first @ map Did (snd ?fin)) g'" "pg_console g' = fst ?fin"
      "\<not> pg_blank g'"
    by auto
  have k: "co_conns (fst ?fin) 0 = Some (fst connectLive)" by (simp add: c finish_def Let_def demo_signed_in_def demo_conns_def)
  have h: "heard (snd ?fin) (Callback (On_verdicts_change rows))" by (auto simp: finish_def Let_def heard_def)
  have "heard (snd ?fin) (Callback f) \<Longrightarrow> f = On_verdicts_change rows" for f
    using finish_callbacks [OF surjective_pairing, of "pg_console g" ?a] by fastforce
  moreover have "\<not> heard demo_first (Callback f)" for f by (simp add: demo_first_def heard_def)
  moreover have "dids (map Did demo_first @ map Did (snd ?fin)) = demo_first @ snd ?fin" by simp
  ultimately have "heard (dids (map Did demo_first @ map Did (snd ?fin))) (Callback f) \<Longrightarrow> f = On_verdicts_change rows" for f
    by (metis heard_append)
  moreover from this have "\<not> came (map Did demo_first @ map Did (snd ?fin)) v" for v by (auto simp: came_def)
  ultimately show ?thesis using g' m k h by (intro exI [of _ "map Did demo_first @ map Did (snd ?fin)"] exI [of _ g'] exI [of _ ?s]) auto
qed

subsection \<open>A hash without a label\<close>

lemma sha_no_space: "sha_char c \<Longrightarrow> \<not> js_space c"
  by (auto simp: sha_char_def js_space_def word_le_nat_alt)

lemma sha_trim: "isValidSha256 h \<Longrightarrow> trim h = h"
proof -
  assume h: "isValidSha256 h"
  have "\<not> js_space c" if "c \<in> set h" for c
    using h that by (auto simp: isValidSha256_def list_all_iff sha_no_space)
  then have "dropWhile js_space xs = xs" if "set xs \<subseteq> set h" for xs using that by (cases xs) auto
  then show ?thesis by (simp add: trim_def)
qed

lemma valid_hashes_agree: "is_valid_hash h \<longleftrightarrow> isValidSha256 h"
proof -
  have "(48 \<le> c \<and> c \<le> 57 \<or> 97 \<le> c \<and> c \<le> 102) \<longleftrightarrow> sha_char c" for c by (auto simp: sha_char_def)
  then show ?thesis by (simp add: is_valid_hash_def isValidSha256_def)
qed

lemma unlabelled_submission:
  assumes "isValidSha256 h"
  shows "\<exists>os s. reach hash_init (hash_step r) os s \<and> Call (Submit_hash h []) \<in> set os"
proof -
  let ?s0 = "fst (hash_refetch hash_start)" and ?s1 = "(fst (hash_refetch hash_start))\<lparr>hs_hashInput := h, hs_hashError := None\<rparr>"
  have idle: "hs_pendingAction ?s0 = None" "hs_pendingAction ?s1 = None" by (simp_all add: hash_refetch_def hash_start_def)
  have "reach hash_init (hash_step r) [] ?s0" by (rule reach_init) (simp add: hash_init_def)
  moreover have "hash_step r ?s0 [] ?s1"
    by (rule hash_step.user [of _ _ "HA_hash_input h"]) (simp_all add: hash_offers_idle [OF idle(1)] hash_handle_def)
  ultimately have r1: "reach hash_init (hash_step r) [] ?s1" using reach_step by fastforce
  have "trim [] = []" by (simp add: trim_def)
  then have "snd (hash_handle HA_submit ?s1) = [Call (Submit_hash h [])]"
    using assms by (simp add: hash_handle_def hash_handleSubmit_def Let_def sha_trim hash_refetch_def hash_start_def)
  moreover have "hash_step r ?s1 (snd (hash_handle HA_submit ?s1)) (fst (hash_handle HA_submit ?s1))"
    by (rule hash_step.user [of _ _ HA_submit]) (simp_all add: hash_offers_idle [OF idle(2)])
  ultimately show ?thesis using reach_step [OF r1] by fastforce
qed

end
