(* ===== verification/PageFeed.thy ===== *)
theory PageFeed
  imports PageFacts
begin

text \<open>
  The event feed of a page, from the messages of the sockets and the uploads of a whole run to what the
  mounted instance holds.
\<close>

subsection \<open>The events of a run\<close>

text \<open>The events of the sample under analysis: those that came since the last upload began.\<close>

fun sample_heard :: "mirra_event list \<Rightarrow> page_out \<Rightarrow> mirra_event list" where
  "sample_heard es (Got (Message (Live_event Sample e))) = es @ [e]"
| "sample_heard es (Did (Panel_out w (Callback On_upload_start))) = []"
| "sample_heard es _ = es"

fun monitor_heard :: "mirra_event list \<Rightarrow> page_out \<Rightarrow> mirra_event list" where
  "monitor_heard es (Got (Message (Live_event Monitor e))) = es @ [e]"
| "monitor_heard es _ = es"

definition sample_trace :: "page_out list \<Rightarrow> mirra_event list" where
  "sample_trace os = foldl sample_heard [] os"

definition monitor_trace :: "page_out list \<Rightarrow> mirra_event list" where
  "monitor_trace os = foldl monitor_heard [] os"

lemma monitor_did [simp]: "foldl monitor_heard es (map Did os) = es"
  by (induction os) simp_all

lemma popped_none [simp]: "foldl sample_heard es (map Popped ts) = es" "foldl monitor_heard es (map Popped ts) = es"
  by (induction ts) simp_all

definition holds_feeds :: "mirra_event list \<Rightarrow> mirra_event list \<Rightarrow> app_state \<Rightarrow> bool" where
  "holds_feeds ss ms a \<longleftrightarrow> ap_sampleEvents a = last_n MAX_EVENTS ss \<and> ap_monitorEvents a = last_n MAX_EVENTS ms"

subsection \<open>A turn\<close>

lemma message_feeds:
  assumes "holds_feeds ss ms a"
  shows "holds_feeds (sample_heard ss (Got (Message m))) (monitor_heard ms (Got (Message m))) (app_message m a)"
proof -
  have "ss @ events_from Sample [m] = sample_heard ss (Got (Message m))" "ms @ events_from Monitor [m] = monitor_heard ms (Got (Message m))"
    by (cases m rule: live_message.exhaust; auto split: live_source.splits; (rename_tac s e, case_tac s; simp))+
  with assms sample_feed.feed_one [of ss m] monitor_feed.feed_one [of ms m] show ?thesis
    by (simp add: holds_feeds_def app_message_feeds)
qed

lemma hear_feeds:
  "holds_feeds ss ms a \<Longrightarrow>
    holds_feeds (foldl sample_heard ss (map Got out)) (foldl monitor_heard ms (map Got out)) (foldl hear a out)"
proof (induction out arbitrary: ss ms a)
  case (Cons x out)
  have "holds_feeds (sample_heard ss (Got x)) (monitor_heard ms (Got x)) (hear a x)"
    using Cons.prems message_feeds by (cases x) (auto simp: hear_def holds_feeds_def)
  from Cons.IH [OF this] show ?case by simp
qed simp

lemma set_user_feeds: "set_user u a = (a', out) \<Longrightarrow> ap_sampleEvents a' = ap_sampleEvents a \<and> ap_monitorEvents a' = ap_monitorEvents a"
  by (auto simp: set_user_def split: option.splits)

lemma callback_feeds:
  assumes "holds_feeds ss ms a" and "app_callback c a = (a', out)"
  shows "holds_feeds (sample_heard ss (Did (Panel_out w (Callback c)))) ms a'"
  using assms by (cases c) (auto simp: app_callback_def handleUpload_def handleSessionExpired_def holds_feeds_def dest!: set_user_feeds)

lemma deliver_feeds:
  "deliver ps a = (a', effs) \<Longrightarrow> holds_feeds ss ms a \<Longrightarrow> holds_feeds (foldl sample_heard ss (map (\<lambda>x. Did (Panel_out w x)) ps)) ms a'"
proof (induction ps a arbitrary: a' effs ss rule: deliver.induct)
  case (2 c ps a)
  obtain a1 out1 where c: "app_callback c a = (a1, out1)" by fastforce
  with 2(2) obtain out2 where d: "deliver ps a1 = (a', out2)" by (auto split: prod.splits)
  from 2(1) [OF c [symmetric] refl d callback_feeds [OF 2(3) c]] show ?case by simp
next
  case (3 u ps a)
  obtain a1 out1 where c: "app_onLogin u a = (a1, out1)" by fastforce
  with 3(2) obtain out2 where d: "deliver ps a1 = (a', out2)" by (auto split: prod.splits)
  have "holds_feeds ss ms a1" using 3(3) c by (auto simp: app_onLogin_def holds_feeds_def dest: set_user_feeds)
  from 3(1) [OF c [symmetric] refl d this] show ?case by simp
qed auto

lemma own_feeds:
  assumes "app_own a effs a'"
  shows "holds_feeds ss ms a' = holds_feeds ss ms a"
  using assms
  by (cases rule: app_own_cases)
     (auto simp: app_me_settled_def app_monitor_settled_def app_logout_settled_def handleLogout_def select_tab_def holds_feeds_def
       dest!: set_user_feeds split: sum.splits)

text \<open>The requests that mounting and updating send are no events.\<close>

lemma requests_none:
  "\<forall>x \<in> set xs. \<exists>c. x = Request c \<Longrightarrow> foldl sample_heard ss (map (\<lambda>x. Did (Panel_out w x)) xs) = ss"
  by (induction xs arbitrary: ss) auto

lemma effects_none: "foldl sample_heard ss (map (\<lambda>x. Did (App_out w x)) effs) = ss"
  by (induction effs) simp_all

lemma finish_heard:
  assumes "finish c a effs ms gs cs ps = (c', os)"
  shows "foldl sample_heard ss (map Did os) = foldl sample_heard ss (map (\<lambda>x. Did (Panel_out (ap_user (co_app c)) x)) ps)"
proof -
  let ?rs = "concat (map snd (reconcile (co_app c) a ms))"
  have "\<forall>x \<in> set ?rs. \<exists>c. x = Request c" using reconcile_requests by blast
  from requests_none [OF this] assms show ?thesis by (auto simp: finish_def Let_def comp_def effects_none)
qed

lemma turn_feeds:
  assumes "console_turn pf digest c a effs ms gs cs ps ls" and "finish c a effs ms gs cs ps = (c', os)"
    and "holds_feeds es fs (co_app c)"
  shows "holds_feeds (foldl sample_heard es (map Got ls @ map Did os)) (foldl monitor_heard fs (map Got ls @ map Did os)) (co_app c')"
proof -
  have a: "co_app c' = a" using assms(2) by (auto simp: finish_def Let_def)
  have "holds_feeds (foldl sample_heard (foldl sample_heard es (map Got ls)) (map (\<lambda>x. Did (Panel_out (ap_user (co_app c)) x)) ps))
      (foldl monitor_heard fs (map Got ls)) a"
    using assms(1)
  proof cases
    case app
    with assms(3) show ?thesis by (simp add: own_feeds)
  next
    case acts
    with deliver_feeds [OF _ assms(3)] show ?thesis by simp
  next
    case moves
    with deliver_feeds [OF _ assms(3)] show ?thesis by simp
  next
    case lingers
    with deliver_feeds [OF _ assms(3)] show ?thesis by simp
  next
    case live
    with hear_feeds [OF assms(3)] show ?thesis by simp
  qed
  then show ?thesis by (simp add: a finish_heard [OF assms(2)])
qed

subsection \<open>A run\<close>

definition feeds_inv :: "page_out list \<Rightarrow> page \<Rightarrow> bool" where
  "feeds_inv os g \<longleftrightarrow> pg_blank g \<or> holds_feeds (sample_trace os) (monitor_trace os) (co_app (pg_console g))"

lemma feeds_inv_step:
  assumes "feeds_inv os g" and "page_step pf digest g out g'"
  shows "feeds_inv (os @ out) g'"
  using assms(2)
proof cases
  case (renders a effs ms gs cs ps ls c' os' now pops)
  then have h: "holds_feeds (sample_trace os) (monitor_trace os) (co_app (pg_console g))" using assms(1) by (simp add: feeds_inv_def)
  have "\<exists>ts. pops = map Popped ts" "pg_console g' = c'" using renders(6) by (auto simp: push_step_def Let_def)
  with turn_feeds [OF renders(3,4) h] renders(1) show ?thesis
    by (auto simp: feeds_inv_def sample_trace_def monitor_trace_def)
next
  case copied
  then have "\<exists>ts. out = map Popped ts" "pg_console g' = pg_console g" "pg_blank g' = pg_blank g" by (auto simp: push_step_def Let_def)
  with assms(1) show ?thesis by (auto simp: feeds_inv_def sample_trace_def monitor_trace_def)
qed (use assms(1) in \<open>auto simp: feeds_inv_def sample_trace_def monitor_trace_def push_step_def Let_def blank_out_facts\<close>)

interpretation feeds: invariant_system page_init "page_step pf digest" feeds_inv
proof unfold_locales
  show "feeds_inv [] g" if "page_init g" for g
    using that by (auto simp: page_init_def console_init_def app_mount_def app_start_def feeds_inv_def holds_feeds_def
        sample_trace_def monitor_trace_def last_n_def)
qed (rule feeds_inv_step)

subsection \<open>The feed on screen\<close>

text \<open>C14: The event feed follows the run: on every page that is not blank and has someone signed in, the event
  feed on screen holds, of the sample, the last 500 events that any socket of the page delivered since
  the last upload began, and, of the monitored endpoint, the last 500 that any socket delivered since the
  page was loaded, each in the order of arrival; nothing else on the page, no change of users, no
  reconnection and no other message adds, drops or reorders an event.\<close>

theorem page_feed_follows:
  assumes "reach page_init (page_step pf digest) os g" and "\<not> pg_blank g" and "ap_user (co_app (pg_console g)) = Signed_in u"
  shows "\<exists>f. P_feed f \<in> set (co_mounted (pg_console g)) \<and> ef_sample f = last_n 500 (sample_trace os) \<and>
    ef_monitor f = last_n 500 (monitor_trace os)"
proof -
  have run: "reach console_init (console_step pf digest) (dids os) (pg_console g)"
    using pages.reach_inv [OF assms(1)] assms(2) by (simp add: page_inv_def)
  have "map place_of (co_mounted (pg_console g)) = places (co_app (pg_console g))"
    using console.reach_inv [OF run] by (simp add: console_inv_def)
  moreover have "At_feed \<in> set (places (co_app (pg_console g)))" using assms(3) by (simp add: places_def)
  ultimately obtain p where p: "p \<in> set (co_mounted (pg_console g))" "place_of p = At_feed" by (metis imageE list.set_map)
  from p(2) obtain f where f: "p = P_feed f" by (cases p) auto
  have "ef_sample f = ap_sampleEvents (co_app (pg_console g))" "ef_monitor f = ap_monitorEvents (co_app (pg_console g))"
    using mounted_current [OF run p(1)] f by (simp_all add: props_current_def)
  with feeds.reach_inv [OF assms(1)] assms(2) p(1) f show ?thesis
    by (auto simp: feeds_inv_def holds_feeds_def MAX_EVENTS_def)
qed

text \<open>An event of the monitored endpoint comes in.\<close>

theorem page_feed_follows_witness:
  "\<exists>os g e f. reach page_init (page_step demo_platform Inr) os g \<and> P_feed f \<in> set (co_mounted (pg_console g)) \<and>
     Got (Message (Live_event Monitor e)) \<in> set os \<and> ef_monitor f = [e]"
proof -
  from demo_page_signed_in [of demo_platform Inr] obtain g where
    r: "reach page_init (page_step demo_platform Inr) (map Did demo_first) g" "\<not> pg_blank g" and c: "pg_console g = demo_signed_in"
    by blast
  have k: "co_conns (pg_console g) 0 = Some (fst connectLive)" by (simp add: c demo_signed_in_def demo_conns_def)
  have "\<not> odd_data (map Did demo_first)" by (auto simp: odd_data_def came_def demo_first_def heard_def)
  from page_told [OF r k this, of "Live_event Monitor e" for e] obtain n1 n2 g' and e :: mirra_event where
    r': "reach page_init (page_step demo_platform Inr)
      (map Did demo_first @ [Got (Status Conn_live)] @ map Did n1 @ [Got (Message (Live_event Monitor e))] @ map Did n2) g'"
      (is "reach _ _ ?os g'") and b: "\<not> pg_blank g'" and
    a: "co_app (pg_console g') = app_message (Live_event Monitor e) ((co_app (pg_console g))\<lparr>ap_connState := Conn_live\<rparr>)" by blast
  have u: "ap_user (co_app (pg_console g')) = demo_who"
    by (simp add: a c app_message_def shouldUpdateSampleVerdict_def Let_def demo_signed_in_def demo_app_defs)
  have t: "monitor_trace ?os = [e]" by (simp add: monitor_trace_def)
  from page_feed_follows [OF r' b u] obtain f where
    f: "P_feed f \<in> set (co_mounted (pg_console g'))" "ef_monitor f = last_n 500 (monitor_trace ?os)" by blast
  have "Got (Message (Live_event Monitor e)) \<in> set ?os" by simp
  moreover have "ef_monitor f = [e]" using f(2) unfolding t by (simp add: last_n_def)
  ultimately show ?thesis using r' f(1) by blast
qed

end
