(* ===== verification/Spec2Isabelle.thy ===== *)
theory Spec2Isabelle
  imports WholeSystem PageFeed
begin

text \<open>
  Mirraura detonates samples in a shadow container, watches an endpoint, and asks people to approve
  what it learned.  This development models its browser dashboard, \<open>src/frontend/src\<close>: the client of
  the REST interface and of the live WebSocket (\<open>api.ts\<close>), the React components, and the application
  that holds them together (\<open>App.tsx\<close>); the backend that the client talks to, \<open>src/backend\<close>, but for its
  Docker and WebSocket libraries; and, of the service behind it that judges the samples,
  \<open>src/verdict-engine\<close>, the part that scores, decides and records.

  How the program is put together.  \<open>App\<close> asks who is signed in, opens one live connection per
  session, and keeps the feeds, the last verdict and the lists that its panels lift up.  The panels
  (\<open>AuditLogTable\<close>, \<open>PendingHashApprovals\<close>, \<open>CorpusReview\<close>, \<open>QuarantineReview\<close>, \<open>UserManagement\<close>,
  \<open>UploadPanel\<close>) send requests through \<open>api.ts\<close> and call back into \<open>App\<close>; a change of \<open>refreshKey\<close> makes
  them load again.  Notifications go through the module-level queue of \<open>Toast.tsx\<close>.  The backend checks the
  session and the role behind each route, keeps the accounts, the sessions, the held files and the
  isolation of the monitored endpoint, and asks the engine to score, to record and to decide on hashes.

  How a component is modelled.  Its \<open>useState\<close> and \<open>useRef\<close> variables are the fields of a record.  An
  \<open>async\<close> handler is cut at its \<open>await\<close>: the part before it returns the new state and the list of
  effects (requests, callbacks, notifications); what comes after is a second function that runs when
  the promise settles, with an answer or an exception (\<open>js_exn + 'a\<close>) chosen by the environment.
  Promises in flight are a list in the state, each with what its continuation captured, and they settle
  in any order.  The rendered tree is a value of \<open>'a node\<close> (theory Vdom) whose handlers carry actions;
  a user can take exactly the actions that the tree \<open>offers\<close>: not those of a disabled control, of a
  form with an empty required field, or of anything behind an open modal dialog.  The \<open>_step\<close> relation of
  a component is the union of these, and \<open>reach\<close> (Prelude) collects the effects of a run.  The backend serves
  many requests at once: its handlers are cut where they wait for the database, the engine, Docker or a
  lock, what is left of each is a \<open>task\<close>, and a step of \<open>backend_step\<close> runs any one of the tasks in flight.

  Theories, in the order of import:
  \<^item> Prelude: strings as lists of 16-bit code units, \<open>slice\<close>, \<open>trim\<close>, \<open>join\<close>, numerals, runs (\<open>reach\<close>), and
    the locales \<open>invariant_system\<close> (an invariant over the run so far and the state), \<open>refinement\<close> (an abstract
    automaton that every run follows), \<open>settling_under\<close> and \<open>settling\<close> (promises that run out, by a weight)
    and \<open>codec\<close> (a decoder that undoes an encoder).
  \<^item> JsonText: JSON texts for any way to write strings and to lay out blocks (\<open>json_print\<close>), a reader proved
    once to invert them (locale \<open>json_writer\<close>), and \<open>JSON.stringify(v, null, 2)\<close> as one of them.
  \<^item> Types: the types of \<open>types.ts\<close> and of the responses in \<open>api.ts\<close>; union strings are datatypes; a row
    of the audit log keeps the object it was read from.
  \<^item> Encoding, Json: \<open>btoa\<close>, hexadecimal, \<open>encodeURIComponent\<close> and \<open>JSON.stringify\<close> of an object of strings,
    each with a reader proved to invert it.
  \<^item> Api: one \<open>api_call\<close> per exported function of \<open>api.ts\<close>, \<open>send_of\<close> (the request it makes or the exception
    it throws before), \<open>request\<close> (what it returns), the SHA-256 helpers, the feed updates.
  \<^item> LiveSocket: \<open>connectLive\<close>; \<open>live_conn\<close> holds every socket it created and the pending timers; the
    automaton \<open>link\<close> is its contract, an interpretation of \<open>refinement\<close>.
  \<^item> Toasts, Vdom, Panels: the notification queue; trees, tabs, dialogs, badges; what the three review
    panels share, with the locales \<open>review_panel\<close> and \<open>analyst_panel\<close> that state their contract.
  \<^item> HashPanel, CorpusPanel, QuarantinePanel: the review panels, each an interpretation of those locales.
  \<^item> JsNum, Platform: \<open>toFixed\<close>, rounding to a double, \<open>Math.round\<close>, property lookup with inherited keys.
  \<^item> RuleScorer: \<open>rule_scorer.py\<close> of the verdict engine, which the tags of the event feed are meant to mirror.
  \<^item> EngineLog: \<open>audit_log.py\<close>; its table is the list of its rows, a record the list of the items of a
    dictionary, and \<open>json.dumps(.., sort_keys=True)\<close> is another interpretation of \<open>json_writer\<close>.
  \<^item> VerdictEngine: \<open>hash_lookup.py\<close> and the routes of \<open>app.py\<close> for scores, actions and known-bad hashes; a
    request is one step over the two tables, at a time and with write failures that the environment chooses.
  \<^item> AuditLog, EventFeed, UploadPanel, Dashboard (\<open>VerdictPanel\<close>, \<open>StatStrip\<close>, \<open>DetectionsOverview\<close>, \<open>CopyHash\<close>,
    the view of \<open>ToastHost\<close>, \<open>Wordmark\<close>), UserAdmin, LoginPage, Shell (\<open>theme.ts\<close>, \<open>Header\<close>, \<open>MonitorBanner\<close>),
    App: the components of the same names.
  \<^item> Console: the dashboard as a whole, \<open>App\<close> with the instances that it mounts, its connections, and the
    unmounted instances whose promises are still in flight.  A step runs one handler, one settlement, one
    interval or one event of a socket, delivers the callbacks to \<open>App\<close>, and ends with \<open>finish\<close>: the instances
    of the new tree are kept with their new properties, refreshed, mounted or unmounted (\<open>reconcile\<close>).
  \<^item> ConsoleRuns: its invariant, by which every instance runs as its component and \<open>App\<close> as its own step
    relation.  ConsoleFacts: what follows from it about requests, properties, sockets and loading.
    ConsoleRest: the weight of a state of the dashboard, which every settlement lowers.  ConsoleDemo: runs
    of the dashboard, a change of users and an approval.  ConsoleViews: what makes rendering throw, and
    the lists that \<open>App\<close> holds beside those on screen.
  \<^item> Page: the page around the dashboard, with the header and the theme in the browser's storage, the
    notification queue fed by the panels and the copy buttons, and the root that React unmounts when
      rendering throws.  Trees: what the rendered trees contain.  PageFacts: the invariant of the page.
    PageFeed: the events of a whole run and the feed on screen.
  \<^item> Routes: from \<open>fetch\<close> to a handler: the path that the browser sends, the table of \<open>newMux\<close> in \<open>main.go\<close> with
    its guards, and what each handler reads (\<open>call_of\<close>); \<open>meant\<close> says what the dashboard wants of each call.
    A path whose escapes are not valid UTF-8 is taken to be refused, and the redirects with which the router
    cleans a path are left out; the dashboard sends neither kind.
  \<^item> Backend: the state (users, sessions, failures, held files, isolation, tasks) and one definition per piece
    of a handler: \<open>auth_handlers.go\<close>, \<open>session.go\<close>, \<open>ratelimit.go\<close>, \<open>users.go\<close>, \<open>user_handlers.go\<close>, \<open>hashes.go\<close>,
    \<open>quarantine.go\<close>, \<open>intercept_handlers.go\<close>, \<open>monitor.go\<close>, \<open>samples.go\<close>.
  \<^item> BackendFacts: who may do what, in all runs.  Accounts: the accounts and the sessions while requests that
    change them do not overlap (\<open>calm_step\<close>), and what two that overlap can do.  LoginLimit, HeldFiles,
    Isolation: the limiter of sign-ins, the files of the interceptor, the flag of the endpoint.
  \<^item> WholeSystem: the dashboard, the backend and the engine together: an engine that is asked only what a run
    of the backend sends (\<open>asked_by_backend\<close>), and a page that gets what such an engine answers.

  What the lemmas show. Safety of decisions: what is sent was listed and asked for, by an admin. The
  dashboard as a whole: its parts behave in it as they do alone, it comes to rest, it shows what
  \<open>App\<close> knows and asks again for what changed. Life cycle: one live connection per session,
  one socket or one retry per connection, exponential delays, silence after \<open>close()\<close>; the page
  goes blank on odd data alone (a verdict without confidence, the name of an inherited property), and the
  engine answers none; the event feed holds what the sockets delivered. The engine: its log always
  verifies and keeps every verdict and decision once, and a changed log is told from the hash it ended in.
  The backend: what is privileged is done for an admin's session, whatever overlaps; held files are decided
  once; the flag of the endpoint says what the network is; and accounts and sign-ins are kept as the code
  means to as long as the requests on them do not overlap.
  Data: feeds, pages, searches, counts, sizes and times say what they stand for, and CSV, JSON, base 64
  and paths read back. Liveness: nothing stays disabled without a promise that will enable it. Some
  properties state what the code does against its intent (a second click on a decision dialog, late
  answers that sign out the next user or replace a list, statistics that wait for a tab, a message that
  blanks the page, notifications that no one sees, a hash without a label that convicts nothing, and in the
  backend requests that cross: admins who remove each other, a demoted admin who signs in, passwords
  tried at once, a reconnection that hides a verdict or is told too early); their texts say so.

  Numbers.  Integers are \<open>nat\<close> or \<open>int\<close>: they stay below 2 to the 53rd in the code.  A double is the
  rational it stands for; the product \<open>confidence * 100\<close> and the sums of the rule scorer are rounded to doubles (\<open>to_double\<close>); the quotients
  of \<open>formatSize\<close> are by powers of two, hence exact; those of \<open>relativeTime\<close> are taken exactly, which the
  rounding of the code agrees with for dates within ten thousand years of each other.

  Parameters, which stand for code outside the repository: the record \<open>platform\<close> (date parsing, local
  time, relative-time texts, lower-casing, the numeral of a fraction, texts of native functions), the
  digest function of \<open>crypto.subtle\<close>, the bytes and failures of a file, and every answer of the server; and
  for the engine the record \<open>engine_platform\<close> (SHA-256 in hexadecimal, the text of a float, \<open>isoformat()\<close>), the
  clock, the fresh identifiers and the failures of the database.  Its tables are lists: PostgreSQL keeps the
  items of a \<open>JSONB\<close> value but not their order, which the log does not depend on.  For the backend they are the
  record \<open>backend_platform\<close> (bcrypt, SHA-256, the interceptor's token), and for each step a \<open>turn\<close>: whether the
  statement or call succeeds, random and computed texts, and what Docker, the triage and the engine give.

  Not modelled. The build configuration and the style sheets have no logic; focus, scroll
  offsets and the pixels of a page are not part of the trees. React's batching is not modelled: a state update takes
  effect at the end of the handler that makes it, and an effect runs with it. The check mark of a \<open>CopyHash\<close>,
  which touches no other state, is modelled for the button alone (Dashboard), not in Page; a promise of an
  instance that a blank page has left behind still settles, but what it would set in \<open>App\<close> is not recorded.
  The double effects of StrictMode, which only development builds run, do not happen. Of the verdict
  engine the triage by YARA rules and similarity, the corpus of samples, the archive of events and the
  training scripts are left out: matches are an input of the score request, and the archive is only written.
  Of the backend the Docker manager, the WebSocket hub, the migrations and the seeding of users are left out
  (an initial state has an admin, no sessions and a flag that agrees with the network), as are restarts, the
  limit of 64 MB on uploads, requests that are abandoned, calls to Docker that fail after they had an effect, and the contents of answers that are only passed
  on (\<open>Relay\<close>: listings, the corpus, bodies that are no object of strings).  The dashboard's own properties
  leave the answers of the server arbitrary and so do not depend on the backend.  The Rust sensor, the
  interceptor and the endpoint agent are other programs around the operating system's interfaces.
\<close>

subsection \<open>The panels together\<close>

text \<open>An analyst's dashboard decides nothing: in every run of the three review panels and of the
  isolation banner rendered for an analyst, whatever the server answers and in whatever order, no
  approval, no rejection and no reconnection is ever requested.\<close>

theorem analyst_sends_no_decision:
  "(\<forall>os s. reach hash_init (hash_step Analyst) os s \<longrightarrow> decisions os = []) \<and>
   (\<forall>os s. reach corpus_init (corpus_step Analyst) os s \<longrightarrow> decisions os = []) \<and>
   (\<forall>os s. reach quarantine_init (quarantine_step Analyst) os s \<longrightarrow> decisions os = []) \<and>
   (\<forall>os s c. reach banner_init (banner_step Analyst) os s \<longrightarrow> Banner_call c \<notin> set os)"
  using hash_analyst.no_decision corpus_analyst.no_decision quarantine_analyst.no_decision
    banner.reach_inv [of Analyst]
  by (fastforce simp: banner_inv_def)

theorem analyst_sends_no_decision_witness:
  "decisions [Entries_change [demo_hash]] = []"
  using conjunct1 [OF analyst_sends_no_decision, rule_format, OF demo_run_listed] .

text \<open>What the hash panel sends reaches the hash it means: in every run in which the server listed
  only well-formed hashes, each decision posts to a path in which a listed pending hash is one whole
  segment, followed by the verb; and each submission carries, as JSON that reads back exactly, a
  well-formed hash and its label.\<close>

theorem hash_panel_requests:
  assumes "reach hash_init (hash_step r) os s" and "\<forall>e \<in> listed os. isValidSha256 (he_hash e)"
  shows "(\<forall>c \<in> set (decisions os). \<exists>rq e verb. send_of c = Inr rq \<and> e \<in> listed os \<and>
      he_status e = Pending \<and> verb \<in> {js ''approve'', js ''reject''} \<and> rq_method rq = POST \<and>
      segments (rq_path rq) = [[], js ''api'', js ''hashes'', he_hash e, verb]) \<and>
    (\<forall>h l. Call (Submit_hash h l) \<in> set os \<longrightarrow> isValidSha256 h \<and>
      (\<exists>rq t. send_of (Submit_hash h l) = Inr rq \<and> rq_body rq = Some (Text_body t) \<and>
         read_object t = Some [(js ''hash'', h), (js ''label'', l)]))"
proof -
  have dec: "\<exists>rq e verb. send_of c = Inr rq \<and> e \<in> listed os \<and> he_status e = Pending \<and>
      verb \<in> {js ''approve'', js ''reject''} \<and> rq_method rq = POST \<and>
      segments (rq_path rq) = [[], js ''api'', js ''hashes'', he_hash e, verb]"
    if "c \<in> set (decisions os)" for c
  proof -
    from hash_panel.provenance [OF assms(1)] that obtain e where e: "e \<in> listed os" "hash_eligible e c" by blast
    with assms(2) have "isValidSha256 (he_hash e)" by blast
    from hash_requests_address_hash [OF this] e show ?thesis
      by (auto simp: hash_eligible_def)
  qed
  have "isValidSha256 h" if "Call (Submit_hash h l) \<in> set os" for h l
    using hash_liveness.reach_inv [OF assms(1)] that by (simp add: hash_live_def)
  with dec show ?thesis by (simp add: request_send_def json_init_def read_json_object)
qed

theorem hash_panel_requests_witness:
  "\<exists>rq. send_of (Approve_hash (he_hash demo_hash)) = Inr rq \<and> rq_method rq = POST"
proof -
  have "\<forall>e \<in> listed [Entries_change [demo_hash], Call (Approve_hash (he_hash demo_hash))].
      isValidSha256 (he_hash e)"
    by (simp add: demo_hash_def isValidSha256_def list_all_iff sha_char_def)
  from conjunct1 [OF hash_panel_requests [OF demo_run_confirmed this], rule_format,
      of "Approve_hash (he_hash demo_hash)"]
  show ?thesis by auto
qed

subsection \<open>The dashboard as a whole\<close>

text \<open>C1: Every decision the page ever sends was asked for by a signed-in admin and names something that
  the server had listed on this page: in every run of the dashboard, with any users one after the
  other, any answers, any messages and any order, before each approve or reject request a panel
  lifted a list with the entry up to \<open>App\<close>, a pending one for hashes, and whoever was signed in when the
  request was sent is an admin.\<close>

theorem console_decisions:
  assumes "reach console_init (console_step pf digest) (ps @ Panel_out who (Request c) # qs) s" and "is_decision c"
  shows "(\<exists>u. who = Signed_in u \<and> su_role u = js ''admin'') \<and>
    ((\<exists>es e. heard ps (Callback (On_hashes_change es)) \<and> e \<in> set es \<and> he_status e = Pending \<and>
        c \<in> {Approve_hash (he_hash e), Reject_hash (he_hash e)}) \<or>
     (\<exists>es e. heard ps (Callback (On_corpus_change es)) \<and> e \<in> set es \<and>
        c \<in> {Approve_corpus_entry (ce_content_hash e), Reject_corpus_entry (ce_content_hash e)}) \<or>
     (\<exists>es e. heard ps (Callback (On_quarantine_change es)) \<and> e \<in> set es \<and>
        c \<in> {Approve_quarantine (qe_id e), Reject_quarantine (qe_id e)}))"
proof -
  have "\<not> harmless (Request c)" using assms(2) by (cases c) auto
  then obtain os k p xs p' where
    inv: "console_inv pf digest os k" and sub: "set os \<subseteq> set ps" and p: "p \<in> set (co_mounted k)"
    and act: "panel_user pf (acting_role (co_app k)) p xs p'" and c: "Request c \<in> set xs"
    and who: "who = ap_user (co_app k)" by (rule asked_for [OF assms(1)])
  have ran: "panel_ran pf digest (acting_role (co_app k)) os p" using inv p by (simp add: console_inv_def)
  have place: "place_of p \<in> set (places (co_app k))" using inv p unfolding console_inv_def by (metis image_eqI list.set_map)
  have heard: "heard os x \<Longrightarrow> heard ps x" for x using sub by (auto simp: heard_def)
  note at = other_decisions [OF act c assms(2)]
  from signed_in_place [OF place] at obtain u where u: "who = Signed_in u" "acting_role (co_app k) = role_of u"
    using who by auto
  from at show ?thesis
  proof (cases p)
    case (P_hashes t)
    note asked = hash_decision_asked [OF act [unfolded P_hashes] ran [unfolded P_hashes] c assms(2)]
    with u(2) have "su_role u = js ''admin''" by (metis role_of_admin)
    with asked u(1) heard show ?thesis unfolding hash_eligible_def insert_iff empty_iff by blast
  next
    case (P_corpus t)
    note asked = corpus_decision_asked [OF act [unfolded P_corpus] ran [unfolded P_corpus] c assms(2)]
    with u(2) have "su_role u = js ''admin''" by (metis role_of_admin)
    with asked u(1) heard show ?thesis unfolding corpus_eligible_def insert_iff empty_iff by blast
  next
    case (P_quarantine t)
    note asked = quarantine_decision_asked [OF act [unfolded P_quarantine] ran [unfolded P_quarantine] c assms(2)]
    with u(2) have "su_role u = js ''admin''" by (metis role_of_admin)
    with asked u(1) heard show ?thesis unfolding quarantine_eligible_def insert_iff empty_iff by blast
  qed auto
qed

theorem console_decisions_witness:
  "\<exists>u. demo_who = Signed_in u \<and> su_role u = js ''admin''"
proof -
  have "reach console_init (console_step demo_platform Inr)
      ((demo_opening @ [demo_listing]) @ Panel_out demo_who (Request (Approve_hash (he_hash demo_hash))) # [])
      (demo_console demo_app_listed demo_confirmed)"
    using demo_run_approved [of demo_platform Inr] by (simp add: demo_approval_def)
  from conjunct1 [OF console_decisions [OF this]] show ?thesis by simp
qed



text \<open>C4: The page has one live socket at most, and only while someone is signed in: in every reachable
  state of the dashboard, whatever users signed in and out and however connections were lost and
  retried, two sockets that are connecting or open are the same, and none is when no one is signed
  in; the connection of the session is the only one not told to close.\<close>

theorem console_one_socket:
  assumes "reach console_init (console_step pf digest) os c"
  shows "(\<forall>x y. x \<in> live_sockets c \<longrightarrow> y \<in> live_sockets c \<longrightarrow> x = y) \<and>
    (live_sockets c \<noteq> {} \<longrightarrow> (\<exists>u. ap_user (co_app c) = Signed_in u)) \<and>
    (\<forall>k l. co_conns c k = Some l \<longrightarrow> (\<not> conn_closed l \<longleftrightarrow> ap_conn (co_app c) = Some k))"
proof -
  note inv = console.reach_inv [OF assms]
  then have conns: "conns_ok (co_app c) (co_conns c)"
    and app: "reach app_init (app_step pf) (app_effects os) (co_app c)" by (simp_all add: console_inv_def)
  have "\<exists>u. ap_user (co_app c) = Signed_in u" if "x \<in> live_sockets c" for x
    using app.reach_inv [OF app] live_sockets_one [OF conns that that] by (auto simp: app_inv_def)
  moreover have "\<forall>k l. co_conns c k = Some l \<longrightarrow> (\<not> conn_closed l \<longleftrightarrow> ap_conn (co_app c) = Some k)"
    using conns by (simp add: conns_ok_def)
  ultimately show ?thesis using live_sockets_one [OF conns] by blast
qed

theorem console_one_socket_witness:
  "\<not> conn_closed (fst connectLive) \<longleftrightarrow> ap_conn (co_app (demo_console demo_app_hashes (fst (hash_refetch hash_start)))) = Some 0"
  using console_one_socket [OF demo_run_tab [of demo_platform Inr]] by (simp add: demo_console_defs)

text \<open>C5: The connection status in the header is true: while someone is signed in, \<open>App\<close> shows "live" when the
  newest socket of the session is open, "connecting" while it is connecting, and "offline" from its
  loss until the next attempt, also right after a change of users.\<close>

theorem console_status_true:
  assumes "reach console_init (console_step pf digest) os c" and "ap_user (co_app c) = Signed_in u"
  shows "\<exists>k l. ap_conn (co_app c) = Some k \<and> co_conns c k = Some l \<and> \<not> conn_closed l \<and>
    (last (socks l) = Open \<longrightarrow> ap_connState (co_app c) = Conn_live) \<and>
    (last (socks l) = Connecting \<longrightarrow> ap_connState (co_app c) = Conn_connecting) \<and>
    (last (socks l) = Closed \<longleftrightarrow> ap_connState (co_app c) = Conn_offline)"
proof -
  note inv = console.reach_inv [OF assms(1)]
  then have conns: "conns_ok (co_app c) (co_conns c)"
    and app: "reach app_init (app_step pf) (app_effects os) (co_app c)" by (simp_all add: console_inv_def)
  from app.reach_inv [OF app] assms(2) obtain k where k: "ap_conn (co_app c) = Some k" by (auto simp: app_inv_def)
  with conns obtain l where l: "co_conns c k = Some l" by (auto simp: conns_ok_def)
  from conns k l obtain xs where xs: "socket_run xs l" "last_status xs = Some (ap_connState (co_app c))"
    and "\<not> conn_closed l" unfolding conns_ok_def by blast
  with k l session_status [OF xs(1)] show ?thesis by (intro exI [of _ k] exI [of _ l]) simp
qed

theorem console_status_true_witness:
  "ap_connState (co_app (demo_console demo_app_hashes (fst (hash_refetch hash_start)))) \<noteq> Conn_offline"
proof -
  let ?c = "demo_console demo_app_hashes (fst (hash_refetch hash_start))"
  have "ap_user (co_app ?c) = demo_who" by (simp add: demo_split)
  from console_status_true [OF demo_run_tab [of demo_platform Inr] this] show ?thesis
    by (auto simp: demo_console_defs connectLive_def connect_def)
qed

text \<open>C3: The whole is made of its parts: in every reachable state of the dashboard, \<open>App\<close> is in a state that
  its own step relation reaches with the effects of the run; the mounted instances are exactly those
  of the rendered tree; each of them, and each one unmounted before, is in a state that a run of its
  component reaches, the mounted ones rendered for the role of the user who is signed in, with all
  that this run handed out in the trace.  So what is proved of a component holds in the dashboard.\<close>

theorem console_refines_parts:
  assumes "reach console_init (console_step pf digest) os c"
  shows "reach app_init (app_step pf) (app_effects os) (co_app c) \<and>
    map place_of (co_mounted c) = places (co_app c) \<and>
    (\<forall>p \<in> set (co_mounted c). panel_ran pf digest (acting_role (co_app c)) os p) \<and>
    (\<forall>p \<in> set (co_gone c). \<exists>r. panel_ran pf digest r os p)"
  using console.reach_inv [OF assms] by (simp add: console_inv_def)

theorem console_refines_parts_witness:
  "\<exists>xs. reach hash_init (hash_step (acting_role demo_app_listed)) xs demo_confirmed"
  using console_refines_parts [OF demo_run_approved [of demo_platform Inr]]
  by (auto simp: demo_console_def demo_mounted_def ran_def)

text \<open>C2: Left alone, the dashboard comes to rest: from every reachable state, if no one acts, no message
  arrives and no timer fires, the promises in flight settle in at most \<open>console_weight\<close> steps,
  whatever the answers and their order and whatever new requests they cause in other panels; they
  can always go on until none is left; and then no control of a mounted instance is disabled, and no
  placeholder shown, because of a promise.\<close>

theorem console_settles:
  assumes "reach console_init (console_step pf digest) os c"
  shows "(\<forall>n c'. ((\<lambda>c c'. \<exists>new. console_settle digest c new c') ^^ n) c c' \<longrightarrow> n \<le> console_weight c) \<and>
    (\<exists>new c'. reach (\<lambda>t. t = c) (console_settle digest) new c' \<and>
      reach console_init (console_step pf digest) (os @ new) c' \<and>
      (\<nexists>more c''. console_settle digest c' more c'') \<and> (\<forall>p \<in> set (co_mounted c'). at_rest p))"
proof -
  note fit = console_fitted [OF console.reach_inv [OF assms]]
  from console_settling.comes_to_rest [OF fit] obtain new c' where
    run: "reach (\<lambda>t. t = c) (console_settle digest) new c'" and ok: "fitted c'" and w: "console_weight c' = 0"
    by blast
  note r = settling_reach [OF run assms]
  from weightless_at_rest [OF console.reach_inv [OF r] w] console_settling.at_rest_iff [OF ok, of digest] w
  have "(\<nexists>more c''. console_settle digest c' more c'') \<and> (\<forall>p \<in> set (co_mounted c'). at_rest p)" by blast
  with run r console_settling.settle_steps [OF _ fit] show ?thesis by fastforce
qed

theorem console_settles_witness:
  "\<exists>new c'. reach console_init (console_step demo_platform Inr)
      ((demo_opening @ [demo_listing, demo_approval]) @ new) c' \<and> (\<forall>p \<in> set (co_mounted c'). at_rest p)"
  using console_settles [OF demo_run_approved [of demo_platform Inr]] by blast

text \<open>C13: The list on screen is asked for again whenever it should be: in every step of the dashboard after
  which someone is signed in, the list that the selected tab shows is requested if the step signed the
  user in or selected another tab, and, when the selected tab is not the one of the users, also if the
  step counted up the refresh key (as a verdict and every decision in a panel do).  The list of users
  does not depend on the refresh key, and of it this is not claimed.\<close>

theorem console_reloads:
  assumes "reach console_init (console_step pf digest) os c" and "console_step pf digest c new c'"
    and "ap_user (co_app c') = Signed_in u"
    and "(\<nexists>v. ap_user (co_app c) = Signed_in v) \<or> ap_bottomTab (co_app c') \<noteq> ap_bottomTab (co_app c) \<or>
      ap_refreshKey (co_app c') \<noteq> ap_refreshKey (co_app c) \<and> ap_bottomTab (co_app c') \<noteq> Tab_users"
  shows "Panel_out (Signed_in u) (Request (listing (ap_bottomTab (co_app c')))) \<in> set new"
proof -
  from console_step_finish [OF console_fitted [OF console.reach_inv [OF assms(1)]] assms(2)]
  obtain effs ms gs cs ps where fin: "finish c (co_app c') effs ms gs cs ps = (c', new)"
    and ms: "map place_of ms = places (co_app c)" by blast
  have "At_log (ap_bottomTab (co_app c')) \<notin> set (places (co_app c)) \<or>
      ap_refreshKey (co_app c') \<noteq> ap_refreshKey (co_app c) \<and> ap_bottomTab (co_app c') \<noteq> Tab_users"
    using assms(4) by (auto simp: places_def split: session.splits)
  from finish_loads [OF fin ms assms(3) this] show ?thesis .
qed

theorem console_reloads_witness:
  "\<exists>new c'. console_step demo_platform Inr demo_signed_in new c' \<and>
     Panel_out demo_who (Request Fetch_hashes) \<in> set new"
proof -
  let ?c = "demo_console demo_app_hashes (fst (hash_refetch hash_start))"
  note st = demo_tab_step [of demo_platform Inr]
  have u: "ap_user (co_app ?c) = demo_who" by (simp add: demo_split)
  have "ap_bottomTab (co_app ?c) \<noteq> ap_bottomTab (co_app demo_signed_in)"
    by (simp add: demo_split demo_signed_in_def)
  with console_reloads [OF demo_run_signed_in st u] have
    "Panel_out demo_who (Request (listing (ap_bottomTab (co_app ?c)))) \<in> set [Panel_out demo_who (Request Fetch_hashes)]"
    by blast
  with st show ?thesis by (auto simp: demo_split)
qed

text \<open>C30: A late answer signs out the wrong user: if the hash approvals panel that \<open>u\<close> has on screen has a
  listing request in flight, then \<open>u\<close> can sign out, which leaves the unmounted panel with that request still
  in flight, and any user \<open>v\<close> can sign in after that; when this very request, the one \<open>u\<close>'s panel sent, is
  then answered with 401, \<open>App\<close> hears that the session has expired, signs \<open>v\<close> out, who never sent it, and
  shows the notice that the session has expired.  Nothing else is answered in that step.\<close>

theorem console_late_expiry:
  assumes "reach console_init (console_step pf digest) os c" and "ap_user (co_app c) = Signed_in u"
    and "P_hashes s \<in> set (co_mounted c)" and "hs_inflight s = ks @ HC_refetch # ls"
  shows "\<exists>new1 k new2 c1 new3 c2 xs ys vs zs.
    reach (\<lambda>x. x = c) (console_step pf digest) new1 k \<and> ap_user (co_app k) = Signed_out \<and>
    co_gone k = xs @ P_hashes s # ys \<and>
    reach (\<lambda>x. x = k) (console_step pf digest) new2 c1 \<and> ap_user (co_app c1) = Signed_in v \<and>
    co_gone c1 = xs @ P_hashes s # ys @ vs \<and>
    console_settle digest c1 (Panel_out (Signed_in v) (Callback On_session_expired) # new3) c2 \<and>
    co_gone c2 = xs @ P_hashes (expired_hashes m (ks @ ls) s) # ys @ vs @ zs \<and>
    ap_user (co_app c2) = Signed_out \<and> ap_sessionExpired (co_app c2)"
proof -
  from run_signs_out [OF assms(1-3)] obtain n1 k where
    r1: "reach (\<lambda>x. x = c) (console_step pf digest) n1 k" and out: "ap_user (co_app k) = Signed_out"
    and m: "co_mounted k = [P_login login_start]" and "P_hashes s \<in> set (co_gone k)" by blast
  then obtain xs ys where g: "co_gone k = xs @ P_hashes s # ys" using split_list by metis
  have "reach (\<lambda>x. x = k) (console_step pf digest) [] k" by (rule reach_init) simp
  from run_signs_in [OF this out m, of v] obtain n2 c1 vs where
    r2: "reach (\<lambda>x. x = k) (console_step pf digest) n2 c1" "ap_user (co_app c1) = Signed_in v"
    and g1: "co_gone c1 = xs @ P_hashes s # ys @ vs" using g by auto
  from late_answer [OF g1 assms(4), of digest m] r2(2) obtain n3 c2 zs where
    "console_settle digest c1 (Panel_out (Signed_in v) (Callback On_session_expired) # n3) c2"
    "co_gone c2 = xs @ P_hashes (expired_hashes m (ks @ ls) s) # ys @ vs @ zs"
    "ap_user (co_app c2) = Signed_out" "ap_sessionExpired (co_app c2)" by auto
  with r1 out g r2 g1 show ?thesis by metis
qed

text \<open>The panel of the admin was waiting for the list of the hashes when the admin signed out and an analyst signed in.\<close>

theorem console_late_expiry_witness:
  "\<exists>k new2 c1 new3 c2. ap_user (co_app k) = Signed_out \<and>
     P_hashes (fst (hash_refetch hash_start)) \<in> set (co_gone k) \<and>
     reach (\<lambda>x. x = k) (console_step demo_platform Inr) new2 c1 \<and> ap_user (co_app c1) = Signed_in demo_analyst \<and>
     console_settle Inr c1 (Panel_out (Signed_in demo_analyst) (Callback On_session_expired) # new3) c2 \<and>
     P_hashes (expired_hashes [] [] (fst (hash_refetch hash_start))) \<in> set (co_gone c2) \<and> ap_user (co_app c2) = Signed_out"
proof -
  let ?s = "fst (hash_refetch hash_start)"
  have "ap_user (co_app (demo_console demo_app_hashes ?s)) = demo_who"
    and "P_hashes ?s \<in> set (co_mounted (demo_console demo_app_hashes ?s))"
    and "hs_inflight ?s = [] @ HC_refetch # []"
    by (simp_all add: demo_split demo_console_def demo_mounted_def hash_refetch_def hash_start_def)
  from console_late_expiry [OF demo_run_tab [of demo_platform Inr] this, of demo_analyst "[]"]
  obtain new1 k new2 c1 new3 c2 xs ys vs zs where w: "ap_user (co_app k) = Signed_out" "co_gone k = xs @ P_hashes ?s # ys"
    "reach (\<lambda>x. x = k) (console_step demo_platform Inr) new2 c1" "ap_user (co_app c1) = Signed_in demo_analyst"
    "console_settle Inr c1 (Panel_out (Signed_in demo_analyst) (Callback On_session_expired) # new3) c2"
    "co_gone c2 = xs @ P_hashes (expired_hashes [] ([] @ []) ?s) # ys @ vs @ zs" "ap_user (co_app c2) = Signed_out" by blast
  then have "P_hashes ?s \<in> set (co_gone k)" "P_hashes (expired_hashes [] [] ?s) \<in> set (co_gone c2)" by simp_all
  with w(1,3,4,5,7) show ?thesis by blast
qed

text \<open>C7: The page goes blank on odd data alone: in every run of the page with any storage, users, answers,
  messages and order, if each row the server ever listed that records no human action has a confidence
  and a source other than \<open>__proto__\<close>, and no verdict that came in names an inherited property of
  JavaScript's objects as its detection method, then the page is not blank, nothing on it throws while
  rendering, and the dashboard in it has run exactly as it does on its own.  The types alone do not
  ensure this: a detection method and a source are any strings there.\<close>

theorem page_never_blank:
  assumes "reach page_init (page_step pf digest) os g"
    and "\<forall>rows. heard (dids os) (Callback (On_verdicts_change rows)) \<longrightarrow> (\<forall>r \<in> set rows. good_row r)"
    and "\<forall>v. came os v \<longrightarrow> \<not> inherited_key (detection_method v)"
  shows "\<not> pg_blank g \<and> \<not> throws pf now (pg_console g) \<and>
    reach console_init (console_step pf digest) (dids os) (pg_console g)"
proof -
  have inv: "page_inv pf digest os g" using pages.reach_inv [OF assms(1)] .
  have "\<not> odd_data os" using assms(2,3) by (auto simp: odd_data_def)
  with inv have live: "\<not> pg_blank g" and run: "reach console_init (console_step pf digest) (dids os) (pg_console g)"
    and came: "\<forall>v. ap_verdict (co_app (pg_console g)) = Some v \<longrightarrow> came os v" by (auto simp: page_inv_def split: if_splits)
  from throws_odd [OF run] assms(2,3) came have "\<not> throws pf now (pg_console g)" by blast
  with live run show ?thesis by blast
qed

text \<open>A page that lists a verdict and is then told a new one.\<close>

theorem page_never_blank_witness:
  "\<exists>os g. reach page_init (page_step demo_platform Inr) os g \<and>
     heard (dids os) (Callback (On_verdicts_change [demo_row])) \<and> came os (tn_verdict (fine_turn [])) \<and>
     ap_verdict (co_app (pg_console g)) = Some (tn_verdict (fine_turn [])) \<and>
     \<not> pg_blank g \<and> \<not> throws demo_platform 0 (pg_console g)"
proof -
  let ?v = "tn_verdict (fine_turn [])"
  have row: "\<forall>r \<in> set [demo_row]. good_row r" by (simp add: good_row_def demo_row_def proto_key_def js_def)
  have plain: "\<not> inherited_key (detection_method ?v)"
    by (auto simp: fine_turn_def inherited_key_def proto_methods_def proto_key_def js_def)
  from demo_page_listed [OF row, of demo_platform Inr] obtain os g where
    r: "reach page_init (page_step demo_platform Inr) os g" "\<not> pg_blank g" "co_conns (pg_console g) 0 = Some (fst connectLive)" and
    only: "\<forall>f. heard (dids os) (Callback f) \<longrightarrow> f = On_verdicts_change [demo_row]" "\<forall>v. \<not> came os v" and
    h: "heard (dids os) (Callback (On_verdicts_change [demo_row]))" by blast
  have "\<not> odd_data os" using only row by (auto simp: odd_data_def)
  from page_told [OF r this, of "Live_verdict Sample ?v"] plain obtain n1 n2 g' where
    run: "reach page_init (page_step demo_platform Inr)
      (os @ [Got (Status Conn_live)] @ map Did n1 @ [Got (Message (Live_verdict Sample ?v))] @ map Did n2) g'"
      (is "reach _ _ ?os g'") and
    app: "co_app (pg_console g') = app_message (Live_verdict Sample ?v) ((co_app (pg_console g))\<lparr>ap_connState := Conn_live\<rparr>)" and
    new: "\<forall>f. \<not> heard (n1 @ n2) (Callback f)" by auto
  have rows: "\<forall>rows. heard (dids ?os) (Callback (On_verdicts_change rows)) \<longrightarrow> (\<forall>r \<in> set rows. good_row r)"
    using only(1) new row by auto
  have "\<forall>v. came ?os v \<longrightarrow> \<not> inherited_key (detection_method v)" using only new plain by (auto simp: came_def)
  from page_never_blank [OF run rows this, of 0] have "\<not> pg_blank g'" "\<not> throws demo_platform 0 (pg_console g')" by auto
  moreover have "ap_verdict (co_app (pg_console g')) = Some ?v"
    by (simp add: app app_message_def shouldUpdateSampleVerdict_def Let_def)
  moreover have "heard (dids ?os) (Callback (On_verdicts_change [demo_row]))" "came ?os ?v" using h by (simp_all add: came_def)
  ultimately show ?thesis using run by blast
qed

text \<open>C8: A page fed by the verdict engine never goes blank: if each list of the audit log that reached the
  page is what the engine's log held in some run of the engine in which it was asked only what the
  backend sends in one of its runs, and each verdict that came in is one the engine answered, then the
  page is not blank and nothing on it throws, whatever users, storage, answers to the other requests
  and orders of events.\<close>

theorem page_fed_by_engine:
  assumes "reach page_init (page_step pf digest) os g"
    and "\<forall>rows. heard (dids os) (Callback (On_verdicts_change rows)) \<longrightarrow>
      (\<exists>xs e. reach engine_init (engine_step ef) xs e \<and> asked_by_backend bp xs \<and> rows = engine_rows e)"
    and "\<forall>v. came os v \<longrightarrow> (\<exists>xs e. reach engine_init (engine_step ef) xs e \<and> Scored v \<in> set xs)"
  shows "\<not> pg_blank g \<and> \<not> throws pf now (pg_console g)"
proof -
  have inv: "page_inv pf digest os g" using pages.reach_inv [OF assms(1)] .
  have good: "\<forall>rows. heard (dids os) (Callback (On_verdicts_change rows)) \<longrightarrow> (\<forall>r \<in> set rows. good_row r)"
    using assms(2) engine_rows_good by metis
  have plain: "\<forall>v. came os v \<longrightarrow> \<not> inherited_key (detection_method v)" using assms(3) engine_methods by metis
  have "\<not> odd_data os" using good plain by (auto simp: odd_data_def)
  with inv have live: "\<not> pg_blank g" and run: "reach console_init (console_step pf digest) (dids os) (pg_console g)"
    and came: "\<forall>v. ap_verdict (co_app (pg_console g)) = Some v \<longrightarrow> came os v"
    by (auto simp: page_inv_def split: if_splits)
  from throws_odd [OF run] good plain came live show ?thesis by blast
qed

theorem page_fed_by_engine_witness:
  "\<exists>(g :: page) s. P_audit s \<in> set (co_mounted (pg_console g)) \<and> as_rows s = engine_rows demo_isolated \<and>
     \<not> throws demo_platform 0 (pg_console g)"
proof -
  from demo_run_isolated obtain xs where xs: "reach engine_init (engine_step demo_engine) xs demo_isolated"
    "asked_by_backend demo_bp xs" using demo_isolation_asked by blast
  from demo_page_listed [of "engine_rows demo_isolated" demo_platform Inr] engine_rows_good [OF xs] obtain os g s where
    g: "reach page_init (page_step demo_platform Inr) os g" and
    h: "\<forall>f. heard (dids os) (Callback f) \<longrightarrow> f = On_verdicts_change (engine_rows demo_isolated)" "\<forall>v. \<not> came os v" and
    s: "P_audit s \<in> set (co_mounted (pg_console g))" "as_rows s = engine_rows demo_isolated" by blast
  have rows: "\<forall>rows. heard (dids os) (Callback (On_verdicts_change rows)) \<longrightarrow>
      (\<exists>xs e. reach engine_init (engine_step demo_engine) xs e \<and> asked_by_backend demo_bp xs \<and> rows = engine_rows e)"
    using h(1) xs by blast
  have "\<forall>v. came os v \<longrightarrow> (\<exists>xs e. reach engine_init (engine_step demo_engine) xs e \<and> Scored v \<in> set xs)"
    using h(2) by blast
  from page_fed_by_engine [OF g rows this, of 0] s show ?thesis by blast
qed

text \<open>C9: Who convicts: if the engine, asked only what a run of the backend sends, finds the hash of a sample among
  the known-bad ones, and it is none of those it was installed with, then in that run an admin signed
  in and the backend passed that admin's approval of exactly this hash to the engine.\<close>

theorem convicted_by_admin:
  assumes "reach (\<lambda>e. engine_init e \<and> en_hashes e = seeds) (engine_step ef) xs e"
    and "reach backend_init (backend_step bp) bs b" and "\<forall>req. Asked req \<in> set xs \<longrightarrow> To_engine req \<in> set bs"
    and "check_hash h (en_hashes e) = Some l" and "h \<notin> kb_hash ` set seeds"
  shows "\<exists>(s :: bk_session) tok. To_engine (Decide_hash Approved h (bs_username s)) \<in> set bs \<and> bs_role s = Admin \<and>
    Session_made tok (bs_username s) Admin \<in> set bs"
proof -
  from checked_approved [OF assms(4)] approvals.reach_inv [OF assms(1)] assms(3,5) obtain who where
    w: "To_engine (Decide_hash Approved h who) \<in> set bs" by (fastforce simp: approvals_known_def)
  from backend_request_ok [OF assms(2) w] obtain s where "admin_of bs s" "bs_username s = who"
    by (auto simp: request_ok_def)
  with w show ?thesis unfolding admin_of_def by metis
qed

theorem convicted_by_admin_witness:
  "\<exists>bs b (s :: bk_session). reach backend_init (backend_step demo_bp) bs b \<and>
     To_engine (Decide_hash Approved (replicate 64 98) (bs_username s)) \<in> set bs \<and> bs_role s = Admin"
proof -
  let ?h = "replicate 64 98"
  have h: "isValidSha256 ?h" by (simp add: isValidSha256_def list_all_iff sha_char_def)
  have "reach (\<lambda>e. engine_init e \<and> en_hashes e = en_hashes demo_seeded) (engine_step demo_engine) [] demo_seeded"
    by (rule reach_init) (simp add: engine_init_def demo_seeded_def)
  from approved_run [OF valid_hashes_agree [THEN iffD2, OF h] this, of "[98]" "js ''bob''"] obtain xs e k where
    r: "reach (\<lambda>e. engine_init e \<and> en_hashes e = en_hashes demo_seeded) (engine_step demo_engine) xs e" and
    xs: "\<forall>req. Asked req \<in> set xs \<longrightarrow> req = Propose_hash ?h [98] \<or> req = Decide_hash Approved ?h (js ''bob'')" and
    k: "k \<in> set (en_hashes e)" "kb_hash k = ?h" "kb_status k = Approved"
    by (force simp: demo_seeded_def)
  from bob_asked [OF h, of "[98]"] obtain bs b where b: "reach backend_init (backend_step demo_bp) bs b"
    "To_engine (Propose_hash ?h [98]) \<in> set bs" "To_engine (Decide_hash Approved ?h (js ''bob'')) \<in> set bs" by blast
  have asked: "\<forall>req. Asked req \<in> set xs \<longrightarrow> To_engine req \<in> set bs" using xs b(2,3) by blast
  have "find (\<lambda>r. kb_hash r = ?h \<and> kb_status r = Approved) (en_hashes e) \<noteq> None" using k by (auto simp: find_None_iff)
  then obtain l where c: "check_hash ?h (en_hashes e) = Some l" by (auto simp: check_hash_def)
  have "?h \<notin> kb_hash ` set (en_hashes demo_seeded)" by (simp add: demo_seeded_def)
  from convicted_by_admin [OF r b(1) asked c this] b(1) show ?thesis by blast
qed

text \<open>C37: A hash approved without a label convicts nothing: the hash approvals panel sends a well-formed hash
  with the empty label, for a user of any role; the engine takes it, and an admin can approve it; but
  then a sample of that hash whose events give no reason is still normal, as if it were not listed.\<close>

theorem unlabelled_hash_lost:
  assumes "isValidSha256 h" and "reach engine_init (engine_step ef) os e" and "h \<notin> kb_hash ` set (en_hashes e)"
    and "sr_sample_hash req = h" and "sr_static_matches req = []" and "\<not> sr_timed_out req" and "sr_events req \<noteq> []"
    and "snd (score_events (sr_events req)) = []"
  shows "(\<exists>xs s. reach hash_init (hash_step r) xs s \<and> Call (Submit_hash h []) \<in> set xs) \<and>
    (\<exists>new e'. reach engine_init (engine_step ef) (os @ new) e' \<and> Asked (Propose_hash h []) \<in> set new \<and>
       Hash_decided Approved h \<in> set new \<and> score_verdict e' req = (js ''dynamic'', Normal, 0, []))"
proof -
  let ?new = "[Asked (Propose_hash h []), Hash_proposed h, Asked (Decide_hash Approved h []), Hash_decided Approved h]"
  from approved_run [OF valid_hashes_agree [THEN iffD2, OF assms(1)] assms(2,3)] obtain e' k where
    run: "reach engine_init (engine_step ef) (os @ ?new) e'" and
    k: "k \<in> set (en_hashes e')" "kb_hash k = h" "kb_status k = Approved" "kb_label k = []" by blast
  have "decisions_ok e'" using engines.reach_inv [OF run] by (simp add: engine_inv_def)
  from check_approved [OF this k(1,3)] k(2,4) no_reason_no_score [OF assms(8)] assms(4-8)
  have "score_verdict e' req = (js ''dynamic'', Normal, 0, [])"
    by (cases "score_events (sr_events req)") (simp add: score_verdict_def truthy_def verdict_from_score_def)
  moreover have "Asked (Propose_hash h []) \<in> set ?new" "Hash_decided Approved h \<in> set ?new" by simp_all
  ultimately show ?thesis using run unlabelled_submission [OF assms(1)] by blast
qed

theorem unlabelled_hash_lost_witness:
  "\<exists>os e. reach engine_init (engine_step demo_engine) os e \<and> Hash_decided Approved (replicate 64 98) \<in> set os \<and>
     fst (snd (score_verdict e (demo_request\<lparr>sr_sample_hash := replicate 64 98,
       sr_events := [demo_event\<lparr>event_type := Process_spawn, file_ref := None\<rparr>]\<rparr>))) = Normal"
proof -
  let ?req = "demo_request\<lparr>sr_sample_hash := replicate 64 98,
       sr_events := [demo_event\<lparr>event_type := Process_spawn, file_ref := None\<rparr>]\<rparr>"
  have h: "isValidSha256 (replicate 64 98)" by (simp add: isValidSha256_def list_all_iff sha_char_def)
  have e: "replicate 64 98 \<notin> kb_hash ` set (en_hashes demo_seeded)" by (simp add: demo_seeded_def)
  have r: "sr_sample_hash ?req = replicate 64 98" "sr_static_matches ?req = []" "\<not> sr_timed_out ?req" "sr_events ?req \<noteq> []"
    by (simp_all add: demo_request_def)
  have "snd (score_events (sr_events ?req)) = []"
    by (simp add: score_chain_Nil demo_event_def spawned_child_def sensitive_write_def odd_connection_def file_change_def)
  from unlabelled_hash_lost [OF h demo_run_seeded [of demo_engine] e r this] obtain new e' where
    "reach engine_init (engine_step demo_engine) ([] @ new) e'"
    "Hash_decided Approved (replicate 64 98) \<in> set new" "score_verdict e' ?req = (js ''dynamic'', Normal, 0, [])" by blast
  then show ?thesis by (intro exI [of _ "[] @ new"] exI [of _ e']) simp
qed

text \<open>C36: One message can blank the page for good: on a page that is not blank, with a user signed in and
  the socket open, a live verdict of a sample whose detection method is the name of a property that
  every object inherits (\<open>constructor\<close>, \<open>toString\<close>, ...) makes the root unmount; whatever happens then,
  until the page is loaded again it stays blank, with no panel, no header and no connection.\<close>

theorem page_blank_by_message:
  assumes "reach page_init (page_step pf digest) os g" and "\<not> pg_blank g"
    and "ap_user (co_app (pg_console g)) = Signed_in u" and "ap_conn (co_app (pg_console g)) = Some k"
    and "co_conns (pg_console g) k = Some l" and "last (socks l) = Open"
    and "inherited_key (detection_method v)"
  shows "\<exists>g'. page_step pf digest g [Got (Message (Live_verdict Sample v))] g' \<and>
    (\<forall>after h. reach (\<lambda>x. x = g') (page_step pf digest) after h \<longrightarrow>
       pg_blank h \<and> co_mounted (pg_console h) = [] \<and> pg_header h = None \<and>
       (\<forall>j m. co_conns (pg_console h) j = Some m \<longrightarrow> conn_closed m) \<and>
       (\<forall>now unit. \<not> on_screen pf now unit h))"
proof -
  from odd_message [OF assms] obtain g' where
    st: "page_step pf digest g [Got (Message (Live_verdict Sample v))] g'" and b: "pg_blank g'" by blast
  note r = reach_step [OF assms(1), OF st]
  from blank_run [OF _ r b] blank_empty st show ?thesis
    by (intro exI [of _ g'] conjI allI impI st) (blast | simp add: on_screen_def)+
qed

theorem page_blank_by_message_witness:
  "\<exists>g g'. page_step demo_platform Inr g
     [Got (Message (Live_verdict Sample (demo_verdict\<lparr>detection_method := js ''constructor''\<rparr>)))] g' \<and>
     \<not> pg_blank g \<and> pg_blank g'"
proof -
  let ?v = "demo_verdict\<lparr>detection_method := js ''constructor''\<rparr>"
  from demo_page_live [of demo_platform Inr] obtain os g u k l where
    g: "reach page_init (page_step demo_platform Inr) os g" "\<not> pg_blank g"
      "ap_user (co_app (pg_console g)) = Signed_in u" "ap_conn (co_app (pg_console g)) = Some k"
      "co_conns (pg_console g) k = Some l" "last (socks l) = Open" by blast
  have "inherited_key (detection_method ?v)" by (simp add: inherited_key_def proto_methods_def)
  from page_blank_by_message [OF g this] obtain g' where
    "page_step demo_platform Inr g [Got (Message (Live_verdict Sample ?v))] g'"
    and "\<forall>after h. reach (\<lambda>x. x = g') (page_step demo_platform Inr) after h \<longrightarrow> pg_blank h" by blast
  with reach_init [of "\<lambda>x. x = g'" g' "page_step demo_platform Inr"] g(2) show ?thesis by blast
qed

text \<open>C38: No notification is ever seen: in every reachable state of the page no \<open>ToastHost\<close> is on screen or
  subscribed and no notification has come up, although the panels and the copy buttons queue them, in
  order of age, with distinct identifiers, each with the timer that takes it away again.\<close>

theorem page_toasts_unseen:
  assumes "reach page_init (page_step pf digest) os g"
  shows "(\<forall>now. \<not> on_screen pf now ''ToastHost'' g) \<and> (\<forall>h. host_items (pg_bus g) h = None) \<and>
    (\<forall>t. Popped t \<notin> set os) \<and> sorted_wrt (<) (map ti_id (toasts (pg_bus g))) \<and>
    (\<forall>t \<in> set (toasts (pg_bus g)). ti_id t \<in> set (toast_timers (pg_bus g)))"
  using pages.reach_inv [OF assms] no_host by (auto simp: page_inv_def unheard_def toast_inv_def)

theorem page_toasts_unseen_witness:
  "\<exists>os g t. reach page_init (page_step demo_platform Inr) os g \<and> t \<in> set (toasts (pg_bus g)) \<and>
     ti_message t = js ''Admins only'' \<and> Popped t \<notin> set os \<and> (\<forall>h. host_items (pg_bus g) h = None)"
proof -
  from demo_page_toast [of demo_platform Inr] obtain os g t where
    r: "reach page_init (page_step demo_platform Inr) os g" and t: "t \<in> set (toasts (pg_bus g))"
      "ti_message t = js ''Admins only''" by blast
  from page_toasts_unseen [OF r] r t show ?thesis by blast
qed

text \<open>C15: The statistics count the rows on screen: whenever the audit log on screen holds rows, they are
  the rows that \<open>App\<close> holds, whatever requests of audit logs unmounted before are still in flight; so
  the strip and the overview, once the hashes are known too, are computed from exactly these rows.\<close>

theorem console_stats_agree:
  assumes "reach console_init (console_step pf digest) os c" and "P_audit s \<in> set (co_mounted c)"
    and "as_rows s \<noteq> []" and "ap_hashes (co_app c) = Some hs"
  shows "\<exists>overview. detections_overview pf (as_rows s) = Some overview \<and>
    stats_zone pf (co_app c) = Some
      [El ''StatStrip'' [] [stat_strip (as_rows s) hs (map_option intact (ap_chainStatus (co_app c)))],
       El ''DetectionsOverview'' [] [overview]]"
proof -
  from console_rows.reach_inv [OF assms(1)] assms(2,3) have "ap_verdicts (co_app c) = Some (as_rows s)"
    by (auto simp: rows_agree_def rows_lifted_def)
  moreover obtain overview where "detections_overview pf (as_rows s) = Some (overview :: string node)"
    using overview_total by blast
  ultimately show ?thesis using assms(4) by (simp add: stats_zone_def)
qed

theorem console_stats_agree_witness:
  "\<exists>os c overview. reach console_init (console_step demo_platform Inr) os c \<and>
     detections_overview demo_platform [demo_row] = Some (overview :: string node) \<and>
     stats_zone demo_platform (co_app c) = Some
       [El ''StatStrip'' [] [stat_strip [demo_row] [demo_hash] (map_option intact (ap_chainStatus (co_app c)))],
        El ''DetectionsOverview'' [] [overview]]"
proof -
  from demo_run_both [of demo_platform Inr] obtain os c s where
    r: "reach console_init (console_step demo_platform Inr) os c" and
    s: "P_audit s \<in> set (co_mounted c)" "as_rows s = [demo_row]" and h: "ap_hashes (co_app c) = Some [demo_hash]"
    by blast
  from console_stats_agree [OF r s(1) _ h] s(2) r show ?thesis by fastforce
qed

text \<open>The badge need not count the list on screen: while a listing request of an unmounted hash
  approvals panel is in flight, its answer becomes the list that \<open>App\<close> holds, whatever it says, and
  the panel on screen keeps its own; the badge of the tab, the statistics and the list then differ
  until the next answer.\<close>

theorem console_late_list:
  assumes "reach console_init (console_step pf digest) os c"
    and "P_hashes s \<in> set (co_gone c)" and "HC_refetch \<in> set (hs_inflight s)"
    and "P_hashes t \<in> set (co_mounted c)" and "es \<noteq> hs_entries t"
  shows "\<exists>new c'. reach console_init (console_step pf digest) (os @ new) c' \<and>
    P_hashes t \<in> set (co_mounted c') \<and> ap_hashes (co_app c') \<noteq> Some (hs_entries t) \<and>
    pendingCount (co_app c') = length (filter (\<lambda>h. he_status h = Pending) es)"
proof -
  note fit = console_fitted [OF console.reach_inv [OF assms(1)]]
  from late_list [OF assms(2,3) fit assms(4), of digest es] obtain new c' where
    st: "console_settle digest c new c'" and "ap_hashes (co_app c') = Some es" "P_hashes t \<in> set (co_mounted c')" by blast
  with reach_step [OF assms(1), OF console_settle_step [OF st]] assms(5) show ?thesis
    by (intro exI [of _ new] exI [of _ c']) (simp add: pendingCount_def)
qed

theorem console_late_list_witness:
  "\<exists>os c t. reach console_init (console_step demo_platform Inr) os c \<and> P_hashes t \<in> set (co_mounted c) \<and>
     hs_entries t = [] \<and> pendingCount (co_app c) = 1"
proof -
  from demo_run_back [of demo_platform Inr] obtain os c s t where
    r: "reach console_init (console_step demo_platform Inr) os c" and s: "P_hashes s \<in> set (co_gone c)"
      "HC_refetch \<in> set (hs_inflight s)" and t: "P_hashes t \<in> set (co_mounted c)" "hs_entries t = []" by blast
  have "[demo_hash] \<noteq> hs_entries t" by (simp add: t(2))
  from console_late_list [OF r s t(1) this] t(2) show ?thesis by (fastforce simp: demo_hash_def)
qed

end
